(* ===== verification/Prelude.thy ===== *)
theory Prelude
  imports Main "HOL-Library.Word"
begin

unbundle bit_operations_syntax

section \<open>Shared types, results and word lemmas\<close>

text \<open>
  Vocabulary of the whole development. The C integer types are machine words of the same
  width, so that every addition wraps as it does in the kernel. A call that may end in
  \<open>panic()\<close>, in undefined behaviour of C or in a loop that never ends returns a value of
  \<open>'a res\<close>; \<open>rbind\<close> sequences such calls. The collections \<open>res_simps\<close>,
  \<open>mem_simps\<close> and \<open>page_simps\<close> carry the automation of the component theories.
\<close>

type_synonym u8 = "8 word"
type_synonym u16 = "16 word"
type_synonym u32 = "32 word"
type_synonym u64 = "64 word"
type_synonym i32 = "32 word"
type_synonym i64 = "64 word"

named_theorems res_simps \<open>elimination and unfolding of results\<close>
named_theorems mem_simps \<open>reads of updated memory\<close>
named_theorems page_simps \<open>page numbers, page offsets and alignment\<close>

subsection \<open>Results\<close>

text \<open>
  \<open>Panic\<close> carries the message of the \<open>panic()\<close> call that ended the run (the format
  string up to its first argument), \<open>Undefined\<close> names an access that C leaves undefined,
  \<open>Hang\<close> is a loop that never leaves.
\<close>

datatype fault = Panic string | Undefined string | Hang

type_synonym 'a res = "fault + 'a"

definition rbind :: "'a res \<Rightarrow> ('a \<Rightarrow> 'b res) \<Rightarrow> 'b res" where
  "rbind r f = (case r of Inl e \<Rightarrow> Inl e | Inr x \<Rightarrow> f x)"

lemma rbind_simps [simp]:
  "rbind (Inl e) f = Inl e"
  "rbind (Inr x) f = f x"
  by (simp_all add: rbind_def)

lemma rbind_cong [fundef_cong]:
  "r = r' \<Longrightarrow> (\<And>x. r' = Inr x \<Longrightarrow> f x = f' x) \<Longrightarrow> rbind r f = rbind r' f'"
  by (cases r') (auto simp: rbind_def)

lemma rbind_eq_Inr [res_simps]: "rbind r f = Inr y \<longleftrightarrow> (\<exists>x. r = Inr x \<and> f x = Inr y)"
  by (cases r) auto

lemma rbind_eq_Inl: "rbind r f = Inl e \<longleftrightarrow> r = Inl e \<or> (\<exists>x. r = Inr x \<and> f x = Inl e)"
  by (cases r) auto

lemma rbind_assoc: "rbind (rbind r f) g = rbind r (\<lambda>x. rbind (f x) g)"
  by (cases r) auto

text \<open>A loop over a list of indices whose body may fail: it stops at the first fault.\<close>

primrec rfold :: "('i \<Rightarrow> 's \<Rightarrow> 's res) \<Rightarrow> 'i list \<Rightarrow> 's \<Rightarrow> 's res" where
  "rfold f [] s = Inr s"
| "rfold f (i # is) s = rbind (f i s) (rfold f is)"

lemma rfold_append: "rfold f (xs @ ys) s = rbind (rfold f xs s) (rfold f ys)"
  by (induction xs arbitrary: s) (auto simp: rbind_assoc intro: rbind_cong)

lemma rfold_inv:
  assumes "rfold f xs s = Inr s'"
    and "I 0 s"
    and "\<And>i s s'. i < length xs \<Longrightarrow> I i s \<Longrightarrow> f (xs ! i) s = Inr s' \<Longrightarrow> I (Suc i) s'"
  shows "I (length xs) s'"
  using assms
proof (induction xs arbitrary: s I)
  case Nil
  then show ?case by simp
next
  case (Cons x xs)
  from Cons.prems(1) obtain s1 where s1: "f x s = Inr s1" and r: "rfold f xs s1 = Inr s'"
    by (auto simp: res_simps)
  have "(\<lambda>i. I (Suc i)) (length xs) s'"
  proof (rule Cons.IH[OF r])
    show "I (Suc 0) s1" using Cons.prems(3)[of 0 s s1] Cons.prems(2) s1 by simp
  next
    fix i s s' assume "i < length xs" "I (Suc i) s" "f (xs ! i) s = Inr s'"
    then show "I (Suc (Suc i)) s'" using Cons.prems(3)[of "Suc i" s s'] by simp
  qed
  then show ?case by simp
qed

subsection \<open>C strings\<close>

text \<open>
  A NUL-terminated \<open>char *\<close> is the list of its bytes before the NUL; \<open>cstr\<close> turns a
  string literal of the source into that list.
\<close>

definition cstr :: "string \<Rightarrow> u8 list" where
  "cstr s = map of_char s"

definition chr8 :: "char \<Rightarrow> u8" where
  "chr8 c = of_char c"

subsection \<open>Word arithmetic on natural numbers\<close>

lemma unat_add_no_wrap:
  fixes a b :: "'a::len word"
  shows "unat a + unat b < 2 ^ LENGTH('a) \<Longrightarrow> unat (a + b) = unat a + unat b"
  by (simp add: unat_word_ariths)

lemma unat_mult_no_wrap:
  fixes a b :: "'a::len word"
  shows "unat a * unat b < 2 ^ LENGTH('a) \<Longrightarrow> unat (a * b) = unat a * unat b"
  by (simp add: unat_word_ariths)

lemma unat_of_nat_less:
  "n < 2 ^ LENGTH('a) \<Longrightarrow> unat (of_nat n :: 'a::len word) = n"
  by (simp add: unat_of_nat take_bit_eq_mod)

lemma unat_sub_le:
  fixes a b :: "'a::len word"
  shows "b \<le> a \<Longrightarrow> unat (a - b) = unat a - unat b"
  by (simp add: unat_sub word_le_nat_alt)

lemma word_diff_zero_iff [simp]: "unat (x - a) = 0 \<longleftrightarrow> x = (a :: 'a::len word)"
  by (simp add: unat_eq_zero)

lemma find_SomeD: "find P xs = Some x \<Longrightarrow> x \<in> set xs \<and> P x"
  by (auto simp: find_Some_iff)

lemma unat_ucast_up [simp]:
  "LENGTH('a) \<le> LENGTH('b) \<Longrightarrow> unat (ucast (x :: 'a::len word) :: 'b::len word) = unat x"
proof -
  assume l: "LENGTH('a) \<le> LENGTH('b)"
  have "unat x < 2 ^ LENGTH('a)" by (rule unsigned_less)
  also have "\<dots> \<le> 2 ^ LENGTH('b)" using l by simp
  finally show ?thesis by (simp add: unsigned_ucast_eq take_bit_nat_eq_self)
qed

lemma unat_ucast_fits:
  "unat x < 2 ^ LENGTH('b) \<Longrightarrow> unat (ucast (x :: 'a::len word) :: 'b::len word) = unat x"
  by (simp add: unsigned_ucast_eq take_bit_nat_eq_self)

end
