(* ===== verification/Machine.thy ===== *)
theory Machine
  imports Prelude
begin

section \<open>Physical memory and the interrupt flag\<close>

text \<open>
  The kernel runs identity-mapped (\<open>vmm.h\<close>), so a pointer is a physical address and
  memory is one array of bytes indexed by 64-bit addresses. The record \<open>machine\<close> holds
  that array and RFLAGS.IF of the running core; every component extends it with its own
  static variables. Multi-byte fields are little-endian, as on x86-64.
\<close>

type_synonym mem = "u64 \<Rightarrow> u8"

record machine =
  mem :: mem
  rflags_if :: bool

subsection \<open>\<open>irq_save_disable\<close> and \<open>irq_restore\<close> (interrupts.h)\<close>

definition irq_save_disable :: "'a machine_scheme \<Rightarrow> bool \<times> 'a machine_scheme" where
  "irq_save_disable s = (rflags_if s, s\<lparr>rflags_if := False\<rparr>)"

definition irq_restore :: "bool \<Rightarrow> 'a machine_scheme \<Rightarrow> 'a machine_scheme" where
  "irq_restore flags s = s\<lparr>rflags_if := flags\<rparr>"

subsection \<open>Little-endian loads and stores\<close>

primrec load_le :: "nat \<Rightarrow> mem \<Rightarrow> u64 \<Rightarrow> 'a::len word" where
  "load_le 0 m a = 0"
| "load_le (Suc n) m a = ucast (m a) OR push_bit 8 (load_le n m (a + 1))"

primrec store_le :: "nat \<Rightarrow> 'a::len word \<Rightarrow> u64 \<Rightarrow> mem \<Rightarrow> mem" where
  "store_le 0 v a m = m"
| "store_le (Suc n) v a m = store_le n (drop_bit 8 v) (a + 1) (m(a := ucast v))"

lemma load_le_numeral:
  "load_le (numeral k) m a = ucast (m a) OR push_bit 8 (load_le (pred_numeral k) m (a + 1))"
  by (simp add: numeral_eq_Suc)

definition load16 :: "mem \<Rightarrow> u64 \<Rightarrow> u16" where "load16 m a = load_le 2 m a"
definition load32 :: "mem \<Rightarrow> u64 \<Rightarrow> u32" where "load32 m a = load_le 4 m a"
definition load64 :: "mem \<Rightarrow> u64 \<Rightarrow> u64" where "load64 m a = load_le 8 m a"
definition store64 :: "u64 \<Rightarrow> u64 \<Rightarrow> mem \<Rightarrow> mem" where "store64 a v m = store_le 8 v a m"

lemma bit_load_le:
  "bit (load_le n m a :: 'a::len word) k \<longleftrightarrow>
     k < LENGTH('a) \<and> k < 8 * n \<and> bit (m (a + of_nat (k div 8))) (k mod 8)"
proof (induction n arbitrary: a k)
  case 0
  then show ?case by simp
next
  case (Suc n)
  show ?case
  proof (cases "k < 8")
    case True
    then show ?thesis by (auto simp: bit_simps)
  next
    case False
    then have k: "k div 8 = Suc ((k - 8) div 8)" "k mod 8 = (k - 8) mod 8"
      by (auto simp: le_div_geq le_mod_geq)
    have nb: "\<not> bit (m a) k" using False by (simp add: bit_word.rep_eq)
    show ?thesis using False nb
      by (auto simp: bit_simps Suc.IH k add.assoc add.commute add.left_commute)
  qed
qed

lemma unat_diff_Suc:
  fixes x a :: u64
  assumes "x \<noteq> a" shows "unat (x - a) = Suc (unat (x - (a + 1)))"
proof -
  have nz: "x - a \<noteq> 0" using assms by simp
  have e: "x - (a + 1) = (x - a) - 1" by simp
  have "unat (x - a - 1) = unat (x - a) - 1" by (rule unat_minus_one[OF nz])
  then show ?thesis using nz unfolding e by (metis Suc_pred' unat_gt_0)
qed

lemma store_le_apply:
  "n \<le> 2 ^ 64 \<Longrightarrow> store_le n v a m x =
     (if unat (x - a) < n then ucast (drop_bit (8 * unat (x - a)) v) else m x)"
proof (induction n arbitrary: v a m)
  case 0
  then show ?case by simp
next
  case (Suc n)
  then have IH: "store_le n (drop_bit 8 v) (a + 1) (m(a := ucast v)) x =
     (if unat (x - (a + 1)) < n
      then ucast (drop_bit (8 * unat (x - (a + 1))) (drop_bit 8 v)) else (m(a := ucast v)) x)"
    by simp
  show ?case
  proof (cases "x = a")
    case True
    have "unat ((0::u64) - 1) = 2 ^ 64 - 1" unfolding unat_sub_if' by simp
    then have "unat (x - (a + 1)) = 2 ^ 64 - 1" using True by simp
    moreover have "\<not> (2::nat) ^ 64 - 1 < n" using Suc.prems by simp
    ultimately show ?thesis using IH True by simp
  next
    case False
    then show ?thesis using IH unat_diff_Suc[OF False] by (simp add: drop_bit_drop_bit algebra_simps)
  qed
qed

lemma store64_apply [mem_simps]:
  "store64 a v m x = (if unat (x - a) < 8 then ucast (drop_bit (8 * unat (x - a)) v) else m x)"
  by (simp add: store64_def store_le_apply)

lemma load64_store64_same [simp]: "load64 (store64 a v m) a = v"
proof (rule bit_word_eqI)
  fix k assume k: "k < LENGTH(64)"
  then have "k div 8 < 8" by simp
  then have off: "unat ((a + of_nat (k div 8)) - a) = k div 8"
    by (simp add: unat_of_nat_less)
  have "8 * (k div 8) + k mod 8 = k" by simp
  then show "bit (load64 (store64 a v m) a) k = bit v k"
    using k \<open>k div 8 < 8\<close> unfolding load64_def
    by (simp add: bit_load_le mem_simps off bit_simps unat_of_nat_less)
qed

lemma load_le_cong:
  assumes "\<And>k. k < n \<Longrightarrow> m (a + of_nat k) = m' (a + of_nat k)"
  shows "load_le n m a = load_le n m' a"
  by (rule bit_word_eqI) (auto simp: bit_load_le assms less_mult_imp_div_less mult.commute)

subsection \<open>Pages\<close>

text \<open>\<open>PMM_PAGE_SIZE\<close> is 4096. \<open>page_of\<close> clears the offset within the page.\<close>

abbreviation PMM_PAGE_SIZE :: u64 where "PMM_PAGE_SIZE \<equiv> 4096"

definition page_of :: "u64 \<Rightarrow> u64" where "page_of x = x AND NOT 0xFFF"

definition aligned :: "u64 \<Rightarrow> bool" where "aligned x \<longleftrightarrow> x AND 0xFFF = 0"

lemma mask12: "(0xFFF :: u64) = mask 12" by (simp add: mask_eq_exp_minus_1)

lemma unat_and_not_mask: "unat (x AND NOT (mask n) :: u64) = unat x div 2 ^ n * 2 ^ n"
proof -
  have d: "(x AND NOT (mask n)) AND take_bit n x = 0" by (rule bit_word_eqI) (auto simp: bit_simps)
  have "(x AND NOT (mask n)) + take_bit n x = (x AND NOT (mask n)) OR take_bit n x"
    by (rule disjunctive_add_eq_or[OF d])
  also have "\<dots> = x" by (rule bit_word_eqI) (auto simp: bit_simps)
  finally have x: "x AND NOT (mask n) = x - take_bit n x" by (simp add: eq_diff_eq)
  have t: "unat (take_bit n x) = unat x mod 2 ^ n" by (simp only: unsigned_take_bit_eq) (simp only: take_bit_eq_mod)
  have "unat (x - take_bit n x) = unat x - unat x mod 2 ^ n"
    unfolding t[symmetric] by (rule unat_sub_le) (simp add: t word_le_nat_alt)
  then show ?thesis unfolding x by (simp add: minus_mod_eq_div_mult)
qed

lemma unat_and_fff [page_simps]: "unat (x AND 0xFFF :: u64) = unat x mod 4096"
proof -
  have "x AND 0xFFF = take_bit 12 x" by (simp only: mask12 take_bit_eq_mask)
  then have "unat (x AND 0xFFF) = take_bit 12 (unat x)" by (simp only: unsigned_take_bit_eq)
  then show ?thesis by (simp add: take_bit_eq_mod)
qed

lemma page_of_plus: "page_of x + (x AND 0xFFF) = x"
proof -
  have "page_of x AND (x AND 0xFFF) = 0" unfolding page_of_def
    by (rule bit_word_eqI) (auto simp: bit_simps)
  then have "page_of x + (x AND 0xFFF) = page_of x OR (x AND 0xFFF)"
    by (rule disjunctive_add_eq_or)
  also have "\<dots> = x" unfolding page_of_def by (rule bit_word_eqI) (auto simp: bit_simps)
  finally show ?thesis .
qed

lemma unat_page_of [page_simps]: "unat (page_of x) = unat x div 4096 * 4096"
proof -
  have "page_of x = x - (x AND 0xFFF)" using page_of_plus[of x] by (simp add: eq_diff_eq)
  moreover have "unat (x AND 0xFFF) \<le> unat x" by (simp add: unat_and_fff)
  ultimately have "unat (page_of x) = unat x - unat x mod 4096"
    by (simp add: unat_sub word_le_nat_alt unat_and_fff)
  then show ?thesis by (simp add: minus_mod_eq_div_mult)
qed

lemma aligned_iff [page_simps]: "aligned x \<longleftrightarrow> unat x mod 4096 = 0"
proof -
  have "aligned x \<longleftrightarrow> unat (x AND 0xFFF) = 0" by (simp add: aligned_def unat_eq_zero)
  then show ?thesis by (simp only: unat_and_fff)
qed

lemma aligned_page_of [simp]: "aligned (page_of x)"
  by (simp add: page_simps)

lemma page_of_aligned [simp]: "aligned x \<Longrightarrow> page_of x = x"
  by (rule word_unat_eq_iff [THEN iffD2]) (auto simp: page_simps)

lemma page_of_eq_iff: "page_of x = page_of y \<longleftrightarrow> unat x div 4096 = unat y div 4096"
  by (simp add: word_unat_eq_iff unat_page_of)

lemma aligned_room: "aligned t \<Longrightarrow> unat t + 4096 \<le> 2 ^ 64"
proof -
  assume "aligned t"
  then obtain q where q: "unat t = 4096 * q" by (auto simp: page_simps mod_eq_0_iff_dvd dvd_def)
  have "unat t < 2 ^ 64" using unsigned_less[of t, where ?'a = nat] by simp
  then have "q < 2 ^ 52" using q by simp
  then show ?thesis using q by simp
qed

lemma unat_in_page: "aligned t \<Longrightarrow> unat k < 4096 \<Longrightarrow> unat (t + k) = unat t + unat k"
  using aligned_room[of t] by (simp add: unat_add_no_wrap)

lemma page_of_in_page [simp]: "aligned t \<Longrightarrow> unat k < 4096 \<Longrightarrow> page_of (t + k) = t"
proof -
  assume a: "aligned t" and k: "unat k < 4096"
  obtain q where q: "unat t = 4096 * q" using a by (auto simp: page_simps)
  then show ?thesis using k
    by (simp add: word_unat_eq_iff unat_page_of unat_in_page[OF a k])
qed

lemma in_page_iff: "aligned t \<Longrightarrow> unat (x - t) < 4096 \<longleftrightarrow> page_of x = t"
proof
  assume "aligned t" "unat (x - t) < 4096"
  then show "page_of x = t" using page_of_in_page[of t "x - t"] by simp
next
  assume a: "aligned t" and p: "page_of x = t"
  then have "x - t = x AND 0xFFF" using page_of_plus[of x] by (simp add: diff_eq_eq add.commute)
  then show "unat (x - t) < 4096" by (simp add: unat_and_fff)
qed

subsection \<open>Table entries: 512 eight-byte words per page\<close>

definition entry_addr :: "u64 \<Rightarrow> u64 \<Rightarrow> u64" where
  "entry_addr t i = t + 8 * i"

lemma unat_entry_off: "unat i < 512 \<Longrightarrow> unat k < 8 \<Longrightarrow> unat (8 * i + k :: u64) = 8 * unat i + unat k"
  by (simp add: unat_word_ariths)

lemma unat_entry_addr: "aligned t \<Longrightarrow> unat i < 512 \<Longrightarrow> unat (entry_addr t i) = unat t + 8 * unat i"
  using unat_in_page[of t "8 * i"] unat_entry_off[of i 0] by (simp add: entry_addr_def)

lemma page_of_entry [simp]:
  "aligned t \<Longrightarrow> unat i < 512 \<Longrightarrow> unat k < 8 \<Longrightarrow> page_of (entry_addr t i + k) = t"
  using page_of_in_page[of t "8 * i + k"] unat_entry_off[of i k]
  by (simp add: entry_addr_def add.assoc)

lemma load64_frame:
  assumes "\<And>k. unat k < 8 \<Longrightarrow> m' (a + k) = m (a + k)"
  shows "load64 m' a = load64 m a"
  unfolding load64_def
  by (rule load_le_cong) (use assms in \<open>simp add: unat_of_nat_less\<close>)

lemma load64_page_cong:
  assumes "aligned t" "unat i < 512" "\<And>x. page_of x = t \<Longrightarrow> m' x = m x"
  shows "load64 m' (entry_addr t i) = load64 m (entry_addr t i)"
  by (rule load64_frame) (use assms in simp)

lemma load64_store64_other_page [mem_simps]:
  assumes "aligned t" "aligned t'" "unat i < 512" "unat j < 512" "t \<noteq> t'"
  shows "load64 (store64 (entry_addr t' j) v m) (entry_addr t i) = load64 m (entry_addr t i)"
proof (rule load64_page_cong[OF assms(1,3)])
  fix x assume x: "page_of x = t"
  show "store64 (entry_addr t' j) v m x = m x"
  proof (cases "unat (x - entry_addr t' j) < 8")
    case True
    then have "page_of (entry_addr t' j + (x - entry_addr t' j)) = t'"
      using assms by (intro page_of_entry) auto
    then show ?thesis using x assms by simp
  next
    case False then show ?thesis by (simp add: mem_simps)
  qed
qed

lemma load64_store64_other_index [mem_simps]:
  assumes "aligned t" "unat i < 512" "unat j < 512" "i \<noteq> j"
  shows "load64 (store64 (entry_addr t j) v m) (entry_addr t i) = load64 m (entry_addr t i)"
proof (rule load64_frame)
  fix k :: u64 assume k: "unat k < 8"
  have ne: "unat i \<noteq> unat j" using assms by (simp add: word_unat_eq_iff)
  have x: "unat (entry_addr t i + k) = unat t + (8 * unat i + unat k)"
    using unat_in_page[of t "8 * i + k"] assms k unat_entry_off[of i k]
    by (simp add: entry_addr_def add.assoc)
  have j: "unat (entry_addr t j) = unat t + 8 * unat j"
    using assms by (simp add: unat_entry_addr)
  have "\<not> unat ((entry_addr t i + k) - entry_addr t j) < 8"
    using ne k aligned_room[OF assms(1)] assms(2,3) unfolding unat_sub_if' x j by simp linarith
  then show "store64 (entry_addr t j) v m (entry_addr t i + k) = m (entry_addr t i + k)"
    by (simp add: mem_simps)
qed

end
