(* ===== verification/Boot_Info.thy ===== *)
theory Boot_Info
  imports Machine
begin

section \<open>The boot handoff (common/include/boot\_info.h, efi\_memory\_map.h)\<close>

text \<open>
  The structures the bootloader hands to the kernel, field by field, and the reader of one
  UEFI memory descriptor. The descriptors are an array in memory whose stride is the
  firmware's descriptor size, never the size of the C struct.
\<close>

record boot_framebuffer =
  fb_base :: u64
  fb_size :: u64
  fb_width :: u32
  fb_height :: u32
  pixels_per_scanline :: u32
  bytes_per_pixel :: u32
  red_shift :: u8
  green_shift :: u8
  blue_shift :: u8

record boot_info =
  magic :: u64
  framebuffer :: boot_framebuffer
  memory_map_addr :: u64
  memory_map_size :: u64
  memory_map_descriptor_size :: u64
  memory_map_descriptor_version :: u32
  acpi_rsdp_addr :: u64

abbreviation BOOT_INFO_MAGIC :: u64 where "BOOT_INFO_MAGIC \<equiv> 0x5245424F524E4F53"

record efi_memory_descriptor =
  d_type :: u32
  d_reserved :: u32
  physical_start :: u64
  virtual_start :: u64
  number_of_pages :: u64
  d_attribute :: u64

abbreviation EFI_MEM_TYPE_BOOT_SERVICES_CODE :: u32 where "EFI_MEM_TYPE_BOOT_SERVICES_CODE \<equiv> 3"
abbreviation EFI_MEM_TYPE_BOOT_SERVICES_DATA :: u32 where "EFI_MEM_TYPE_BOOT_SERVICES_DATA \<equiv> 4"
abbreviation EFI_MEM_TYPE_CONVENTIONAL :: u32 where "EFI_MEM_TYPE_CONVENTIONAL \<equiv> 7"

end
