(* ===== verification/Minilib.thy ===== *)
theory Minilib
  imports Machine
begin

section \<open>The freestanding C library (common/src/minilib.c)\<close>

text \<open>
  \<open>memset\<close>, \<open>memcpy\<close>, \<open>memmove\<close>, \<open>memcmp\<close>, \<open>strlen\<close> and \<open>strcmp\<close> as the byte
  loops of the source, over the machine's memory. The lemmas give each one its closed form:
  the kernel proofs rewrite with these and never with the loops. \<open>memmove\<close> is correct for
  every overlap of the two regions.
\<close>

subsection \<open>The loops\<close>

definition memset :: "u64 \<Rightarrow> i32 \<Rightarrow> u64 \<Rightarrow> mem \<Rightarrow> mem" where
  "memset dst c n m = fold (\<lambda>i m. m(dst + of_nat i := ucast c)) [0..<unat n] m"

definition memcpy :: "u64 \<Rightarrow> u64 \<Rightarrow> u64 \<Rightarrow> mem \<Rightarrow> mem" where
  "memcpy dst src n m = fold (\<lambda>i m. m(dst + of_nat i := m (src + of_nat i))) [0..<unat n] m"

definition memmove :: "u64 \<Rightarrow> u64 \<Rightarrow> u64 \<Rightarrow> mem \<Rightarrow> mem" where
  "memmove dst src n m =
     (if dst < src
      then fold (\<lambda>i m. m(dst + of_nat i := m (src + of_nat i))) [0..<unat n] m
      else fold (\<lambda>i m. m(dst + of_nat i := m (src + of_nat i))) (rev [0..<unat n]) m)"

text \<open>The result of \<open>memcmp\<close> and \<open>strcmp\<close> is the C \<open>int\<close> difference of two bytes.\<close>

primrec memcmp_loop :: "nat \<Rightarrow> u64 \<Rightarrow> u64 \<Rightarrow> mem \<Rightarrow> int" where
  "memcmp_loop 0 a b m = 0"
| "memcmp_loop (Suc n) a b m =
     (if m a \<noteq> m b then uint (m a) - uint (m b) else memcmp_loop n (a + 1) (b + 1) m)"

definition memcmp :: "u64 \<Rightarrow> u64 \<Rightarrow> u64 \<Rightarrow> mem \<Rightarrow> int" where
  "memcmp a b n m = memcmp_loop (unat n) a b m"

text \<open>
  The two string loops stop at a NUL byte only, so they are partial: \<open>None\<close> is a loop that
  never meets one.
\<close>

partial_function (option) strlen_loop :: "u64 \<Rightarrow> u64 \<Rightarrow> mem \<Rightarrow> u64 option" where
  "strlen_loop s n m = (if m (s + n) = 0 then Some n else strlen_loop s (n + 1) m)"

definition strlen :: "u64 \<Rightarrow> mem \<Rightarrow> u64 option" where
  "strlen s m = strlen_loop s 0 m"

partial_function (option) strcmp :: "u64 \<Rightarrow> u64 \<Rightarrow> mem \<Rightarrow> int option" where
  "strcmp a b m =
     (if m a \<noteq> 0 \<and> m a = m b then strcmp (a + 1) (b + 1) m
      else Some (uint (m a) - uint (m b)))"

subsection \<open>Closed forms\<close>

lemma unat_le_64 [simp]: "unat (x :: u64) \<le> 2 ^ 64"
  using unsigned_less[of x, where ?'a = nat] by simp

lemma addr_eq_iff: "i < 2 ^ 64 \<Longrightarrow> (x :: u64) = a + of_nat i \<longleftrightarrow> unat (x - a) = i"
proof -
  assume "i < 2 ^ 64"
  then have i: "unat (of_nat i :: u64) = i" by (simp add: unat_of_nat_less)
  have "x = a + of_nat i \<longleftrightarrow> x - a = of_nat i" by (auto simp: diff_eq_eq add.commute)
  also have "\<dots> \<longleftrightarrow> unat (x - a) = i" using i by (metis word_unat_eq_iff)
  finally show ?thesis .
qed

lemma fold_set_bytes:
  assumes "n \<le> 2 ^ 64"
  shows "fold (\<lambda>i m. m(dst + of_nat i := f i)) [0..<n] (m :: mem) x =
    (if unat (x - dst) < n then f (unat (x - dst)) else m x)"
  using assms
proof (induction n)
  case 0
  then show ?case by simp
next
  case (Suc n)
  have eq: "x = dst + of_nat n \<longleftrightarrow> unat (x - dst) = n"
    by (rule addr_eq_iff) (use Suc.prems in simp)
  show ?case using Suc eq by (auto simp: less_Suc_eq)
qed

lemma memset_apply [mem_simps]:
  "memset dst c n m x = (if unat (x - dst) < unat n then ucast c else m x)"
  unfolding memset_def by (rule fold_set_bytes[OF unat_le_64])

text \<open>
  A copying loop reads only bytes it has not written yet, provided no later step reads what
  an earlier one wrote.
\<close>

lemma fold_copy_bytes:
  assumes "distinct is" "set is \<subseteq> {..<2 ^ 64}"
    and "\<And>i j. i < length is \<Longrightarrow> j < length is \<Longrightarrow> i < j \<Longrightarrow>
      src + of_nat (is ! j) \<noteq> dst + (of_nat (is ! i) :: u64)"
  shows "fold (\<lambda>i m. m(dst + of_nat i := m (src + of_nat i))) is m x =
    (if unat (x - dst) \<in> set is then m (src + (x - dst)) else m x)"
  using assms
proof (induction "is" arbitrary: m)
  case Nil
  then show ?case by simp
next
  case (Cons i js)
  have i: "i < 2 ^ 64" "i \<notin> set js" using Cons.prems by auto
  have later: "src + of_nat k \<noteq> dst + of_nat i" if "k \<in> set js" for k
  proof -
    from that obtain q where "q < length js" "js ! q = k" by (auto simp: in_set_conv_nth)
    then show ?thesis using Cons.prems(3)[of 0 "Suc q"] by auto
  qed
  have eq: "x = dst + of_nat i \<longleftrightarrow> unat (x - dst) = i"
    using i(1) by (rule addr_eq_iff)
  let ?m = "m(dst + of_nat i := m (src + of_nat i))"
  have IH: "fold (\<lambda>i m. m(dst + of_nat i := m (src + of_nat i))) js ?m x =
    (if unat (x - dst) \<in> set js then ?m (src + (x - dst)) else ?m x)"
  proof (rule Cons.IH)
    show "distinct js" "set js \<subseteq> {..<2 ^ 64}" using Cons.prems by auto
    fix a b assume "a < length js" "b < length js" "a < b"
    then show "src + of_nat (js ! b) \<noteq> dst + (of_nat (js ! a) :: u64)"
      using Cons.prems(3)[of "Suc a" "Suc b"] by simp
  qed
  have sub: "x - dst = of_nat (unat (x - dst))" by simp
  have miss: "?m (src + (x - dst)) = m (src + (x - dst))" if "unat (x - dst) \<in> set js"
  proof -
    have "src + (x - dst) \<noteq> dst + of_nat i" using later[OF that] sub by metis
    then show ?thesis by simp
  qed
  have hit: "?m x = (if unat (x - dst) = i then m (src + (x - dst)) else m x)"
    using eq by auto
  have "fold (\<lambda>i m. m(dst + of_nat i := m (src + of_nat i))) (i # js) m x =
    (if unat (x - dst) \<in> set js then ?m (src + (x - dst)) else ?m x)"
    unfolding fold.simps comp_apply by (rule IH)
  also have "\<dots> = (if unat (x - dst) \<in> set (i # js) then m (src + (x - dst)) else m x)"
    using miss hit by auto
  finally show ?case .
qed

lemma memcpy_apply [mem_simps]:
  assumes "\<And>i j. i < j \<Longrightarrow> j < unat n \<Longrightarrow> src + of_nat j \<noteq> dst + (of_nat i :: u64)"
  shows "memcpy dst src n m x = (if unat (x - dst) < unat n then m (src + (x - dst)) else m x)"
proof -
  have "memcpy dst src n m x =
    (if unat (x - dst) \<in> set [0..<unat n] then m (src + (x - dst)) else m x)"
    unfolding memcpy_def
  proof (rule fold_copy_bytes)
    show "set [0..<unat n] \<subseteq> {..<2 ^ 64}" using unat_le_64[of n] by auto
  qed (use assms in auto)
  then show ?thesis by simp
qed

text \<open>
  \<open>memmove\<close> copies as if through a temporary buffer, whichever way the regions overlap.
  The two regions lie in the address space without wrapping past its end.
\<close>

lemma no_clash_forward:
  fixes dst src :: u64
  assumes "dst < src" "unat src + n \<le> 2 ^ 64" "i < j" "j < n"
  shows "src + of_nat j \<noteq> dst + of_nat i"
proof -
  have "unat (src + of_nat j) = unat src + j"
    using assms by (subst unat_add_no_wrap) (simp_all add: unat_of_nat_less)
  moreover have "unat (dst + of_nat i) = unat dst + i"
    using assms by (subst unat_add_no_wrap) (simp_all add: unat_of_nat_less word_less_nat_alt)
  ultimately show ?thesis using assms(1,3) by (auto simp: word_less_nat_alt)
qed

lemma no_clash_backward:
  fixes dst src :: u64
  assumes "\<not> dst < src" "unat dst + n \<le> 2 ^ 64" "i < j" "j < n"
  shows "src + of_nat i \<noteq> dst + of_nat j"
proof -
  have "unat (dst + of_nat j) = unat dst + j"
    using assms by (subst unat_add_no_wrap) (simp_all add: unat_of_nat_less)
  moreover have "unat (src + of_nat i) = unat src + i"
    using assms by (subst unat_add_no_wrap) (simp_all add: unat_of_nat_less word_less_nat_alt)
  ultimately show ?thesis using assms(1,3) by (auto simp: word_less_nat_alt)
qed

lemma memmove_apply:
  assumes "unat src + unat n \<le> 2 ^ 64" "unat dst + unat n \<le> 2 ^ 64"
  shows "memmove dst src n m x = (if unat (x - dst) < unat n then m (src + (x - dst)) else m x)"
proof (cases "dst < src")
  case True
  then have "memmove dst src n m = memcpy dst src n m" by (simp add: memmove_def memcpy_def)
  moreover have "memcpy dst src n m x =
      (if unat (x - dst) < unat n then m (src + (x - dst)) else m x)"
    by (rule memcpy_apply) (rule no_clash_forward[OF True assms(1)])
  ultimately show ?thesis by simp
next
  case False
  then have "memmove dst src n m x =
    (if unat (x - dst) \<in> set (rev [0..<unat n]) then m (src + (x - dst)) else m x)"
    unfolding memmove_def if_not_P[OF False]
  proof (intro fold_copy_bytes)
    show "set (rev [0..<unat n]) \<subseteq> {..<2 ^ 64}" using unat_le_64[of n] by auto
    fix i j assume "i < length (rev [0..<unat n])" "j < length (rev [0..<unat n])" "i < j"
    then show "src + of_nat (rev [0..<unat n] ! j) \<noteq> dst + (of_nat (rev [0..<unat n] ! i) :: u64)"
      using no_clash_backward[OF False assms(2), of "unat n - Suc j" "unat n - Suc i"]
      by (simp add: rev_nth)
  qed simp
  then show ?thesis by simp
qed

lemma memcmp_loop_zero:
  "memcmp_loop n a b m = 0 \<longleftrightarrow> (\<forall>i<n. m (a + of_nat i) = m (b + of_nat i))"
proof (induction n arbitrary: a b)
  case 0
  then show ?case by simp
next
  case (Suc n)
  have "(\<forall>i<Suc n. m (a + of_nat i) = m (b + of_nat i)) \<longleftrightarrow>
      m a = m b \<and> (\<forall>i<n. m (a + 1 + of_nat i) = m (b + 1 + of_nat i))"
    by (auto simp: less_Suc_eq_0_disj add.assoc)
  then show ?case using Suc by (simp add: word_uint_eq_iff)
qed

lemma memcmp_zero: "memcmp a b n m = 0 \<longleftrightarrow> (\<forall>i<unat n. m (a + of_nat i) = m (b + of_nat i))"
  by (simp add: memcmp_def memcmp_loop_zero)

subsection \<open>The string loops end at the first NUL\<close>

lemma strlen_loop_from:
  assumes "k \<le> n" "m (s + of_nat n) = 0" "\<And>i. k \<le> i \<Longrightarrow> i < n \<Longrightarrow> m (s + of_nat i) \<noteq> 0"
  shows "strlen_loop s (of_nat k) m = Some (of_nat n)"
  using assms
proof (induction "n - k" arbitrary: k)
  case 0
  then show ?case by (subst strlen_loop.simps) simp
next
  case (Suc d)
  then have "m (s + of_nat k) \<noteq> 0" by auto
  moreover have "strlen_loop s (of_nat (Suc k)) m = Some (of_nat n)"
    using Suc by (intro Suc.hyps(1)) auto
  ultimately show ?case by (subst strlen_loop.simps) (simp add: add.commute)
qed

lemma strlen_first_nul:
  assumes "m (s + of_nat n) = 0" "\<And>i. i < n \<Longrightarrow> m (s + of_nat i) \<noteq> 0"
  shows "strlen s m = Some (of_nat n)"
  using strlen_loop_from[of 0 n m s] assms by (simp add: strlen_def)

subsection \<open>Properties\<close>

text \<open>\<open>memmove\<close> gives every destination byte the value its source byte had before the call
  and changes nothing else, whichever way the two regions overlap.\<close>

theorem memmove_spec:
  assumes "unat src + unat n \<le> 2 ^ 64" "unat dst + unat n \<le> 2 ^ 64"
  shows "memmove dst src n m x = (if unat (x - dst) < unat n then m (src + (x - dst)) else m x)"
  by (rule memmove_apply[OF assms])

theorem memmove_spec_witness:
  "memmove 0x1001 0x1000 4 (\<lambda>a. ucast a) 0x1003 = 2"
  using memmove_spec[of "0x1000" 4 "0x1001" "\<lambda>a. ucast a" "0x1003"] by simp

text \<open>\<open>strlen\<close> returns on every NUL-terminated string, with the number of bytes before the
  first NUL.\<close>

theorem strlen_spec:
  assumes "m (s + of_nat n) = 0" "\<And>i. i < n \<Longrightarrow> m (s + of_nat i) \<noteq> 0"
  shows "strlen s m = Some (of_nat n)"
  by (rule strlen_first_nul) (rule assms; assumption)+

theorem strlen_spec_witness: "strlen 0x10 ((\<lambda>_. 7)(0x12 := 0)) = Some 2"
proof -
  let ?m = "(\<lambda>_. 7)(0x12 := 0) :: mem"
  have "?m (0x10 + of_nat i) \<noteq> 0" if "i < 2" for i using that by (auto simp: less_2_cases_iff)
  from strlen_spec[of ?m "0x10" 2, OF _ this] show ?thesis by simp
qed

end
