(* ===== verification/Spinlock.thy ===== *)
theory Spinlock
  imports Prelude
begin

section \<open>The spinlock (kernel/src/spinlock.c)\<close>

text \<open>
  Two views of the same two functions. Seen from one core with nobody else running,
  \<open>spinlock_acquire\<close> either takes a free lock or spins for ever; the sequential models of
  the other components use this view, so that a path which takes a lock twice or forgets to
  release it shows up as \<open>Hang\<close>. Seen from all cores, the function is a small state
  machine whose atomic steps interleave: one \<open>xchg\<close>, the re-reads of the lock word, and
  the store of zero in \<open>spinlock_release\<close>.
\<close>

subsection \<open>One core\<close>

type_synonym spinlock_t = u32

definition SPINLOCK_INIT :: spinlock_t where "SPINLOCK_INIT = 0"

definition spinlock_acquire :: "spinlock_t \<Rightarrow> spinlock_t res" where
  "spinlock_acquire locked = (let prev = locked in if prev = 0 then Inr 1 else Inl Hang)"

definition spinlock_release :: "spinlock_t \<Rightarrow> spinlock_t" where
  "spinlock_release locked = 0"

lemma spinlock_acquire_simps [simp]:
  "spinlock_acquire 0 = Inr 1"
  "spinlock_acquire l = Inr l' \<longleftrightarrow> l = 0 \<and> l' = 1"
  "spinlock_release l = 0"
  by (auto simp: spinlock_acquire_def spinlock_release_def)

subsection \<open>All cores\<close>

text \<open>
  Where a core stands: outside, about to execute the \<open>xchg\<close>, in the inner \<open>while\<close>
  loop that only reads, or inside the critical section.
\<close>

datatype lock_pc = Outside | Xchg | Spinning | Inside

record lock_sys =
  locked :: u32
  lpc :: "nat \<Rightarrow> lock_pc"

definition lock_init :: lock_sys where
  "lock_init = \<lparr>locked = SPINLOCK_INIT, lpc = (\<lambda>_. Outside)\<rparr>"

inductive lock_step :: "lock_sys \<Rightarrow> lock_sys \<Rightarrow> bool" where
  call: "lpc s c = Outside \<Longrightarrow> lock_step s (s\<lparr>lpc := (lpc s)(c := Xchg)\<rparr>)"
| xchg_free: "lpc s c = Xchg \<Longrightarrow> locked s = 0 \<Longrightarrow>
    lock_step s (s\<lparr>locked := 1, lpc := (lpc s)(c := Inside)\<rparr>)"
| xchg_taken: "lpc s c = Xchg \<Longrightarrow> locked s \<noteq> 0 \<Longrightarrow>
    lock_step s (s\<lparr>locked := 1, lpc := (lpc s)(c := Spinning)\<rparr>)"
| spin: "lpc s c = Spinning \<Longrightarrow> locked s \<noteq> 0 \<Longrightarrow> lock_step s s"
| retry: "lpc s c = Spinning \<Longrightarrow> locked s = 0 \<Longrightarrow>
    lock_step s (s\<lparr>lpc := (lpc s)(c := Xchg)\<rparr>)"
| release: "lpc s c = Inside \<Longrightarrow>
    lock_step s (s\<lparr>locked := 0, lpc := (lpc s)(c := Outside)\<rparr>)"

inductive lock_reachable :: "lock_sys \<Rightarrow> bool" where
  start: "lock_reachable lock_init"
| step: "lock_reachable s \<Longrightarrow> lock_step s t \<Longrightarrow> lock_reachable t"

text \<open>
  The lock word is 0 or 1, and it is 1 exactly when some core is inside; at most one is.
\<close>

definition lock_inv :: "lock_sys \<Rightarrow> bool" where
  "lock_inv s \<longleftrightarrow> (locked s = 0 \<and> (\<forall>c. lpc s c \<noteq> Inside)) \<or>
     (locked s = 1 \<and> (\<exists>c. \<forall>d. lpc s d = Inside \<longleftrightarrow> d = c))"

lemma lock_inv_init: "lock_inv lock_init"
  by (simp add: lock_inv_def lock_init_def SPINLOCK_INIT_def)

lemma lock_inv_other:
  assumes "lock_inv s" "lpc s c \<noteq> Inside" "p \<noteq> Inside" "locked t = locked s"
    "lpc t = (lpc s)(c := p)"
  shows "lock_inv t"
proof -
  have "\<And>d. lpc t d = Inside \<longleftrightarrow> lpc s d = Inside" using assms(2,3,5) by auto
  then show ?thesis using assms(1,4) by (simp add: lock_inv_def)
qed

lemma lock_step_inv: "lock_step s t \<Longrightarrow> lock_inv s \<Longrightarrow> lock_inv t"
proof (induction rule: lock_step.induct)
  case (xchg_free s c)
  then have "\<forall>d. ((lpc s)(c := Inside)) d = Inside \<longleftrightarrow> d = c" by (auto simp: lock_inv_def)
  then show ?case by (auto simp: lock_inv_def)
next
  case (release s c)
  then have "\<forall>d. ((lpc s)(c := Outside)) d \<noteq> Inside" by (auto simp: lock_inv_def)
  then show ?case by (auto simp: lock_inv_def)
next
  case (xchg_taken s c)
  moreover from this have "locked s = 1" by (auto simp: lock_inv_def)
  ultimately show ?case by - (rule lock_inv_other[of s c Spinning], auto)
next
  case (call s c)
  then show ?case by - (rule lock_inv_other[of s c Xchg], auto)
next
  case (retry s c)
  then show ?case by - (rule lock_inv_other[of s c Xchg], auto)
qed

lemma lock_reachable_inv: "lock_reachable s \<Longrightarrow> lock_inv s"
  by (induction rule: lock_reachable.induct) (auto intro: lock_inv_init lock_step_inv)

text \<open>
  A core that wants the lock and finds nobody inside gets it by its own steps alone:
  at most one failed read, then the \<open>xchg\<close>.
\<close>

lemma lock_progress:
  assumes "lock_inv s" "\<forall>d. lpc s d \<noteq> Inside" "lpc s c = Xchg \<or> lpc s c = Spinning"
  shows "\<exists>t u. (t = s \<or> lock_step s t) \<and> lock_step t u \<and> lpc u c = Inside \<and>
    (\<forall>d. d \<noteq> c \<longrightarrow> lpc u d = lpc s d)"
proof -
  from assms(1,2) have free: "locked s = 0" by (auto simp: lock_inv_def)
  define t where "t = (if lpc s c = Xchg then s else s\<lparr>lpc := (lpc s)(c := Xchg)\<rparr>)"
  have t: "t = s \<or> lock_step s t" "lpc t c = Xchg" "locked t = 0"
    using assms(3) free lock_step.retry[of s c] by (auto simp: t_def)
  let ?u = "t\<lparr>locked := 1, lpc := (lpc t)(c := Inside)\<rparr>"
  have "lock_step t ?u" by (rule lock_step.xchg_free[OF t(2,3)])
  moreover have "lpc ?u c = Inside" "\<forall>d. d \<noteq> c \<longrightarrow> lpc ?u d = lpc s d" by (auto simp: t_def)
  ultimately show ?thesis using t(1) by blast
qed

subsection \<open>Properties\<close>

text \<open>C39. In every reachable state of any number of cores at most one of them is between
  \<open>spinlock_acquire\<close> and \<open>spinlock_release\<close>, and the lock word is non-zero exactly when one is.\<close>

theorem spinlock_mutual_exclusion:
  assumes "lock_reachable s"
  shows "(lpc s c = Inside \<and> lpc s d = Inside \<longrightarrow> c = d) \<and> (locked s \<noteq> 0 \<longleftrightarrow> (\<exists>c. lpc s c = Inside))"
  using lock_reachable_inv[OF assms] by (auto simp: lock_inv_def)

lemma lock_example_reachable:
  "lock_reachable (lock_init\<lparr>locked := 1, lpc := (\<lambda>_. Outside)(0 := Inside)\<rparr>)"
proof -
  have "lock_reachable (lock_init\<lparr>lpc := (lpc lock_init)(0 := Xchg)\<rparr>)"
    by (rule lock_reachable.step[OF lock_reachable.start lock_step.call]) (simp add: lock_init_def)
  from lock_reachable.step[OF this lock_step.xchg_free[of _ 0]] show ?thesis
    by (simp add: lock_init_def SPINLOCK_INIT_def)
qed

theorem spinlock_mutual_exclusion_witness:
  "\<exists>s. lock_reachable s \<and> locked s \<noteq> 0 \<and> (\<exists>c. lpc s c = Inside)"
proof -
  let ?s = "lock_init\<lparr>locked := 1, lpc := (\<lambda>_. Outside)(0 := Inside)\<rparr>"
  have "locked ?s \<noteq> 0" by simp
  then show ?thesis using spinlock_mutual_exclusion[OF lock_example_reachable] lock_example_reachable by blast
qed

text \<open>C40. The lock is never lost: in a reachable state with nobody inside, a core that has called
  \<open>spinlock_acquire\<close> enters by at most two steps of its own, leaving every other core where it is.\<close>

theorem spinlock_progress:
  assumes "lock_reachable s" "\<forall>d. lpc s d \<noteq> Inside" "lpc s c = Xchg \<or> lpc s c = Spinning"
  shows "\<exists>t u. (t = s \<or> lock_step s t) \<and> lock_step t u \<and> lpc u c = Inside \<and>
    (\<forall>d. d \<noteq> c \<longrightarrow> lpc u d = lpc s d)"
  by (rule lock_progress[OF lock_reachable_inv[OF assms(1)] assms(2,3)])

theorem spinlock_progress_witness:
  "\<exists>s t u. lock_reachable s \<and> (t = s \<or> lock_step s t) \<and> lock_step t u \<and> lpc u 3 = Inside"
proof -
  let ?s = "lock_init\<lparr>lpc := (lpc lock_init)(3 := Xchg)\<rparr>"
  have r: "lock_reachable ?s"
    by (rule lock_reachable.step[OF lock_reachable.start lock_step.call]) (simp add: lock_init_def)
  have "\<forall>d. lpc ?s d \<noteq> Inside" "lpc ?s 3 = Xchg \<or> lpc ?s 3 = Spinning" by (simp_all add: lock_init_def)
  from spinlock_progress[OF r this] show ?thesis using r by blast
qed

end
