(* ===== verification/Pmm.thy ===== *)
theory Pmm
  imports Boot_Info Minilib Spinlock
begin

section \<open>The physical memory manager (kernel/src/pmm.c)\<close>

text \<open>
  A bitmap with one bit per 4 KiB page, set when the page is in use. The record
  \<open>pmm_state\<close> holds the four static variables and the lock; the bitmap itself lies in
  the machine's memory at the address \<open>bitmap\<close>. The abstraction of a state is the set
  \<open>free_set\<close> of page numbers whose bit is clear; \<open>pmm_inv\<close> says that the free counter
  counts that set and that page 0 and the pages under the bitmap are never in it.
  The printing of the boot banner is left out, and the page count of a descriptor is read
  once, before the loop over its pages.
\<close>

record pmm_state = machine +
  bitmap :: u64
  bitmap_bits :: u64
  free_pages :: u64
  search_hint :: u64
  pmm_lock :: spinlock_t

subsection \<open>The bitmap\<close>

definition type_is_usable :: "u32 \<Rightarrow> bool" where
  "type_is_usable t \<longleftrightarrow> t = EFI_MEM_TYPE_CONVENTIONAL \<or>
     t = EFI_MEM_TYPE_BOOT_SERVICES_CODE \<or> t = EFI_MEM_TYPE_BOOT_SERVICES_DATA"

definition bitmap_set :: "u64 \<Rightarrow> 'a pmm_state_scheme \<Rightarrow> 'a pmm_state_scheme" where
  "bitmap_set b s = s\<lparr>mem := (mem s)(bitmap s + b div 8 :=
     mem s (bitmap s + b div 8) OR push_bit (unat (b mod 8)) 1)\<rparr>"

definition bitmap_clear :: "u64 \<Rightarrow> 'a pmm_state_scheme \<Rightarrow> 'a pmm_state_scheme" where
  "bitmap_clear b s = s\<lparr>mem := (mem s)(bitmap s + b div 8 :=
     mem s (bitmap s + b div 8) AND NOT (push_bit (unat (b mod 8)) 1))\<rparr>"

definition bitmap_test :: "'a pmm_state_scheme \<Rightarrow> u64 \<Rightarrow> bool" where
  "bitmap_test s b \<longleftrightarrow> drop_bit (unat (b mod 8)) (mem s (bitmap s + b div 8)) AND 1 \<noteq> 0"

subsection \<open>\<open>pmm_init\<close>\<close>

definition desc_at :: "mem \<Rightarrow> boot_info \<Rightarrow> u64 \<Rightarrow> efi_memory_descriptor" where
  "desc_at m info i =
     (let a = memory_map_addr info + i * memory_map_descriptor_size info in
      \<lparr>d_type = load32 m a, d_reserved = load32 m (a + 4), physical_start = load64 m (a + 8),
       virtual_start = load64 m (a + 16), number_of_pages = load64 m (a + 24),
       d_attribute = load64 m (a + 32)\<rparr>)"

text \<open>Pass 1: the highest address any usable descriptor covers.\<close>

definition highest_addr :: "mem \<Rightarrow> boot_info \<Rightarrow> nat \<Rightarrow> u64" where
  "highest_addr m info count = fold (\<lambda>i h.
     let d = desc_at m info (of_nat i) in
     if \<not> type_is_usable (d_type d) then h
     else let e = physical_start d + number_of_pages d * PMM_PAGE_SIZE in
       if e > h then e else h) [0..<count] 0"

text \<open>Pass 2: the index of the first conventional region that can hold the bitmap.\<close>

definition bitmap_region :: "mem \<Rightarrow> boot_info \<Rightarrow> nat \<Rightarrow> u64 \<Rightarrow> nat option" where
  "bitmap_region m info count bytes = find (\<lambda>i.
       let d = desc_at m info (of_nat i) in
       d_type d = EFI_MEM_TYPE_CONVENTIONAL \<and> number_of_pages d * PMM_PAGE_SIZE \<ge> bytes)
     [0..<count]"

definition clear_region :: "u64 \<Rightarrow> u64 \<Rightarrow> 'a pmm_state_scheme \<Rightarrow> 'a pmm_state_scheme" where
  "clear_region start_page n s = fold (\<lambda>p s.
     let s = bitmap_clear (start_page + of_nat p) s in s\<lparr>free_pages := free_pages s + 1\<rparr>)
     [0..<unat n] s"

definition clear_usable :: "boot_info \<Rightarrow> nat \<Rightarrow> 'a pmm_state_scheme \<Rightarrow> 'a pmm_state_scheme" where
  "clear_usable info count s = fold (\<lambda>i s.
     let d = desc_at (mem s) info (of_nat i) in
     if \<not> type_is_usable (d_type d) then s
     else clear_region (physical_start d div PMM_PAGE_SIZE) (number_of_pages d) s)
     [0..<count] s"

text \<open>Marking a page used unless it is: the body of three loops of the source.\<close>

definition claim_page :: "u64 \<Rightarrow> 'a pmm_state_scheme \<Rightarrow> 'a pmm_state_scheme" where
  "claim_page p s =
     (if \<not> bitmap_test s p
      then let s = bitmap_set p s in s\<lparr>free_pages := free_pages s - 1\<rparr> else s)"

definition pmm_init :: "boot_info \<Rightarrow> 'a pmm_state_scheme \<Rightarrow> 'a pmm_state_scheme res" where
  "pmm_init info s =
     (if memory_map_descriptor_size info = 0 then Inl (Undefined ''division by zero'') else
      let count = unat (memory_map_size info div memory_map_descriptor_size info);
          s = s\<lparr>bitmap_bits := highest_addr (mem s) info count div PMM_PAGE_SIZE\<rparr>;
          bitmap_bytes = (bitmap_bits s + 7) div 8 in
      case bitmap_region (mem s) info count bitmap_bytes of
        None \<Rightarrow> Inl (Panic ''pmm_init: no conventional memory region big enough for the page bitmap'')
      | Some region \<Rightarrow>
         (let s = s\<lparr>bitmap := physical_start (desc_at (mem s) info (of_nat region))\<rparr>;
              s = s\<lparr>mem := memset (bitmap s) 0xFF bitmap_bytes (mem s), free_pages := 0\<rparr>;
              s = clear_usable info count s;
              bitmap_pages = (bitmap_bytes + PMM_PAGE_SIZE - 1) div PMM_PAGE_SIZE;
              bitmap_start_page = physical_start (desc_at (mem s) info (of_nat region)) div PMM_PAGE_SIZE;
              s = fold (\<lambda>p. claim_page (bitmap_start_page + of_nat p)) [0..<unat bitmap_pages] s;
              s = (if bitmap_bits s > 0 then claim_page 0 s else s)
          in Inr (s\<lparr>search_hint := 1\<rparr>)))"

subsection \<open>Allocation, release, reservation\<close>

definition pmm_alloc_page :: "'a pmm_state_scheme \<Rightarrow> (u64 \<times> 'a pmm_state_scheme) res" where
  "pmm_alloc_page s =
     (let (flags, s) = irq_save_disable s in
      rbind (spinlock_acquire (pmm_lock s)) (\<lambda>l.
      let s = s\<lparr>pmm_lock := l\<rparr> in
      case find (\<lambda>i. \<not> bitmap_test s ((search_hint s + of_nat i) mod bitmap_bits s))
             [0..<unat (bitmap_bits s)] of
        Some i \<Rightarrow>
          (let b = (search_hint s + of_nat i) mod bitmap_bits s;
               s = bitmap_set b s;
               s = s\<lparr>free_pages := free_pages s - 1\<rparr>;
               s = s\<lparr>search_hint := b + 1\<rparr>;
               s = s\<lparr>pmm_lock := spinlock_release (pmm_lock s)\<rparr>
           in Inr (b * PMM_PAGE_SIZE, irq_restore flags s))
      | None \<Rightarrow>
          (let s = s\<lparr>pmm_lock := spinlock_release (pmm_lock s)\<rparr>
           in Inr (0, irq_restore flags s))))"

definition pmm_free_page :: "u64 \<Rightarrow> 'a pmm_state_scheme \<Rightarrow> 'a pmm_state_scheme res" where
  "pmm_free_page phys_addr s =
     (let (flags, s) = irq_save_disable s in
      rbind (spinlock_acquire (pmm_lock s)) (\<lambda>l.
      let s = s\<lparr>pmm_lock := l\<rparr>; b = phys_addr div PMM_PAGE_SIZE in
      if b \<ge> bitmap_bits s then Inl (Panic ''pmm_free_page: address is outside the tracked range'')
      else if \<not> bitmap_test s b then Inl (Panic ''pmm_free_page: double free of page'')
      else
        let s = bitmap_clear b s;
            s = s\<lparr>free_pages := free_pages s + 1\<rparr>;
            s = s\<lparr>pmm_lock := spinlock_release (pmm_lock s)\<rparr>
        in Inr (irq_restore flags s)))"

definition pmm_reserve_region :: "u64 \<Rightarrow> u64 \<Rightarrow> 'a pmm_state_scheme \<Rightarrow> 'a pmm_state_scheme" where
  "pmm_reserve_region phys_addr sz s =
     (let start_page = phys_addr div PMM_PAGE_SIZE;
          end_page = (phys_addr + sz + PMM_PAGE_SIZE - 1) div PMM_PAGE_SIZE
      in fold (\<lambda>p. claim_page (of_nat p)) [unat start_page..<min (unat end_page) (unat (bitmap_bits s))] s)"

definition pmm_total_pages :: "'a pmm_state_scheme \<Rightarrow> u64" where
  "pmm_total_pages s = bitmap_bits s"

definition pmm_free_page_count :: "'a pmm_state_scheme \<Rightarrow> u64" where
  "pmm_free_page_count s = free_pages s"

subsection \<open>The bitmap as a set of pages\<close>

lemma word_eq_div_mod: "(p :: u64) = b \<longleftrightarrow> p div 8 = b div 8 \<and> p mod 8 = b mod 8"
  by (metis div_mult_mod_eq)

lemma unat_mod8: "unat ((b :: u64) mod 8) < 8"
  by (simp add: unat_mod_distrib)

lemma bitmap_test_iff: "bitmap_test s b \<longleftrightarrow> bit (mem s (bitmap s + b div 8)) (unat (b mod 8))"
  unfolding bitmap_test_def by (simp add: and_one_eq bit_iff_odd_drop_bit odd_iff_mod_2_eq_one)

lemma bitmap_test_set [simp]: "bitmap_test (bitmap_set b s) p \<longleftrightarrow> p = b \<or> bitmap_test s p"
proof -
  have "unat (p mod 8) = unat (b mod 8) \<longleftrightarrow> p mod 8 = b mod 8" by (simp add: word_unat_eq_iff)
  then show ?thesis
    using unat_mod8[of b] word_eq_div_mod[of p b]
    by (auto simp: bitmap_test_iff bitmap_set_def bit_simps)
qed

lemma bitmap_test_clear [simp]: "bitmap_test (bitmap_clear b s) p \<longleftrightarrow> p \<noteq> b \<and> bitmap_test s p"
proof -
  have "unat (p mod 8) = unat (b mod 8) \<longleftrightarrow> p mod 8 = b mod 8" by (simp add: word_unat_eq_iff)
  then show ?thesis
    using unat_mod8[of b] unat_mod8[of p] word_eq_div_mod[of p b]
    by (auto simp: bitmap_test_iff bitmap_clear_def bit_simps)
qed

lemma bitmap_test_other [simp]:
  "bitmap_test (s\<lparr>free_pages := a\<rparr>) p = bitmap_test s p"
  "bitmap_test (s\<lparr>search_hint := a\<rparr>) p = bitmap_test s p"
  "bitmap_test (s\<lparr>pmm_lock := l\<rparr>) p = bitmap_test s p"
  "bitmap_test (s\<lparr>bitmap_bits := a\<rparr>) p = bitmap_test s p"
  "bitmap_test (s\<lparr>rflags_if := f\<rparr>) p = bitmap_test s p"
  by (simp_all add: bitmap_test_def)

lemma bitmap_frame [simp]:
  "bitmap (bitmap_set b s) = bitmap s" "bitmap_bits (bitmap_set b s) = bitmap_bits s"
  "free_pages (bitmap_set b s) = free_pages s" "search_hint (bitmap_set b s) = search_hint s"
  "pmm_lock (bitmap_set b s) = pmm_lock s" "rflags_if (bitmap_set b s) = rflags_if s"
  "bitmap (bitmap_clear b s) = bitmap s" "bitmap_bits (bitmap_clear b s) = bitmap_bits s"
  "free_pages (bitmap_clear b s) = free_pages s" "search_hint (bitmap_clear b s) = search_hint s"
  "pmm_lock (bitmap_clear b s) = pmm_lock s" "rflags_if (bitmap_clear b s) = rflags_if s"
  by (simp_all add: bitmap_set_def bitmap_clear_def)

definition free_set :: "'a pmm_state_scheme \<Rightarrow> u64 set" where
  "free_set s = {p. p < bitmap_bits s \<and> \<not> bitmap_test s p}"

lemma finite_free_set [simp]: "finite (free_set s)"
  by (simp add: free_set_def)

text \<open>
  Pages that must never be handed out: page 0, whose address doubles as the failure value,
  and the pages the bitmap lies in.
\<close>

definition bitmap_bytes :: "'a pmm_state_scheme \<Rightarrow> u64" where
  "bitmap_bytes s = (bitmap_bits s + 7) div 8"

definition reserved_page :: "'a pmm_state_scheme \<Rightarrow> u64 \<Rightarrow> bool" where
  "reserved_page s p \<longleftrightarrow> p = 0 \<or>
     (\<exists>k. unat k < unat (bitmap_bytes s) \<and> page_of (bitmap s + k) = p * PMM_PAGE_SIZE)"

definition pmm_inv :: "'a pmm_state_scheme \<Rightarrow> bool" where
  "pmm_inv s \<longleftrightarrow> pmm_lock s = 0 \<and> bitmap_bits s < 2 ^ 52 \<and> search_hint s \<le> 2 ^ 52 \<and>
     unat (free_pages s) = card (free_set s) \<and>
     (\<forall>p. p < bitmap_bits s \<longrightarrow> reserved_page s p \<longrightarrow> bitmap_test s p)"

lemma pmm_invD:
  assumes "pmm_inv s"
  shows "pmm_lock s = 0" "unat (bitmap_bits s) < 2 ^ 52" "unat (search_hint s) \<le> 2 ^ 52"
    "unat (free_pages s) = card (free_set s)"
    "\<And>p. p < bitmap_bits s \<Longrightarrow> reserved_page s p \<Longrightarrow> bitmap_test s p"
  using assms by (auto simp: pmm_inv_def word_less_nat_alt word_le_nat_alt)

subsection \<open>Allocation is exact\<close>

text \<open>The scan starting at any hint visits every page number below the limit.\<close>

lemma cyclic_cover:
  fixes B H p :: nat
  assumes "p < B" shows "\<exists>i<B. (H + i) mod B = p"
proof -
  let ?i = "(p + B - H mod B) mod B"
  have "H mod B \<le> B" using assms by (simp add: less_imp_le)
  have "(H + (p + B - H mod B)) mod B = (H mod B + (p + B - H mod B)) mod B"
    by (rule mod_add_left_eq[symmetric])
  also have "H mod B + (p + B - H mod B) = p + B" using \<open>H mod B \<le> B\<close> by simp
  finally have "(H + ?i) mod B = p" using assms by (simp add: mod_add_right_eq)
  moreover have "?i < B" using assms by simp
  ultimately show ?thesis by blast
qed

lemma unat_scan_bit:
  assumes "pmm_inv s" "i < unat (bitmap_bits s)"
  shows "unat ((search_hint s + of_nat i) mod bitmap_bits s) =
    (unat (search_hint s) + i) mod unat (bitmap_bits s)"
proof -
  have i: "unat (of_nat i :: u64) = i"
    using assms pmm_invD(2)[OF assms(1)] by (simp add: unat_of_nat_less)
  have "unat (search_hint s + of_nat i) = unat (search_hint s) + i"
    using assms pmm_invD(2,3)[OF assms(1)] i by (subst unat_add_no_wrap) simp_all
  then show ?thesis by (simp add: unat_mod_distrib)
qed

definition take_page :: "u64 \<Rightarrow> 'a pmm_state_scheme \<Rightarrow> 'a pmm_state_scheme" where
  "take_page b s = (bitmap_set b s)\<lparr>free_pages := free_pages s - 1, search_hint := b + 1\<rparr>"

lemma pmm_alloc_page_cases:
  assumes inv: "pmm_inv s"
  obtains (full) "free_set s = {}" "pmm_alloc_page s = Inr (0, s)"
  | (page) b where "b \<in> free_set s" "pmm_alloc_page s = Inr (b * PMM_PAGE_SIZE, take_page b s)"
proof -
  let ?B = "unat (bitmap_bits s)"
  let ?bit = "\<lambda>i. (search_hint s + of_nat i) mod bitmap_bits s"
  note lock = pmm_invD(1)[OF inv]
  have alloc: "pmm_alloc_page s =
     (case find (\<lambda>i. \<not> bitmap_test s (?bit i)) [0..<?B] of
        Some i \<Rightarrow> Inr (?bit i * PMM_PAGE_SIZE, take_page (?bit i) s)
      | None \<Rightarrow> Inr (0, s))"
    using lock
    by (simp add: pmm_alloc_page_def irq_save_disable_def irq_restore_def take_page_def
        bitmap_set_def bitmap_test_def Let_def split: option.splits)
  show ?thesis
  proof (cases "find (\<lambda>i. \<not> bitmap_test s (?bit i)) [0..<?B]")
    case None
    have "bitmap_test s p" if "p < bitmap_bits s" for p
    proof -
      have "unat p < ?B" using that by (simp add: word_less_nat_alt)
      then obtain i where i: "i < ?B" "(unat (search_hint s) + i) mod ?B = unat p"
        using cyclic_cover by blast
      then have "?bit i = p" by (simp add: word_unat_eq_iff unat_scan_bit[OF inv])
      then show ?thesis using None i(1) by (auto simp: find_None_iff)
    qed
    then have "free_set s = {}" by (auto simp: free_set_def)
    then show ?thesis using full alloc None by simp
  next
    case (Some i)
    then have i: "i < ?B" "\<not> bitmap_test s (?bit i)" by (auto simp: find_Some_iff)
    then have "unat (?bit i) < ?B" by (simp add: unat_scan_bit[OF inv])
    then have "?bit i \<in> free_set s" using i(2) by (simp add: free_set_def word_less_nat_alt)
    then show ?thesis using page alloc Some by simp
  qed
qed

lemma free_set_take_page: "free_set (take_page b s) = free_set s - {b}"
  by (auto simp: free_set_def take_page_def)

lemma reserved_page_cong:
  "bitmap_bits s' = bitmap_bits s \<Longrightarrow> bitmap s' = bitmap s \<Longrightarrow> reserved_page s' p = reserved_page s p"
  by (simp add: reserved_page_def bitmap_bytes_def)

lemma unat_dec: "b \<in> A \<Longrightarrow> finite A \<Longrightarrow> unat (x :: u64) = card A \<Longrightarrow> unat (x - 1) = card (A - {b})"
  by (metis card_Diff_singleton card_eq_0_iff emptyE unat_eq_zero unat_minus_one)

lemma take_page_inv:
  assumes inv: "pmm_inv s" and b: "b \<in> free_set s"
  shows "pmm_inv (take_page b s)"
proof -
  have bb: "b < bitmap_bits s" using b by (simp add: free_set_def)
  then have "unat b < 2 ^ 52" using pmm_invD(2)[OF inv] by (simp add: word_less_nat_alt)
  then have "unat (b + 1) \<le> 2 ^ 52" by (simp add: unat_word_ariths)
  then have hint: "b + 1 \<le> 2 ^ 52" by (simp add: word_le_nat_alt)
  have cnt: "unat (free_pages s - 1) = card (free_set s - {b})"
    by (rule unat_dec[OF b finite_free_set pmm_invD(4)[OF inv]])
  have "reserved_page (take_page b s) p = reserved_page s p" for p
    by (rule reserved_page_cong) (simp_all add: take_page_def)
  then show ?thesis
    using inv hint cnt unfolding pmm_inv_def free_set_take_page
    by (auto simp: take_page_def)
qed

lemma not_free_reserved:
  "pmm_inv s \<Longrightarrow> b \<in> free_set s \<Longrightarrow> \<not> reserved_page s b"
  using pmm_invD(5) by (auto simp: free_set_def)

lemma free_set_bound: "pmm_inv s \<Longrightarrow> b \<in> free_set s \<Longrightarrow> unat b < 2 ^ 52 \<and> b \<noteq> 0"
  using pmm_invD(2)[of s] not_free_reserved[of s b]
  by (auto simp: free_set_def word_less_nat_alt reserved_page_def)

lemma unat_page_addr: "unat b < 2 ^ 52 \<Longrightarrow> unat (b * PMM_PAGE_SIZE) = unat b * 4096"
  by (simp add: unat_mult_no_wrap)

lemma page_addr_inj: "unat a < 2 ^ 52 \<Longrightarrow> unat b < 2 ^ 52 \<Longrightarrow> a * PMM_PAGE_SIZE = b * PMM_PAGE_SIZE \<longleftrightarrow> a = b"
  by (auto simp: word_unat_eq_iff unat_page_addr)

lemma page_addr_aligned: "unat b < 2 ^ 52 \<Longrightarrow> aligned (b * PMM_PAGE_SIZE)"
  by (simp add: page_simps unat_page_addr)

lemma page_addr_div: "unat b < 2 ^ 52 \<Longrightarrow> b * PMM_PAGE_SIZE div PMM_PAGE_SIZE = b"
  by (simp add: word_unat_eq_iff unat_div_distrib unat_page_addr)

lemma page_addr_nonzero: "unat b < 2 ^ 52 \<Longrightarrow> b \<noteq> 0 \<Longrightarrow> b * PMM_PAGE_SIZE \<noteq> 0"
  by (metis mult_zero_left page_addr_inj unat_0 zero_less_numeral zero_less_power)

subsection \<open>What an operation may write\<close>

definition in_bitmap :: "'a pmm_state_scheme \<Rightarrow> u64 \<Rightarrow> bool" where
  "in_bitmap s a \<longleftrightarrow> a - bitmap s < bitmap_bytes s"

lemma unat_bitmap_bytes: "bitmap_bits s < 2 ^ 52 \<Longrightarrow> unat (bitmap_bytes s) = (unat (bitmap_bits s) + 7) div 8"
  by (simp add: bitmap_bytes_def unat_div_distrib unat_add_no_wrap word_less_nat_alt)

lemma byte_in_bitmap: "bitmap_bits s < 2 ^ 52 \<Longrightarrow> p < bitmap_bits s \<Longrightarrow> in_bitmap s (bitmap s + p div 8)"
  by (simp add: in_bitmap_def word_less_nat_alt unat_bitmap_bytes unat_div_distrib)

lemma bitmap_set_mem:
  "bitmap_bits s < 2 ^ 52 \<Longrightarrow> p < bitmap_bits s \<Longrightarrow> \<not> in_bitmap s a \<Longrightarrow> mem (bitmap_set p s) a = mem s a"
  using byte_in_bitmap[of s p] by (auto simp: bitmap_set_def)

lemma bitmap_clear_mem:
  "bitmap_bits s < 2 ^ 52 \<Longrightarrow> p < bitmap_bits s \<Longrightarrow> \<not> in_bitmap s a \<Longrightarrow> mem (bitmap_clear p s) a = mem s a"
  using byte_in_bitmap[of s p] by (auto simp: bitmap_clear_def)

lemma reserved_page_in_bitmap:
  "in_bitmap s a \<Longrightarrow> page_of a = p * PMM_PAGE_SIZE \<Longrightarrow> reserved_page s p"
  unfolding in_bitmap_def reserved_page_def
  by (rule disjI2, rule exI[of _ "a - bitmap s"]) (simp add: word_less_nat_alt)

lemma free_page_not_bitmap:
  "pmm_inv s \<Longrightarrow> b \<in> free_set s \<Longrightarrow> page_of a = b * PMM_PAGE_SIZE \<Longrightarrow> \<not> in_bitmap s a"
  using reserved_page_in_bitmap not_free_reserved by blast

text \<open>
  The state of the allocator while pages change hands: the set of free pages, their count,
  and the memory outside the bitmap, which is the one of \<open>m\<close>.
\<close>

definition tracks :: "'a pmm_state_scheme \<Rightarrow> u64 set \<Rightarrow> 'a pmm_state_scheme \<Rightarrow> bool" where
  "tracks s0 F s \<longleftrightarrow> (\<exists>m n. s = s0\<lparr>mem := m, free_pages := n\<rparr>) \<and>
     free_set s = F \<and> unat (free_pages s) = card F \<and>
     (\<forall>a. \<not> in_bitmap s0 a \<longrightarrow> mem s a = mem s0 a)"

lemma tracksD:
  assumes "tracks s0 F s"
  shows "bitmap s = bitmap s0" "bitmap_bits s = bitmap_bits s0" "pmm_lock s = pmm_lock s0"
    "search_hint s = search_hint s0" "rflags_if s = rflags_if s0" "free_set s = F"
    "unat (free_pages s) = card F" "\<And>a. \<not> in_bitmap s0 a \<Longrightarrow> mem s a = mem s0 a"
    "in_bitmap s = in_bitmap s0" "reserved_page s = reserved_page s0"
proof -
  obtain m n where s: "s = s0\<lparr>mem := m, free_pages := n\<rparr>" using assms unfolding tracks_def by blast
  show "bitmap s = bitmap s0" "bitmap_bits s = bitmap_bits s0" "pmm_lock s = pmm_lock s0"
    "search_hint s = search_hint s0" "rflags_if s = rflags_if s0" by (simp_all add: s)
  show "in_bitmap s = in_bitmap s0" "reserved_page s = reserved_page s0"
    by (simp_all add: s in_bitmap_def reserved_page_def bitmap_bytes_def fun_eq_iff)
qed (use assms in \<open>simp_all add: tracks_def\<close>)

lemma card_lessThan_word: "card {..<b :: u64} = unat b"
proof -
  have "unat ` {..<b} = {..<unat b}"
  proof
    show "{..<unat b} \<subseteq> unat ` {..<b}"
    proof
      fix i assume "i \<in> {..<unat b}"
      then have "i < unat b" by simp
      then have "unat (of_nat i :: u64) = i"
        using unsigned_less[of b, where ?'a = nat] by (intro unat_of_nat_less) simp
      then show "i \<in> unat ` {..<b}" using \<open>i < unat b\<close>
        by (intro image_eqI[of _ _ "of_nat i"]) (simp_all add: word_less_nat_alt)
    qed
  qed (auto simp: word_less_nat_alt)
  moreover have "inj_on unat {..<b}" by (simp add: inj_on_def word_unat_eq_iff)
  ultimately show ?thesis by (metis card_image card_lessThan)
qed

lemma tracks_refl: "unat (free_pages s) = card (free_set s) \<Longrightarrow> tracks s (free_set s) s"
  unfolding tracks_def by (intro conjI exI[of _ "mem s"] exI[of _ "free_pages s"]) simp_all

lemma tracks_clear:
  assumes t: "tracks s0 F s" and B: "bitmap_bits s0 < 2 ^ 52" and p: "p < bitmap_bits s0" "p \<notin> F"
  shows "tracks s0 (insert p F) ((bitmap_clear p s)\<lparr>free_pages := free_pages s + 1\<rparr>)"
proof -
  note d = tracksD[OF t]
  have fs: "free_set ((bitmap_clear p s)\<lparr>free_pages := free_pages s + 1\<rparr>) = insert p F"
    using p d(2) by (auto simp: free_set_def simp flip: d(6))
  have fin: "finite F" using finite_free_set[of s] d(6) by simp
  have "insert p F \<subseteq> {..<bitmap_bits s0}" using p d(2,6) by (auto simp: free_set_def)
  then have "card (insert p F) \<le> card {..<bitmap_bits s0}" by (intro card_mono) auto
  also have "\<dots> = unat (bitmap_bits s0)" by (rule card_lessThan_word)
  finally have "Suc (card F) < 2 ^ 64" using B fin p(2) by (simp add: word_less_nat_alt)
  then have cnt: "unat (free_pages s + 1) = card (insert p F)"
    using fin p(2) d(7) by (simp add: unat_add_no_wrap)
  have mm: "mem (bitmap_clear p s) a = mem s0 a" if "\<not> in_bitmap s0 a" for a
    using bitmap_clear_mem[of s p a] that B p d(2,8,9) by simp
  obtain m n where s: "s = s0\<lparr>mem := m, free_pages := n\<rparr>" using t unfolding tracks_def by blast
  have "\<exists>m n. (bitmap_clear p s)\<lparr>free_pages := free_pages s + 1\<rparr> = s0\<lparr>mem := m, free_pages := n\<rparr>"
    by (intro exI) (simp add: s bitmap_clear_def)
  then show ?thesis using fs cnt mm by (simp add: tracks_def)
qed

lemma claim_page_eq:
  "claim_page p s = (if bitmap_test s p then s else (bitmap_set p s)\<lparr>free_pages := free_pages s - 1\<rparr>)"
  by (simp add: claim_page_def Let_def)

lemma tracks_claim:
  assumes t: "tracks s0 F s" and B: "bitmap_bits s0 < 2 ^ 52" and p: "p < bitmap_bits s0"
  shows "tracks s0 (F - {p}) (claim_page p s)"
proof (cases "bitmap_test s p")
  case True
  then have "p \<notin> F" using tracksD(6)[OF t] by (auto simp: free_set_def)
  then show ?thesis using t True by (simp add: claim_page_eq)
next
  case False
  let ?s = "(bitmap_set p s)\<lparr>free_pages := free_pages s - 1\<rparr>"
  note d = tracksD[OF t]
  have pF: "p \<in> F" using False p d(2) by (simp add: free_set_def flip: d(6))
  have fs: "free_set ?s = F - {p}" using p d(2) by (auto simp: free_set_def simp flip: d(6))
  have "finite F" using finite_free_set[of s] unfolding d(6) .
  then have cnt: "unat (free_pages s - 1) = card (F - {p})" by (rule unat_dec[OF pF _ d(7)])
  have mm: "mem (bitmap_set p s) a = mem s0 a" if "\<not> in_bitmap s0 a" for a
    using bitmap_set_mem[of s p a] that B p d(2,8,9) by simp
  obtain m n where s: "s = s0\<lparr>mem := m, free_pages := n\<rparr>" using t unfolding tracks_def by blast
  have "\<exists>m n. ?s = s0\<lparr>mem := m, free_pages := n\<rparr>"
    by (intro exI) (simp add: s bitmap_set_def)
  then show ?thesis using fs cnt mm False by (simp add: tracks_def claim_page_eq)
qed

lemma tracks_claims:
  assumes "tracks s0 F s" "bitmap_bits s0 < 2 ^ 52" "\<And>i. i \<in> set is \<Longrightarrow> f i < bitmap_bits s0"
  shows "tracks s0 (F - f ` set is) (fold (\<lambda>i. claim_page (f i)) is s)"
  using assms
proof (induction "is" arbitrary: F s)
  case (Cons i "is")
  then have "tracks s0 (F - {f i}) (claim_page (f i) s)" by (intro tracks_claim) auto
  then have "tracks s0 (F - {f i} - f ` set is) (fold (\<lambda>i. claim_page (f i)) is (claim_page (f i) s))"
    using Cons.prems by (intro Cons.IH) auto
  moreover have "F - {f i} - f ` set is = F - f ` set (i # is)" by auto
  ultimately show ?case by simp
qed simp

lemma tracks_clears:
  assumes "tracks s0 F s" "bitmap_bits s0 < 2 ^ 52" "\<And>i. i \<in> set is \<Longrightarrow> f i < bitmap_bits s0 \<and> f i \<notin> F"
    "inj_on f (set is)" "distinct is"
  shows "tracks s0 (F \<union> f ` set is) (fold (\<lambda>i s. (bitmap_clear (f i) s)\<lparr>free_pages := free_pages s + 1\<rparr>) is s)"
  using assms
proof (induction "is" arbitrary: F s)
  case (Cons i "is")
  let ?s = "(bitmap_clear (f i) s)\<lparr>free_pages := free_pages s + 1\<rparr>"
  have "tracks s0 (insert (f i) F) ?s" using Cons.prems by (intro tracks_clear) auto
  moreover have "f j \<noteq> f i" if "j \<in> set is" for j
    using Cons.prems(4,5) that by (auto simp: inj_on_def)
  ultimately have "tracks s0 (insert (f i) F \<union> f ` set is)
      (fold (\<lambda>i s. (bitmap_clear (f i) s)\<lparr>free_pages := free_pages s + 1\<rparr>) is ?s)"
    using Cons.prems by (intro Cons.IH) auto
  then show ?case by simp
qed simp

subsection \<open>Initialisation\<close>

text \<open>The page numbers of a descriptor, and those of the usable ones among the first \<open>n\<close>.\<close>

definition desc_pages :: "efi_memory_descriptor \<Rightarrow> u64 set" where
  "desc_pages d = {p. unat (physical_start d) div 4096 \<le> unat p \<and>
     unat p < unat (physical_start d) div 4096 + unat (number_of_pages d)}"

definition usable_at :: "mem \<Rightarrow> boot_info \<Rightarrow> nat \<Rightarrow> bool" where
  "usable_at m info i \<longleftrightarrow> type_is_usable (d_type (desc_at m info (of_nat i)))"

definition usable_pages :: "mem \<Rightarrow> boot_info \<Rightarrow> nat \<Rightarrow> u64 set" where
  "usable_pages m info n = (\<Union>i\<in>{i. i < n \<and> usable_at m info i}. desc_pages (desc_at m info (of_nat i)))"

text \<open>
  What UEFI guarantees of the map: usable ranges are page aligned, end below \<open>2 ^ 64\<close>, do not
  overlap, and do not contain the buffer with the map (which is loader data).
\<close>

definition efi_map_ok :: "mem \<Rightarrow> boot_info \<Rightarrow> nat \<Rightarrow> bool" where
  "efi_map_ok m info count \<longleftrightarrow>
     (\<forall>i<count. usable_at m info i \<longrightarrow>
        (let d = desc_at m info (of_nat i) in
         aligned (physical_start d) \<and>
         unat (physical_start d) div 4096 + unat (number_of_pages d) < 2 ^ 52)) \<and>
     (\<forall>i<count. \<forall>j<i. usable_at m info i \<longrightarrow> usable_at m info j \<longrightarrow>
        desc_pages (desc_at m info (of_nat i)) \<inter> desc_pages (desc_at m info (of_nat j)) = {}) \<and>
     (\<forall>i<count. \<forall>k<40. (memory_map_addr info + of_nat i * memory_map_descriptor_size info + of_nat k)
        div 4096 \<notin> usable_pages m info count)"

lemma desc_pages_image:
  assumes "unat (physical_start d) div 4096 + unat (number_of_pages d) < 2 ^ 52"
  shows "desc_pages d = (\<lambda>k. physical_start d div PMM_PAGE_SIZE + of_nat k) ` set [0..<unat (number_of_pages d)]"
    (is "_ = ?f ` _")
    and "inj_on (\<lambda>k. physical_start d div PMM_PAGE_SIZE + of_nat k :: u64) (set [0..<unat (number_of_pages d)])"
proof -
  have f: "unat (?f k) = unat (physical_start d) div 4096 + k" if "k < unat (number_of_pages d)" for k
    using assms that by (simp add: unat_add_no_wrap unat_div_distrib unat_of_nat_less)
  then show "inj_on ?f (set [0..<unat (number_of_pages d)])"
    by (auto simp: inj_on_def) (metis add_left_cancel)
  show "desc_pages d = ?f ` set [0..<unat (number_of_pages d)]"
  proof (intro set_eqI iffI)
    fix p assume "p \<in> desc_pages d"
    then have "unat p - unat (physical_start d) div 4096 < unat (number_of_pages d)"
      "unat (physical_start d) div 4096 \<le> unat p" by (auto simp: desc_pages_def)
    then show "p \<in> ?f ` set [0..<unat (number_of_pages d)]"
      using f[of "unat p - unat (physical_start d) div 4096"]
      by (intro image_eqI[of _ _ "unat p - unat (physical_start d) div 4096"]) (auto simp: word_unat_eq_iff)
  qed (auto simp: desc_pages_def f)
qed

lemma usable_pages_Suc:
  "usable_pages m info (Suc n) = usable_pages m info n \<union>
     (if usable_at m info n then desc_pages (desc_at m info (of_nat n)) else {})"
  by (auto simp: usable_pages_def less_Suc_eq)

lemma usable_pages_mono: "n \<le> n' \<Longrightarrow> usable_pages m info n \<subseteq> usable_pages m info n'"
  unfolding usable_pages_def by (intro UN_mono) auto

lemma desc_pages_usable:
  "i < n \<Longrightarrow> usable_at m info i \<Longrightarrow> desc_pages (desc_at m info (of_nat i)) \<subseteq> usable_pages m info n"
  by (auto simp: usable_pages_def)

lemma load_le_offset_cong:
  assumes "\<And>k. k < n \<Longrightarrow> m' (a + of_nat k) = m (a + of_nat k)" "j + w \<le> n" "b = a + of_nat j"
  shows "load_le w m' b = load_le w m b"
  by (rule load_le_cong) (use assms(1)[of "j + _"] assms(2,3) in \<open>simp add: add.assoc\<close>)

lemma desc_at_cong:
  assumes "\<And>k. k < 40 \<Longrightarrow>
    m' (memory_map_addr info + i * memory_map_descriptor_size info + of_nat k) =
    m (memory_map_addr info + i * memory_map_descriptor_size info + of_nat k)"
  shows "desc_at m' info i = desc_at m info i"
proof -
  let ?a = "memory_map_addr info + i * memory_map_descriptor_size info"
  note l = load_le_offset_cong[of 40 m' ?a m, OF assms]
  show ?thesis
    unfolding desc_at_def Let_def load32_def load64_def
    using l[of 0 4 ?a] l[of 4 4 "?a + 4"] l[of 8 8 "?a + 8"] l[of 16 8 "?a + 16"]
      l[of 24 8 "?a + 24"] l[of 32 8 "?a + 32"]
    by simp
qed

lemma highest_addr_ge:
  assumes "i < n" "usable_at m info i"
  shows "physical_start (desc_at m info (of_nat i)) + number_of_pages (desc_at m info (of_nat i)) * PMM_PAGE_SIZE
    \<le> highest_addr m info n"
  using assms(1)
proof (induction n)
  case (Suc n)
  then show ?case using assms(2)
    by (auto simp: highest_addr_def usable_at_def Let_def less_Suc_eq not_less intro: order_trans)
qed simp

lemma highest_addr_attained:
  "highest_addr m info n = 0 \<or> (\<exists>i<n. usable_at m info i \<and> highest_addr m info n =
     physical_start (desc_at m info (of_nat i)) + number_of_pages (desc_at m info (of_nat i)) * PMM_PAGE_SIZE)"
  by (induction n) (auto simp: highest_addr_def usable_at_def Let_def less_Suc_eq)

lemma clear_region_tracks:
  assumes "tracks s0 F s" "bitmap_bits s0 < 2 ^ 52"
    "unat (physical_start d) div 4096 + unat (number_of_pages d) < 2 ^ 52"
    "desc_pages d \<subseteq> {..<bitmap_bits s0}" "desc_pages d \<inter> F = {}"
  shows "tracks s0 (F \<union> desc_pages d) (clear_region (physical_start d div PMM_PAGE_SIZE) (number_of_pages d) s)"
proof -
  let ?f = "\<lambda>k. physical_start d div PMM_PAGE_SIZE + of_nat k :: u64" and ?is = "[0..<unat (number_of_pages d)]"
  note img = desc_pages_image[OF assms(3)]
  have "?f i < bitmap_bits s0 \<and> ?f i \<notin> F" if "i \<in> set ?is" for i
  proof -
    have "?f i \<in> desc_pages d" unfolding img(1) using that by (rule imageI)
    then show ?thesis using assms(4,5) by auto
  qed
  then show ?thesis
    using tracks_clears[OF assms(1,2) _ img(2)] unfolding img(1) by (simp add: clear_region_def Let_def)
qed

lemma clear_usable_tracks:
  assumes t: "tracks s0 {} s" and B: "bitmap_bits s0 < 2 ^ 52"
    and ok: "efi_map_ok (mem s0) info count"
    and sub: "usable_pages (mem s0) info count \<subseteq> {..<bitmap_bits s0}"
    and out: "\<And>i k. i < count \<Longrightarrow> k < 40 \<Longrightarrow>
      \<not> in_bitmap s0 (memory_map_addr info + of_nat i * memory_map_descriptor_size info + of_nat k)"
  shows "n \<le> count \<Longrightarrow> tracks s0 (usable_pages (mem s0) info n) (clear_usable info n s)"
proof (induction n)
  case 0
  then show ?case using t by (simp add: clear_usable_def usable_pages_def)
next
  case (Suc n)
  let ?s = "clear_usable info n s" and ?d = "desc_at (mem s0) info (of_nat n)"
  have T: "tracks s0 (usable_pages (mem s0) info n) ?s" using Suc by simp
  have d: "desc_at (mem ?s) info (of_nat n) = ?d"
    by (rule desc_at_cong) (use tracksD(8)[OF T] out Suc.prems in simp)
  have step: "clear_usable info (Suc n) s = (if usable_at (mem s0) info n
      then clear_region (physical_start ?d div PMM_PAGE_SIZE) (number_of_pages ?d) ?s else ?s)"
    using d by (simp add: clear_usable_def usable_at_def Let_def)
  show ?case
  proof (cases "usable_at (mem s0) info n")
    case True
    have "desc_pages ?d \<inter> desc_pages (desc_at (mem s0) info (of_nat j)) = {}"
      if "j < n" "usable_at (mem s0) info j" for j
      using ok True that Suc.prems unfolding efi_map_ok_def by (meson Suc_le_lessD)
    then have dis: "desc_pages ?d \<inter> usable_pages (mem s0) info n = {}"
      unfolding usable_pages_def by blast
    have "desc_pages ?d \<subseteq> {..<bitmap_bits s0}"
      using desc_pages_usable[of n count, OF _ True] sub Suc.prems by auto
    moreover have "unat (physical_start ?d) div 4096 + unat (number_of_pages ?d) < 2 ^ 52"
      using ok True Suc.prems unfolding efi_map_ok_def Let_def by (meson Suc_le_lessD)
    ultimately show ?thesis
      using clear_region_tracks[OF T B _ _ dis] True by (simp only: step usable_pages_Suc if_True)
  qed (use T in \<open>simp add: step usable_pages_Suc\<close>)
qed

lemma p64: "(2 :: nat) ^ 64 = 4096 * 2 ^ 52"
  by simp

lemma desc_end:
  assumes "aligned (physical_start d)" "unat (physical_start d) div 4096 + unat (number_of_pages d) < 2 ^ 52"
  shows "unat (physical_start d + number_of_pages d * PMM_PAGE_SIZE) =
      4096 * (unat (physical_start d) div 4096 + unat (number_of_pages d))"
    and "unat (number_of_pages d * PMM_PAGE_SIZE) = unat (number_of_pages d) * 4096"
    and "unat (physical_start d) = 4096 * (unat (physical_start d) div 4096)"
proof -
  show st: "unat (physical_start d) = 4096 * (unat (physical_start d) div 4096)"
    using assms(1) by (simp add: page_simps mod_eq_0_iff_dvd)
  show n: "unat (number_of_pages d * PMM_PAGE_SIZE) = unat (number_of_pages d) * 4096"
    using assms(2) by (simp add: unat_mult_no_wrap)
  have "unat (physical_start d) + unat (number_of_pages d) * 4096 < 2 ^ 64"
    using assms(2) st p64 by linarith
  then have "unat (physical_start d + number_of_pages d * PMM_PAGE_SIZE) =
      unat (physical_start d) + unat (number_of_pages d) * 4096"
    by (simp add: unat_add_no_wrap n)
  then show "unat (physical_start d + number_of_pages d * PMM_PAGE_SIZE) =
      4096 * (unat (physical_start d) div 4096 + unat (number_of_pages d))" using st by simp
qed

lemma efi_map_okD:
  assumes "efi_map_ok m info count" "i < count" "usable_at m info i"
  shows "aligned (physical_start (desc_at m info (of_nat i)))"
    "unat (physical_start (desc_at m info (of_nat i))) div 4096 +
      unat (number_of_pages (desc_at m info (of_nat i))) < 2 ^ 52"
  using assms unfolding efi_map_ok_def Let_def by blast+

lemma pages_tracked:
  assumes ok: "efi_map_ok m info count"
  shows "highest_addr m info count div PMM_PAGE_SIZE < 2 ^ 52"
    and "usable_pages m info count \<subseteq> {..<highest_addr m info count div PMM_PAGE_SIZE}"
proof -
  show "highest_addr m info count div PMM_PAGE_SIZE < 2 ^ 52"
    using highest_addr_attained[of m info count] desc_end(1)[OF efi_map_okD[OF ok]] efi_map_okD(2)[OF ok]
    by (auto simp: word_less_nat_alt unat_div_distrib)
  show "usable_pages m info count \<subseteq> {..<highest_addr m info count div PMM_PAGE_SIZE}"
  proof
    fix p assume "p \<in> usable_pages m info count"
    then obtain i where i: "i < count" "usable_at m info i" "p \<in> desc_pages (desc_at m info (of_nat i))"
      by (auto simp: usable_pages_def)
    let ?d = "desc_at m info (of_nat i)"
    have "4096 * (unat (physical_start ?d) div 4096 + unat (number_of_pages ?d))
        \<le> unat (highest_addr m info count)"
      using highest_addr_ge[OF i(1,2)] desc_end(1)[OF efi_map_okD[OF ok i(1,2)]]
      by (simp add: word_le_nat_alt)
    then show "p \<in> {..<highest_addr m info count div PMM_PAGE_SIZE}"
      using i(3) by (auto simp: desc_pages_def word_less_nat_alt unat_div_distrib)
  qed
qed

lemma in_bitmap_page:
  assumes d: "aligned (physical_start d)" "unat (physical_start d) div 4096 + unat (number_of_pages d) < 2 ^ 52"
    and b: "bitmap s = physical_start d" "number_of_pages d * PMM_PAGE_SIZE \<ge> bitmap_bytes s"
    and a: "in_bitmap s a"
  shows "unat a div 4096 = unat (physical_start d) div 4096 + unat (a - bitmap s) div 4096"
    and "a div 4096 \<in> desc_pages d"
proof -
  note e = desc_end[OF d]
  have k: "unat (a - bitmap s) < unat (bitmap_bytes s)" using a by (simp add: in_bitmap_def word_less_nat_alt)
  have le: "unat (bitmap_bytes s) \<le> unat (number_of_pages d) * 4096"
    using b(2) e(2) by (simp add: word_le_nat_alt)
  have "unat (bitmap s + (a - bitmap s)) = unat (bitmap s) + unat (a - bitmap s)"
    by (rule unat_add_no_wrap) (use k le d(2) e(3) b(1) p64 in \<open>simp; linarith\<close>)
  then have ua: "unat a = unat (physical_start d) + unat (a - bitmap s)" using b(1) by simp
  then show 1: "unat a div 4096 = unat (physical_start d) div 4096 + unat (a - bitmap s) div 4096"
    using e(3) by (metis div_mult_self4 add.commute zero_neq_numeral)
  show "a div 4096 \<in> desc_pages d"
    using 1 k le by (simp add: desc_pages_def unat_div_distrib less_mult_imp_div_less)
qed

text \<open>The state after the bitmap is placed and filled, before any page is released.\<close>

definition pmm_filled :: "boot_info \<Rightarrow> nat \<Rightarrow> nat \<Rightarrow> 'a pmm_state_scheme \<Rightarrow> 'a pmm_state_scheme" where
  "pmm_filled info count i s =
     (let bits = highest_addr (mem s) info count div PMM_PAGE_SIZE;
          b = physical_start (desc_at (mem s) info (of_nat i)) in
      s\<lparr>bitmap_bits := bits, bitmap := b, mem := memset b 0xFF ((bits + 7) div 8) (mem s), free_pages := 0\<rparr>)"

lemma pmm_filled_simps [simp]:
  "bitmap_bits (pmm_filled info count i s) = highest_addr (mem s) info count div PMM_PAGE_SIZE"
  "bitmap (pmm_filled info count i s) = physical_start (desc_at (mem s) info (of_nat i))"
  "pmm_lock (pmm_filled info count i s) = pmm_lock s" "free_pages (pmm_filled info count i s) = 0"
  by (simp_all add: pmm_filled_def Let_def)

lemma pmm_filled_mem:
  "mem (pmm_filled info count i s) a = (if in_bitmap (pmm_filled info count i s) a then 0xFF else mem s a)"
  by (simp add: pmm_filled_def in_bitmap_def bitmap_bytes_def Let_def memset_apply word_less_nat_alt)

lemma bit_ff: "k < 8 \<Longrightarrow> bit (0xFF :: u8) k"
  using bit_mask_iff[of 8 k, where ?'a = u8] by (simp add: mask_eq_exp_minus_1)

lemma pmm_filled_used:
  assumes "bitmap_bits (pmm_filled info count i s) < 2 ^ 52"
  shows "free_set (pmm_filled info count i s) = {}"
  using byte_in_bitmap[OF assms] bit_ff[OF unat_mod8]
  by (auto simp: free_set_def bitmap_test_iff pmm_filled_mem)

text \<open>The pages the bitmap occupies are the reserved ones, page 0 apart.\<close>

lemma reserved_iff:
  fixes d :: efi_memory_descriptor
  assumes d: "aligned (physical_start d)" "unat (physical_start d) div 4096 + unat (number_of_pages d) < 2 ^ 52"
    and b: "bitmap s = physical_start d" "number_of_pages d * PMM_PAGE_SIZE \<ge> bitmap_bytes s"
    and B: "bitmap_bits s < 2 ^ 52" and p: "p < bitmap_bits s"
  shows "reserved_page s p \<longleftrightarrow> p = 0 \<or> p \<in> (\<lambda>k. bitmap s div PMM_PAGE_SIZE + of_nat k) `
    {0..<unat ((bitmap_bytes s + PMM_PAGE_SIZE - 1) div PMM_PAGE_SIZE)}" (is "_ \<longleftrightarrow> _ \<or> p \<in> ?I")
proof -
  let ?n = "unat ((bitmap_bytes s + PMM_PAGE_SIZE - 1) div PMM_PAGE_SIZE)"
  have n: "?n = (unat (bitmap_bytes s) + 4095) div 4096"
  proof -
    have "bitmap_bytes s + PMM_PAGE_SIZE - 1 = bitmap_bytes s + 4095" by simp
    moreover have "unat (bitmap_bytes s + 4095) = unat (bitmap_bytes s) + 4095"
      using B unat_bitmap_bytes[OF B] by (simp add: unat_add_no_wrap word_less_nat_alt)
    ultimately show ?thesis by (simp only: unat_div_distrib) simp
  qed
  have le: "unat (bitmap_bytes s) \<le> unat (number_of_pages d) * 4096"
    using b(2) desc_end(2)[OF d] by (simp add: word_le_nat_alt)
  have f: "unat (bitmap s div PMM_PAGE_SIZE + of_nat k) = unat (bitmap s) div 4096 + k" if "k < ?n" for k
    using that n le d(2) b(1) by (simp add: unat_add_no_wrap unat_div_distrib unat_of_nat_less)
  have "unat p < 2 ^ 52" using B p by (simp add: word_less_nat_alt)
  then have up: "unat (p * PMM_PAGE_SIZE) = unat p * 4096" by (rule unat_page_addr)
  have "(\<exists>k. unat k < unat (bitmap_bytes s) \<and> page_of (bitmap s + k) = p * PMM_PAGE_SIZE) \<longleftrightarrow> p \<in> ?I"
  proof
    assume "\<exists>k. unat k < unat (bitmap_bytes s) \<and> page_of (bitmap s + k) = p * PMM_PAGE_SIZE"
    then obtain k where k: "unat k < unat (bitmap_bytes s)" "page_of (bitmap s + k) = p * PMM_PAGE_SIZE"
      by blast
    have "in_bitmap s (bitmap s + k)" using k(1) by (simp add: in_bitmap_def word_less_nat_alt)
    from in_bitmap_page(1)[OF d b this]
    have "unat (bitmap s + k) div 4096 = unat (bitmap s) div 4096 + unat k div 4096" using b(1) by simp
    moreover have "unat (bitmap s + k) div 4096 = unat p" using k(2) up by (simp add: word_unat_eq_iff unat_page_of)
    moreover have "unat k div 4096 < ?n" using k(1) n by simp
    ultimately show "p \<in> ?I" using f[of "unat k div 4096"]
      by (intro image_eqI[of _ _ "unat k div 4096"]) (simp_all add: word_unat_eq_iff)
  next
    assume "p \<in> ?I"
    then obtain k where k: "k < ?n" "p = bitmap s div PMM_PAGE_SIZE + of_nat k" by auto
    have k': "4096 * k < unat (bitmap_bytes s)" using k(1) n by simp
    have uk: "unat (of_nat (4096 * k) :: u64) = 4096 * k"
      using k' unsigned_less[of "bitmap_bytes s", where ?'a = nat] by (intro unat_of_nat_less) simp
    have "in_bitmap s (bitmap s + of_nat (4096 * k))"
      unfolding in_bitmap_def word_less_nat_alt using k' uk by simp
    from in_bitmap_page(1)[OF d b this] have "page_of (bitmap s + of_nat (4096 * k)) = p * PMM_PAGE_SIZE"
      unfolding word_unat_eq_iff unat_page_of up using f[OF k(1)] k(2) uk b(1) by simp
    then show "\<exists>k. unat k < unat (bitmap_bytes s) \<and> page_of (bitmap s + k) = p * PMM_PAGE_SIZE"
      using k' uk by metis
  qed
  then show ?thesis unfolding reserved_page_def by blast
qed

lemma bitmap_regionD:
  assumes "bitmap_region m info count bytes = Some i"
  shows "i < count" "usable_at m info i" "number_of_pages (desc_at m info (of_nat i)) * PMM_PAGE_SIZE \<ge> bytes"
  using assms by (auto simp: bitmap_region_def find_Some_iff Let_def usable_at_def type_is_usable_def)

lemma efi_map_ok_cong:
  assumes "\<And>j. j < count \<Longrightarrow> desc_at m' info (of_nat j) = desc_at m info (of_nat j)"
  shows "efi_map_ok m' info count = efi_map_ok m info count"
    and "usable_pages m' info count = usable_pages m info count"
proof -
  have u: "usable_at m' info j = usable_at m info j" if "j < count" for j
    using assms[OF that] by (simp add: usable_at_def)
  show U: "usable_pages m' info count = usable_pages m info count"
    unfolding usable_pages_def using u assms by (intro SUP_cong) auto
  show "efi_map_ok m' info count = efi_map_ok m info count"
    unfolding efi_map_ok_def U using u assms by (auto simp: Let_def)
qed

lemma pmm_filled_frame:
  fixes info count i s
  defines "f \<equiv> pmm_filled info count i s"
  assumes ok: "efi_map_ok (mem s) info count"
    and i: "bitmap_region (mem s) info count ((highest_addr (mem s) info count div PMM_PAGE_SIZE + 7) div 8) = Some i"
  shows "j < count \<Longrightarrow> k < 40 \<Longrightarrow>
      \<not> in_bitmap f (memory_map_addr info + of_nat j * memory_map_descriptor_size info + of_nat k)"
    and "j < count \<Longrightarrow> desc_at (mem f) info (of_nat j) = desc_at (mem s) info (of_nat j)"
proof -
  note r = bitmap_regionD[OF i]
  have bb: "bitmap_bytes f = (highest_addr (mem s) info count div PMM_PAGE_SIZE + 7) div 8"
    by (simp add: f_def bitmap_bytes_def)
  have dp: "a div 4096 \<in> usable_pages (mem s) info count" if "in_bitmap f a" for a
    using in_bitmap_page(2)[OF efi_map_okD[OF ok r(1,2)] _ _ that] r desc_pages_usable[OF r(1,2)]
    by (auto simp: f_def bb[unfolded f_def])
  show out: "\<not> in_bitmap f (memory_map_addr info + of_nat j * memory_map_descriptor_size info + of_nat k)"
    if "j < count" "k < 40" for j k
    using dp ok that unfolding efi_map_ok_def by blast
  show "desc_at (mem f) info (of_nat j) = desc_at (mem s) info (of_nat j)" if "j < count" for j
    by (rule desc_at_cong) (use out[OF that] in \<open>simp add: f_def pmm_filled_mem\<close>)
qed

lemma bitmap_page_in_desc:
  fixes d :: efi_memory_descriptor
  assumes d: "aligned (physical_start d)" "unat (physical_start d) div 4096 + unat (number_of_pages d) < 2 ^ 52"
    and b: "number_of_pages d * PMM_PAGE_SIZE \<ge> bytes"
    and k: "k < unat ((bytes + PMM_PAGE_SIZE - 1) div PMM_PAGE_SIZE)"
  shows "physical_start d div PMM_PAGE_SIZE + of_nat k \<in> desc_pages d"
proof -
  have "unat bytes \<le> unat (number_of_pages d) * 4096"
    using b desc_end(2)[OF d] by (simp add: word_le_nat_alt)
  moreover have "unat (bytes + PMM_PAGE_SIZE - 1) \<le> unat bytes + 4095"
    by (simp add: unat_word_ariths)
  ultimately have "k < unat (number_of_pages d)" using k by (simp add: unat_div_distrib)
  then show ?thesis unfolding desc_pages_image(1)[OF d(2)] by simp
qed

lemma clear_usable_filled:
  assumes ok: "efi_map_ok (mem s) info count"
    and i: "bitmap_region (mem s) info count ((highest_addr (mem s) info count div PMM_PAGE_SIZE + 7) div 8) = Some i"
  shows "tracks (pmm_filled info count i s) (usable_pages (mem s) info count)
      (clear_usable info count (pmm_filled info count i s))" (is "tracks ?f ?U _")
    and "desc_at (mem (clear_usable info count (pmm_filled info count i s))) info (of_nat i) =
      desc_at (mem s) info (of_nat i)"
proof -
  note B = pages_tracked[OF ok] and fr = pmm_filled_frame[OF ok i]
  have fB: "bitmap_bits ?f < 2 ^ 52" using B(1) by simp
  have U: "usable_pages (mem ?f) info count = ?U" "efi_map_ok (mem ?f) info count"
    using efi_map_ok_cong[of count "mem ?f" info "mem s", OF fr(2)] ok by auto
  have "tracks ?f {} ?f" using tracks_refl[of ?f] pmm_filled_used[OF fB] by simp
  then have "tracks ?f (usable_pages (mem ?f) info count) (clear_usable info count ?f)"
    by (rule clear_usable_tracks[OF _ fB U(2)]) (use B fr(1) U(1) in simp_all)
  then show T: "tracks ?f ?U (clear_usable info count ?f)" by (simp add: U)
  note c = bitmap_regionD(1)[OF i]
  show "desc_at (mem (clear_usable info count ?f)) info (of_nat i) = desc_at (mem s) info (of_nat i)"
    unfolding fr(2)[OF c, symmetric] by (rule desc_at_cong) (rule tracksD(8)[OF T fr(1)[OF c]])
qed

text \<open>
  Initialisation establishes the invariant: exactly the usable pages that are not reserved
  are free afterwards.
\<close>

lemma tracks_inv:
  assumes t: "tracks s0 F s" and "pmm_lock s0 = 0" "bitmap_bits s0 < 2 ^ 52" "h \<le> 2 ^ 52"
    and "\<And>p. p \<in> F \<Longrightarrow> \<not> reserved_page s0 p"
  shows "pmm_inv (s\<lparr>search_hint := h\<rparr>)" "free_set (s\<lparr>search_hint := h\<rparr>) = F"
    "reserved_page (s\<lparr>search_hint := h\<rparr>) = reserved_page s0"
proof -
  note d = tracksD[OF t]
  show r: "reserved_page (s\<lparr>search_hint := h\<rparr>) = reserved_page s0"
    by (rule ext, subst d(10)[symmetric], rule reserved_page_cong) simp_all
  show f: "free_set (s\<lparr>search_hint := h\<rparr>) = F" by (simp add: free_set_def flip: d(6))
  show "pmm_inv (s\<lparr>search_hint := h\<rparr>)"
    unfolding pmm_inv_def r f using d(2,3,6,7) assms(2-5) by (auto simp: free_set_def)
qed

lemma pmm_init_correct:
  assumes lock: "pmm_lock s = 0" and sz: "memory_map_descriptor_size info \<noteq> 0"
    and count: "count = unat (memory_map_size info div memory_map_descriptor_size info)"
    and ok: "efi_map_ok (mem s) info count"
    and i: "bitmap_region (mem s) info count ((highest_addr (mem s) info count div PMM_PAGE_SIZE + 7) div 8) = Some i"
  obtains s' where "pmm_init info s = Inr s'" "pmm_inv s'"
    "free_set s' = {p \<in> usable_pages (mem s) info count. \<not> reserved_page s' p}"
proof -
  let ?f = "pmm_filled info count i s" and ?N = "highest_addr (mem s) info count div PMM_PAGE_SIZE"
  let ?d = "desc_at (mem s) info (of_nat i)" and ?U = "usable_pages (mem s) info count"
  let ?n = "unat ((bitmap_bytes ?f + PMM_PAGE_SIZE - 1) div PMM_PAGE_SIZE)"
  let ?g = "\<lambda>k. physical_start ?d div PMM_PAGE_SIZE + of_nat k :: u64"
  note r = bitmap_regionD[OF i] and B = pages_tracked[OF ok] and T = clear_usable_filled[OF ok i]
  note d = efi_map_okD[OF ok r(1,2)]
  have bb: "bitmap_bytes ?f = (?N + 7) div 8" by (simp add: bitmap_bytes_def)
  have fB: "bitmap_bits ?f < 2 ^ 52" using B(1) by simp
  have res: "reserved_page ?f p \<longleftrightarrow> p = 0 \<or> p \<in> ?g ` set [0..<?n]" if "p < ?N" for p
    using reserved_iff[OF d _ _ fB] r(3) that by (simp add: bb)
  have g: "?g k < bitmap_bits ?f" if "k \<in> set [0..<?n]" for k
    using bitmap_page_in_desc[OF d, of "bitmap_bytes ?f" k] that r(3) desc_pages_usable[OF r(1,2)] B(2)
    by (auto simp: bb)
  define s2 where "s2 = fold (\<lambda>k. claim_page (?g k)) [0..<?n] (clear_usable info count ?f)"
  define s3 where "s3 = (if ?N > 0 then claim_page 0 s2 else s2)"
  have C2: "tracks ?f (?U - ?g ` set [0..<?n]) s2" unfolding s2_def by (rule tracks_claims[OF T(1) fB g])
  have T3: "tracks ?f {p \<in> ?U. \<not> reserved_page ?f p} s3"
  proof (cases "?N > 0")
    case True
    have "?U - ?g ` set [0..<?n] - {0} = {p \<in> ?U. \<not> reserved_page ?f p}" using res B(2) by auto
    then show ?thesis using tracks_claim[where p = 0, OF C2 fB] True by (simp add: s3_def)
  next
    case False
    then have "?U = {}" using B(2) by (auto simp: word_less_nat_alt)
    then show ?thesis using C2 False by (simp add: s3_def)
  qed
  have N: "bitmap_bits s2 = ?N" using tracksD(2)[OF C2] by simp
  have "pmm_init info s = Inr (s3\<lparr>search_hint := 1\<rparr>)"
    using sz i T(2) N unfolding pmm_init_def Let_def count[symmetric] s3_def s2_def bb
    by (simp add: pmm_filled_def Let_def)
  then show ?thesis using that tracks_inv[OF T3, of 1] lock fB by simp
qed

subsection \<open>Release and reservation\<close>

lemma pmm_free_page_cases:
  assumes inv: "pmm_inv s"
  shows "pmm_free_page a s =
    (if a div PMM_PAGE_SIZE \<ge> bitmap_bits s
     then Inl (Panic ''pmm_free_page: address is outside the tracked range'')
     else if a div PMM_PAGE_SIZE \<in> free_set s then Inl (Panic ''pmm_free_page: double free of page'')
     else Inr ((bitmap_clear (a div PMM_PAGE_SIZE) s)\<lparr>free_pages := free_pages s + 1\<rparr>))"
  using pmm_invD(1)[OF inv]
  by (simp add: pmm_free_page_def irq_save_disable_def irq_restore_def free_set_def
      bitmap_clear_def bitmap_test_def Let_def)

lemma pmm_inv_words:
  assumes "pmm_inv s" shows "bitmap_bits s < 2 ^ 52" "search_hint s \<le> 2 ^ 52"
  using assms by (simp_all add: pmm_inv_def)

lemma pmm_inv_tracks: "pmm_inv s \<Longrightarrow> tracks s (free_set s) s"
  by (rule tracks_refl) (rule pmm_invD(4))

lemma tracks_pmm_inv:
  assumes "tracks s F s'" "pmm_inv s" "\<And>p. p \<in> F \<Longrightarrow> \<not> reserved_page s p"
  shows "pmm_inv s'"
proof -
  have "s'\<lparr>search_hint := search_hint s\<rparr> = s'" using tracksD(4)[OF assms(1)] by simp
  then show ?thesis
    using tracks_inv(1)[OF assms(1) pmm_invD(1)[OF assms(2)] pmm_inv_words[OF assms(2)] assms(3)] by simp
qed

lemma pmm_free_page_tracks:
  assumes inv: "pmm_inv s" and b: "a div PMM_PAGE_SIZE < bitmap_bits s" "a div PMM_PAGE_SIZE \<notin> free_set s"
  obtains s' where "pmm_free_page a s = Inr s'" "tracks s (insert (a div PMM_PAGE_SIZE) (free_set s)) s'"
  using that tracks_clear[OF pmm_inv_tracks[OF inv] pmm_inv_words(1)[OF inv] b] b
  by (simp add: pmm_free_page_cases[OF inv] not_le[symmetric])

lemma pmm_reserve_region_tracks:
  assumes inv: "pmm_inv s"
  shows "tracks s (free_set s - {p. phys div PMM_PAGE_SIZE \<le> p \<and>
    p < (phys + sz + PMM_PAGE_SIZE - 1) div PMM_PAGE_SIZE}) (pmm_reserve_region phys sz s)"
proof -
  let ?a = "phys div PMM_PAGE_SIZE" and ?b = "(phys + sz + PMM_PAGE_SIZE - 1) div PMM_PAGE_SIZE"
  let ?is = "[unat ?a..<min (unat ?b) (unat (bitmap_bits s))]"
  have u: "unat (of_nat i :: u64) = i" if "i \<in> set ?is" for i
    using that unsigned_less[of ?b, where ?'a = nat] by (intro unat_of_nat_less) simp
  have "tracks s (free_set s - of_nat ` set ?is) (fold (\<lambda>p. claim_page (of_nat p)) ?is s)"
    by (rule tracks_claims[OF pmm_inv_tracks[OF inv] pmm_inv_words(1)[OF inv]])
      (use u in \<open>auto simp: word_less_nat_alt\<close>)
  moreover have "p \<in> of_nat ` set ?is \<longleftrightarrow> ?a \<le> p \<and> p < ?b" if "p \<in> free_set s" for p
  proof
    assume "?a \<le> p \<and> p < ?b"
    then show "p \<in> of_nat ` set ?is"
      using that by (intro image_eqI[of _ _ "unat p"]) (auto simp: word_less_nat_alt word_le_nat_alt free_set_def)
  qed (use u in \<open>auto simp: word_less_nat_alt word_le_nat_alt\<close>)
  then have "free_set s - of_nat ` set ?is = free_set s - {p. ?a \<le> p \<and> p < ?b}" by blast
  ultimately show ?thesis by (simp add: pmm_reserve_region_def Let_def)
qed

lemma take_page_mem:
  "pmm_inv s \<Longrightarrow> b \<in> free_set s \<Longrightarrow> \<not> in_bitmap s a \<Longrightarrow> mem (take_page b s) a = mem s a"
  using bitmap_set_mem[OF pmm_inv_words(1), of s b a] by (auto simp: take_page_def free_set_def)

lemma take_page_frame [simp]:
  "rflags_if (take_page b s) = rflags_if s" "in_bitmap (take_page b s) = in_bitmap s"
  "bitmap_bits (take_page b s) = bitmap_bits s" "bitmap (take_page b s) = bitmap s"
  "pmm_state.more (take_page b s) = pmm_state.more s" "free_pages (take_page b s) = free_pages s - 1"
  by (simp_all add: take_page_def in_bitmap_def bitmap_bytes_def bitmap_set_def fun_eq_iff)

subsection \<open>The interface to the rest of the kernel\<close>

text \<open>
  What a client relies on: an allocation ends, fails only when nothing is free, and otherwise
  hands out an aligned non-null page that was free and is no longer.
\<close>

primrec alloc_n :: "('s \<Rightarrow> (u64 \<times> 's) res) \<Rightarrow> nat \<Rightarrow> 's \<Rightarrow> (u64 list \<times> 's) res" where
  "alloc_n alloc 0 s = Inr ([], s)"
| "alloc_n alloc (Suc n) s =
     rbind (alloc s) (\<lambda>(a, s). rbind (alloc_n alloc n s) (\<lambda>(as, s). Inr (a # as, s)))"

locale page_allocator =
  fixes ok :: "'s \<Rightarrow> bool" and avail :: "'s \<Rightarrow> u64 set" and alloc :: "'s \<Rightarrow> (u64 \<times> 's) res"
  assumes finite_avail: "ok s \<Longrightarrow> finite (avail s)"
    and avail_pages: "ok s \<Longrightarrow> a \<in> avail s \<Longrightarrow> aligned a \<and> a \<noteq> 0"
    and alloc_total: "ok s \<Longrightarrow> \<exists>a s'. alloc s = Inr (a, s')"
    and alloc_fail: "ok s \<Longrightarrow> alloc s = Inr (0, s') \<Longrightarrow> avail s = {} \<and> s' = s"
    and alloc_page: "ok s \<Longrightarrow> alloc s = Inr (a, s') \<Longrightarrow> a \<noteq> 0 \<Longrightarrow>
      a \<in> avail s \<and> avail s' = avail s - {a} \<and> ok s'"
begin

lemma alloc_ok: "ok s \<Longrightarrow> alloc s = Inr (a, s') \<Longrightarrow> ok s'"
  by (cases "a = 0") (auto dest: alloc_fail alloc_page)

lemma alloc_nonempty: "ok s \<Longrightarrow> avail s \<noteq> {} \<Longrightarrow> \<exists>a s'. alloc s = Inr (a, s') \<and> a \<noteq> 0"
  using alloc_total[of s] alloc_fail[of s] by blast

lemma alloc_n_distinct:
  "ok s \<Longrightarrow> n \<le> card (avail s) \<Longrightarrow>
   \<exists>as s'. alloc_n alloc n s = Inr (as, s') \<and> length as = n \<and> distinct as \<and> set as \<subseteq> avail s \<and>
     avail s' = avail s - set as \<and> ok s'"
proof (induction n arbitrary: s)
  case (Suc n)
  have "avail s \<noteq> {}" using Suc.prems(2) by auto
  then obtain a s1 where a: "alloc s = Inr (a, s1)" "a \<noteq> 0" using alloc_nonempty Suc.prems(1) by blast
  note p = alloc_page[OF Suc.prems(1) a]
  then have "n \<le> card (avail s1)" using Suc.prems(2) finite_avail[OF Suc.prems(1)] by simp
  from Suc.IH[OF _ this] p obtain as s' where r: "alloc_n alloc n s1 = Inr (as, s')" "length as = n" "distinct as"
    "set as \<subseteq> avail s1" "avail s' = avail s1 - set as" "ok s'" by blast
  have "alloc_n alloc (Suc n) s = Inr (a # as, s')" by (simp add: a r(1))
  moreover have "length (a # as) = Suc n" "distinct (a # as)" "set (a # as) \<subseteq> avail s"
    "avail s' = avail s - set (a # as)" using r p by auto
  ultimately show ?case using r(6) by (intro exI conjI)
qed simp

end

definition free_addrs :: "'a pmm_state_scheme \<Rightarrow> u64 set" where
  "free_addrs s = (\<lambda>b. b * PMM_PAGE_SIZE) ` free_set s"

lemma finite_free_addrs: "finite (free_addrs s)"
  by (simp add: free_addrs_def)

lemma free_addrs_take_page:
  "pmm_inv s \<Longrightarrow> b \<in> free_set s \<Longrightarrow> free_addrs (take_page b s) = free_addrs s - {b * PMM_PAGE_SIZE}"
  using free_set_bound[of s] page_addr_inj by (auto simp: free_addrs_def free_set_take_page)

lemma card_free_addrs: "pmm_inv s \<Longrightarrow> card (free_addrs s) = unat (free_pages s)"
proof -
  assume inv: "pmm_inv s"
  have "inj_on (\<lambda>b. b * PMM_PAGE_SIZE) (free_set s)"
    using free_set_bound[OF inv] page_addr_inj by (auto intro!: inj_onI)
  then show ?thesis using pmm_invD(4)[OF inv] by (simp add: free_addrs_def card_image)
qed

lemma pmm_alloc_page_zero:
  assumes inv: "pmm_inv s" and a: "pmm_alloc_page s = Inr (0, s')"
  shows "free_addrs s = {} \<and> s' = s"
  using inv
proof (cases rule: pmm_alloc_page_cases)
  case (page b)
  then have "b * PMM_PAGE_SIZE = 0" using a by simp
  then show ?thesis using free_set_bound[OF inv page(1)] page_addr_nonzero by blast
qed (use a in \<open>simp add: free_addrs_def\<close>)

lemma pmm_alloc_page_some:
  assumes inv: "pmm_inv s" and a: "pmm_alloc_page s = Inr (a, s')" "a \<noteq> 0"
  obtains b where "b \<in> free_set s" "a = b * PMM_PAGE_SIZE" "s' = take_page b s"
  by (rule pmm_alloc_page_cases[OF inv]) (use a that in auto)

lemma pmm_alloc_page_law:
  assumes inv: "pmm_inv s" and a: "pmm_alloc_page s = Inr (a, s')" "a \<noteq> 0"
  shows "a \<in> free_addrs s \<and> free_addrs s' = free_addrs s - {a} \<and> pmm_inv s'"
proof (cases rule: pmm_alloc_page_some[OF assms])
  case (1 b)
  then show ?thesis using free_addrs_take_page[OF inv 1(1)] take_page_inv[OF inv 1(1)]
    by (simp add: free_addrs_def)
qed

lemma free_addrs_aligned: "pmm_inv s \<Longrightarrow> a \<in> free_addrs s \<Longrightarrow> aligned a \<and> a \<noteq> 0"
  using free_set_bound page_addr_aligned page_addr_nonzero by (auto simp: free_addrs_def)

lemma pmm_alloc_page_total: "pmm_inv s \<Longrightarrow> \<exists>a s'. pmm_alloc_page s = Inr (a, s')"
  by (elim pmm_alloc_page_cases) simp_all

interpretation pmm: page_allocator pmm_inv free_addrs pmm_alloc_page
  by (rule page_allocator.intro)
    (rule finite_free_addrs free_addrs_aligned pmm_alloc_page_total pmm_alloc_page_zero pmm_alloc_page_law; assumption)+

subsection \<open>Properties\<close>

text \<open>C25. \<open>pmm_alloc_page\<close> always returns. It returns NULL exactly when no page is free, and
  then nothing has changed; otherwise the result is a non-null, page-aligned page that was
  free, that page and no other leaves the free set, the counter drops by one, the invariant is
  kept, interrupts are as before, and the only bytes written are bytes of the bitmap, none of
  which lies in the page handed out.\<close>

theorem pmm_alloc_page_spec:
  assumes inv: "pmm_inv s"
  shows "(free_set s = {} \<and> pmm_alloc_page s = Inr (0, s)) \<or>
    (\<exists>b s'. pmm_alloc_page s = Inr (b * PMM_PAGE_SIZE, s') \<and> b \<in> free_set s \<and>
       b * PMM_PAGE_SIZE \<noteq> 0 \<and> aligned (b * PMM_PAGE_SIZE) \<and> pmm_inv s' \<and>
       free_set s' = free_set s - {b} \<and> free_pages s' = free_pages s - 1 \<and>
       rflags_if s' = rflags_if s \<and> pmm_state.more s' = pmm_state.more s \<and>
       (\<forall>a. mem s' a = mem s a \<or> in_bitmap s a \<and> page_of a \<noteq> b * PMM_PAGE_SIZE))"
  using inv
proof (cases rule: pmm_alloc_page_cases)
  case (page b)
  have "mem (take_page b s) a = mem s a \<or> in_bitmap s a \<and> page_of a \<noteq> b * PMM_PAGE_SIZE" for a
    using take_page_mem[OF inv page(1)] free_page_not_bitmap[OF inv page(1)] by blast
  then show ?thesis
    using page take_page_inv[OF inv page(1)] free_set_bound[OF inv page(1)]
    by (intro disjI2 exI[of _ b] exI[of _ "take_page b s"])
      (simp add: page_addr_nonzero page_addr_aligned free_set_take_page)
qed simp

text \<open>C26. As long as enough pages are free, any number of consecutive allocations succeeds and
  yields pairwise distinct pages, all of them free before and none of them free after.\<close>

theorem pmm_alloc_distinct:
  assumes "pmm_inv s" "n \<le> unat (pmm_free_page_count s)"
  shows "\<exists>as s'. alloc_n pmm_alloc_page n s = Inr (as, s') \<and> length as = n \<and> distinct as \<and>
    set as \<subseteq> free_addrs s \<and> free_addrs s' = free_addrs s - set as \<and> pmm_inv s'"
  by (rule pmm.alloc_n_distinct)
    (use assms card_free_addrs[OF assms(1)] in \<open>simp_all add: pmm_free_page_count_def\<close>)

text \<open>C27. \<open>pmm_free_page\<close> panics on an address outside the tracked range and on a page that
  is free already; on any other page it succeeds, exactly that page becomes free, the counter
  grows by one, only bitmap bytes are written, and the invariant is kept when the page is not
  one of the reserved ones.\<close>

theorem pmm_free_page_spec:
  fixes a :: u64
  assumes inv: "pmm_inv s" and b_def: "b = a div PMM_PAGE_SIZE"
  shows "if bitmap_bits s \<le> b
      then pmm_free_page a s = Inl (Panic ''pmm_free_page: address is outside the tracked range'')
    else if b \<in> free_set s
      then pmm_free_page a s = Inl (Panic ''pmm_free_page: double free of page'')
    else \<exists>s'. pmm_free_page a s = Inr s' \<and> free_set s' = insert b (free_set s) \<and>
      unat (free_pages s') = Suc (unat (free_pages s)) \<and>
      (\<forall>x. mem s' x = mem s x \<or> in_bitmap s x) \<and> (pmm_inv s' \<longleftrightarrow> \<not> reserved_page s b)"
proof -
  have "\<exists>s'. pmm_free_page a s = Inr s' \<and> free_set s' = insert b (free_set s) \<and>
      unat (free_pages s') = Suc (unat (free_pages s)) \<and>
      (\<forall>x. mem s' x = mem s x \<or> in_bitmap s x) \<and> (pmm_inv s' \<longleftrightarrow> \<not> reserved_page s b)"
    if b: "b < bitmap_bits s" "b \<notin> free_set s"
  proof -
    obtain s' where s': "pmm_free_page a s = Inr s'" "tracks s (insert b (free_set s)) s'"
      using pmm_free_page_tracks[OF inv, of a] b unfolding b_def by blast
    note d = tracksD[OF s'(2)]
    have "\<not> reserved_page s b" if "pmm_inv s'"
      using not_free_reserved[OF that, of b] d(6,10) by simp
    moreover have "pmm_inv s'" if "\<not> reserved_page s b"
      by (rule tracks_pmm_inv[OF s'(2) inv]) (use that not_free_reserved[OF inv] in auto)
    ultimately show ?thesis using s' d(6,7,8) pmm_invD(4)[OF inv] b(2) by auto
  qed
  then show ?thesis
    using pmm_free_page_cases[OF inv, of a] unfolding b_def[symmetric]
    by (cases "bitmap_bits s \<le> b"; cases "b \<in> free_set s") (simp_all add: not_le)
qed

text \<open>Freeing what was just allocated restores the set of free pages and the count.\<close>

theorem pmm_alloc_free:
  assumes inv: "pmm_inv s" and a: "pmm_alloc_page s = Inr (a, s1)" "a \<noteq> 0"
  shows "\<exists>s2. pmm_free_page a s1 = Inr s2 \<and> free_set s2 = free_set s \<and>
    free_pages s2 = free_pages s \<and> pmm_inv s2"
proof -
  obtain b where b: "b \<in> free_set s" "a = b * PMM_PAGE_SIZE" "s1 = take_page b s"
    using pmm_alloc_page_some[OF assms] by blast
  note inv1 = take_page_inv[OF inv b(1), folded b(3)]
  have ab: "a div PMM_PAGE_SIZE = b" using free_set_bound[OF inv b(1)] b(2) by (simp add: page_addr_div)
  have fs: "free_set s1 = free_set s - {b}" by (simp add: b(3) free_set_take_page)
  obtain s2 where s2: "pmm_free_page a s1 = Inr s2" "tracks s1 (insert b (free_set s1)) s2"
    using pmm_free_page_tracks[OF inv1, of a] b fs unfolding ab by (auto simp: free_set_def)
  note d = tracksD[OF s2(2)]
  have F: "insert b (free_set s1) = free_set s" using fs b(1) by auto
  have r: "reserved_page s1 = reserved_page s"
    by (rule ext, rule reserved_page_cong) (simp_all add: b(3))
  have "pmm_inv s2" by (rule tracks_pmm_inv[OF s2(2) inv1]) (use F r not_free_reserved[OF inv] in auto)
  moreover have "free_pages s2 = free_pages s"
    using d(7) F pmm_invD(4)[OF inv] by (simp add: word_unat_eq_iff)
  ultimately show ?thesis using s2(1) d(6) F by auto
qed

text \<open>\<open>pmm_reserve_region\<close> takes exactly the pages that meet the region out of the free set,
  keeps the count exact, writes only bitmap bytes and keeps the invariant.\<close>

theorem pmm_reserve_region_spec:
  assumes inv: "pmm_inv s" and nowrap: "unat phys + unat sz + 4095 < 2 ^ 64"
  shows "free_set (pmm_reserve_region phys sz s) =
      free_set s - {p. unat phys < (unat p + 1) * 4096 \<and> unat p * 4096 < unat phys + unat sz} \<and>
    pmm_inv (pmm_reserve_region phys sz s) \<and>
    (\<forall>a. mem (pmm_reserve_region phys sz s) a = mem s a \<or> in_bitmap s a)"
proof -
  note t = pmm_reserve_region_tracks[OF inv, of phys sz]
  note d = tracksD[OF t]
  have ar: "phys + sz + PMM_PAGE_SIZE - 1 = phys + sz + 4095" by simp
  have "unat (phys + sz) = unat phys + unat sz" using nowrap by (simp add: unat_add_no_wrap)
  then have e: "unat (phys + sz + PMM_PAGE_SIZE - 1) = unat phys + unat sz + 4095"
    using nowrap unfolding ar by (subst unat_add_no_wrap) simp_all
  have "phys div PMM_PAGE_SIZE \<le> p \<and> p < (phys + sz + PMM_PAGE_SIZE - 1) div PMM_PAGE_SIZE \<longleftrightarrow>
      unat phys < (unat p + 1) * 4096 \<and> unat p * 4096 < unat phys + unat sz" for p :: u64
    unfolding word_le_nat_alt word_less_nat_alt unat_div_distrib e by auto
  then have "free_set (pmm_reserve_region phys sz s) =
      free_set s - {p. unat phys < (unat p + 1) * 4096 \<and> unat p * 4096 < unat phys + unat sz}"
    using d(6) by simp
  moreover have "pmm_inv (pmm_reserve_region phys sz s)"
    by (rule tracks_pmm_inv[OF t inv]) (use not_free_reserved[OF inv] in auto)
  ultimately show ?thesis using d(8) by blast
qed

text \<open>C28. On a memory map as UEFI describes it, with a region that can hold the bitmap,
  \<open>pmm_init\<close> succeeds and establishes the invariant, and exactly the pages of usable
  descriptors that are neither page 0 nor under the bitmap are free.\<close>

theorem pmm_init_spec:
  assumes "pmm_lock s = 0" "memory_map_descriptor_size info \<noteq> 0"
    and "count = unat (memory_map_size info div memory_map_descriptor_size info)"
    and "efi_map_ok (mem s) info count"
    and "bitmap_region (mem s) info count ((highest_addr (mem s) info count div PMM_PAGE_SIZE + 7) div 8) \<noteq> None"
  shows "\<exists>s'. pmm_init info s = Inr s' \<and> pmm_inv s' \<and>
    free_set s' = {p \<in> usable_pages (mem s) info count. \<not> reserved_page s' p}"
  using pmm_init_correct[OF assms(1-4)] assms(5) by blast

text \<open>Writing outside the bitmap does not concern the allocator.\<close>

lemma bitmap_test_frame:
  assumes "bitmap_bits s < 2 ^ 52" "p < bitmap_bits s" "\<And>a. in_bitmap s a \<Longrightarrow> m a = mem s a"
  shows "bitmap_test (s\<lparr>mem := m\<rparr>) p = bitmap_test s p"
  using assms(3)[OF byte_in_bitmap[OF assms(1,2)]] by (simp add: bitmap_test_def)

lemma pmm_inv_frame:
  assumes inv: "pmm_inv s" and m: "\<And>a. in_bitmap s a \<Longrightarrow> m a = mem s a"
  shows "pmm_inv (s\<lparr>mem := m\<rparr>)" "free_set (s\<lparr>mem := m\<rparr>) = free_set s"
proof -
  note t = bitmap_test_frame[OF pmm_inv_words(1)[OF inv] _ m]
  show f: "free_set (s\<lparr>mem := m\<rparr>) = free_set s" using t by (auto simp: free_set_def)
  have "reserved_page (s\<lparr>mem := m\<rparr>) = reserved_page s"
    by (rule ext, rule reserved_page_cong) simp_all
  then show "pmm_inv (s\<lparr>mem := m\<rparr>)" using inv t unfolding pmm_inv_def f by auto
qed

text \<open>The fields of later components do not matter to the page allocator.\<close>

lemma bitmap_test_truncate: "bitmap_test (pmm_state.truncate s) p = bitmap_test s p"
  by (simp add: pmm_state.defs bitmap_test_def)

lemma free_set_truncate: "free_set (pmm_state.truncate s) = free_set s"
  by (simp add: free_set_def bitmap_test_truncate) (simp add: pmm_state.defs)

lemma pmm_inv_truncate: "pmm_inv (pmm_state.truncate s) = pmm_inv s"
  unfolding pmm_inv_def free_set_truncate bitmap_test_truncate
  by (simp add: pmm_state.defs reserved_page_def bitmap_bytes_def)

subsection \<open>Concrete states\<close>

definition pmm_example :: pmm_state where
  "pmm_example = \<lparr>mem = (\<lambda>_. 0)(0x1000 := 3), rflags_if = True, bitmap = 0x1000,
     bitmap_bits = 4, free_pages = 2, search_hint = 1, pmm_lock = 0\<rparr>"

lemma less_4_cases: "(p :: u64) < 4 \<longleftrightarrow> p = 0 \<or> p = 1 \<or> p = 2 \<or> p = 3"
proof
  assume "p < 4"
  then have "unat p < 4" by (simp add: word_less_nat_alt)
  then have "unat p = 0 \<or> unat p = 1 \<or> unat p = 2 \<or> unat p = 3" by linarith
  then show "p = 0 \<or> p = 1 \<or> p = 2 \<or> p = 3" by (simp add: word_unat_eq_iff)
qed auto

lemma pmm_example_simps [simp]:
  "bitmap pmm_example = 0x1000" "bitmap_bits pmm_example = 4" "free_pages pmm_example = 2"
  "search_hint pmm_example = 1" "pmm_lock pmm_example = 0"
  by (simp_all add: pmm_example_def)

lemma pmm_example_test:
  "bitmap_test pmm_example 0" "bitmap_test pmm_example 1" "\<not> bitmap_test pmm_example 2" "\<not> bitmap_test pmm_example 3"
  by (simp_all add: pmm_example_def bitmap_test_def)

lemma pmm_example_free: "free_set pmm_example = {2, 3}"
  using pmm_example_test by (auto simp: free_set_def less_4_cases)

lemma pmm_example_inv: "pmm_inv pmm_example"
proof -
  have r: "reserved_page pmm_example p \<Longrightarrow> p < 4 \<Longrightarrow> p = 0 \<or> p = 1" for p
  proof -
    assume r: "reserved_page pmm_example p" and "p < 4"
    have "page_of (0x1000 + k) = 0x1000" if "unat k < unat (bitmap_bytes pmm_example)" for k
      using that by (intro page_of_in_page) (simp_all add: bitmap_bytes_def page_simps)
    then show ?thesis using r \<open>p < 4\<close> unfolding reserved_page_def
      by (auto simp: less_4_cases)
  qed
  then show ?thesis
    using pmm_example_free pmm_example_test r[of 2] r[of 3] unfolding pmm_inv_def
    by (auto simp: less_4_cases)
qed

text \<open>A memory map with one conventional descriptor: the pages 1, 2 and 3.\<close>

definition map_example :: mem where
  "map_example = (\<lambda>_. 0)(0x10000 := 7, 0x10009 := 0x10, 0x10018 := 3)"

definition boot_example :: boot_info where
  "boot_example = \<lparr>magic = BOOT_INFO_MAGIC, framebuffer = \<lparr>fb_base = 0x80000000, fb_size = 0x300000,
     fb_width = 1024, fb_height = 768, pixels_per_scanline = 1024, bytes_per_pixel = 4,
     red_shift = 16, green_shift = 8, blue_shift = 0\<rparr>,
     memory_map_addr = 0x10000, memory_map_size = 48, memory_map_descriptor_size = 48,
     memory_map_descriptor_version = 1, acpi_rsdp_addr = 0\<rparr>"

lemma desc_at_example:
  "desc_at map_example boot_example 0 = \<lparr>d_type = 7, d_reserved = 0, physical_start = 0x1000,
     virtual_start = 0, number_of_pages = 3, d_attribute = 0\<rparr>"
  by (simp add: desc_at_def boot_example_def map_example_def load32_def load64_def load_le_numeral Let_def)

lemma efi_map_ok_example: "efi_map_ok map_example boot_example 1"
proof -
  have "(memory_map_addr boot_example + of_nat k) div 4096 \<notin> usable_pages map_example boot_example 1" if "k < 40" for k
  proof -
    have "unat (of_nat k :: u64) = k" using that by (intro unat_of_nat_less) simp
    then have "unat ((memory_map_addr boot_example + of_nat k) div 4096) = 16"
      using that by (simp add: boot_example_def unat_div_distrib unat_add_no_wrap)
    then show ?thesis by (auto simp: usable_pages_def desc_pages_def desc_at_example)
  qed
  then show ?thesis
    by (simp add: efi_map_ok_def usable_at_def desc_at_example type_is_usable_def page_simps)
qed

subsection \<open>The properties on concrete states\<close>

theorem pmm_alloc_page_spec_witness:
  "\<exists>b s'. pmm_alloc_page pmm_example = Inr (b * PMM_PAGE_SIZE, s') \<and> b \<in> {2, 3} \<and> pmm_inv s' \<and>
     free_set s' = {2, 3} - {b}"
  using pmm_alloc_page_spec[OF pmm_example_inv]
proof (elim disjE exE conjE)
  fix b s' assume "pmm_alloc_page pmm_example = Inr (b * PMM_PAGE_SIZE, s')" "b \<in> free_set pmm_example"
    "pmm_inv s'" "free_set s' = free_set pmm_example - {b}"
  then show ?thesis unfolding pmm_example_free by (intro exI conjI)
qed (simp add: pmm_example_free)

theorem pmm_alloc_distinct_witness:
  "\<exists>as s'. alloc_n pmm_alloc_page 2 pmm_example = Inr (as, s') \<and> distinct as \<and> length as = 2 \<and> free_addrs s' = free_addrs pmm_example - set as"
proof -
  have "2 \<le> unat (pmm_free_page_count pmm_example)" by (simp add: pmm_free_page_count_def)
  from pmm_alloc_distinct[OF pmm_example_inv this] show ?thesis by blast
qed

theorem pmm_free_page_spec_witness:
  "pmm_free_page 0x2000 pmm_example = Inl (Panic ''pmm_free_page: double free of page'') \<and>
   pmm_free_page 0x5000 pmm_example = Inl (Panic ''pmm_free_page: address is outside the tracked range'') \<and>
   (\<exists>s'. pmm_free_page 0x1000 pmm_example = Inr s' \<and> free_set s' = {1, 2, 3})"
proof (intro conjI)
  show "pmm_free_page 0x2000 pmm_example = Inl (Panic ''pmm_free_page: double free of page'')"
    using pmm_free_page_spec[where a = "0x2000", OF pmm_example_inv refl] by (simp add: pmm_example_free)
  show "pmm_free_page 0x5000 pmm_example = Inl (Panic ''pmm_free_page: address is outside the tracked range'')"
    using pmm_free_page_spec[where a = "0x5000", OF pmm_example_inv refl] by simp
  show "\<exists>s'. pmm_free_page 0x1000 pmm_example = Inr s' \<and> free_set s' = {1, 2, 3}"
    using pmm_free_page_spec[where a = "0x1000" and b = 1, OF pmm_example_inv]
    by (auto simp: pmm_example_free word_le_nat_alt)
qed

theorem pmm_alloc_free_witness:
  "\<exists>a s1 s2. pmm_alloc_page pmm_example = Inr (a, s1) \<and> pmm_free_page a s1 = Inr s2 \<and> free_set s2 = {2, 3}"
proof -
  obtain a s1 where a: "pmm_alloc_page pmm_example = Inr (a, s1)" "a \<noteq> 0"
    using pmm.alloc_nonempty[OF pmm_example_inv] unfolding free_addrs_def pmm_example_free by blast
  show ?thesis using pmm_alloc_free[OF pmm_example_inv a] a(1) unfolding pmm_example_free by blast
qed

theorem pmm_reserve_region_spec_witness:
  "free_set (pmm_reserve_region 0x2800 0x100 pmm_example) = {3} \<and> pmm_inv (pmm_reserve_region 0x2800 0x100 pmm_example)"
proof -
  have "unat (2 :: u64) = 2" "unat (3 :: u64) = 3" by simp_all
  then have "{2, 3} - {p :: u64. 0x2800 < (unat p + 1) * 4096 \<and> unat p * 4096 < 0x2900} = {3}" by auto
  then show ?thesis
    using pmm_reserve_region_spec[where phys = "0x2800" and sz = "0x100", OF pmm_example_inv] by (simp add: pmm_example_free)
qed

theorem pmm_init_spec_witness:
  "\<exists>s'. pmm_init boot_example (pmm_example\<lparr>mem := map_example\<rparr>) = Inr s' \<and> pmm_inv s' \<and>
     free_set s' = {p \<in> {1, 2, 3}. \<not> reserved_page s' p}"
proof -
  have "desc_pages (desc_at map_example boot_example 0) = {1, 2, 3}"
    using less_4_cases by (auto simp: desc_pages_def desc_at_example word_less_nat_alt)
  then have U: "usable_pages map_example boot_example 1 = {1, 2, 3}"
    by (auto simp: usable_pages_def usable_at_def desc_at_example type_is_usable_def)
  have "bitmap_region map_example boot_example 1 ((highest_addr map_example boot_example 1 div PMM_PAGE_SIZE + 7) div 8) \<noteq> None"
    by (simp add: bitmap_region_def highest_addr_def desc_at_example type_is_usable_def)
  then show ?thesis
    using pmm_init_spec[of "pmm_example\<lparr>mem := map_example\<rparr>" boot_example 1] efi_map_ok_example U
    by (simp add: boot_example_def)
qed

end
