(* ===== verification/Vmm.thy ===== *)
theory Vmm
  imports Pmm
begin

section \<open>Virtual memory (kernel/src/vmm.c, kernel/include/vmm.h)\<close>

text \<open>
  Page tables are pages of the machine's memory, 512 little-endian words each, reached at their
  physical address (the kernel maps the low 4 GiB one to one). The state adds the kernel's root
  table, the register CR3 and the EFER register. \<open>walk_to_leaf\<close> returns the address of the leaf
  entry, 0 for NULL. The block "allocate the table when the entry is not present", which
  \<open>vmm_map_page\<close> has three times, is \<open>ensure_table\<close>. The TLB is not modelled.
\<close>

record vmm_state = pmm_state +
  kernel_pml4 :: u64
  cr3 :: u64
  efer :: u64

abbreviation PAGE_PRESENT :: u64 where "PAGE_PRESENT \<equiv> 0x1"
abbreviation PAGE_WRITABLE :: u64 where "PAGE_WRITABLE \<equiv> 0x2"
abbreviation PAGE_USER :: u64 where "PAGE_USER \<equiv> 0x4"
abbreviation PAGE_HUGE :: u64 where "PAGE_HUGE \<equiv> 0x80"
abbreviation PAGE_NX :: u64 where "PAGE_NX \<equiv> 0x8000000000000000"
abbreviation EFER_NXE :: u64 where "EFER_NXE \<equiv> 0x800"
abbreviation HUGE_PAGE_SIZE :: u64 where "HUGE_PAGE_SIZE \<equiv> 0x200000"
abbreviation GIB :: u64 where "GIB \<equiv> 0x40000000"
abbreviation KERNEL_EXEC_LIMIT :: u64 where "KERNEL_EXEC_LIMIT \<equiv> 0x400000"
abbreviation PROCESS_PRIVATE_VADDR :: u64 where "PROCESS_PRIVATE_VADDR \<equiv> 0x8000000000"
abbreviation VMM_MAP_WRITE :: u32 where "VMM_MAP_WRITE \<equiv> 0x1"
abbreviation VMM_MAP_EXEC :: u32 where "VMM_MAP_EXEC \<equiv> 0x2"

subsection \<open>Table entries\<close>

definition get_entry :: "mem \<Rightarrow> u64 \<Rightarrow> u64 \<Rightarrow> u64" where
  "get_entry m t i = load64 m (entry_addr t i)"

definition set_entry :: "u64 \<Rightarrow> u64 \<Rightarrow> u64 \<Rightarrow> 'a vmm_state_scheme \<Rightarrow> 'a vmm_state_scheme" where
  "set_entry t i v s = s\<lparr>mem := store64 (entry_addr t i) v (mem s)\<rparr>"

definition TABLE_ADDR :: "u64 \<Rightarrow> u64" where
  "TABLE_ADDR e = e AND NOT 0xFFF"

definition pml4_idx :: "u64 \<Rightarrow> u64" where "pml4_idx va = drop_bit 39 va AND 0x1FF"
definition pdpt_idx :: "u64 \<Rightarrow> u64" where "pdpt_idx va = drop_bit 30 va AND 0x1FF"
definition pd_idx :: "u64 \<Rightarrow> u64" where "pd_idx va = drop_bit 21 va AND 0x1FF"
definition pt_idx :: "u64 \<Rightarrow> u64" where "pt_idx va = drop_bit 12 va AND 0x1FF"

definition alloc_table :: "'a vmm_state_scheme \<Rightarrow> (u64 \<times> 'a vmm_state_scheme) res" where
  "alloc_table s =
     rbind (pmm_alloc_page s) (\<lambda>(page, s).
     if page = 0 then Inl (Panic ''vmm: out of physical memory while building page tables'')
     else Inr (page, s\<lparr>mem := memset page 0 PMM_PAGE_SIZE (mem s)\<rparr>))"

subsection \<open>\<open>vmm_init\<close>\<close>

definition identity_leaf :: "u64 \<Rightarrow> u64" where
  "identity_leaf phys =
     phys OR (PAGE_PRESENT OR PAGE_WRITABLE OR PAGE_HUGE OR
       (if phys < KERNEL_EXEC_LIMIT then PAGE_USER else PAGE_NX))"

definition map_gib :: "u64 \<Rightarrow> nat \<Rightarrow> 'a vmm_state_scheme \<Rightarrow> 'a vmm_state_scheme res" where
  "map_gib pdpt gib s =
     rbind (alloc_table s) (\<lambda>(pd, s).
     let s = set_entry pdpt (of_nat gib) (pd OR PAGE_PRESENT OR PAGE_WRITABLE OR PAGE_USER) s
     in Inr (fold (\<lambda>i. set_entry pd (of_nat i)
          (identity_leaf (of_nat gib * GIB + of_nat i * HUGE_PAGE_SIZE))) [0..<512] s))"

definition vmm_init :: "'a vmm_state_scheme \<Rightarrow> 'a vmm_state_scheme res" where
  "vmm_init s =
     (let s = s\<lparr>efer := efer s OR EFER_NXE\<rparr> in
      rbind (alloc_table s) (\<lambda>(pml4, s).
      rbind (alloc_table s) (\<lambda>(pdpt, s).
      let s = set_entry pml4 0 (pdpt OR PAGE_PRESENT OR PAGE_WRITABLE OR PAGE_USER) s in
      rbind (rfold (map_gib pdpt) [0..<4] s) (\<lambda>s.
      Inr (s\<lparr>kernel_pml4 := pml4, cr3 := pml4\<rparr>)))))"

definition vmm_kernel_cr3 :: "'a vmm_state_scheme \<Rightarrow> u64" where
  "vmm_kernel_cr3 s = kernel_pml4 s"

definition vmm_load_cr3 :: "u64 \<Rightarrow> 'a vmm_state_scheme \<Rightarrow> 'a vmm_state_scheme" where
  "vmm_load_cr3 phys s = s\<lparr>cr3 := phys\<rparr>"

definition vmm_current_cr3 :: "'a vmm_state_scheme \<Rightarrow> u64" where
  "vmm_current_cr3 s = cr3 s"

subsection \<open>Address spaces\<close>

definition vmm_create_address_space :: "'a vmm_state_scheme \<Rightarrow> (u64 \<times> 'a vmm_state_scheme) res" where
  "vmm_create_address_space s =
     rbind (alloc_table s) (\<lambda>(pml4, s).
     let s = set_entry pml4 0 (get_entry (mem s) (kernel_pml4 s) 0) s in
     rbind (alloc_table s) (\<lambda>(pdpt, s).
     rbind (alloc_table s) (\<lambda>(pd, s).
     rbind (alloc_table s) (\<lambda>(pt, s).
     rbind (pmm_alloc_page s) (\<lambda>(private_page, s).
     if private_page = 0
     then Inl (Panic ''vmm_create_address_space: out of physical memory for the private page'')
     else
       let s = s\<lparr>mem := memset private_page 0 PMM_PAGE_SIZE (mem s)\<rparr>;
           flags = PAGE_PRESENT OR PAGE_WRITABLE OR PAGE_USER;
           s = set_entry pt 0 (private_page OR flags) s;
           s = set_entry pd 0 (pt OR flags) s;
           s = set_entry pdpt 0 (pd OR flags) s;
           s = set_entry pml4 1 (pdpt OR flags) s
       in Inr (pml4, s))))))"

definition ensure_table :: "u64 \<Rightarrow> u64 \<Rightarrow> 'a vmm_state_scheme \<Rightarrow> (u64 \<times> 'a vmm_state_scheme) res" where
  "ensure_table t i s =
     rbind (if get_entry (mem s) t i AND PAGE_PRESENT = 0
            then rbind (alloc_table s) (\<lambda>(n, s).
              Inr (set_entry t i (n OR PAGE_PRESENT OR PAGE_WRITABLE OR PAGE_USER) s))
            else Inr s)
       (\<lambda>s. Inr (TABLE_ADDR (get_entry (mem s) t i), s))"

definition leaf_pte :: "u64 \<Rightarrow> u32 \<Rightarrow> u64" where
  "leaf_pte paddr flags =
     (let leaf_flags = PAGE_PRESENT OR PAGE_USER;
          leaf_flags = (if flags AND VMM_MAP_WRITE \<noteq> 0 then leaf_flags OR PAGE_WRITABLE else leaf_flags);
          leaf_flags = (if flags AND VMM_MAP_EXEC = 0 then leaf_flags OR PAGE_NX else leaf_flags)
      in TABLE_ADDR paddr OR leaf_flags)"

definition vmm_map_page ::
  "u64 \<Rightarrow> u64 \<Rightarrow> u64 \<Rightarrow> u32 \<Rightarrow> 'a vmm_state_scheme \<Rightarrow> 'a vmm_state_scheme res" where
  "vmm_map_page pml4 vaddr paddr flags s =
     (if pml4_idx vaddr = 0
      then Inl (Panic ''vmm_map_page: refusing to map into PML4[0] (the shared kernel mapping)'')
      else
        rbind (ensure_table pml4 (pml4_idx vaddr) s) (\<lambda>(pdpt, s).
        rbind (ensure_table pdpt (pdpt_idx vaddr) s) (\<lambda>(pd, s).
        rbind (ensure_table pd (pd_idx vaddr) s) (\<lambda>(pt, s).
        Inr (set_entry pt (pt_idx vaddr) (leaf_pte paddr flags) s)))))"

subsection \<open>Walking\<close>

definition walk_to_leaf :: "mem \<Rightarrow> u64 \<Rightarrow> u64 \<Rightarrow> u64" where
  "walk_to_leaf m pml4 vaddr =
     (let e4 = get_entry m pml4 (pml4_idx vaddr) in
      if e4 AND PAGE_PRESENT = 0 then 0 else
      let pdpt = TABLE_ADDR e4; e3 = get_entry m pdpt (pdpt_idx vaddr) in
      if e3 AND PAGE_PRESENT = 0 then 0 else
      let pd = TABLE_ADDR e3; e2 = get_entry m pd (pd_idx vaddr) in
      if e2 AND PAGE_PRESENT = 0 then 0 else
      if e2 AND PAGE_HUGE \<noteq> 0 then entry_addr pd (pd_idx vaddr) else
      let pt = TABLE_ADDR e2; e1 = get_entry m pt (pt_idx vaddr) in
      if e1 AND PAGE_PRESENT = 0 then 0 else entry_addr pt (pt_idx vaddr))"

definition vmm_page_present :: "u64 \<Rightarrow> u64 \<Rightarrow> 'a vmm_state_scheme \<Rightarrow> bool" where
  "vmm_page_present pml4 vaddr s \<longleftrightarrow> walk_to_leaf (mem s) pml4 vaddr \<noteq> 0"

definition page_allowed :: "mem \<Rightarrow> u64 \<Rightarrow> bool \<Rightarrow> u64 \<Rightarrow> bool" where
  "page_allowed m pml4 need_write page \<longleftrightarrow>
     (let leaf = walk_to_leaf m pml4 page in
      \<not> (leaf = 0 \<or> load64 m leaf AND PAGE_USER = 0) \<and>
      \<not> (need_write \<and> load64 m leaf AND PAGE_WRITABLE = 0))"

text \<open>The loop counter is a 64-bit word: near the top of the address space it wraps, so the loop
  is a partial function.\<close>

partial_function (option) check_pages :: "mem \<Rightarrow> u64 \<Rightarrow> bool \<Rightarrow> u64 \<Rightarrow> u64 \<Rightarrow> bool option" where
  "check_pages m pml4 need_write page stop =
     (if page < stop
      then if page_allowed m pml4 need_write page
        then check_pages m pml4 need_write (page + PMM_PAGE_SIZE) stop
        else Some False
      else Some True)"

definition vmm_check_range ::
  "u64 \<Rightarrow> u64 \<Rightarrow> u64 \<Rightarrow> bool \<Rightarrow> 'a vmm_state_scheme \<Rightarrow> bool res" where
  "vmm_check_range pml4 vaddr len need_write s =
     (if len = 0 then Inr True
      else if vaddr + len < vaddr then Inr False
      else case check_pages (mem s) pml4 need_write (vaddr AND NOT 0xFFF) (vaddr + len) of
        None \<Rightarrow> Inl Hang | Some b \<Rightarrow> Inr b)"

subsection \<open>Entries and flags\<close>

abbreviation present :: "u64 \<Rightarrow> bool" where "present e \<equiv> e AND PAGE_PRESENT \<noteq> 0"

lemma idx_less [simp]:
  "unat (pml4_idx va) < 512" "unat (pdpt_idx va) < 512" "unat (pd_idx va) < 512" "unat (pt_idx va) < 512"
proof -
  have "unat (x AND 0x1FF :: u64) < 512" for x
  proof -
    have "x AND 0x1FF \<le> 0x1FF" by (rule word_and_le1)
    then have "unat (x AND 0x1FF) \<le> 0x1FF" by (simp add: word_le_nat_alt)
    then show ?thesis by simp
  qed
  then show "unat (pml4_idx va) < 512" "unat (pdpt_idx va) < 512" "unat (pd_idx va) < 512" "unat (pt_idx va) < 512"
    by (simp_all add: pml4_idx_def pdpt_idx_def pd_idx_def pt_idx_def)
qed

lemma get_entry_set_same [simp]: "get_entry (store64 (entry_addr t i) v m) t i = v"
  by (simp add: get_entry_def)

lemma get_entry_set_other:
  "aligned t \<Longrightarrow> aligned t' \<Longrightarrow> unat i < 512 \<Longrightarrow> unat j < 512 \<Longrightarrow> (t', j) \<noteq> (t, i) \<Longrightarrow>
   get_entry (store64 (entry_addr t i) v m) t' j = get_entry m t' j"
  unfolding get_entry_def
  by (cases "t' = t") (auto simp: load64_store64_other_page load64_store64_other_index)

lemma store_entry_page:
  assumes "aligned t" "unat i < 512" "page_of a \<noteq> t"
  shows "store64 (entry_addr t i) v m a = m a"
proof -
  have "\<not> unat (a - entry_addr t i) < 8"
    using page_of_entry[OF assms(1,2), of "a - entry_addr t i"] assms(3) by auto
  then show ?thesis by (simp add: mem_simps)
qed

lemma get_entry_page_cong:
  "aligned t \<Longrightarrow> unat i < 512 \<Longrightarrow> (\<And>x. page_of x = t \<Longrightarrow> m' x = m x) \<Longrightarrow> get_entry m' t i = get_entry m t i"
  unfolding get_entry_def by (rule load64_page_cong)

lemma aligned_bit: "aligned t \<Longrightarrow> k < 12 \<Longrightarrow> \<not> bit t k"
proof -
  assume "aligned t" "k < 12"
  then have "\<not> bit (t AND 0xFFF) k" by (simp add: aligned_def)
  moreover have "bit (0xFFF :: u64) k" using \<open>k < 12\<close> by (simp add: mask12 bit_simps)
  ultimately show ?thesis by (simp add: bit_simps)
qed

lemma flag_bits:
  "(e :: u64) AND PAGE_PRESENT = 0 \<longleftrightarrow> \<not> bit e 0" "e AND PAGE_WRITABLE = 0 \<longleftrightarrow> \<not> bit e 1"
  "e AND PAGE_USER = 0 \<longleftrightarrow> \<not> bit e 2" "e AND PAGE_HUGE = 0 \<longleftrightarrow> \<not> bit e 7"
  using and_exp_eq_0_iff_not_bit[of e 0] and_exp_eq_0_iff_not_bit[of e 1]
    and_exp_eq_0_iff_not_bit[of e 2] and_exp_eq_0_iff_not_bit[of e 7] by simp_all

lemma bit_flags7: "bit (PAGE_PRESENT OR PAGE_WRITABLE OR PAGE_USER) k \<longleftrightarrow> k < 3"
proof -
  have "PAGE_PRESENT OR PAGE_WRITABLE OR PAGE_USER = mask 3" by (simp add: mask_eq_exp_minus_1)
  then show ?thesis by (simp only: bit_mask_iff) auto
qed

lemma table_entry:
  assumes "aligned n"
  shows "TABLE_ADDR (n OR PAGE_PRESENT OR PAGE_WRITABLE OR PAGE_USER) = n"
    "present (n OR PAGE_PRESENT OR PAGE_WRITABLE OR PAGE_USER)"
    "(n OR PAGE_PRESENT OR PAGE_WRITABLE OR PAGE_USER) AND PAGE_HUGE = 0"
proof -
  have b: "bit (n OR PAGE_PRESENT OR PAGE_WRITABLE OR PAGE_USER) k \<longleftrightarrow> bit n k \<or> k < 3" for k
    by (simp only: bit_or_iff[of n] bit_flags7)
  show "present (n OR PAGE_PRESENT OR PAGE_WRITABLE OR PAGE_USER)" unfolding flag_bits b by simp
  show "(n OR PAGE_PRESENT OR PAGE_WRITABLE OR PAGE_USER) AND PAGE_HUGE = 0"
    unfolding flag_bits b using aligned_bit[OF assms, of 7] by simp
  show "TABLE_ADDR (n OR PAGE_PRESENT OR PAGE_WRITABLE OR PAGE_USER) = n"
    unfolding TABLE_ADDR_def mask12
  proof (rule bit_word_eqI)
    fix k assume "k < LENGTH(64)"
    then show "bit ((n OR PAGE_PRESENT OR PAGE_WRITABLE OR PAGE_USER) AND NOT (mask 12)) k = bit n k"
      using b[of k] aligned_bit[OF assms, of k] by (auto simp: bit_and_iff bit_not_iff bit_mask_iff)
  qed
qed

subsection \<open>Allocating a table\<close>

definition used_page :: "'a vmm_state_scheme \<Rightarrow> u64 \<Rightarrow> bool" where
  "used_page s t \<longleftrightarrow> aligned t \<and> t \<noteq> 0 \<and> t div PMM_PAGE_SIZE \<notin> free_set s \<and>
     (\<forall>a. page_of a = t \<longrightarrow> \<not> in_bitmap s a)"

text \<open>The outcome of taking a page and clearing it.\<close>

definition fresh_page :: "'a vmm_state_scheme \<Rightarrow> u64 \<Rightarrow> 'a vmm_state_scheme \<Rightarrow> bool" where
  "fresh_page s p s' \<longleftrightarrow> (\<exists>b \<in> free_set s. p = b * PMM_PAGE_SIZE \<and> free_set s' = free_set s - {b}) \<and>
     pmm_inv s' \<and> in_bitmap s' = in_bitmap s \<and> used_page s' p \<and>
     vmm_state.more s' = vmm_state.more s \<and> kernel_pml4 s' = kernel_pml4 s \<and> cr3 s' = cr3 s \<and> efer s' = efer s \<and>
     rflags_if s' = rflags_if s \<and> bitmap_bits s' = bitmap_bits s \<and>
     (\<forall>a. page_of a = p \<longrightarrow> mem s' a = 0) \<and>
     (\<forall>a. page_of a \<noteq> p \<longrightarrow> \<not> in_bitmap s a \<longrightarrow> mem s' a = mem s a)"

lemma clear_fresh_page:
  assumes inv: "pmm_inv s" and b: "b \<in> free_set s" and p: "p = b * PMM_PAGE_SIZE"
  shows "fresh_page s p ((take_page b s)\<lparr>mem := memset p 0 PMM_PAGE_SIZE (mem (take_page b s))\<rparr>)"
    (is "fresh_page s p (?t\<lparr>mem := ?m\<rparr>)")
proof -
  note bb = free_set_bound[OF inv b]
  have al: "aligned p" "p \<noteq> 0" "p div PMM_PAGE_SIZE = b"
    using bb p by (simp_all add: page_addr_aligned page_addr_nonzero page_addr_div)
  have nb: "\<not> in_bitmap s a" if "page_of a = p" for a using free_page_not_bitmap[OF inv b] that p by blast
  have m: "?m a = (if page_of a = p then 0 else mem ?t a)" for a
    using in_page_iff[OF al(1), of a] by (simp add: memset_apply)
  note fr = pmm_inv_frame[OF take_page_inv[OF inv b], of ?m]
  have "?m a = mem ?t a" if "in_bitmap ?t a" for a using nb that m by auto
  then have f: "pmm_inv (?t\<lparr>mem := ?m\<rparr>)" "free_set (?t\<lparr>mem := ?m\<rparr>) = free_set s - {b}"
    using fr by (simp_all add: free_set_take_page)
  have ib: "in_bitmap (?t\<lparr>mem := ?m\<rparr>) = in_bitmap s"
    by (simp add: fun_eq_iff in_bitmap_def bitmap_bytes_def)
  have v: "vmm_state.more ?t = vmm_state.more s" "kernel_pml4 ?t = kernel_pml4 s" "cr3 ?t = cr3 s" "efer ?t = efer s"
    by (simp_all add: take_page_def bitmap_set_def)
  show ?thesis
    unfolding fresh_page_def used_page_def ib
    using f v m al nb b p take_page_mem[OF inv b] by auto
qed

lemma alloc_table_cases:
  assumes inv: "pmm_inv s"
  obtains (full) "free_set s = {}"
      "alloc_table s = Inl (Panic ''vmm: out of physical memory while building page tables'')"
  | (table) p s' where "alloc_table s = Inr (p, s')" "fresh_page s p s'"
  using inv
proof (cases rule: pmm_alloc_page_cases)
  case full
  then show ?thesis using that(1) by (simp add: alloc_table_def)
next
  case (page b)
  have "b * PMM_PAGE_SIZE \<noteq> 0" using free_set_bound[OF inv page(1)] by (simp add: page_addr_nonzero)
  then show ?thesis using that(2) clear_fresh_page[OF inv page(1) refl] page(2) by (simp add: alloc_table_def)
qed

subsection \<open>Trees of tables\<close>

text \<open>
  The shape of the user half of all address spaces. Every table has a level (4 for a root, 1 for
  a table of leaves, 0 for a page that is no table) and every table below a root has one slot it
  hangs from. Slot 0 of a root belongs to the kernel mapping and is left out.
\<close>

definition user_slot :: "(u64 \<Rightarrow> nat) \<Rightarrow> u64 \<Rightarrow> u64 \<Rightarrow> bool" where
  "user_slot lvl t i \<longleftrightarrow> 2 \<le> lvl t \<and> unat i < 512 \<and> (lvl t = 4 \<longrightarrow> i \<noteq> 0)"

definition vm_tree :: "'a vmm_state_scheme \<Rightarrow> (u64 \<Rightarrow> nat) \<Rightarrow> (u64 \<Rightarrow> u64 \<times> u64) \<Rightarrow> bool" where
  "vm_tree s lvl par \<longleftrightarrow> pmm_inv s \<and> (\<forall>t. lvl t \<noteq> 0 \<longrightarrow> used_page s t) \<and>
     (\<forall>t i. user_slot lvl t i \<longrightarrow> present (get_entry (mem s) t i) \<longrightarrow>
        (let c = TABLE_ADDR (get_entry (mem s) t i) in
         lvl c = lvl t - 1 \<and> par c = (t, i) \<and> get_entry (mem s) t i AND PAGE_HUGE = 0))"

lemma vm_treeD:
  assumes "vm_tree s lvl par"
  shows "pmm_inv s" "lvl t \<noteq> 0 \<Longrightarrow> used_page s t"
    "user_slot lvl t i \<Longrightarrow> present (get_entry (mem s) t i) \<Longrightarrow>
      lvl (TABLE_ADDR (get_entry (mem s) t i)) = lvl t - 1 \<and>
      par (TABLE_ADDR (get_entry (mem s) t i)) = (t, i) \<and> get_entry (mem s) t i AND PAGE_HUGE = 0"
  using assms unfolding vm_tree_def Let_def by blast+

lemma used_pageD: "used_page s t \<Longrightarrow> aligned t" "used_page s t \<Longrightarrow> t \<noteq> 0"
  "used_page s t \<Longrightarrow> page_of a = t \<Longrightarrow> \<not> in_bitmap s a"
  by (auto simp: used_page_def)

lemma fresh_pageD:
  assumes "fresh_page s p s'"
  shows "pmm_inv s'" "used_page s' p" "in_bitmap s' = in_bitmap s" "\<And>t. used_page s t \<Longrightarrow> used_page s' t \<and> t \<noteq> p"
    "\<And>a. page_of a \<noteq> p \<Longrightarrow> \<not> in_bitmap s a \<Longrightarrow> mem s' a = mem s a"
proof -
  obtain b where b: "b \<in> free_set s" "p = b * PMM_PAGE_SIZE" "free_set s' = free_set s - {b}"
    using assms by (auto simp: fresh_page_def)
  show "used_page s' t \<and> t \<noteq> p" if u: "used_page s t" for t
  proof -
    have "t div PMM_PAGE_SIZE \<notin> free_set s" using u by (simp add: used_page_def)
    moreover have "used_page s' p" "in_bitmap s' = in_bitmap s" using assms by (simp_all add: fresh_page_def)
    moreover have "p div PMM_PAGE_SIZE \<in> free_set s"
    proof -
      have "bitmap_bits s < 2 ^ 52" using assms pmm_inv_words(1)[of s'] by (auto simp: fresh_page_def)
      then have "unat b < 2 ^ 52" using b(1) by (simp add: free_set_def word_less_nat_alt)
      then show ?thesis using b(1) by (simp add: b(2) page_addr_div)
    qed
    ultimately show ?thesis using u b by (auto simp: used_page_def)
  qed
qed (use assms in \<open>simp_all add: fresh_page_def\<close>)

lemma fresh_page_entries:
  assumes "fresh_page s p s'"
  shows "unat i < 512 \<Longrightarrow> get_entry (mem s') p i = 0"
    "used_page s t \<Longrightarrow> unat i < 512 \<Longrightarrow> get_entry (mem s') t i = get_entry (mem s) t i"
proof -
  note f = fresh_pageD[OF assms]
  have z: "mem s' a = 0" if "page_of a = p" for a using assms that by (simp add: fresh_page_def)
  show "get_entry (mem s') p i = 0" if "unat i < 512"
  proof -
    have "get_entry (mem s') p i = get_entry (\<lambda>_. 0) p i"
      using used_pageD(1)[OF f(2)] that z by (intro get_entry_page_cong) simp_all
    also have "\<dots> = 0" by (simp add: get_entry_def load64_def load_le_numeral)
    finally show ?thesis .
  qed
  show "get_entry (mem s') t i = get_entry (mem s) t i" if "used_page s t" "unat i < 512"
    using that f(4)[OF that(1)] f(5) used_pageD[OF that(1)] by (intro get_entry_page_cong) auto
qed

lemma tree_add_table:
  assumes T: "vm_tree s lvl par" and F: "fresh_page s p s'"
  shows "vm_tree s' (lvl(p := n)) (par(p := q))" "lvl p = 0"
proof -
  note f = fresh_pageD[OF F] and e = fresh_page_entries[OF F] and d = vm_treeD[OF T]
  show p0: "lvl p = 0" using f(4)[OF d(2), of p] by auto
  have U: "used_page s' t" if "(lvl(p := n)) t \<noteq> 0" for t
    using that f(2) f(4)[OF d(2)] by (cases "t = p") auto
  have E: "lvl (TABLE_ADDR (get_entry (mem s') t i)) = lvl t - 1 \<and>
      par (TABLE_ADDR (get_entry (mem s') t i)) = (t, i) \<and> get_entry (mem s') t i AND PAGE_HUGE = 0 \<and>
      TABLE_ADDR (get_entry (mem s') t i) \<noteq> p \<and> t \<noteq> p"
    if u: "user_slot (lvl(p := n)) t i" and pr: "present (get_entry (mem s') t i)" for t i
  proof -
    have "t \<noteq> p" using pr e(1) u by (auto simp: user_slot_def)
    then have u': "user_slot lvl t i" "used_page s t" using u d(2) by (auto simp: user_slot_def)
    then have "get_entry (mem s') t i = get_entry (mem s) t i" using e(2) by (simp add: user_slot_def)
    then show ?thesis using d(3)[OF u'(1)] pr p0 u'(1) \<open>t \<noteq> p\<close> by (auto simp: user_slot_def)
  qed
  show "vm_tree s' (lvl(p := n)) (par(p := q))"
    unfolding vm_tree_def Let_def using f(1) U E by auto
qed

lemma set_entry_mem [simp]: "mem (set_entry t i v s) = store64 (entry_addr t i) v (mem s)"
  by (simp add: set_entry_def)

lemma set_entry_frame:
  assumes inv: "pmm_inv s" and u: "used_page s t" and i: "unat i < 512"
  shows "pmm_inv (set_entry t i v s)" "free_set (set_entry t i v s) = free_set s"
    "in_bitmap (set_entry t i v s) = in_bitmap s" "used_page (set_entry t i v s) = used_page s"
    "page_of a \<noteq> t \<Longrightarrow> mem (set_entry t i v s) a = mem s a"
proof -
  have m: "store64 (entry_addr t i) v (mem s) a = mem s a" if "in_bitmap s a" for a
    using store_entry_page[OF used_pageD(1)[OF u] i] used_pageD(3)[OF u] that by blast
  show "pmm_inv (set_entry t i v s)" and f: "free_set (set_entry t i v s) = free_set s"
    unfolding set_entry_def by (rule pmm_inv_frame[OF inv m]; assumption)+
  show b: "in_bitmap (set_entry t i v s) = in_bitmap s"
    by (simp add: fun_eq_iff set_entry_def in_bitmap_def bitmap_bytes_def)
  show "used_page (set_entry t i v s) = used_page s" by (simp add: fun_eq_iff used_page_def f b)
  show "page_of a \<noteq> t \<Longrightarrow> mem (set_entry t i v s) a = mem s a"
    using store_entry_page[OF used_pageD(1)[OF u] i] by simp
qed

lemma get_set_entry:
  assumes "used_page s t" "unat i < 512" "used_page s t'" "unat j < 512"
  shows "get_entry (mem (set_entry t i v s)) t' j = (if (t', j) = (t, i) then v else get_entry (mem s) t' j)"
  using assms get_entry_set_other[of t t' i j] used_pageD(1) by (cases "(t', j) = (t, i)") auto

lemma tree_set_entry:
  assumes T: "vm_tree s lvl par" and u: "used_page s t" and i: "unat i < 512"
    and v: "user_slot lvl t i \<Longrightarrow> present v \<Longrightarrow>
      lvl (TABLE_ADDR v) = lvl t - 1 \<and> par (TABLE_ADDR v) = (t, i) \<and> v AND PAGE_HUGE = 0"
  shows "vm_tree (set_entry t i v s) lvl par"
proof -
  note d = vm_treeD[OF T] and f = set_entry_frame[OF vm_treeD(1)[OF T] u i]
  have E: "lvl (TABLE_ADDR (get_entry (mem (set_entry t i v s)) t' j)) = lvl t' - 1 \<and>
      par (TABLE_ADDR (get_entry (mem (set_entry t i v s)) t' j)) = (t', j) \<and>
      get_entry (mem (set_entry t i v s)) t' j AND PAGE_HUGE = 0"
    if us: "user_slot lvl t' j" and pr: "present (get_entry (mem (set_entry t i v s)) t' j)" for t' j
  proof -
    have t': "used_page s t'" "unat j < 512" using us d(2) by (auto simp: user_slot_def)
    show ?thesis using get_set_entry[OF u i t'] d(3)[OF us] v us pr by (auto split: if_splits)
  qed
  show ?thesis unfolding vm_tree_def Let_def f(4) using f(1) d(2) E by blast
qed

subsection \<open>Following a path of indices\<close>

primrec descend :: "mem \<Rightarrow> u64 \<Rightarrow> u64 list \<Rightarrow> u64 option" where
  "descend m t [] = Some t"
| "descend m t (i # p) =
     (if present (get_entry m t i) then descend m (TABLE_ADDR (get_entry m t i)) p else None)"

definition lookup :: "mem \<Rightarrow> u64 \<Rightarrow> u64 list \<Rightarrow> u64 \<Rightarrow> u64 option" where
  "lookup m t p j = (case descend m t p of None \<Rightarrow> None
     | Some c \<Rightarrow> if present (get_entry m c j) then Some (get_entry m c j) else None)"

lemma lookup_simps [simp]:
  "lookup m t [] j = (if present (get_entry m t j) then Some (get_entry m t j) else None)"
  "lookup m t (i # p) j =
     (if present (get_entry m t i) then lookup m (TABLE_ADDR (get_entry m t i)) p j else None)"
  by (simp_all add: lookup_def)

definition path_ok :: "(u64 \<Rightarrow> nat) \<Rightarrow> u64 \<Rightarrow> u64 list \<Rightarrow> bool" where
  "path_ok lvl t p \<longleftrightarrow> lvl t = Suc (length p) \<and> (\<forall>i\<in>set p. unat i < 512) \<and> (lvl t = 4 \<longrightarrow> p \<noteq> [] \<longrightarrow> hd p \<noteq> 0)"

lemma path_ok_slot: "path_ok lvl t (i # p) \<Longrightarrow> user_slot lvl t i"
  by (auto simp: path_ok_def user_slot_def)

lemma path_ok_next:
  assumes "path_ok lvl t (i # p)" "length p < 3" "lvl c = lvl t - 1"
  shows "path_ok lvl c p"
  using assms by (auto simp: path_ok_def)

lemma path_ok_step:
  assumes T: "vm_tree s lvl par" and p: "path_ok lvl t (i # p)" "length p < 3"
    and e: "present (get_entry (mem s) t i)"
  shows "path_ok lvl (TABLE_ADDR (get_entry (mem s) t i)) p" "par (TABLE_ADDR (get_entry (mem s) t i)) = (t, i)"
  using vm_treeD(3)[OF T path_ok_slot[OF p(1)] e] path_ok_next[OF p] by auto

lemma descend_level:
  assumes T: "vm_tree s lvl par"
  shows "path_ok lvl t p \<Longrightarrow> length p \<le> 3 \<Longrightarrow> descend (mem s) t p = Some c \<Longrightarrow> lvl c = 1"
proof (induction p arbitrary: t)
  case (Cons i p)
  then have e: "present (get_entry (mem s) t i)" by (auto split: if_splits)
  have "path_ok lvl (TABLE_ADDR (get_entry (mem s) t i)) p" by (rule path_ok_step[OF T _ _ e]) (use Cons.prems in auto)
  then show ?case using Cons e by auto
qed (simp add: path_ok_def)

text \<open>A table of leaves is reached from one root along one path only.\<close>

primrec climb :: "nat \<Rightarrow> (u64 \<Rightarrow> u64 \<times> u64) \<Rightarrow> u64 \<Rightarrow> u64 \<times> u64 list" where
  "climb 0 par c = (c, [])"
| "climb (Suc n) par c = (case par c of (t, i) \<Rightarrow> case climb n par t of (r, p) \<Rightarrow> (r, p @ [i]))"

lemma climb_snoc:
  "climb n par c = (t, p) \<Longrightarrow> par t = (t', i) \<Longrightarrow> climb (Suc n) par c = (t', i # p)"
proof (induction n arbitrary: c p)
  case (Suc n)
  obtain x k where x: "par c = (x, k)" by fastforce
  obtain r q where q: "climb n par x = (r, q)" by fastforce
  have "r = t" "p = q @ [k]" using Suc.prems(1) x q by auto
  then have "climb (Suc n) par x = (t', i # q)" using Suc.IH q Suc.prems(2) by blast
  then show ?case unfolding climb.simps(2)[of "Suc n"] x using \<open>p = q @ [k]\<close> by simp
qed simp

lemma climb_descend:
  assumes T: "vm_tree s lvl par"
  shows "path_ok lvl t p \<Longrightarrow> length p \<le> 3 \<Longrightarrow> descend (mem s) t p = Some c \<Longrightarrow> climb (length p) par c = (t, p)"
proof (induction p arbitrary: t)
  case (Cons i p)
  let ?n = "TABLE_ADDR (get_entry (mem s) t i)"
  have e: "present (get_entry (mem s) t i)" using Cons.prems(3) by (auto split: if_splits)
  have n: "path_ok lvl ?n p" "par ?n = (t, i)"
    using path_ok_step[OF T Cons.prems(1) _ e] Cons.prems(2) by auto
  have "climb (length p) par c = (?n, p)" using Cons.IH[OF n(1)] Cons.prems e by auto
  from climb_snoc[OF this n(2)] show ?case by simp
qed simp

lemma descend_inj:
  assumes "vm_tree s lvl par" "path_ok lvl t p" "path_ok lvl t' p'" "length p = length p'" "length p \<le> 3"
    "descend (mem s) t p = Some c" "descend (mem s) t' p' = Some c"
  shows "t' = t \<and> p' = p"
proof -
  have "climb (length p) par c = (t, p)" by (rule climb_descend[OF assms(1,2,5,6)])
  moreover have "climb (length p') par c = (t', p')"
    by (rule climb_descend[OF assms(1,3) _ assms(7)]) (use assms(4,5) in simp)
  ultimately show ?thesis unfolding assms(4) by auto
qed

text \<open>Lookups depend on the entries of tables only.\<close>

lemma lookup_cong:
  assumes T: "vm_tree s lvl par"
    and e: "\<And>x k. lvl x \<noteq> 0 \<Longrightarrow> unat k < 512 \<Longrightarrow> (lvl x = 4 \<longrightarrow> k \<noteq> 0) \<Longrightarrow> get_entry m' x k = get_entry (mem s) x k"
  shows "path_ok lvl t p \<Longrightarrow> length p \<le> 3 \<Longrightarrow> unat j < 512 \<Longrightarrow>
    lookup m' t p j = lookup (mem s) t p j \<and> descend m' t p = descend (mem s) t p"
proof (induction p arbitrary: t)
  case Nil
  then show ?case using e[of t j] by (simp add: path_ok_def)
next
  case (Cons i p)
  have eq: "get_entry m' t i = get_entry (mem s) t i"
    using path_ok_slot[OF Cons.prems(1)] e[of t i] by (auto simp: user_slot_def)
  show ?case
  proof (cases "present (get_entry (mem s) t i)")
    case True
    have "path_ok lvl (TABLE_ADDR (get_entry (mem s) t i)) p"
      by (rule path_ok_step(1)[OF T _ _ True]) (use Cons.prems in auto)
    then show ?thesis using Cons.IH Cons.prems True eq by simp
  qed (simp add: eq)
qed

subsection \<open>Growing the tree\<close>

text \<open>
  What adding tables leaves alone: the levels of the tables there are, every lookup, every page
  in use that is no table, the registers and the state of the later components.
\<close>

definition vm_ext :: "'a vmm_state_scheme \<Rightarrow> (u64 \<Rightarrow> nat) \<Rightarrow> 'a vmm_state_scheme \<Rightarrow> (u64 \<Rightarrow> nat) \<Rightarrow> bool" where
  "vm_ext s lvl s' lvl' \<longleftrightarrow>
     (\<forall>x. lvl x \<noteq> 0 \<longrightarrow> lvl' x = lvl x) \<and> (\<forall>x. lvl' x = 4 \<longrightarrow> lvl x = 4) \<and>
     (\<forall>x p j. path_ok lvl x p \<longrightarrow> length p \<le> 3 \<longrightarrow> unat j < 512 \<longrightarrow> lookup (mem s') x p j = lookup (mem s) x p j) \<and>
     (\<forall>t. used_page s t \<longrightarrow> used_page s' t \<and> (lvl t = 0 \<longrightarrow> lvl' t = 0 \<and> (\<forall>a. page_of a = t \<longrightarrow> mem s' a = mem s a))) \<and>
     (\<forall>x. lvl x = 4 \<longrightarrow> get_entry (mem s') x 0 = get_entry (mem s) x 0) \<and>
     (\<forall>x k. user_slot lvl x k \<longrightarrow> present (get_entry (mem s) x k) \<longrightarrow> get_entry (mem s') x k = get_entry (mem s) x k) \<and>
     vmm_state.more s' = vmm_state.more s \<and> kernel_pml4 s' = kernel_pml4 s \<and> cr3 s' = cr3 s \<and> efer s' = efer s \<and>
     rflags_if s' = rflags_if s"

lemma vm_ext_refl: "vm_ext s lvl s lvl"
  by (simp add: vm_ext_def)

lemma path_ok_ext: "path_ok lvl x p \<Longrightarrow> (\<And>x. lvl x \<noteq> 0 \<Longrightarrow> lvl' x = lvl x) \<Longrightarrow> path_ok lvl' x p"
  unfolding path_ok_def by auto

lemma vm_extD:
  assumes "vm_ext s lvl s' lvl'"
  shows "lvl x \<noteq> 0 \<Longrightarrow> lvl' x = lvl x" "lvl' x = 4 \<Longrightarrow> lvl x = 4"
    "path_ok lvl x p \<Longrightarrow> length p \<le> 3 \<Longrightarrow> unat j < 512 \<Longrightarrow> lookup (mem s') x p j = lookup (mem s) x p j"
    "used_page s t \<Longrightarrow> used_page s' t" "used_page s t \<Longrightarrow> lvl t = 0 \<Longrightarrow> lvl' t = 0"
    "used_page s t \<Longrightarrow> lvl t = 0 \<Longrightarrow> page_of a = t \<Longrightarrow> mem s' a = mem s a"
    "lvl x = 4 \<Longrightarrow> get_entry (mem s') x 0 = get_entry (mem s) x 0"
    "user_slot lvl x k \<Longrightarrow> present (get_entry (mem s) x k) \<Longrightarrow> get_entry (mem s') x k = get_entry (mem s) x k"
    "vmm_state.more s' = vmm_state.more s \<and> kernel_pml4 s' = kernel_pml4 s \<and> cr3 s' = cr3 s \<and> efer s' = efer s \<and>
       rflags_if s' = rflags_if s"
  using assms unfolding vm_ext_def by blast+

lemma vm_extI:
  assumes "\<And>x. lvl x \<noteq> 0 \<Longrightarrow> lvl' x = lvl x" "\<And>x. lvl' x = 4 \<Longrightarrow> lvl x = 4"
    "\<And>x p j. path_ok lvl x p \<Longrightarrow> length p \<le> 3 \<Longrightarrow> unat j < 512 \<Longrightarrow> lookup (mem s') x p j = lookup (mem s) x p j"
    "\<And>t. used_page s t \<Longrightarrow> used_page s' t" "\<And>t. used_page s t \<Longrightarrow> lvl t = 0 \<Longrightarrow> lvl' t = 0"
    "\<And>t a. used_page s t \<Longrightarrow> lvl t = 0 \<Longrightarrow> page_of a = t \<Longrightarrow> mem s' a = mem s a"
    "\<And>x. lvl x = 4 \<Longrightarrow> get_entry (mem s') x 0 = get_entry (mem s) x 0"
    "\<And>x k. user_slot lvl x k \<Longrightarrow> present (get_entry (mem s) x k) \<Longrightarrow> get_entry (mem s') x k = get_entry (mem s) x k"
    "vmm_state.more s' = vmm_state.more s \<and> kernel_pml4 s' = kernel_pml4 s \<and> cr3 s' = cr3 s \<and> efer s' = efer s \<and>
       rflags_if s' = rflags_if s"
  shows "vm_ext s lvl s' lvl'"
  unfolding vm_ext_def using assms by (intro conjI allI impI) blast+

lemma vm_ext_trans:
  assumes "vm_ext s lvl s1 lvl1" "vm_ext s1 lvl1 s2 lvl2"
  shows "vm_ext s lvl s2 lvl2"
proof (rule vm_extI)
  note a = vm_extD[OF assms(1)] and b = vm_extD[OF assms(2)]
  show "lvl2 x = lvl x" if "lvl x \<noteq> 0" for x using a(1)[OF that] b(1)[of x] that by simp
  show "lvl x = 4" if "lvl2 x = 4" for x by (rule a(2)[OF b(2)[OF that]])
  show "lookup (mem s2) x p j = lookup (mem s) x p j"
    if "path_ok lvl x p" "length p \<le> 3" "unat j < 512" for x p j
    using a(3)[OF that] b(3)[OF path_ok_ext[OF that(1) a(1)] that(2,3)] by simp
  show "used_page s2 t" if "used_page s t" for t by (rule b(4)[OF a(4)[OF that]])
  show l0: "lvl2 t = 0" if "used_page s t" "lvl t = 0" for t by (rule b(5)[OF a(4)[OF that(1)] a(5)[OF that]])
  show "mem s2 x = mem s x" if "used_page s t" "lvl t = 0" "page_of x = t" for t x
    using a(6)[OF that] b(6)[OF a(4)[OF that(1)] a(5)[OF that(1,2)] that(3)] by simp
  show "get_entry (mem s2) x 0 = get_entry (mem s) x 0" if "lvl x = 4" for x
    using a(7)[OF that] b(7)[of x] a(1)[of x] that by simp
  show "get_entry (mem s2) x k = get_entry (mem s) x k"
    if u: "user_slot lvl x k" "present (get_entry (mem s) x k)" for x k
  proof -
    have "user_slot lvl1 x k" using a(1)[of x] u(1) by (auto simp: user_slot_def)
    then show ?thesis using a(8)[OF u] b(8)[of x k] u(2) by simp
  qed
  show "vmm_state.more s2 = vmm_state.more s \<and> kernel_pml4 s2 = kernel_pml4 s \<and> cr3 s2 = cr3 s \<and> efer s2 = efer s \<and>
       rflags_if s2 = rflags_if s" using a(9) b(9) by simp
qed

lemma fresh_ext:
  assumes T: "vm_tree s lvl par" and F: "fresh_page s p s'" and n: "n \<noteq> 4"
  shows "vm_ext s lvl s' (lvl(p := n))"
proof -
  note f = fresh_pageD[OF F] and e = fresh_page_entries[OF F] and d = vm_treeD[OF T]
  have p0: "lvl p = 0" by (rule tree_add_table(2)[OF T F])
  have l: "lookup (mem s') x q j = lookup (mem s) x q j"
    if "path_ok lvl x q" "length q \<le> 3" "unat j < 512" for x q j
    using lookup_cong[OF T, of "mem s'"] e(2)[OF d(2)] that by blast
  have k: "mem s' a = mem s a" if "used_page s (page_of a)" for a
    using f(4)[OF that] f(5) used_pageD(3)[OF that] by simp
  have "get_entry (mem s') x 0 = get_entry (mem s) x 0" if "lvl x = 4" for x
    using e(2)[OF d(2)] that by simp
  moreover have "get_entry (mem s') x k = get_entry (mem s) x k" if "user_slot lvl x k" for x k
    using e(2)[OF d(2)] that by (auto simp: user_slot_def)
  moreover have "vmm_state.more s' = vmm_state.more s \<and> kernel_pml4 s' = kernel_pml4 s \<and> cr3 s' = cr3 s \<and>
      efer s' = efer s \<and> rflags_if s' = rflags_if s" using F by (simp add: fresh_page_def)
  moreover have "lvl x = 4" if "(lvl(p := n)) x = 4" for x using that n by (auto split: if_splits)
  moreover have "used_page s' t" "(lvl t = 0 \<longrightarrow> (lvl(p := n)) t = 0)" if "used_page s t" for t
    using f(4)[OF that] by auto
  ultimately show ?thesis unfolding vm_ext_def using p0 l k by auto
qed

text \<open>Hanging an empty table into a slot that was not present.\<close>

lemma lookup_new_table:
  assumes T: "vm_tree s lvl par" and u: "used_page s t" "used_page s c"
    and slot: "user_slot lvl t i" "\<not> present (get_entry (mem s) t i)"
    and z: "\<And>k. unat k < 512 \<Longrightarrow> get_entry (mem s) c k = 0" and c: "c \<noteq> t"
    and v: "TABLE_ADDR v = c"
  shows "path_ok lvl x p \<Longrightarrow> length p \<le> 3 \<Longrightarrow> unat j < 512 \<Longrightarrow>
    lookup (mem (set_entry t i v s)) x p j = lookup (mem s) x p j"
proof (induction p arbitrary: x)
  case Nil
  then have "used_page s x" "lvl x = 1" using vm_treeD(2)[OF T, of x] by (auto simp: path_ok_def)
  moreover have "x \<noteq> t" using \<open>lvl x = 1\<close> slot(1) by (auto simp: user_slot_def)
  ultimately show ?case using get_set_entry[OF u(1) _ \<open>used_page s x\<close> Nil(3)] slot(1)
    by (simp add: user_slot_def)
next
  case (Cons k p)
  let ?m = "mem (set_entry t i v s)"
  have us: "user_slot lvl x k" by (rule path_ok_slot[OF Cons.prems(1)])
  then have ux: "used_page s x" "unat k < 512" using vm_treeD(2)[OF T, of x] by (auto simp: user_slot_def)
  have i: "unat i < 512" using slot(1) by (simp add: user_slot_def)
  note g = get_set_entry[OF u(1) i ux, of v]
  have zc: "get_entry ?m c q = 0" if "unat q < 512" for q
    using get_set_entry[OF u(1) i u(2) that, of v] z[OF that] c by simp
  show ?case
  proof (cases "(x, k) = (t, i)")
    case True
    have "lookup ?m c p j = None"
      using zc Cons.prems by (cases p) (auto simp: path_ok_def)
    then show ?thesis using True slot(2) v by simp
  next
    case False
    then have e: "get_entry ?m x k = get_entry (mem s) x k" using g by auto
    show ?thesis
    proof (cases "present (get_entry (mem s) x k)")
      case True
      have "path_ok lvl (TABLE_ADDR (get_entry (mem s) x k)) p"
        by (rule path_ok_step(1)[OF T _ _ True]) (use Cons.prems in auto)
      then show ?thesis using Cons.IH Cons.prems True e by simp
    qed (use e in simp)
  qed
qed

lemma set_entry_ext:
  assumes T: "vm_tree s lvl par" and t: "used_page s t" "lvl t \<noteq> 0" and i: "unat i < 512" "lvl t = 4 \<longrightarrow> i \<noteq> 0"
    and np: "\<not> present (get_entry (mem s) t i)"
    and l: "\<And>x p j. path_ok lvl x p \<Longrightarrow> length p \<le> 3 \<Longrightarrow> unat j < 512 \<Longrightarrow>
      lookup (mem (set_entry t i v s)) x p j = lookup (mem s) x p j"
  shows "vm_ext s lvl (set_entry t i v s) lvl"
proof -
  note f = set_entry_frame[OF vm_treeD(1)[OF T] t(1) i(1)]
  have "get_entry (mem (set_entry t i v s)) x 0 = get_entry (mem s) x 0" if "lvl x = 4" for x
    using get_set_entry[OF t(1) i(1) vm_treeD(2)[OF T, of x], of 0 v] that i(2) by auto
  moreover have "mem (set_entry t i v s) a = mem s a" if "lvl (page_of a) = 0" for a
  proof (rule f(5))
    show "page_of a \<noteq> t" using that t(2) by auto
  qed
  moreover have "get_entry (mem (set_entry t i v s)) x k = get_entry (mem s) x k"
    if "user_slot lvl x k" "present (get_entry (mem s) x k)" for x k
    using get_set_entry[OF t(1) i(1) vm_treeD(2)[OF T, of x], of k v] that np by (auto simp: user_slot_def)
  ultimately show ?thesis unfolding vm_ext_def f(4) using l by (auto simp: set_entry_def)
qed

lemma link_table:
  assumes T: "vm_tree s lvl par" and slot: "user_slot lvl t i" "lvl t \<le> 4" "\<not> present (get_entry (mem s) t i)"
    and F: "fresh_page s c s1"
  defines "s2 \<equiv> set_entry t i (c OR PAGE_PRESENT OR PAGE_WRITABLE OR PAGE_USER) s1"
    and "lvl' \<equiv> lvl(c := lvl t - 1)" and "par' \<equiv> par(c := (t, i))"
  shows "vm_tree s2 lvl' par'" "vm_ext s lvl s2 lvl'" "get_entry (mem s2) t i = c OR PAGE_PRESENT OR PAGE_WRITABLE OR PAGE_USER"
    "free_set s2 = free_set s1"
proof -
  note f = fresh_pageD[OF F] and e = fresh_page_entries[OF F]
  have i: "unat i < 512" and lt: "2 \<le> lvl t" using slot(1) by (auto simp: user_slot_def)
  have ut: "used_page s t" using vm_treeD(2)[OF T, of t] lt by auto
  have ct: "c \<noteq> t" "used_page s1 t" using f(4)[OF ut] by auto
  have c0: "lvl c = 0" by (rule tree_add_table(2)[OF T F])
  have T1: "vm_tree s1 lvl' par'" unfolding lvl'_def par'_def by (rule tree_add_table(1)[OF T F])
  have slot': "user_slot lvl' t i" "lvl' t = lvl t" using slot(1) ct by (auto simp: user_slot_def lvl'_def)
  note te = table_entry[OF used_pageD(1)[OF f(2)]]
  show "vm_tree s2 lvl' par'" unfolding s2_def
    by (rule tree_set_entry[OF T1 ct(2) i]) (simp only: te, simp add: lvl'_def par'_def ct not_sym[OF ct(1)])
  have np: "\<not> present (get_entry (mem s1) t i)" using slot(3) e(2)[OF ut i] by simp
  have "vm_ext s1 lvl' s2 lvl'" unfolding s2_def
  proof (rule set_entry_ext[OF T1 ct(2) _ i])
    show "lvl' t \<noteq> 0" "lvl' t = 4 \<longrightarrow> i \<noteq> 0" using slot' lt by (auto simp: user_slot_def)
    show "\<not> present (get_entry (mem s1) t i)" by (rule np)
    fix x p and j :: u64 assume "path_ok lvl' x p" "length p \<le> 3" "unat j < 512"
    then show "lookup (mem (set_entry t i (c OR PAGE_PRESENT OR PAGE_WRITABLE OR PAGE_USER) s1)) x p j =
        lookup (mem s1) x p j"
      using lookup_new_table[OF T1 ct(2) f(2) slot'(1) np _ ct(1) te(1)] e(1) by blast
  qed
  moreover have "vm_ext s lvl s1 lvl'" unfolding lvl'_def by (rule fresh_ext[OF T F]) (use slot(2) lt in simp)
  ultimately show "vm_ext s lvl s2 lvl'" by (rule vm_ext_trans[rotated])
  show "get_entry (mem s2) t i = c OR PAGE_PRESENT OR PAGE_WRITABLE OR PAGE_USER" by (simp add: s2_def)
  show "free_set s2 = free_set s1" unfolding s2_def by (rule set_entry_frame(2)[OF f(1) ct(2) i])
qed

lemma fresh_card: "fresh_page s p s' \<Longrightarrow> card (free_set s) = Suc (card (free_set s'))"
proof -
  assume "fresh_page s p s'"
  then obtain b where "b \<in> free_set s" "free_set s' = free_set s - {b}" by (auto simp: fresh_page_def)
  then show ?thesis by (metis card.remove finite_free_set)
qed

lemma ensure_table_cases:
  assumes T: "vm_tree s lvl par" and slot: "user_slot lvl t i" "lvl t \<le> 4"
  obtains (oom) "free_set s = {}"
      "ensure_table t i s = Inl (Panic ''vmm: out of physical memory while building page tables'')"
  | (ok) c s' lvl' par' where "ensure_table t i s = Inr (c, s')" "vm_tree s' lvl' par'" "vm_ext s lvl s' lvl'"
      "lvl' c = lvl t - 1" "present (get_entry (mem s') t i)" "TABLE_ADDR (get_entry (mem s') t i) = c"
      "card (free_set s) \<le> Suc (card (free_set s'))"
proof (cases "present (get_entry (mem s) t i)")
  case True
  have "ensure_table t i s = Inr (TABLE_ADDR (get_entry (mem s) t i), s)" using True by (simp add: ensure_table_def)
  then show ?thesis using ok T vm_ext_refl vm_treeD(3)[OF T slot(1) True] True by (metis le_SucI order_refl)
next
  case False
  from vm_treeD(1)[OF T] show ?thesis
  proof (cases rule: alloc_table_cases)
    case full
    then show ?thesis using oom False by (simp add: ensure_table_def)
  next
    case (table c s1)
    let ?e = "c OR PAGE_PRESENT OR PAGE_WRITABLE OR PAGE_USER"
    note L = link_table[OF T slot False table(2)] and te = table_entry[OF used_pageD(1)[OF fresh_pageD(2)[OF table(2)]]]
    have run: "ensure_table t i s = Inr (c, set_entry t i ?e s1)"
      using False table(1) te(1) by (simp add: ensure_table_def)
    have lc: "(lvl(c := lvl t - 1)) c = lvl t - 1" by simp
    show ?thesis
      by (rule ok[OF run L(1,2) lc]) (use L(3,4) te fresh_card[OF table(2)] in simp_all)
  qed
qed

subsection \<open>Mapping a page\<close>

definition page_path :: "u64 \<Rightarrow> u64 list" where
  "page_path va = [pml4_idx va, pdpt_idx va, pd_idx va]"

text \<open>The leaf entry the page walk finds, if any.\<close>

definition leaf_of :: "mem \<Rightarrow> u64 \<Rightarrow> u64 \<Rightarrow> u64 option" where
  "leaf_of m r va = (if walk_to_leaf m r va = 0 then None else Some (load64 m (walk_to_leaf m r va)))"

text \<open>Two addresses lie in the same page as far as the four indices go, that is in the low 48 bits.\<close>

definition same_page :: "u64 \<Rightarrow> u64 \<Rightarrow> bool" where
  "same_page va va' \<longleftrightarrow> page_path va = page_path va' \<and> pt_idx va = pt_idx va'"

lemma bit_1ff: "bit (0x1FF :: u64) k \<longleftrightarrow> k < 9"
proof -
  have "(0x1FF :: u64) = mask 9" by (simp add: mask_eq_exp_minus_1)
  then show ?thesis by (simp only: bit_mask_iff) auto
qed

lemma idx_eq_iff:
  fixes x y :: u64
  assumes n: "n + 9 \<le> 64"
  shows "drop_bit n x AND 0x1FF = drop_bit n y AND 0x1FF \<longleftrightarrow> (\<forall>k. n \<le> k \<and> k < n + 9 \<longrightarrow> bit x k = bit y k)"
proof
  assume eq: "drop_bit n x AND 0x1FF = drop_bit n y AND 0x1FF"
  have "bit x k = bit y k" if "n \<le> k" "k < n + 9" for k
  proof -
    have "bit (drop_bit n x AND 0x1FF) (k - n) = bit (drop_bit n y AND 0x1FF) (k - n)" using eq by simp
    then show ?thesis using that unfolding bit_and_iff bit_1ff bit_drop_bit_eq comp_def by auto
  qed
  then show "\<forall>k. n \<le> k \<and> k < n + 9 \<longrightarrow> bit x k = bit y k" by blast
next
  assume all: "\<forall>k. n \<le> k \<and> k < n + 9 \<longrightarrow> bit x k = bit y k"
  show "drop_bit n x AND 0x1FF = drop_bit n y AND 0x1FF"
  proof (rule bit_word_eqI)
    fix k show "bit (drop_bit n x AND 0x1FF) k = bit (drop_bit n y AND 0x1FF) k"
      using all[rule_format, of "n + k"] unfolding bit_and_iff bit_1ff bit_drop_bit_eq comp_def by auto
  qed
qed

lemma interval_join:
  fixes a b c :: nat
  assumes "a \<le> b" "b \<le> c"
  shows "(\<forall>k. b \<le> k \<and> k < c \<longrightarrow> P k) \<and> (\<forall>k. a \<le> k \<and> k < b \<longrightarrow> P k) \<longleftrightarrow> (\<forall>k. a \<le> k \<and> k < c \<longrightarrow> P k)"
  using assms by (meson le_trans less_le_trans not_le)

lemma same_page_iff: "same_page va va' \<longleftrightarrow> (\<forall>k. 12 \<le> k \<and> k < 48 \<longrightarrow> bit va k = bit va' k)"
proof -
  let ?P = "\<lambda>k. bit va k = bit va' k"
  have "same_page va va' \<longleftrightarrow> (((\<forall>k. 39 \<le> k \<and> k < 48 \<longrightarrow> ?P k) \<and> (\<forall>k. 30 \<le> k \<and> k < 39 \<longrightarrow> ?P k)) \<and>
      (\<forall>k. 21 \<le> k \<and> k < 30 \<longrightarrow> ?P k)) \<and> (\<forall>k. 12 \<le> k \<and> k < 21 \<longrightarrow> ?P k)"
    unfolding same_page_def page_path_def pml4_idx_def pdpt_idx_def pd_idx_def pt_idx_def list.inject
    using idx_eq_iff[of 39 va va'] idx_eq_iff[of 30 va va'] idx_eq_iff[of 21 va va'] idx_eq_iff[of 12 va va']
    by (simp only: numeral_plus_numeral add_num_simps) simp
  also have "\<dots> \<longleftrightarrow> (\<forall>k. 12 \<le> k \<and> k < 48 \<longrightarrow> ?P k)"
    using interval_join[of 30 39 48 ?P] interval_join[of 21 30 48 ?P] interval_join[of 12 21 48 ?P] by simp
  finally show ?thesis .
qed

lemma page_path_ok: "lvl r = 4 \<Longrightarrow> pml4_idx va \<noteq> 0 \<Longrightarrow> path_ok lvl r (page_path va)"
  by (simp add: path_ok_def page_path_def)

lemma entry_addr_nonzero: "aligned t \<Longrightarrow> t \<noteq> 0 \<Longrightarrow> unat i < 512 \<Longrightarrow> entry_addr t i \<noteq> 0"
  by (auto simp: word_unat_eq_iff unat_entry_addr)

lemma leaf_lookup:
  assumes T: "vm_tree s lvl par" and r: "lvl r = 4" "pml4_idx va \<noteq> 0"
  shows "leaf_of (mem s) r va = lookup (mem s) r (page_path va) (pt_idx va)"
proof -
  define e4 where "e4 = get_entry (mem s) r (pml4_idx va)"
  define e3 where "e3 = get_entry (mem s) (TABLE_ADDR e4) (pdpt_idx va)"
  define e2 where "e2 = get_entry (mem s) (TABLE_ADDR e3) (pd_idx va)"
  note defs = e4_def e3_def e2_def
  have P4: "path_ok lvl r [pml4_idx va, pdpt_idx va, pd_idx va]" using page_path_ok[of lvl r va] r by (simp add: page_path_def)
  have P3: "path_ok lvl (TABLE_ADDR e4) [pdpt_idx va, pd_idx va]" if "present e4"
    unfolding e4_def by (rule path_ok_step(1)[OF T P4]) (use that e4_def in simp_all)
  have P2: "path_ok lvl (TABLE_ADDR e3) [pd_idx va]" if "present e4" "present e3"
    unfolding e3_def by (rule path_ok_step(1)[OF T P3[OF that(1)]]) (use that e3_def in simp_all)
  have P1: "e2 AND PAGE_HUGE = 0" "lvl (TABLE_ADDR e2) \<noteq> 0" if "present e4" "present e3" "present e2"
  proof -
    have p: "present (get_entry (mem s) (TABLE_ADDR e3) (pd_idx va))" using that(3) by (simp add: e2_def)
    show "e2 AND PAGE_HUGE = 0"
      using vm_treeD(3)[OF T path_ok_slot[OF P2[OF that(1,2)]] p] by (simp add: e2_def)
    have "path_ok lvl (TABLE_ADDR e2) []"
      unfolding e2_def by (rule path_ok_step(1)[OF T P2[OF that(1,2)] _ p]) simp
    then show "lvl (TABLE_ADDR e2) \<noteq> 0" by (simp add: path_ok_def)
  qed
  have P0: "entry_addr (TABLE_ADDR e2) (pt_idx va) \<noteq> 0" if "present e4" "present e3" "present e2"
    using vm_treeD(2)[OF T P1(2)[OF that]] used_pageD by (intro entry_addr_nonzero) auto
  show ?thesis
    using P1(1) P0
    unfolding leaf_of_def walk_to_leaf_def page_path_def Let_def lookup_simps defs[symmetric]
    by (auto simp: get_entry_def)
qed

text \<open>Writing a leaf changes the lookups that end in that slot and no other.\<close>

lemma lookup_set_leaf:
  assumes T: "vm_tree s lvl par" and t: "lvl t = 1" and i: "unat i < 512" and v: "present v"
  shows "path_ok lvl x p \<Longrightarrow> length p \<le> 3 \<Longrightarrow> unat j < 512 \<Longrightarrow>
    lookup (mem (set_entry t i v s)) x p j =
      (if descend (mem s) x p = Some t \<and> j = i then Some v else lookup (mem s) x p j)"
proof (induction p arbitrary: x)
  case Nil
  then have ux: "used_page s x" using vm_treeD(2)[OF T, of x] by (simp add: path_ok_def)
  have ut: "used_page s t" using vm_treeD(2)[OF T, of t] t by simp
  show ?case using get_set_entry[OF ut i ux Nil(3), of v] v by auto
next
  case (Cons k p)
  have us: "user_slot lvl x k" by (rule path_ok_slot[OF Cons.prems(1)])
  then have ux: "used_page s x" "unat k < 512" "x \<noteq> t" using vm_treeD(2)[OF T, of x] t by (auto simp: user_slot_def)
  have ut: "used_page s t" using vm_treeD(2)[OF T, of t] t by simp
  have e: "get_entry (mem (set_entry t i v s)) x k = get_entry (mem s) x k"
    using get_set_entry[OF ut i ux(1,2), of v] ux(3) by simp
  show ?case
  proof (cases "present (get_entry (mem s) x k)")
    case True
    have "path_ok lvl (TABLE_ADDR (get_entry (mem s) x k)) p"
      by (rule path_ok_step(1)[OF T _ _ True]) (use Cons.prems in auto)
    then show ?thesis using Cons.IH Cons.prems True e by simp
  qed (use e in simp)
qed

lemma present_leaf: "present (leaf_pte paddr flags)"
  unfolding flag_bits leaf_pte_def Let_def by (simp add: bit_simps)

text \<open>The tables on the way to a page, built where they are missing.\<close>

primrec ensure_path :: "u64 \<Rightarrow> u64 list \<Rightarrow> 'a vmm_state_scheme \<Rightarrow> (u64 \<times> 'a vmm_state_scheme) res" where
  "ensure_path t [] s = Inr (t, s)"
| "ensure_path t (i # p) s = rbind (ensure_table t i s) (\<lambda>(c, s). ensure_path c p s)"

lemma vmm_map_page_path:
  "pml4_idx va \<noteq> 0 \<Longrightarrow> vmm_map_page r va paddr flags s =
     rbind (ensure_path r (page_path va) s) (\<lambda>(pt, s). Inr (set_entry pt (pt_idx va) (leaf_pte paddr flags) s))"
  by (simp add: vmm_map_page_def page_path_def rbind_assoc case_prod_unfold)

lemma ensure_path_result:
  "vm_tree s lvl par \<Longrightarrow> path_ok lvl t p \<Longrightarrow> length p \<le> 3 \<Longrightarrow>
   (card (free_set s) < length p \<and>
      ensure_path t p s = Inl (Panic ''vmm: out of physical memory while building page tables'')) \<or>
   (\<exists>c s' lvl' par'. ensure_path t p s = Inr (c, s') \<and> vm_tree s' lvl' par' \<and> vm_ext s lvl s' lvl' \<and>
      lvl' c = 1 \<and> descend (mem s') t p = Some c)"
proof (induction p arbitrary: s lvl par t)
  case Nil
  then have "ensure_path t [] s = Inr (t, s) \<and> vm_tree s lvl par \<and> vm_ext s lvl s lvl \<and> lvl t = 1 \<and>
      descend (mem s) t [] = Some t" by (simp add: path_ok_def vm_ext_refl)
  then show ?case by (intro disjI2 exI)
next
  case (Cons i p)
  note us = path_ok_slot[OF Cons.prems(2)]
  have l4: "lvl t \<le> 4" using Cons.prems(2,3) by (simp add: path_ok_def)
  show ?case
  proof (rule ensure_table_cases[OF Cons.prems(1) us l4])
    fix c s1 lvl1 par1
    assume a: "ensure_table t i s = Inr (c, s1)" "vm_tree s1 lvl1 par1" "vm_ext s lvl s1 lvl1" "lvl1 c = lvl t - 1"
      "present (get_entry (mem s1) t i)" "TABLE_ADDR (get_entry (mem s1) t i) = c"
      "card (free_set s) \<le> Suc (card (free_set s1))"
    have c: "path_ok lvl1 c p" using Cons.prems(2,3) a(4) by (auto simp: path_ok_def)
    have us1: "user_slot lvl1 t i" using us vm_extD(1)[OF a(3), of t] by (auto simp: user_slot_def)
    have "length p \<le> 3" using Cons.prems(3) by simp
    from Cons.IH[OF a(2) c this] consider (oom) "card (free_set s1) < length p"
        "ensure_path c p s1 = Inl (Panic ''vmm: out of physical memory while building page tables'')"
      | (ok) d s2 lvl2 par2 where "ensure_path c p s1 = Inr (d, s2)" "vm_tree s2 lvl2 par2" "vm_ext s1 lvl1 s2 lvl2"
        "lvl2 d = 1" "descend (mem s2) c p = Some d" by (elim disjE conjE exE)
    then show ?thesis
    proof cases
      case oom
      then show ?thesis using a(1,7) by simp
    next
      case ok
      have "get_entry (mem s2) t i = get_entry (mem s1) t i" by (rule vm_extD(8)[OF ok(3) us1 a(5)])
      then have "descend (mem s2) t (i # p) = Some d" using ok(5) a(5,6) by simp
      moreover have "ensure_path t (i # p) s = Inr (d, s2)" using a(1) ok(1) by simp
      ultimately show ?thesis using ok(2,4) vm_ext_trans[OF a(3) ok(3)] by (intro disjI2 exI conjI)
    qed
  qed simp
qed

end
