(* ===== verification/Heap.thy ===== *)
theory Heap
  imports Vmm
begin

section \<open>The kernel heap (kernel/src/heap.c, kernel/include/heap.h)\<close>

text \<open>
  A first-fit list of blocks over the 16 MiB at \<open>HEAP_BASE\<close>, each a 24-byte header followed by
  its payload. Headers are a typed store of their own, \<open>hdr\<close>, from the address of a header to its
  three fields; the payloads are bytes of the machine's memory and are never touched here. A walk
  along the list that does not end is \<open>Hang\<close>.
\<close>

record heap_block =
  hb_size :: u64
  hb_free :: i32
  hb_next :: u64

record heap_state = vmm_state +
  hdr :: "u64 \<Rightarrow> heap_block"
  heap_head :: u64
  heap_lock :: spinlock_t

abbreviation HEAP_BASE :: u64 where "HEAP_BASE \<equiv> 0x1000000"
abbreviation HEAP_SIZE :: u64 where "HEAP_SIZE \<equiv> 0x1000000"
abbreviation HEAP_ALIGN :: u64 where "HEAP_ALIGN \<equiv> 16"
abbreviation HEADER :: u64 where "HEADER \<equiv> 24"

subsection \<open>Operations\<close>

definition heap_init :: "'a heap_state_scheme \<Rightarrow> 'a heap_state_scheme" where
  "heap_init s =
     (let s = pmm_reserve_region HEAP_BASE HEAP_SIZE s;
          s = s\<lparr>heap_head := HEAP_BASE\<rparr>
      in s\<lparr>hdr := (hdr s)(HEAP_BASE := \<lparr>hb_size = HEAP_SIZE - HEADER, hb_free = 1, hb_next = 0\<rparr>)\<rparr>)"

definition split_block :: "u64 \<Rightarrow> u64 \<Rightarrow> (u64 \<Rightarrow> heap_block) \<Rightarrow> u64 \<Rightarrow> heap_block" where
  "split_block block sz h =
     (if hb_size (h block) < sz + HEADER + HEAP_ALIGN then h
      else
        let remainder = block + HEADER + sz;
            h = h(remainder := \<lparr>hb_size = hb_size (h block) - sz - HEADER, hb_free = 1,
                               hb_next = hb_next (h block)\<rparr>)
        in h(block := (h block)\<lparr>hb_size := sz, hb_next := remainder\<rparr>))"

text \<open>The first-fit scan; 0 is the end of the list.\<close>

partial_function (option) find_block :: "(u64 \<Rightarrow> heap_block) \<Rightarrow> u64 \<Rightarrow> u64 \<Rightarrow> u64 option" where
  "find_block h sz b =
     (if b = 0 then Some 0
      else if hb_free (h b) \<noteq> 0 \<and> hb_size (h b) \<ge> sz then Some b
      else find_block h sz (hb_next (h b)))"

definition round_size :: "u64 \<Rightarrow> u64" where
  "round_size sz = (sz + (HEAP_ALIGN - 1)) AND NOT (HEAP_ALIGN - 1)"

definition kmalloc :: "u64 \<Rightarrow> 'a heap_state_scheme \<Rightarrow> (u64 \<times> 'a heap_state_scheme) res" where
  "kmalloc sz s =
     (if sz = 0 then Inr (0, s)
      else
        let sz = round_size sz; (flags, s) = irq_save_disable s in
        rbind (spinlock_acquire (heap_lock s)) (\<lambda>l.
        let s = s\<lparr>heap_lock := l\<rparr> in
        case find_block (hdr s) sz (heap_head s) of
          None \<Rightarrow> Inl Hang
        | Some b \<Rightarrow>
            if b \<noteq> 0 then
              let s = s\<lparr>hdr := split_block b sz (hdr s)\<rparr>;
                  s = s\<lparr>hdr := (hdr s)(b := (hdr s b)\<lparr>hb_free := 0\<rparr>)\<rparr>;
                  s = s\<lparr>heap_lock := spinlock_release (heap_lock s)\<rparr>
              in Inr (b + HEADER, irq_restore flags s)
            else
              let s = s\<lparr>heap_lock := spinlock_release (heap_lock s)\<rparr>
              in Inr (0, irq_restore flags s)))"

definition merge_next :: "u64 \<Rightarrow> (u64 \<Rightarrow> heap_block) \<Rightarrow> u64 \<Rightarrow> heap_block" where
  "merge_next block h =
     (if hb_next (h block) \<noteq> 0 \<and> hb_free (h (hb_next (h block))) \<noteq> 0
      then h(block := (h block)\<lparr>
             hb_size := hb_size (h block) + (HEADER + hb_size (h (hb_next (h block)))),
             hb_next := hb_next (h (hb_next (h block)))\<rparr>)
      else h)"

definition kfree :: "u64 \<Rightarrow> 'a heap_state_scheme \<Rightarrow> 'a heap_state_scheme res" where
  "kfree ptr s =
     (if ptr = 0 then Inr s
      else
        let (flags, s) = irq_save_disable s in
        rbind (spinlock_acquire (heap_lock s)) (\<lambda>l.
        let s = s\<lparr>heap_lock := l\<rparr>;
            block = ptr - HEADER;
            s = s\<lparr>hdr := (hdr s)(block := (hdr s block)\<lparr>hb_free := 1\<rparr>)\<rparr>;
            s = s\<lparr>hdr := merge_next block (hdr s)\<rparr>;
            s = s\<lparr>heap_lock := spinlock_release (heap_lock s)\<rparr>
        in Inr (irq_restore flags s)))"

partial_function (option) sum_free :: "(u64 \<Rightarrow> heap_block) \<Rightarrow> u64 \<Rightarrow> u64 \<Rightarrow> u64 option" where
  "sum_free h b tot =
     (if b = 0 then Some tot
      else sum_free h (hb_next (h b)) (if hb_free (h b) \<noteq> 0 then tot + hb_size (h b) else tot))"

definition heap_free_bytes :: "'a heap_state_scheme \<Rightarrow> (u64 \<times> 'a heap_state_scheme) res" where
  "heap_free_bytes s =
     (let (flags, s) = irq_save_disable s in
      rbind (spinlock_acquire (heap_lock s)) (\<lambda>l.
      let s = s\<lparr>heap_lock := l\<rparr> in
      case sum_free (hdr s) (heap_head s) 0 of
        None \<Rightarrow> Inl Hang
      | Some tot \<Rightarrow>
          let s = s\<lparr>heap_lock := spinlock_release (heap_lock s)\<rparr>
          in Inr (tot, irq_restore flags s)))"

subsection \<open>The list as a tiling of the heap\<close>

text \<open>
  \<open>chain h a e bs\<close>: the blocks \<open>bs\<close> cover the addresses from \<open>a\<close> to \<open>e\<close> without a gap, each
  linked to the one after it and the last of the heap to NULL.
\<close>

abbreviation HEAP_END :: u64 where "HEAP_END \<equiv> 0x2000000"

definition blk_end :: "(u64 \<Rightarrow> heap_block) \<Rightarrow> u64 \<Rightarrow> u64" where
  "blk_end h a = a + HEADER + hb_size (h a)"

definition blk_ok :: "(u64 \<Rightarrow> heap_block) \<Rightarrow> u64 \<Rightarrow> bool" where
  "blk_ok h a \<longleftrightarrow> unat HEAP_BASE \<le> unat a \<and> unat a + 24 + unat (hb_size (h a)) \<le> unat HEAP_END \<and>
     unat a mod 8 = 0 \<and> unat (hb_size (h a)) mod 8 = 0 \<and>
     hb_next (h a) = (if blk_end h a = HEAP_END then 0 else blk_end h a)"

primrec chain :: "(u64 \<Rightarrow> heap_block) \<Rightarrow> u64 \<Rightarrow> u64 \<Rightarrow> u64 list \<Rightarrow> bool" where
  "chain h a e [] \<longleftrightarrow> a = e"
| "chain h a e (b # bs) \<longleftrightarrow> b = a \<and> blk_ok h a \<and> chain h (blk_end h a) e bs"

definition heap_inv :: "'a heap_state_scheme \<Rightarrow> bool" where
  "heap_inv s \<longleftrightarrow> heap_lock s = 0 \<and> heap_head s = HEAP_BASE \<and> (\<exists>bs. chain (hdr s) HEAP_BASE HEAP_END bs)"

text \<open>The blocks one can reach from the head, and the allocations: payload address and size of
  those in use.\<close>

inductive on_list :: "(u64 \<Rightarrow> heap_block) \<Rightarrow> u64 \<Rightarrow> u64 \<Rightarrow> bool" for h where
  here: "a \<noteq> 0 \<Longrightarrow> on_list h a a"
| later: "a \<noteq> 0 \<Longrightarrow> on_list h (hb_next (h a)) b \<Longrightarrow> on_list h a b"

definition allocs :: "'a heap_state_scheme \<Rightarrow> (u64 \<times> u64) set" where
  "allocs s = {(b + HEADER, hb_size (hdr s b)) | b. on_list (hdr s) (heap_head s) b \<and> hb_free (hdr s b) = 0}"

lemma unat_blk_end: "blk_ok h a \<Longrightarrow> unat (blk_end h a) = unat a + 24 + unat (hb_size (h a))"
  by (simp add: blk_ok_def blk_end_def unat_add_no_wrap)

lemma chain_append: "chain h a e (xs @ ys) \<longleftrightarrow> (\<exists>m. chain h a m xs \<and> chain h m e ys)"
  by (induction xs arbitrary: a) auto

lemma chain_cong: "(\<And>x. x \<in> set bs \<Longrightarrow> h' x = h x) \<Longrightarrow> chain h' a e bs = chain h a e bs"
  by (induction bs arbitrary: a) (auto simp: blk_ok_def blk_end_def)

lemma chain_le: "chain h a e bs \<Longrightarrow> unat a \<le> unat e"
  by (induction bs arbitrary: a) (fastforce simp: unat_blk_end)+

lemma chain_bounds:
  "chain h a e bs \<Longrightarrow> x \<in> set bs \<Longrightarrow>
   blk_ok h x \<and> unat a \<le> unat x \<and> unat x + 24 + unat (hb_size (h x)) \<le> unat e"
proof (induction bs arbitrary: a)
  case (Cons b bs)
  then show ?case using chain_le[of h "blk_end h a" e bs] unat_blk_end[of h a] by fastforce
qed simp

lemma chain_distinct: "chain h a e bs \<Longrightarrow> distinct bs"
proof (induction bs arbitrary: a)
  case (Cons b bs)
  then have "b \<notin> set bs" using chain_bounds[of h "blk_end h a" e bs b] unat_blk_end[of h a] by auto
  then show ?case using Cons by auto
qed simp

lemma blk_ok_nonzero: "blk_ok h a \<Longrightarrow> a \<noteq> 0"
  by (auto simp: blk_ok_def)

text \<open>Following \<open>next\<close> visits exactly the blocks of the chain.\<close>

lemma chain_next:
  assumes "blk_ok h a" "chain h (blk_end h a) HEAP_END bs"
  shows "hb_next (h a) = (if bs = [] then 0 else hd bs)"
proof (cases bs)
  case (Cons c cs)
  then have c: "c = blk_end h a" "blk_ok h c" using assms(2) by auto
  then have "unat c < unat HEAP_END" by (auto simp: blk_ok_def)
  then have "blk_end h a \<noteq> HEAP_END" using c(1) by auto
  then show ?thesis using assms(1) Cons c(1) by (simp add: blk_ok_def)
qed (use assms in \<open>simp add: blk_ok_def\<close>)

lemma on_list_zero: "\<not> on_list h 0 b"
  by (auto elim: on_list.cases)

lemma on_list_chain:
  "chain h a HEAP_END bs \<Longrightarrow> on_list h (if bs = [] then 0 else a) b \<longleftrightarrow> b \<in> set bs"
proof (induction bs arbitrary: a)
  case (Cons c cs)
  then have c: "c = a" "blk_ok h a" "chain h (blk_end h a) HEAP_END cs" by auto
  have "hb_next (h a) = (if cs = [] then 0 else blk_end h a)"
    using chain_next[OF c(2,3)] c(3) by (cases cs) auto
  then have "on_list h a b \<longleftrightarrow> b = a \<or> on_list h (if cs = [] then 0 else blk_end h a) b"
    using blk_ok_nonzero[OF c(2)] by (subst on_list.simps) auto
  then show ?case using Cons.IH[OF c(3)] c(1) by simp
qed (simp add: on_list_zero)

abbreviation fits :: "(u64 \<Rightarrow> heap_block) \<Rightarrow> u64 \<Rightarrow> u64 \<Rightarrow> bool" where
  "fits h sz b \<equiv> hb_free (h b) \<noteq> 0 \<and> hb_size (h b) \<ge> sz"

lemma chain_link:
  assumes "blk_ok h a" "chain h (blk_end h a) HEAP_END bs"
  shows "hb_next (h a) = (if bs = [] then 0 else blk_end h a)"
  using chain_next[OF assms] assms(2) by (cases bs) auto

lemma find_block_chain:
  "chain h a HEAP_END bs \<Longrightarrow> find_block h sz (if bs = [] then 0 else a) =
     Some (case find (fits h sz) bs of None \<Rightarrow> 0 | Some b \<Rightarrow> b)"
proof (induction bs arbitrary: a)
  case (Cons c cs)
  then have c: "c = a" "blk_ok h a" "chain h (blk_end h a) HEAP_END cs" by auto
  show ?case
    using Cons.IH[OF c(3)] c(1) chain_link[OF c(2,3)] blk_ok_nonzero[OF c(2)]
    by (subst find_block.simps) simp
qed (simp add: find_block.simps)

lemma sum_free_chain:
  "chain h a HEAP_END bs \<Longrightarrow> sum_free h (if bs = [] then 0 else a) tot =
     Some (tot + sum_list (map (\<lambda>b. if hb_free (h b) \<noteq> 0 then hb_size (h b) else 0) bs))"
proof (induction bs arbitrary: a tot)
  case (Cons c cs)
  then have c: "c = a" "blk_ok h a" "chain h (blk_end h a) HEAP_END cs" by auto
  show ?case
    using Cons.IH[OF c(3)] c(1) chain_link[OF c(2,3)] blk_ok_nonzero[OF c(2)]
    by (subst sum_free.simps) (simp add: add.assoc)
qed (simp add: sum_free.simps)

lemma heap_chain:
  assumes "heap_inv s"
  obtains bs where "chain (hdr s) HEAP_BASE HEAP_END bs" "bs \<noteq> []"
    "Collect (on_list (hdr s) (heap_head s)) = set bs"
proof -
  obtain bs where bs: "chain (hdr s) HEAP_BASE HEAP_END bs" using assms by (auto simp: heap_inv_def)
  moreover from this have "bs \<noteq> []" by auto
  moreover from this have "Collect (on_list (hdr s) (heap_head s)) = set bs"
    using on_list_chain[OF bs] assms by (auto simp: heap_inv_def)
  ultimately show ?thesis by (rule that)
qed

lemma allocs_chain:
  assumes "chain (hdr s) HEAP_BASE HEAP_END bs" "heap_head s = HEAP_BASE"
  shows "allocs s = (\<lambda>b. (b + HEADER, hb_size (hdr s b))) ` {b \<in> set bs. hb_free (hdr s b) = 0}"
proof -
  have "bs \<noteq> []" using assms(1) by auto
  then have "on_list (hdr s) (heap_head s) b \<longleftrightarrow> b \<in> set bs" for b
    using on_list_chain[OF assms(1)] assms(2) by simp
  then show ?thesis unfolding allocs_def by auto
qed

subsection \<open>Rounding\<close>

lemma unat_round_size: "unat (round_size sz) = unat (sz + 15) div 16 * 16"
proof -
  have "(HEAP_ALIGN - 1 :: u64) = mask 4" by (simp add: mask_eq_exp_minus_1)
  then have "round_size sz = (sz + 15) AND NOT (mask 4)" by (simp add: round_size_def mask_eq_exp_minus_1)
  then show ?thesis using unat_and_not_mask[of "sz + 15" 4] by simp
qed

lemma round_size_bounds:
  assumes "unat sz + 15 < 2 ^ 64"
  shows "unat (round_size sz) = (unat sz + 15) div 16 * 16" "unat sz \<le> unat (round_size sz)"
proof -
  have "unat (sz + 15) = unat sz + 15" using assms by (simp add: unat_add_no_wrap)
  then show "unat (round_size sz) = (unat sz + 15) div 16 * 16"
    by (simp add: unat_round_size)
  then show "unat sz \<le> unat (round_size sz)" by presburger
qed

lemma round_size_mod8: "unat (round_size sz) mod 8 = 0"
  unfolding unat_round_size by presburger

subsection \<open>Allocation\<close>

definition take_block :: "u64 \<Rightarrow> u64 \<Rightarrow> (u64 \<Rightarrow> heap_block) \<Rightarrow> u64 \<Rightarrow> heap_block" where
  "take_block b sz h = (split_block b sz h)(b := (split_block b sz h b)\<lparr>hb_free := 0\<rparr>)"

lemma chain_mid:
  assumes "chain h a e (xs @ b # ys)"
  shows "chain h a b xs" "blk_ok h b" "chain h (blk_end h b) e ys" "b \<notin> set xs" "b \<notin> set ys"
  using assms chain_distinct[OF assms] by (auto simp: chain_append)

lemma mod8_offset:
  "(x::nat) mod 8 = 0 \<Longrightarrow> z mod 8 = 0 \<Longrightarrow> y mod 8 = 0 \<Longrightarrow> z + 40 \<le> y \<Longrightarrow>
   (x + 24 + z) mod 8 = 0 \<and> (y - z - 24) mod 8 = 0"
  by presburger

lemma chain_upd [simp]: "b \<notin> set bs \<Longrightarrow> chain (h(b := v)) a e bs = chain h a e bs"
  by (rule chain_cong) auto

lemma take_block_whole:
  assumes c: "chain h a e (xs @ b # ys)" and no: "hb_size (h b) < sz + HEADER + HEAP_ALIGN"
  shows "chain (take_block b sz h) a e (xs @ b # ys)" "take_block b sz h = h(b := (h b)\<lparr>hb_free := 0\<rparr>)"
proof -
  note m = chain_mid[OF c]
  show t: "take_block b sz h = h(b := (h b)\<lparr>hb_free := 0\<rparr>)"
    using no by (simp add: take_block_def split_block_def)
  have "blk_end (take_block b sz h) b = blk_end h b" by (simp add: t blk_end_def)
  moreover from this have "blk_ok (take_block b sz h) b" using m(2) unfolding blk_ok_def by (simp add: t)
  moreover have "chain (take_block b sz h) a b xs" "chain (take_block b sz h) (blk_end h b) e ys"
    using m by (simp_all add: t)
  ultimately show "chain (take_block b sz h) a e (xs @ b # ys)" by (auto simp: chain_append)
qed

lemma take_block_split:
  assumes c: "chain h a e (xs @ b # ys)" and fit: "hb_size (h b) \<ge> sz"
    and yes: "\<not> hb_size (h b) < sz + HEADER + HEAP_ALIGN" and sz: "unat sz mod 8 = 0"
  defines "r \<equiv> b + HEADER + sz"
  shows "chain (take_block b sz h) a e (xs @ b # r # ys)" "r \<notin> set xs" "r \<notin> set ys" "r \<noteq> b"
    "take_block b sz h = h(r := \<lparr>hb_size = hb_size (h b) - sz - HEADER, hb_free = 1, hb_next = hb_next (h b)\<rparr>,
       b := \<lparr>hb_size = sz, hb_free = 0, hb_next = r\<rparr>)"
proof -
  let ?h = "take_block b sz h"
  note m = chain_mid[OF c] and fit' = fit[unfolded word_le_nat_alt]
  note ok = m(2)[unfolded blk_ok_def]
  have "unat (sz + HEADER + HEAP_ALIGN) = unat sz + 40"
    using ok fit' by (simp add: unat_add_no_wrap)
  then have room: "unat sz + 40 \<le> unat (hb_size (h b))" using yes by (simp add: word_less_nat_alt)
  have r: "unat r = unat b + 24 + unat sz"
    using ok room unfolding r_def by (simp add: unat_add_no_wrap)
  show rb: "r \<noteq> b" using r by (auto simp: word_unat_eq_iff)
  have inside: "unat b < unat r \<and> unat r < unat (blk_end h b)" using r room by (simp add: unat_blk_end[OF m(2)])
  show rx: "r \<notin> set xs" using chain_bounds[OF m(1), of r] inside by auto
  show ry: "r \<notin> set ys" using chain_bounds[OF m(3), of r] inside by auto
  show t: "?h = h(r := \<lparr>hb_size = hb_size (h b) - sz - HEADER, hb_free = 1, hb_next = hb_next (h b)\<rparr>,
       b := \<lparr>hb_size = sz, hb_free = 0, hb_next = r\<rparr>)"
    using yes rb by (cases "h b") (simp add: take_block_def split_block_def Let_def r_def[symmetric])
  have rs: "unat (hb_size (h b) - sz - HEADER) = unat (hb_size (h b)) - unat sz - 24"
    using room by (subst unat_sub_le) (simp_all add: unat_sub_le word_le_nat_alt)
  have eb: "blk_end ?h b = r" by (simp add: t blk_end_def r_def)
  have er: "blk_end ?h r = blk_end h b" using rb by (simp add: t blk_end_def r_def)
  have "r \<noteq> HEAP_END" using inside ok unat_blk_end[OF m(2)] by (auto simp: word_unat_eq_iff)
  then have okb: "blk_ok ?h b" using ok sz room eb unfolding blk_ok_def by (simp add: t)
  have hr: "hb_size (?h r) = hb_size (h b) - sz - HEADER" "hb_next (?h r) = hb_next (h b)"
    using rb by (simp_all add: t)
  have "(unat b + 24 + unat sz) mod 8 = 0" "(unat (hb_size (h b)) - unat sz - 24) mod 8 = 0"
    using mod8_offset[of "unat b" "unat sz" "unat (hb_size (h b))"] ok sz room by auto
  then have okr: "blk_ok ?h r" using ok room r unfolding blk_ok_def er hr rs by simp
  have "chain ?h a b xs" "chain ?h (blk_end h b) e ys"
    using m rx ry by (simp_all add: t)
  then show "chain ?h a e (xs @ b # r # ys)" using okb okr eb er by (auto simp: chain_append)
qed

lemma heap_invD: "heap_inv s \<Longrightarrow> heap_lock s = 0 \<and> heap_head s = HEAP_BASE"
  by (simp add: heap_inv_def)

lemma kmalloc_run:
  assumes inv: "heap_inv s" and bs: "chain (hdr s) HEAP_BASE HEAP_END bs" and sz: "sz \<noteq> 0"
  shows "kmalloc sz s = (case find (fits (hdr s) (round_size sz)) bs of
      None \<Rightarrow> Inr (0, s)
    | Some b \<Rightarrow> Inr (b + HEADER, s\<lparr>hdr := take_block b (round_size sz) (hdr s)\<rparr>))"
proof -
  have "bs \<noteq> []" using bs by auto
  then have f: "find_block (hdr s) (round_size sz) HEAP_BASE =
      Some (case find (fits (hdr s) (round_size sz)) bs of None \<Rightarrow> 0 | Some b \<Rightarrow> b)"
    using find_block_chain[OF bs] by simp
  have nz: "b \<noteq> 0" if "find (fits (hdr s) (round_size sz)) bs = Some b" for b
    using find_SomeD[OF that] chain_bounds[OF bs, of b] blk_ok_nonzero by blast
  show ?thesis
    using heap_invD[OF inv] sz f nz
    by (simp add: kmalloc_def irq_save_disable_def irq_restore_def take_block_def Let_def split: option.splits)
qed

lemma chain_heap_inv:
  "heap_inv s \<Longrightarrow> chain h HEAP_BASE HEAP_END bs \<Longrightarrow> heap_inv (s\<lparr>hdr := h\<rparr>)"
  by (auto simp: heap_inv_def)

lemma payload_inj: "(b :: u64) + HEADER = c + HEADER \<longleftrightarrow> b = c"
  by simp

lemma take_block_result:
  assumes c: "chain h a e (xs @ b # ys)" and fit: "fits h sz b" and sz: "unat sz mod 8 = 0"
  obtains zs where "chain (take_block b sz h) a e (xs @ b # zs)" "set ys \<subseteq> set zs"
    "\<And>x. x \<in> set zs \<Longrightarrow> x \<notin> set ys \<Longrightarrow> hb_free (take_block b sz h x) \<noteq> 0"
    "\<And>x. x \<in> set xs \<or> x \<in> set ys \<Longrightarrow> take_block b sz h x = h x"
    "hb_free (take_block b sz h b) = 0" "sz \<le> hb_size (take_block b sz h b)"
proof (cases "hb_size (h b) < sz + HEADER + HEAP_ALIGN")
  case True
  note w = take_block_whole[OF c True]
  show ?thesis by (rule that[of ys]) (use w chain_mid[OF c] fit in auto)
next
  case False
  note w = take_block_split[OF c _ False sz]
  show ?thesis by (rule that[of "(b + HEADER + sz) # ys"]) (use w chain_mid[OF c] fit in auto)
qed

lemma kmalloc_taken:
  assumes inv: "heap_inv s" and bs: "chain (hdr s) HEAP_BASE HEAP_END bs"
    and f: "find (fits (hdr s) sz) bs = Some b" and sz: "unat sz mod 8 = 0"
  defines "s' \<equiv> s\<lparr>hdr := take_block b sz (hdr s)\<rparr>"
  shows "heap_inv s'" "allocs s' = insert (b + HEADER, hb_size (hdr s' b)) (allocs s)"
    "sz \<le> hb_size (hdr s' b)" "\<And>n. (b + HEADER, n) \<notin> allocs s"
    "b \<in> set bs" "hb_free (hdr s b) \<noteq> 0"
proof -
  have fit: "b \<in> set bs" "fits (hdr s) sz b" using find_SomeD[OF f] by auto
  then show "b \<in> set bs" "hb_free (hdr s b) \<noteq> 0" by auto
  obtain xs ys where split: "bs = xs @ b # ys" using fit(1) by (meson split_list)
  note head = heap_invD[OF inv, THEN conjunct2]
  obtain zs where z: "chain (hdr s') HEAP_BASE HEAP_END (xs @ b # zs)" "set ys \<subseteq> set zs"
    "\<And>x. x \<in> set zs \<Longrightarrow> x \<notin> set ys \<Longrightarrow> hb_free (hdr s' x) \<noteq> 0"
    "\<And>x. x \<in> set xs \<or> x \<in> set ys \<Longrightarrow> hdr s' x = hdr s x"
    "hb_free (hdr s' b) = 0" "sz \<le> hb_size (hdr s' b)"
    using take_block_result[OF bs[unfolded split] fit(2) sz] unfolding s'_def by auto
  show "heap_inv s'" using chain_heap_inv[OF inv] z(1) unfolding s'_def by simp
  show "sz \<le> hb_size (hdr s' b)" by (rule z(6))
  have b: "b \<notin> set xs" "b \<notin> set ys" using chain_mid[OF bs[unfolded split]] by auto
  show "(b + HEADER, n) \<notin> allocs s" for n
    unfolding allocs_chain[OF bs head] using fit(2) by auto
  have "x \<in> set ys" if "x \<in> set zs" "hb_free (hdr s' x) = 0" for x using z(3) that by blast
  then have U: "{x \<in> set (xs @ b # zs). hb_free (hdr s' x) = 0} = insert b {x \<in> set bs. hb_free (hdr s x) = 0}"
    using z(2,4,5) fit(2) by (auto simp: split, metis)
  have "heap_head s' = HEAP_BASE" using head by (simp add: s'_def)
  then have "allocs s' = (\<lambda>x. (x + HEADER, hb_size (hdr s' x))) ` insert b {x \<in> set bs. hb_free (hdr s x) = 0}"
    using allocs_chain[OF z(1)] U by simp
  also have "\<dots> = insert (b + HEADER, hb_size (hdr s' b)) (allocs s)"
    unfolding allocs_chain[OF bs head] image_insert
    using z(4) fit(2) by (intro arg_cong2[of _ _ _ _ insert] image_cong) (auto simp: split)
  finally show "allocs s' = insert (b + HEADER, hb_size (hdr s' b)) (allocs s)" .
qed

subsection \<open>Release\<close>

definition drop_block :: "u64 \<Rightarrow> (u64 \<Rightarrow> heap_block) \<Rightarrow> u64 \<Rightarrow> heap_block" where
  "drop_block b h = merge_next b (h(b := (h b)\<lparr>hb_free := 1\<rparr>))"

lemma kfree_run:
  "heap_inv s \<Longrightarrow> p \<noteq> 0 \<Longrightarrow> kfree p s = Inr (s\<lparr>hdr := drop_block (p - HEADER) (hdr s)\<rparr>)"
  by (simp add: kfree_def irq_save_disable_def irq_restore_def drop_block_def Let_def heap_inv_def)

lemma chain_free_mark:
  assumes "chain h a e bs"
  shows "chain (h(b := (h b)\<lparr>hb_free := f\<rparr>)) a e bs"
proof -
  have "blk_end (h(b := (h b)\<lparr>hb_free := f\<rparr>)) x = blk_end h x"
    "blk_ok (h(b := (h b)\<lparr>hb_free := f\<rparr>)) x = blk_ok h x" for x
    by (simp_all add: blk_ok_def blk_end_def)
  then have "chain (h(b := (h b)\<lparr>hb_free := f\<rparr>)) a e bs = chain h a e bs"
    by (induction bs arbitrary: a) simp_all
  then show ?thesis using assms by simp
qed

lemma mod8_sum: "(x::nat) mod 8 = 0 \<Longrightarrow> z mod 8 = 0 \<Longrightarrow> (x + (24 + z)) mod 8 = 0"
  by presburger

lemma chain_merge:
  assumes c: "chain h a HEAP_END (xs @ b # c # ys)"
  defines "h' \<equiv> h(b := (h b)\<lparr>hb_size := hb_size (h b) + (HEADER + hb_size (h c)), hb_next := hb_next (h c)\<rparr>)"
  shows "chain h' a HEAP_END (xs @ b # ys)"
proof -
  note m = chain_mid[OF c]
  have cc: "c = blk_end h b" "blk_ok h c" "chain h (blk_end h c) HEAP_END ys" using m(3) by auto
  note ub = unat_blk_end[OF m(2)] and okb = m(2)[unfolded blk_ok_def] and okc = cc(2)[unfolded blk_ok_def]
  have sz: "unat (hb_size (h b) + (HEADER + hb_size (h c))) = unat (hb_size (h b)) + (24 + unat (hb_size (h c)))"
    using okb okc by (simp add: unat_add_no_wrap)
  have e: "blk_end h' b = blk_end h c" using cc(1) by (simp add: h'_def blk_end_def)
  have hb: "hb_size (h' b) = hb_size (h b) + (HEADER + hb_size (h c))" "hb_next (h' b) = hb_next (h c)"
    by (simp_all add: h'_def)
  have "(unat (hb_size (h b)) + (24 + unat (hb_size (h c)))) mod 8 = 0"
    using mod8_sum[of "unat (hb_size (h b))" "unat (hb_size (h c))"] okb okc by simp
  then have "blk_ok h' b" using okb okc ub cc(1) unfolding blk_ok_def e hb sz by simp
  moreover have "chain h' a b xs" "chain h' (blk_end h c) HEAP_END ys" using m cc(3) by (simp_all add: h'_def)
  ultimately show ?thesis using e by (auto simp: chain_append)
qed

lemma drop_block_result:
  assumes c: "chain h a HEAP_END (xs @ b # ys)"
  obtains zs where "chain (drop_block b h) a HEAP_END (xs @ b # zs)" "set zs \<subseteq> set ys"
    "\<And>x. x \<in> set ys \<Longrightarrow> x \<notin> set zs \<Longrightarrow> hb_free (h x) \<noteq> 0"
    "\<And>x. x \<noteq> b \<Longrightarrow> drop_block b h x = h x" "hb_free (drop_block b h b) \<noteq> 0"
proof -
  let ?h = "h(b := (h b)\<lparr>hb_free := 1\<rparr>)"
  have c1: "chain ?h a HEAP_END (xs @ b # ys)" by (rule chain_free_mark[OF c])
  note m = chain_mid[OF c1] and l = chain_link[OF chain_mid(2,3)[OF c1]]
  show ?thesis
  proof (cases "\<exists>c zs. ys = c # zs \<and> hb_free (h c) \<noteq> 0")
    case True
    then obtain c zs where y: "ys = c # zs" "hb_free (h c) \<noteq> 0" by blast
    have cb: "c \<noteq> b" "c \<notin> set zs" using m(5) chain_distinct[OF c1] y by auto
    have nx: "hb_next (?h b) = c" "c \<noteq> 0" using l m(3) y blk_ok_nonzero by auto
    have "drop_block b h = ?h(b := (?h b)\<lparr>hb_size := hb_size (?h b) + (HEADER + hb_size (?h c)), hb_next := hb_next (?h c)\<rparr>)"
      using y(2) nx cb by (simp add: drop_block_def merge_next_def)
    then show ?thesis using that[of zs] chain_merge[OF c1[unfolded y]] y cb by auto
  next
    case False
    then have "drop_block b h = ?h" using l m(3,5) blk_ok_nonzero
      by (cases ys) (auto simp: drop_block_def merge_next_def)
    then show ?thesis using that[of ys] c1 by auto
  qed
qed

lemma kfree_released:
  assumes inv: "heap_inv s" and p: "(p, n) \<in> allocs s"
  defines "s' \<equiv> s\<lparr>hdr := drop_block (p - HEADER) (hdr s)\<rparr>"
  shows "kfree p s = Inr s'" "heap_inv s'" "allocs s' = allocs s - {(p, n)}"
proof -
  obtain bs where bs: "chain (hdr s) HEAP_BASE HEAP_END bs" using inv by (auto simp: heap_inv_def)
  note head = heap_invD[OF inv, THEN conjunct2] and A = allocs_chain[OF bs]
  obtain b where b: "p = b + HEADER" "b \<in> set bs" "hb_free (hdr s b) = 0" "n = hb_size (hdr s b)"
    using p unfolding A[OF head] by auto
  obtain xs ys where split: "bs = xs @ b # ys" using b(2) by (meson split_list)
  have s': "s' = s\<lparr>hdr := drop_block b (hdr s)\<rparr>" by (simp add: s'_def b(1))
  have "unat b + 24 < 2 ^ 64" using chain_bounds[OF bs b(2)] by (simp add: blk_ok_def)
  then have "p \<noteq> 0" using b(1) by (auto simp: word_unat_eq_iff unat_add_no_wrap)
  then show "kfree p s = Inr s'" by (simp add: kfree_run[OF inv] s'_def)
  obtain zs where z: "chain (hdr s') HEAP_BASE HEAP_END (xs @ b # zs)" "set zs \<subseteq> set ys"
    "\<And>x. x \<in> set ys \<Longrightarrow> x \<notin> set zs \<Longrightarrow> hb_free (hdr s x) \<noteq> 0"
    "\<And>x. x \<noteq> b \<Longrightarrow> hdr s' x = hdr s x" "hb_free (hdr s' b) \<noteq> 0"
    using drop_block_result[OF bs[unfolded split]] unfolding s' by auto
  show "heap_inv s'" using chain_heap_inv[OF inv] z(1) unfolding s' by simp
  have "heap_head s' = HEAP_BASE" using head by (simp add: s')
  note A' = allocs_chain[OF z(1) this]
  have U: "{x \<in> set (xs @ b # zs). hb_free (hdr s' x) = 0} = {x \<in> set bs. hb_free (hdr s x) = 0} - {b}"
    using z(2,3,4,5) by (auto simp: split; metis)
  show "allocs s' = allocs s - {(p, n)}" unfolding A' U A[OF head] using z(4) b by auto
qed

subsection \<open>Live allocations\<close>

lemma chain_disjoint:
  assumes c: "chain h a e bs" and x: "x \<in> set bs" and y: "y \<in> set bs" and "x \<noteq> y"
  shows "unat x + 24 + unat (hb_size (h x)) \<le> unat y \<or> unat y + 24 + unat (hb_size (h y)) \<le> unat x"
proof -
  obtain xs ys where split: "bs = xs @ x # ys" using x by (meson split_list)
  note m = chain_mid[OF c[unfolded split]]
  have "y \<in> set xs \<or> y \<in> set ys" using y \<open>x \<noteq> y\<close> split by auto
  then show ?thesis
    using chain_bounds[OF m(1), of y] chain_bounds[OF m(3), of y] unat_blk_end[OF m(2)] by auto
qed

lemma alloc_range:
  assumes inv: "heap_inv s" and p: "(p, n) \<in> allocs s"
  obtains b where "on_list (hdr s) (heap_head s) b" "unat p = unat b + 24" "n = hb_size (hdr s b)"
    "p = b + HEADER" "unat HEAP_BASE < unat p" "unat p + unat n \<le> unat HEAP_END" "unat p mod 8 = 0"
proof -
  obtain bs where bs: "chain (hdr s) HEAP_BASE HEAP_END bs" "bs \<noteq> []"
    "Collect (on_list (hdr s) (heap_head s)) = set bs" by (rule heap_chain[OF inv])
  obtain b where b: "on_list (hdr s) (heap_head s) b" "p = b + HEADER" "n = hb_size (hdr s b)"
    using p by (auto simp: allocs_def)
  have ok: "blk_ok (hdr s) b" using chain_bounds[OF bs(1)] b(1) bs(3) by blast
  then have "unat p = unat b + 24" using b(2) by (simp add: blk_ok_def unat_add_no_wrap)
  moreover have "unat HEAP_BASE < unat b + 24" "unat b + 24 + unat n \<le> unat HEAP_END"
    using ok b(3) by (auto simp: blk_ok_def)
  moreover have "(unat b + 24) mod 8 = 0" using ok mod8_sum[of "unat b" 0] by (simp add: blk_ok_def)
  ultimately show ?thesis using b by (intro that[of b]) simp_all
qed

lemma allocs_disjoint:
  assumes inv: "heap_inv s" and p: "(p, n) \<in> allocs s" and q: "(q, k) \<in> allocs s" and ne: "(p, n) \<noteq> (q, k)"
  shows "unat p + unat n \<le> unat q \<or> unat q + unat k \<le> unat p"
proof -
  obtain bs where bs: "chain (hdr s) HEAP_BASE HEAP_END bs" "bs \<noteq> []"
    "Collect (on_list (hdr s) (heap_head s)) = set bs" by (rule heap_chain[OF inv])
  obtain b where b: "on_list (hdr s) (heap_head s) b" "unat p = unat b + 24" "n = hb_size (hdr s b)" "p = b + HEADER"
    by (rule alloc_range[OF inv p])
  obtain c where c: "on_list (hdr s) (heap_head s) c" "unat q = unat c + 24" "k = hb_size (hdr s c)" "q = c + HEADER"
    by (rule alloc_range[OF inv q])
  have "b \<noteq> c" using ne b c by auto
  moreover have "b \<in> set bs" "c \<in> set bs" using b(1) c(1) bs(3) by auto
  ultimately show ?thesis using chain_disjoint[OF bs(1), of b c] b(2,3) c(2,3) by auto
qed

lemma finite_allocs: "heap_inv s \<Longrightarrow> finite (allocs s)"
proof -
  assume inv: "heap_inv s"
  then obtain bs where "chain (hdr s) HEAP_BASE HEAP_END bs" by (auto simp: heap_inv_def)
  from allocs_chain[OF this] show ?thesis using heap_invD[OF inv] by simp
qed

lemma chain_sum:
  "chain h a e bs \<Longrightarrow> unat a + sum_list (map (\<lambda>b. 24 + unat (hb_size (h b))) bs) = unat e"
proof (induction bs arbitrary: a)
  case (Cons b bs)
  then show ?case using Cons.IH[of "blk_end h a"] unat_blk_end[of h a] by simp
qed simp

text \<open>Free bytes, bytes in use and headers add up to the size of the heap.\<close>

lemma unat_sum_list:
  "sum_list (map (\<lambda>b. unat (f b)) bs) < 2 ^ 64 \<Longrightarrow>
   unat (sum_list (map f bs) :: u64) = sum_list (map (\<lambda>b. unat (f b)) bs)"
  by (induction bs) (simp_all add: unat_add_no_wrap)

lemma heap_accounting:
  assumes inv: "heap_inv s"
  shows "\<exists>tot. heap_free_bytes s = Inr (tot, s) \<and>
    unat tot + (\<Sum>(p, n)\<in>allocs s. unat n) + 24 * card {b. on_list (hdr s) (heap_head s) b} = unat HEAP_SIZE"
proof -
  obtain bs where bs: "chain (hdr s) HEAP_BASE HEAP_END bs" "bs \<noteq> []"
    "Collect (on_list (hdr s) (heap_head s)) = set bs" by (rule heap_chain[OF inv])
  let ?h = "hdr s" and ?F = "{b \<in> set bs. hb_free (hdr s b) = 0}"
  let ?free = "\<lambda>b. if hb_free (?h b) \<noteq> 0 then hb_size (?h b) else 0"
  note head = heap_invD[OF inv] and dis = chain_distinct[OF bs(1)]
  have "sum_free ?h HEAP_BASE 0 = Some (sum_list (map ?free bs))"
    using sum_free_chain[OF bs(1), of 0] bs(2) by simp
  then have run: "heap_free_bytes s = Inr (sum_list (map ?free bs), s)"
    using head by (simp add: heap_free_bytes_def irq_save_disable_def irq_restore_def)
  have tot: "(\<Sum>b\<in>set bs. 24 + unat (hb_size (?h b))) = unat HEAP_SIZE"
    using chain_sum[OF bs(1)] dis by (simp add: sum_list_distinct_conv_sum_set)
  have parts: "(\<Sum>b\<in>set bs. 24 + unat (hb_size (?h b))) = (\<Sum>b\<in>set bs. unat (?free b)) +
      (\<Sum>b\<in>?F. unat (hb_size (?h b))) + 24 * card (set bs)"
  proof -
    have "(\<Sum>b\<in>?F. unat (hb_size (?h b))) = (\<Sum>b\<in>set bs. if hb_free (?h b) = 0 then unat (hb_size (?h b)) else 0)"
      by (rule sum.inter_filter) simp
    then have "(\<Sum>b\<in>set bs. unat (?free b)) + (\<Sum>b\<in>?F. unat (hb_size (?h b))) = (\<Sum>b\<in>set bs. unat (hb_size (?h b)))"
      by (simp only: sum.distrib[symmetric]) (rule sum.cong; simp)
    then show ?thesis by (simp add: sum.distrib)
  qed
  have eq: "sum_list (map (\<lambda>b. unat (?free b)) bs) = (\<Sum>b\<in>set bs. unat (?free b))"
    using dis by (rule sum_list_distinct_conv_sum_set)
  have "unat (sum_list (map ?free bs)) = (\<Sum>b\<in>set bs. unat (?free b))"
    unfolding eq[symmetric] by (rule unat_sum_list) (use eq tot parts in simp)
  moreover have "(\<Sum>(p, n)\<in>allocs s. unat n) = (\<Sum>b\<in>?F. unat (hb_size (?h b)))"
    unfolding allocs_chain[OF bs(1) conjunct2[OF head]]
    by (subst sum.reindex) (auto simp: inj_on_def)
  ultimately show ?thesis using run tot parts bs(3) by auto
qed

subsection \<open>The interface to the rest of the kernel\<close>

text \<open>
  What clients of the heap rely on: an allocation ends, and either fails leaving the state alone
  or adds one allocation of at least the size asked for; freeing a live allocation removes it.
  The client lemma is the pattern "allocate a buffer, work, free it".
\<close>

locale kernel_heap =
  fixes ok :: "'s \<Rightarrow> bool" and live :: "'s \<Rightarrow> (u64 \<times> u64) set"
    and malloc :: "u64 \<Rightarrow> 's \<Rightarrow> (u64 \<times> 's) res" and release :: "u64 \<Rightarrow> 's \<Rightarrow> 's res"
  assumes malloc_total: "ok s \<Longrightarrow> \<exists>p s'. malloc n s = Inr (p, s')"
    and malloc_null: "ok s \<Longrightarrow> malloc n s = Inr (0, s') \<Longrightarrow> s' = s"
    and malloc_live: "ok s \<Longrightarrow> malloc n s = Inr (p, s') \<Longrightarrow> p \<noteq> 0 \<Longrightarrow>
      ok s' \<and> (\<exists>k. live s' = insert (p, k) (live s) \<and> (p, k) \<notin> live s \<and> (unat n + 15 < 2 ^ 64 \<longrightarrow> n \<le> k))"
    and release_live: "ok s \<Longrightarrow> (p, k) \<in> live s \<Longrightarrow>
      \<exists>s'. release p s = Inr s' \<and> ok s' \<and> live s' = live s - {(p, k)}"
    and release_null: "release 0 s = Inr s"
begin

lemma malloc_ok: "ok s \<Longrightarrow> malloc n s = Inr (p, s') \<Longrightarrow> ok s'"
  by (cases "p = 0") (auto dest: malloc_null malloc_live)

lemma borrow:
  assumes "ok s" "malloc n s = Inr (p, s1)" "ok s2" "live s2 = live s1"
  shows "\<exists>s3. release p s2 = Inr s3 \<and> ok s3 \<and> live s3 = live s"
proof (cases "p = 0")
  case True
  then have "s1 = s" using malloc_null assms(1,2) by blast
  then show ?thesis using True assms(3,4) release_null by simp
next
  case False
  then obtain k where k: "live s1 = insert (p, k) (live s)" "(p, k) \<notin> live s"
    using malloc_live[OF assms(1,2)] by blast
  then have "(p, k) \<in> live s2" using assms(4) by simp
  from release_live[OF assms(3) this] show ?thesis using k assms(4) by auto
qed

end

lemma kmalloc_total: "heap_inv s \<Longrightarrow> \<exists>p s'. kmalloc n s = Inr (p, s')"
proof (cases "n = 0")
  case False
  assume inv: "heap_inv s"
  then obtain bs where bs: "chain (hdr s) HEAP_BASE HEAP_END bs" by (auto simp: heap_inv_def)
  show ?thesis using kmalloc_run[OF inv bs False] by (simp split: option.splits)
qed (simp add: kmalloc_def)

lemma kmalloc_result:
  assumes inv: "heap_inv s" and k: "kmalloc n s = Inr (p, s')"
  obtains (null) "p = 0" "s' = s"
    "n = 0 \<or> (\<forall>b. on_list (hdr s) (heap_head s) b \<longrightarrow> hb_free (hdr s b) = 0 \<or> hb_size (hdr s b) < round_size n)"
  | (block) b where "n \<noteq> 0" "p = b + HEADER" "p \<noteq> 0" "heap_inv s'" "s' = s\<lparr>hdr := hdr s'\<rparr>"
    "on_list (hdr s) (heap_head s) b" "hb_free (hdr s b) \<noteq> 0"
    "allocs s' = insert (p, hb_size (hdr s' b)) (allocs s)" "\<forall>j. (p, j) \<notin> allocs s"
    "round_size n \<le> hb_size (hdr s' b)"
proof (cases "n = 0")
  case True
  then show ?thesis using k null by (simp add: kmalloc_def)
next
  case False
  obtain bs where bs: "chain (hdr s) HEAP_BASE HEAP_END bs" "bs \<noteq> []"
    "Collect (on_list (hdr s) (heap_head s)) = set bs" by (rule heap_chain[OF inv])
  note run = kmalloc_run[OF inv bs(1) False]
  show ?thesis
  proof (cases "find (fits (hdr s) (round_size n)) bs")
    case None
    then have "p = 0" "s' = s" using run k by auto
    moreover have "hb_free (hdr s b) = 0 \<or> hb_size (hdr s b) < round_size n"
      if "on_list (hdr s) (heap_head s) b" for b
      using None that bs(3) by (auto simp: find_None_iff not_le)
    ultimately show ?thesis using null by blast
  next
    case (Some b)
    note t = kmalloc_taken[OF inv bs(1) Some round_size_mod8]
    have p: "p = b + HEADER" "s' = s\<lparr>hdr := take_block b (round_size n) (hdr s)\<rparr>" using run k Some by auto
    have "unat b + 24 < 2 ^ 64" using chain_bounds[OF bs(1) t(5)] by (simp add: blk_ok_def)
    then have "p \<noteq> 0" using p(1) by (auto simp: word_unat_eq_iff unat_add_no_wrap)
    then show ?thesis using t p bs(3) False by (intro block[of b]) auto
  qed
qed

lemma kmalloc_null: "heap_inv s \<Longrightarrow> kmalloc n s = Inr (0, s') \<Longrightarrow> s' = s"
  by (erule kmalloc_result) auto

lemma kmalloc_live:
  "heap_inv s \<Longrightarrow> kmalloc n s = Inr (p, s') \<Longrightarrow> p \<noteq> 0 \<Longrightarrow>
   heap_inv s' \<and> (\<exists>k. allocs s' = insert (p, k) (allocs s) \<and> (p, k) \<notin> allocs s \<and> (unat n + 15 < 2 ^ 64 \<longrightarrow> n \<le> k))"
proof -
  assume a: "heap_inv s" "kmalloc n s = Inr (p, s')" "p \<noteq> 0"
  from a(1,2) show ?thesis
  proof (cases rule: kmalloc_result)
    case (block b)
    have "n \<le> hb_size (hdr s' b)" if "unat n + 15 < 2 ^ 64"
      using round_size_bounds(2)[OF that] block(10) by (simp add: word_le_nat_alt)
    then show ?thesis using block(4,8,9) by blast
  qed (use a in simp)
qed

lemma kfree_live:
  "heap_inv s \<Longrightarrow> (p, k) \<in> allocs s \<Longrightarrow> \<exists>s'. kfree p s = Inr s' \<and> heap_inv s' \<and> allocs s' = allocs s - {(p, k)}"
  using kfree_released by blast

lemma kfree_null: "kfree 0 s = Inr s"
  by (simp add: kfree_def)

interpretation heap: kernel_heap heap_inv allocs kmalloc kfree
  by (rule kernel_heap.intro) (rule kmalloc_total kmalloc_null kmalloc_live kfree_live kfree_null; assumption)+

subsection \<open>Properties\<close>

text \<open>C29. \<open>kmalloc\<close> always returns on a well-formed heap. It returns NULL only for a request of
  size 0 or when no free block is large enough, and then nothing changes; otherwise one new
  allocation appears, at least as large as the request (for requests that do not overflow when
  rounded up), every other allocation stays as it was, and the heap stays well-formed.\<close>

theorem kmalloc_spec:
  assumes inv: "heap_inv s"
  shows "\<exists>p s'. kmalloc n s = Inr (p, s') \<and>
    (if p = 0
     then s' = s \<and> (n = 0 \<or> (\<forall>b. on_list (hdr s) (heap_head s) b \<longrightarrow>
       hb_free (hdr s b) = 0 \<or> hb_size (hdr s b) < round_size n))
     else heap_inv s' \<and> (\<exists>k. allocs s' = insert (p, k) (allocs s) \<and> (p, k) \<notin> allocs s \<and>
       (unat n + 15 < 2 ^ 64 \<longrightarrow> n \<le> k)))"
proof -
  obtain p s' where k: "kmalloc n s = Inr (p, s')" using kmalloc_total[OF inv] by blast
  show ?thesis
  proof (cases "p = 0")
    case True
    from inv k have "s' = s \<and> (n = 0 \<or> (\<forall>b. on_list (hdr s) (heap_head s) b \<longrightarrow>
       hb_free (hdr s b) = 0 \<or> hb_size (hdr s b) < round_size n))"
      by (cases rule: kmalloc_result) (use True in auto)
    then show ?thesis using k True by auto
  next
    case False
    then show ?thesis using k kmalloc_live[OF inv k False] by auto
  qed
qed

text \<open>C30. \<open>kfree\<close> of a live allocation removes exactly that one and keeps the heap well-formed,
  whether or not it merges with the block after it; \<open>kfree(NULL)\<close> does nothing.\<close>

theorem kfree_spec:
  assumes "heap_inv s" "(p, n) \<in> allocs s"
  shows "(\<exists>s'. kfree p s = Inr s' \<and> heap_inv s' \<and> allocs s' = allocs s - {(p, n)}) \<and> kfree 0 s = Inr s"
  using kfree_live[OF assms] kfree_null by blast


text \<open>Allocating a buffer and freeing it after any work that leaves the allocations alone
  restores the set of allocations, also when the allocation failed.\<close>

theorem kmalloc_kfree_balanced:
  fixes s s2 :: "'a heap_state_scheme"
  assumes "heap_inv s" "kmalloc n s = Inr (p, s1)" "heap_inv s2" "allocs s2 = allocs s1"
  shows "\<exists>s3. kfree p s2 = Inr s3 \<and> heap_inv s3 \<and> allocs s3 = allocs s"
  by (rule heap.borrow[OF assms])

text \<open>\<open>heap_free_bytes\<close> returns, and the bytes it reports, the bytes of the live allocations
  and 24 bytes of header for every block add up to the 16 MiB of the heap: no byte is lost.\<close>

theorem heap_bytes_accounted:
  assumes "heap_inv s"
  shows "\<exists>tot. heap_free_bytes s = Inr (tot, s) \<and>
    unat tot + (\<Sum>(p, n)\<in>allocs s. unat n) + 24 * card {b. on_list (hdr s) (heap_head s) b} = unat HEAP_SIZE"
  by (rule heap_accounting[OF assms])

text \<open>\<open>heap_init\<close> takes every page of the heap region away from the page allocator, keeps the
  page allocator's invariant, and leaves a well-formed heap with no allocation.\<close>

theorem heap_init_spec:
  assumes "pmm_inv s" "heap_lock s = 0"
  shows "heap_inv (heap_init s) \<and> allocs (heap_init s) = {} \<and> pmm_inv (heap_init s) \<and>
    free_set (heap_init s) = free_set s - {p. unat HEAP_BASE div 4096 \<le> unat p \<and> unat p < unat HEAP_END div 4096}"
proof -
  let ?r = "pmm_reserve_region HEAP_BASE HEAP_SIZE s" and ?s = "heap_init s"
  let ?h = "(hdr s)(HEAP_BASE := \<lparr>hb_size = HEAP_SIZE - HEADER, hb_free = 1, hb_next = 0\<rparr>)"
  note t = pmm_reserve_region_tracks[OF assms(1), of HEAP_BASE HEAP_SIZE]
  obtain m n where r: "?r = s\<lparr>mem := m, free_pages := n\<rparr>" using t unfolding tracks_def by blast
  have s: "?s = ?r\<lparr>hdr := ?h, heap_head := HEAP_BASE\<rparr>" by (simp add: heap_init_def r Let_def)
  have fields: "hdr ?s = ?h" "heap_head ?s = HEAP_BASE" "heap_lock ?s = 0" using assms(2) by (simp_all add: s r)
  have c: "chain (hdr ?s) HEAP_BASE HEAP_END [HEAP_BASE]"
    unfolding fields by (simp add: blk_ok_def blk_end_def)
  have "free_set ?s = free_set ?r" by (simp add: s free_set_def bitmap_test_def)
  moreover have "pmm_inv ?r" by (rule tracks_pmm_inv[OF t assms(1)]) (use not_free_reserved[OF assms(1)] in auto)
  then have "pmm_inv ?s"
    by (simp add: s pmm_inv_def free_set_def bitmap_test_def reserved_page_def bitmap_bytes_def)
  moreover have "allocs ?s = {}" unfolding allocs_chain[OF c fields(2)] by (simp add: fields)
  moreover have "heap_inv ?s" unfolding heap_inv_def using c fields(2,3) by blast
  ultimately show ?thesis using tracksD(6)[OF t] by (simp add: word_le_nat_alt word_less_nat_alt)
qed

text \<open>C32. A request within 15 bytes of \<open>2 ^ 64\<close> overflows when it is rounded up: on a heap with any
  free block \<open>kmalloc\<close> then succeeds with an allocation smaller than the request.\<close>

theorem kmalloc_overflow:
  assumes inv: "heap_inv s" and n: "2 ^ 64 \<le> unat n + 15"
    and f: "on_list (hdr s) (heap_head s) b" "hb_free (hdr s b) \<noteq> 0"
  shows "\<exists>p s' k. kmalloc n s = Inr (p, s') \<and> p \<noteq> 0 \<and> (p, k) \<in> allocs s' \<and> unat k < unat n"
proof -
  have "unat (n + 15) < 16" using n unsigned_less[of n, where ?'a = nat] by (simp add: unat_word_ariths le_mod_geq)
  then have z: "round_size n = 0" using unat_round_size[of n] by (simp add: word_unat_eq_iff)
  obtain p s' where k: "kmalloc n s = Inr (p, s')" using kmalloc_total[OF inv] by blast
  from inv k show ?thesis
  proof (cases rule: kmalloc_result)
    case null
    then show ?thesis using f n z by auto
  next
    case (block c)
    then have a: "(p, hb_size (hdr s' c)) \<in> allocs s'" by simp
    obtain d where "unat p + unat (hb_size (hdr s' c)) \<le> unat HEAP_END" by (rule alloc_range[OF block(4) a])
    then have "unat (hb_size (hdr s' c)) < unat n" using n by simp
    then show ?thesis using k block(3) a by blast
  qed
qed

subsection \<open>The properties on a concrete heap\<close>

definition heap_example :: heap_state where
  "heap_example = \<lparr>mem = (\<lambda>_. 0)(0x1000 := 3), rflags_if = True, bitmap = 0x1000,
     bitmap_bits = 4, free_pages = 2, search_hint = 1, pmm_lock = 0, kernel_pml4 = 0, cr3 = 0, efer = 0,
     hdr = (\<lambda>_. \<lparr>hb_size = 0, hb_free = 0, hb_next = 0\<rparr>)
       (HEAP_BASE := \<lparr>hb_size = 0x20, hb_free = 0, hb_next = HEAP_BASE + 0x38\<rparr>,
        HEAP_BASE + 0x38 := \<lparr>hb_size = HEAP_SIZE - 0x50, hb_free = 1, hb_next = 0\<rparr>),
     heap_head = HEAP_BASE, heap_lock = 0\<rparr>"

lemma heap_example_chain: "chain (hdr heap_example) HEAP_BASE HEAP_END [HEAP_BASE, HEAP_BASE + 0x38]"
  by (simp add: heap_example_def blk_ok_def blk_end_def)

lemma heap_example_head [simp]: "heap_head heap_example = HEAP_BASE"
  by (simp add: heap_example_def)

lemma heap_example_inv: "heap_inv heap_example"
proof -
  have "heap_lock heap_example = 0" by (simp add: heap_example_def)
  then show ?thesis unfolding heap_inv_def using heap_example_chain heap_example_head by blast
qed

lemma heap_example_allocs: "allocs heap_example = {(HEAP_BASE + HEADER, 0x20)}"
  unfolding allocs_chain[OF heap_example_chain heap_example_head]
  by (auto simp: heap_example_def)

lemma heap_example_free: "on_list (hdr heap_example) (heap_head heap_example) (HEAP_BASE + 0x38)"
  using on_list_chain[OF heap_example_chain] by simp

lemma heap_example_pmm: "pmm_inv heap_example" "free_set heap_example = {2, 3}"
proof -
  have t: "pmm_state.truncate heap_example = pmm_example"
    by (simp add: pmm_state.defs heap_example_def pmm_example_def)
  show "pmm_inv heap_example" "free_set heap_example = {2, 3}"
    using pmm_inv_truncate[of heap_example] free_set_truncate[of heap_example] pmm_example_inv pmm_example_free
    by (simp_all add: t)
qed

theorem kmalloc_spec_witness:
  "\<exists>p s'. kmalloc 100 heap_example = Inr (p, s') \<and> (p = 0 \<or> heap_inv s')"
  using kmalloc_spec[OF heap_example_inv, of 100] by (auto split: if_splits)

theorem kfree_spec_witness:
  "\<exists>s'. kfree 0x1000018 heap_example = Inr s' \<and> heap_inv s' \<and> allocs s' = {}"
proof -
  have "(0x1000018, 0x20) \<in> allocs heap_example" by (simp add: heap_example_allocs)
  from kfree_spec[OF heap_example_inv this] show ?thesis by (auto simp: heap_example_allocs)
qed


theorem kmalloc_kfree_balanced_witness:
  "\<exists>p s1 s3. kmalloc 512 heap_example = Inr (p, s1) \<and> kfree p s1 = Inr s3 \<and> allocs s3 = allocs heap_example"
proof -
  obtain p s1 where k: "kmalloc 512 heap_example = Inr (p, s1)" using kmalloc_total[OF heap_example_inv] by blast
  from kmalloc_kfree_balanced[OF heap_example_inv k heap.malloc_ok[OF heap_example_inv k] refl] k
  show ?thesis by blast
qed

theorem heap_bytes_accounted_witness:
  "\<exists>tot. heap_free_bytes heap_example = Inr (tot, heap_example) \<and> unat tot < unat HEAP_SIZE"
proof -
  have "(0x1000018, 0x20) \<in> allocs heap_example" by (simp add: heap_example_allocs)
  then have "(\<Sum>(p, n)\<in>allocs heap_example. unat n) = 32" by (simp add: heap_example_allocs)
  with heap_bytes_accounted[OF heap_example_inv] show ?thesis by fastforce
qed

theorem heap_init_spec_witness:
  "heap_inv (heap_init heap_example) \<and> pmm_inv (heap_init heap_example)"
  using heap_init_spec[OF heap_example_pmm(1)] by (simp add: heap_example_def)

theorem kmalloc_overflow_witness:
  "\<exists>p s' k. kmalloc 0xFFFFFFFFFFFFFFF8 heap_example = Inr (p, s') \<and> p \<noteq> 0 \<and> (p, k) \<in> allocs s' \<and> unat k < 0xFFFFFFFFFFFFFFF8"
proof -
  have "hb_free (hdr heap_example (HEAP_BASE + 0x38)) \<noteq> 0" by (simp add: heap_example_def)
  from kmalloc_overflow[OF heap_example_inv _ heap_example_free this, of "0xFFFFFFFFFFFFFFF8"]
  show ?thesis by simp
qed

end
