(* ===== verification/Buffers.thy ===== *)
theory Buffers
  imports Heap
begin

section \<open>Byte buffers in memory and on the heap\<close>

text \<open>
  Ranges of bytes, and the discipline every user of \<open>kmalloc\<close> in the kernel follows: a buffer is
  allocated, used and freed again. An address is held in a state if it lies outside the heap or in
  a live allocation; a fresh buffer covers no held address, so work inside it changes nothing that
  anyone else relies on.
\<close>

subsection \<open>Byte ranges of memory\<close>

definition bytes_at :: "mem \<Rightarrow> u64 \<Rightarrow> nat \<Rightarrow> u8 list" where
  "bytes_at m a n = map (\<lambda>i. m (a + of_nat i)) [0..<n]"

definition store_bytes :: "u64 \<Rightarrow> u8 list \<Rightarrow> mem \<Rightarrow> mem" where
  "store_bytes a bs m = (\<lambda>x. if unat (x - a) < length bs then bs ! unat (x - a) else m x)"

lemma length_bytes_at [simp]: "length (bytes_at m a n) = n"
  by (simp add: bytes_at_def)

lemma nth_bytes_at [simp]: "i < n \<Longrightarrow> bytes_at m a n ! i = m (a + of_nat i)"
  by (simp add: bytes_at_def)

lemma bytes_at_cong: "(\<And>i. i < n \<Longrightarrow> m (a + of_nat i) = m' (b + of_nat i)) \<Longrightarrow> bytes_at m a n = bytes_at m' b n"
  by (simp add: bytes_at_def)

lemma bytes_at_append: "bytes_at m a (i + j) = bytes_at m a i @ bytes_at m (a + of_nat i) j"
  by (rule nth_equalityI) (auto simp: nth_append not_less algebra_simps)

lemma store_bytes_in [mem_simps]:
  "i < length bs \<Longrightarrow> length bs \<le> 2 ^ 64 \<Longrightarrow> store_bytes a bs m (a + of_nat i) = bs ! i"
  by (simp add: store_bytes_def unat_of_nat_less)

lemma bytes_at_store_bytes [simp]:
  "length bs \<le> 2 ^ 64 \<Longrightarrow> bytes_at (store_bytes a bs m) a (length bs) = bs"
  by (rule nth_equalityI) (simp_all add: mem_simps)

lemma store_bytes_nil [simp]: "store_bytes a [] m = m"
  by (simp add: store_bytes_def)


lemma store_bytes_out [mem_simps]: "\<not> unat (x - a) < length bs \<Longrightarrow> store_bytes a bs m x = m x"
  by (simp add: store_bytes_def)

lemma load_le_store_le_same:
  assumes "8 * n \<le> LENGTH('a)" "n \<le> 2 ^ 64"
  shows "load_le n (store_le n (v :: 'a::len word) a m) a = take_bit (8 * n) v"
proof (rule bit_word_eqI)
  fix k assume k: "k < LENGTH('a)"
  show "bit (load_le n (store_le n v a m) a :: 'a word) k = bit (take_bit (8 * n) v) k"
  proof (cases "k < 8 * n")
    case True
    then have d: "k div 8 < n" by auto
    have off: "unat ((a + of_nat (k div 8)) - a) = k div 8"
      using d assms(2) by (simp add: unat_of_nat_less)
    have "8 * (k div 8) + k mod 8 = k" by simp
    then show ?thesis using k True d off assms(2)
      by (simp add: bit_load_le store_le_apply bit_simps unat_of_nat_less)
  qed (use k in \<open>simp add: bit_load_le bit_simps\<close>)
qed

subsection \<open>Regions\<close>

text \<open>The addresses of the \<open>n\<close> bytes at \<open>a\<close>, for regions that do not wrap.\<close>

definition region :: "u64 \<Rightarrow> nat \<Rightarrow> u64 set" where
  "region a n = {x. unat a \<le> unat x \<and> unat x < unat a + n}"

lemma region_iff: "unat a + n \<le> 2 ^ 64 \<Longrightarrow> x \<in> region a n \<longleftrightarrow> unat (x - a) < n"
proof -
  assume n: "unat a + n \<le> 2 ^ 64"
  show ?thesis
  proof (cases "a \<le> x")
    case True
    then show ?thesis by (auto simp: region_def unat_sub_le word_le_nat_alt)
  next
    case False
    then have lt: "unat x < unat a" by (simp add: word_le_nat_alt)
    have "unat (x - a) = 2 ^ 64 + unat x - unat a" using lt by (simp add: unat_sub_if')
    then show ?thesis using lt n by (auto simp: region_def)
  qed
qed

lemma region_offset: "unat a + n \<le> 2 ^ 64 \<Longrightarrow> i < n \<Longrightarrow> a + of_nat i \<in> region a n"
proof -
  assume n: "unat a + n \<le> 2 ^ 64" and i: "i < n"
  have "i < 2 ^ 64" using n i by simp
  then show ?thesis using i by (simp add: region_iff[OF n] unat_of_nat_less)
qed

lemma region_sub: "unat a + i + j \<le> 2 ^ 64 \<Longrightarrow> i + j \<le> n \<Longrightarrow> i < 2 ^ 64 \<Longrightarrow> region (a + of_nat i) j \<subseteq> region a n"
proof -
  assume w: "unat a + i + j \<le> 2 ^ 64" and n: "i + j \<le> n" and i: "i < 2 ^ 64"
  show ?thesis
  proof (cases "j = 0")
    case False
    then have "unat (a + of_nat i) = unat a + i" using w i by (subst unat_add_no_wrap) (auto simp: unat_of_nat_less)
    then show ?thesis using n by (auto simp: region_def)
  qed (auto simp: region_def)
qed

lemma bytes_at_region:
  "unat a + n \<le> 2 ^ 64 \<Longrightarrow> (\<And>x. x \<in> region a n \<Longrightarrow> m x = m' x) \<Longrightarrow> bytes_at m a n = bytes_at m' a n"
  by (rule bytes_at_cong) (simp add: region_offset)

lemma store_bytes_region: "unat a + length bs \<le> 2 ^ 64 \<Longrightarrow> x \<notin> region a (length bs) \<Longrightarrow> store_bytes a bs m x = m x"
  by (simp add: region_iff store_bytes_def)

lemma load_le_region:
  "unat a + n \<le> 2 ^ 64 \<Longrightarrow> (\<And>x. x \<in> region a n \<Longrightarrow> m x = m' x) \<Longrightarrow> load_le n m a = load_le n m' a"
  by (rule load_le_cong) (simp add: region_offset)

lemma store_le_region: "unat a + n \<le> 2 ^ 64 \<Longrightarrow> x \<notin> region a n \<Longrightarrow> store_le n v a m x = m x"
  by (subst store_le_apply) (auto simp: region_iff)

lemma memcpy_disjoint:
  assumes w: "unat dst + unat n \<le> 2 ^ 64" "unat src + unat n \<le> 2 ^ 64"
    and d: "region dst (unat n) \<inter> region src (unat n) = {}"
  shows "memcpy dst src n m = store_bytes dst (bytes_at m src (unat n)) m"
proof
  fix x
  have "src + of_nat j \<noteq> dst + (of_nat i :: u64)" if "i < j" "j < unat n" for i j
    using region_offset[OF w(1), of i] region_offset[OF w(2), of j] d that by auto
  from memcpy_apply[OF this, of n m x] show "memcpy dst src n m x = store_bytes dst (bytes_at m src (unat n)) m x"
    by (simp add: store_bytes_def)
qed

lemma memset_zero: "memset a 0 n m = store_bytes a (replicate (unat n) 0) m"
  by (rule ext) (simp add: memset_apply store_bytes_def)

subsection \<open>Held addresses and borrowed buffers\<close>

definition held :: "'a heap_state_scheme \<Rightarrow> u64 \<Rightarrow> bool" where
  "held s x \<longleftrightarrow> x \<notin> region HEAP_BASE (unat HEAP_SIZE) \<or> (\<exists>(p, k)\<in>allocs s. x \<in> region p (unat k))"

lemma held_cong: "allocs s = allocs s' \<Longrightarrow> held s = held s'"
  by (simp add: fun_eq_iff held_def)

lemma alloc_bounds:
  assumes "heap_inv s" "(p, k) \<in> allocs s"
  shows "unat HEAP_BASE < unat p" "unat p + unat k \<le> unat HEAP_END" "region p (unat k) \<subseteq> region HEAP_BASE (unat HEAP_SIZE)"
proof -
  obtain b where b: "unat HEAP_BASE < unat p" "unat p + unat k \<le> unat HEAP_END"
    by (rule alloc_range[OF assms])
  then show "unat HEAP_BASE < unat p" "unat p + unat k \<le> unat HEAP_END" .
  show "region p (unat k) \<subseteq> region HEAP_BASE (unat HEAP_SIZE)"
    using b by (auto simp: region_def)
qed

lemma fresh_unheld:
  assumes inv: "heap_inv s'" and a: "allocs s' = insert (p, k) (allocs s)" "(p, k) \<notin> allocs s"
    and x: "x \<in> region p (unat k)"
  shows "\<not> held s x"
proof
  assume "held s x"
  moreover have "x \<in> region HEAP_BASE (unat HEAP_SIZE)" using alloc_bounds(3)[OF inv, of p k] a(1) x by auto
  ultimately obtain q j where q: "(q, j) \<in> allocs s" "x \<in> region q (unat j)" by (auto simp: held_def)
  then have "(q, j) \<noteq> (p, k)" "(q, j) \<in> allocs s'" "(p, k) \<in> allocs s'" using a by auto
  from allocs_disjoint[OF inv this(2,3,1)] show False using x q(2) by (auto simp: region_def)
qed

text \<open>A buffer \<open>p\<close> of at least \<open>n\<close> bytes borrowed from the heap: \<open>s'\<close> is \<open>s\<close> after the allocation.\<close>

definition borrowed :: "'a heap_state_scheme \<Rightarrow> u64 \<Rightarrow> nat \<Rightarrow> 'a heap_state_scheme \<Rightarrow> bool" where
  "borrowed s p n s' \<longleftrightarrow> p \<noteq> 0 \<and> s' = s\<lparr>hdr := hdr s'\<rparr> \<and> heap_inv s' \<and>
     (\<exists>k. n \<le> unat k \<and> allocs s' = insert (p, k) (allocs s) \<and> (p, k) \<notin> allocs s)"

lemma borrowedD:
  assumes "borrowed s p n s'"
  shows "p \<noteq> 0" "s' = s\<lparr>hdr := hdr s'\<rparr>" "heap_inv s'" "unat p + n \<le> unat HEAP_END"
    "\<And>x. x \<in> region p n \<Longrightarrow> \<not> held s x" "\<And>x. x \<in> region p n \<Longrightarrow> held s' x" "\<And>x. held s x \<Longrightarrow> held s' x"
    "allocs s \<subseteq> allocs s'"
proof -
  obtain k where k: "n \<le> unat k" "allocs s' = insert (p, k) (allocs s)" "(p, k) \<notin> allocs s"
    using assms unfolding borrowed_def by blast
  have inv: "heap_inv s'" using assms unfolding borrowed_def by blast
  show "p \<noteq> 0" "s' = s\<lparr>hdr := hdr s'\<rparr>" "heap_inv s'" using assms unfolding borrowed_def by blast+
  show "unat p + n \<le> unat HEAP_END" using alloc_bounds(2)[OF inv, of p k] k by simp
  have sub: "region p n \<subseteq> region p (unat k)" using k(1) by (auto simp: region_def)
  show "\<not> held s x" if "x \<in> region p n" for x using fresh_unheld[OF inv k(2,3)] sub that by blast
  show "held s' x" if "x \<in> region p n" for x using k(2) sub that by (auto simp: held_def)
  show "held s' x" if "held s x" for x using k(2) that by (auto simp: held_def)
  show "allocs s \<subseteq> allocs s'" using k(2) by blast
qed

lemma kmalloc_borrow:
  assumes inv: "heap_inv s" and n: "n \<noteq> 0" "unat n + 15 < 2 ^ 64"
  obtains (null) "kmalloc n s = Inr (0, s)" "\<forall>b. on_list (hdr s) (heap_head s) b \<longrightarrow>
      hb_free (hdr s b) = 0 \<or> hb_size (hdr s b) < round_size n"
  | (buf) p s' where "kmalloc n s = Inr (p, s')" "borrowed s p (unat n) s'"
proof -
  obtain p s' where k: "kmalloc n s = Inr (p, s')" using kmalloc_total[OF inv] by blast
  from inv k show ?thesis
  proof (cases rule: kmalloc_result)
    case null
    then show ?thesis using that(1) k n by blast
  next
    case (block b)
    from kmalloc_live[OF inv k block(3)] n(2) have "borrowed s p (unat n) s'"
      using block(3,5) unfolding borrowed_def by (auto simp: word_le_nat_alt)
    then show ?thesis using that(2) k by blast
  qed
qed

lemma kfree_return:
  assumes b: "borrowed s p n s1" and inv: "heap_inv s2" and a: "allocs s2 = allocs s1"
  obtains s3 where "kfree p s2 = Inr s3" "s3 = s2\<lparr>hdr := hdr s3\<rparr>" "heap_inv s3" "allocs s3 = allocs s"
proof -
  obtain k where k: "allocs s1 = insert (p, k) (allocs s)" "(p, k) \<notin> allocs s"
    using b unfolding borrowed_def by blast
  then have "(p, k) \<in> allocs s2" using a by simp
  note r = kfree_released[OF inv this]
  show ?thesis by (rule that[OF r(1) _ r(2)]) (use r(3) a k in auto)
qed

lemma heap_mem_upd [simp]:
  "heap_inv (s\<lparr>mem := m\<rparr>) = heap_inv s" "allocs (s\<lparr>mem := m\<rparr>) = allocs s" "held (s\<lparr>mem := m\<rparr>) = held s"
  "heap_inv (s\<lparr>rflags_if := b\<rparr>) = heap_inv s" "allocs (s\<lparr>rflags_if := b\<rparr>) = allocs s" "held (s\<lparr>rflags_if := b\<rparr>) = held s"
  by (simp_all add: heap_inv_def allocs_def held_def fun_eq_iff)

lemma bytes_at_0 [simp]: "bytes_at m a 0 = []"
  by (simp add: bytes_at_def)

end
