(* ===== verification/Blockdev.thy ===== *)
theory Blockdev
  imports Buffers
begin

section \<open>The block device interface (kernel/include/blockdev.h)\<close>

text \<open>
  The disk as the file system sees it: an array of bytes in sectors of 512, with a number of
  sectors. A transfer moves \<open>count\<close> consecutive sectors between the disk and memory; one that
  reaches past the last sector is a device error, which ends in a panic as \<open>blockdev.h\<close> says.
  The theory \<open>Ahci\<close> models the driver behind this interface.
\<close>

record blk_state = heap_state +
  disk :: "nat \<Rightarrow> u8"
  disk_sectors :: nat

abbreviation BLOCKDEV_SECTOR_SIZE :: nat where "BLOCKDEV_SECTOR_SIZE \<equiv> 512"

subsection \<open>Transfers\<close>

definition blk_bytes :: "u64 \<Rightarrow> u32 \<Rightarrow> 'a blk_state_scheme \<Rightarrow> u8 list res" where
  "blk_bytes lba count s =
     (if count = 0 then Inr []
      else if disk_sectors s < unat lba + unat count then Inl (Panic ''ahci: device reported an error'')
      else Inr (map (\<lambda>k. disk s (unat lba * 512 + k)) [0..<unat count * 512]))"

definition blockdev_read_sectors :: "u64 \<Rightarrow> u32 \<Rightarrow> u64 \<Rightarrow> 'a blk_state_scheme \<Rightarrow> 'a blk_state_scheme res" where
  "blockdev_read_sectors lba count buf s =
     rbind (blk_bytes lba count s) (\<lambda>bs. Inr (s\<lparr>mem := store_bytes buf bs (mem s)\<rparr>))"

definition blockdev_write_sectors :: "u64 \<Rightarrow> u32 \<Rightarrow> u64 \<Rightarrow> 'a blk_state_scheme \<Rightarrow> 'a blk_state_scheme res" where
  "blockdev_write_sectors lba count buf s =
     (if count = 0 then Inr s
      else if disk_sectors s < unat lba + unat count then Inl (Panic ''ahci: device reported an error'')
      else Inr (s\<lparr>disk := (\<lambda>d. if unat lba * 512 \<le> d \<and> d < (unat lba + unat count) * 512
             then mem s (buf + of_nat (d - unat lba * 512)) else disk s d)\<rparr>))"

subsection \<open>The interface\<close>

text \<open>The laws of the interface, for clients that only rely on what \<open>blockdev.h\<close> promises: a read
  gives what is on the disk, a write is seen by the next read, and sectors outside the written
  range keep their contents.\<close>

definition sector_bytes :: "'a blk_state_scheme \<Rightarrow> nat \<Rightarrow> nat \<Rightarrow> u8 list" where
  "sector_bytes s lba count = map (\<lambda>k. disk s (lba * 512 + k)) [0..<count * 512]"

lemma length_sector_bytes [simp]: "length (sector_bytes s lba count) = count * 512"
  by (simp add: sector_bytes_def)

locale block_device =
  fixes contents :: "'s \<Rightarrow> nat \<Rightarrow> nat \<Rightarrow> u8 list" and capacity :: "'s \<Rightarrow> nat" and memory :: "'s \<Rightarrow> mem"
    and rd wr :: "u64 \<Rightarrow> u32 \<Rightarrow> u64 \<Rightarrow> 's \<Rightarrow> 's res"
  assumes contents_length: "length (contents s l n) = n * 512"
    and read_ok: "unat lba + unat count \<le> capacity s \<Longrightarrow> \<exists>s'. rd lba count buf s = Inr s' \<and>
      memory s' = store_bytes buf (contents s (unat lba) (unat count)) (memory s) \<and>
      contents s' = contents s \<and> capacity s' = capacity s"
    and write_ok: "unat lba + unat count \<le> capacity s \<Longrightarrow> \<exists>s'. wr lba count buf s = Inr s' \<and>
      memory s' = memory s \<and> capacity s' = capacity s \<and>
      contents s' (unat lba) (unat count) = bytes_at (memory s) buf (unat count * 512) \<and>
      (\<forall>l n. l + n \<le> unat lba \<or> unat lba + unat count \<le> l \<longrightarrow> contents s' l n = contents s l n)"
begin

lemma write_read:
  assumes "unat lba + unat count \<le> capacity s"
  shows "\<exists>s1 s2. wr lba count buf s = Inr s1 \<and> rd lba count buf' s1 = Inr s2 \<and>
    bytes_at (memory s2) buf' (unat count * 512) = bytes_at (memory s) buf (unat count * 512)"
proof -
  obtain s1 where w: "wr lba count buf s = Inr s1" "memory s1 = memory s" "capacity s1 = capacity s"
    "contents s1 (unat lba) (unat count) = bytes_at (memory s) buf (unat count * 512)"
    using write_ok[OF assms, of buf] by blast
  obtain s2 where r: "rd lba count buf' s1 = Inr s2"
    "memory s2 = store_bytes buf' (contents s1 (unat lba) (unat count)) (memory s1)"
    using read_ok[of lba count s1 buf'] assms w(3) by auto
  have "unat count * 512 \<le> 2 ^ 64" using unsigned_less[of count, where ?'a = nat] by simp
  then have "bytes_at (memory s2) buf' (unat count * 512) = contents s1 (unat lba) (unat count)"
    unfolding r(2) using bytes_at_store_bytes[of "contents s1 (unat lba) (unat count)" buf' "memory s1"]
    by (simp add: contents_length)
  then show ?thesis using w r by auto
qed

end

lemma blockdev_read_ok:
  "unat lba + unat count \<le> disk_sectors s \<Longrightarrow>
   blockdev_read_sectors lba count buf s = Inr (s\<lparr>mem := store_bytes buf (sector_bytes s (unat lba) (unat count)) (mem s)\<rparr>)"
  by (auto simp: blockdev_read_sectors_def blk_bytes_def sector_bytes_def)

lemma blockdev_write_ok:
  "unat lba + unat count \<le> disk_sectors s \<Longrightarrow>
   blockdev_write_sectors lba count buf s =
     Inr (s\<lparr>disk := (\<lambda>d. if unat lba * 512 \<le> d \<and> d < (unat lba + unat count) * 512
             then mem s (buf + of_nat (d - unat lba * 512)) else disk s d)\<rparr>)"
proof (cases "count = 0")
  case True
  have "(\<lambda>d. if unat lba * 512 \<le> d \<and> d < (unat lba + unat count) * 512
             then mem s (buf + of_nat (d - unat lba * 512)) else disk s d) = disk s"
    using True by (intro ext) auto
  then show ?thesis using True by (simp add: blockdev_write_sectors_def)
qed (auto simp: blockdev_write_sectors_def)

lemma sector_bytes_written:
  assumes "d = (\<lambda>k. if l * 512 \<le> k \<and> k < (l + n) * 512 then m (buf + of_nat (k - l * 512)) else disk s k)"
  shows "sector_bytes (s\<lparr>disk := d\<rparr>) l n = bytes_at m buf (n * 512)"
    "l' + n' \<le> l \<or> l + n \<le> l' \<Longrightarrow> sector_bytes (s\<lparr>disk := d\<rparr>) l' n' = sector_bytes s l' n'"
proof -
  show "sector_bytes (s\<lparr>disk := d\<rparr>) l n = bytes_at m buf (n * 512)"
    using assms by (simp add: sector_bytes_def bytes_at_def algebra_simps)
  assume far: "l' + n' \<le> l \<or> l + n \<le> l'"
  have "\<not> (l * 512 \<le> l' * 512 + k \<and> l' * 512 + k < (l + n) * 512)" if "k < n' * 512" for k
    using far that by (auto simp: algebra_simps)
  then show "sector_bytes (s\<lparr>disk := d\<rparr>) l' n' = sector_bytes s l' n'"
    unfolding sector_bytes_def assms by (intro map_cong) auto
qed

interpretation blk: block_device sector_bytes disk_sectors mem blockdev_read_sectors blockdev_write_sectors
proof (unfold_locales, goal_cases)
  case (2 lba count s buf)
  then show ?case by (simp add: blockdev_read_ok fun_eq_iff sector_bytes_def)
next
  case (3 lba count s buf)
  then show ?case using sector_bytes_written[of _ "unat lba" "unat count" "mem s" buf s]
    by (auto simp: blockdev_write_ok)
qed simp

lemma heap_disk_upd [simp]:
  "heap_inv (s\<lparr>disk := d\<rparr>) = heap_inv s" "allocs (s\<lparr>disk := d\<rparr>) = allocs s" "held (s\<lparr>disk := d\<rparr>) = held s"
  by (simp_all add: heap_inv_def allocs_def held_def fun_eq_iff)

end
