(* ===== verification/Fat16.thy ===== *)
theory Fat16
  imports Blockdev
begin

section \<open>The FAT16 driver (kernel/src/fat16.c, kernel/include/fat16.h)\<close>

text \<open>
  The driver's static structure is the record \<open>fat16_fs\<close>; the FAT itself, the directory and
  cluster buffers are bytes of memory in blocks of the kernel heap, as in the source. A path is
  the list of its bytes before the NUL. The stack arrays of the source (a boot sector, an 8.3
  name, a path component) are values. A chain walk that never ends is \<open>Hang\<close>; an index outside
  the FAT that the source does not check is \<open>Undefined\<close>.
\<close>

subsection \<open>On-disk structures\<close>

record fat16_bpb =
  bpb_bytes_per_sector :: u16
  bpb_sectors_per_cluster :: u8
  bpb_reserved_sector_count :: u16
  bpb_num_fats :: u8
  bpb_root_entry_count :: u16
  bpb_total_sectors_16 :: u16
  bpb_media :: u8
  bpb_fat_size_16 :: u16
  bpb_sectors_per_track :: u16
  bpb_num_heads :: u16
  bpb_hidden_sectors :: u32
  bpb_total_sectors_32 :: u32

definition le_at :: "u8 list \<Rightarrow> nat \<Rightarrow> nat \<Rightarrow> 'w::len word" where
  "le_at bs i n = load_le n (\<lambda>a. bs ! unat a) (of_nat i)"

definition bpb_of :: "u8 list \<Rightarrow> fat16_bpb" where
  "bpb_of bs = \<lparr>bpb_bytes_per_sector = le_at bs 11 2, bpb_sectors_per_cluster = bs ! 13,
     bpb_reserved_sector_count = le_at bs 14 2, bpb_num_fats = bs ! 16, bpb_root_entry_count = le_at bs 17 2,
     bpb_total_sectors_16 = le_at bs 19 2, bpb_media = bs ! 21, bpb_fat_size_16 = le_at bs 22 2,
     bpb_sectors_per_track = le_at bs 24 2, bpb_num_heads = le_at bs 26 2,
     bpb_hidden_sectors = le_at bs 28 4, bpb_total_sectors_32 = le_at bs 32 4\<rparr>"

record fat16_dirent =
  de_name :: "u8 list"
  de_attr :: u8
  de_nt_reserved :: u8
  de_create_time_tenth :: u8
  de_create_time :: u16
  de_create_date :: u16
  de_last_access_date :: u16
  de_first_cluster_hi :: u16
  de_write_time :: u16
  de_write_date :: u16
  de_first_cluster_lo :: u16
  de_file_size :: u32

definition dirent_at :: "mem \<Rightarrow> u64 \<Rightarrow> fat16_dirent" where
  "dirent_at m p = \<lparr>de_name = bytes_at m p 11, de_attr = m (p + 11), de_nt_reserved = m (p + 12),
     de_create_time_tenth = m (p + 13), de_create_time = load16 m (p + 14), de_create_date = load16 m (p + 16),
     de_last_access_date = load16 m (p + 18), de_first_cluster_hi = load16 m (p + 20),
     de_write_time = load16 m (p + 22), de_write_date = load16 m (p + 24),
     de_first_cluster_lo = load16 m (p + 26), de_file_size = load32 m (p + 28)\<rparr>"

abbreviation ATTR_LONG_NAME :: u8 where "ATTR_LONG_NAME \<equiv> 0x0F"
abbreviation ATTR_VOLUME_ID :: u8 where "ATTR_VOLUME_ID \<equiv> 0x08"
abbreviation ATTR_DIRECTORY :: u8 where "ATTR_DIRECTORY \<equiv> 0x10"
abbreviation ATTR_ARCHIVE :: u8 where "ATTR_ARCHIVE \<equiv> 0x20"
abbreviation FAT16_EOC_MIN :: u32 where "FAT16_EOC_MIN \<equiv> 0xFFF8"
abbreviation FAT16_EOC_MARK :: u16 where "FAT16_EOC_MARK \<equiv> 0xFFFF"
abbreviation FAT16_FREE_MARK :: u16 where "FAT16_FREE_MARK \<equiv> 0"

definition de_first_cluster :: "fat16_dirent \<Rightarrow> u32" where
  "de_first_cluster de = push_bit 16 (ucast (de_first_cluster_hi de)) OR ucast (de_first_cluster_lo de)"

subsection \<open>The mounted volume\<close>

record fat16_fs =
  partition_lba :: u64
  bytes_per_sector :: u32
  sectors_per_cluster :: u32
  cluster_size_bytes :: u32
  fat_start_sector :: u32
  root_dir_start_sector :: u32
  root_dir_sectors :: u32
  root_dir_entry_count :: u32
  first_data_sector :: u32
  fat_cache :: u64
  fat_cache_entries :: u32

record fat_state = blk_state +
  fs :: fat16_fs

definition read_sectors :: "u32 \<Rightarrow> u32 \<Rightarrow> u64 \<Rightarrow> 'a fat_state_scheme \<Rightarrow> 'a fat_state_scheme res" where
  "read_sectors lba count buf s = blockdev_read_sectors (partition_lba (fs s) + ucast lba) count buf s"

definition write_sectors :: "u32 \<Rightarrow> u32 \<Rightarrow> u64 \<Rightarrow> 'a fat_state_scheme \<Rightarrow> 'a fat_state_scheme res" where
  "write_sectors lba count buf s = blockdev_write_sectors (partition_lba (fs s) + ucast lba) count buf s"

definition cluster_to_sector :: "fat16_fs \<Rightarrow> u32 \<Rightarrow> u32" where
  "cluster_to_sector f cluster = first_data_sector f + (cluster - 2) * sectors_per_cluster f"

text \<open>\<open>fs.fat_cache[c]\<close>, read and written.\<close>

definition fat_entry :: "'a fat_state_scheme \<Rightarrow> u32 \<Rightarrow> u16" where
  "fat_entry s c = load16 (mem s) (fat_cache (fs s) + 2 * ucast c)"

definition set_fat_entry :: "u32 \<Rightarrow> u16 \<Rightarrow> 'a fat_state_scheme \<Rightarrow> 'a fat_state_scheme" where
  "set_fat_entry c v s = s\<lparr>mem := store_le 2 v (fat_cache (fs s) + 2 * ucast c) (mem s)\<rparr>"

definition fat_next_cluster :: "u32 \<Rightarrow> 'a fat_state_scheme \<Rightarrow> u32 res" where
  "fat_next_cluster cluster s =
     (if cluster \<ge> fat_cache_entries (fs s)
      then Inl (Panic ''fat16: cluster chain walked off the end of the FAT'')
      else Inr (ucast (fat_entry s cluster)))"

definition looks_like_fat16_bpb :: "fat16_bpb \<Rightarrow> bool" where
  "looks_like_fat16_bpb bpb \<longleftrightarrow> bpb_bytes_per_sector bpb = 512 \<and> bpb_sectors_per_cluster bpb \<noteq> 0 \<and>
     bpb_num_fats bpb \<noteq> 0 \<and> bpb_fat_size_16 bpb \<noteq> 0 \<and> bpb_root_entry_count bpb \<noteq> 0"

text \<open>Finding the volume: the boot sector at LBA 0, or the first partition of an MBR. The result is
  the partition to store in \<open>fs\<close>, if any, and the volume's parameter block.\<close>

definition find_volume :: "'a fat_state_scheme \<Rightarrow> (u64 option \<times> fat16_bpb) res" where
  "find_volume s =
     rbind (blk_bytes 0 1 s) (\<lambda>boot_sector.
     if boot_sector ! 510 \<noteq> 0x55 \<or> boot_sector ! 511 \<noteq> 0xAA
     then Inl (Panic ''fat16_init: missing 0x55AA signature on LBA 0'')
     else if looks_like_fat16_bpb (bpb_of boot_sector) then Inr (None, bpb_of boot_sector)
     else
       let lba = ((ucast (boot_sector ! 0x1C6) OR push_bit 8 (ucast (boot_sector ! 0x1C7))) OR
             push_bit 16 (ucast (boot_sector ! 0x1C8))) OR push_bit 24 (ucast (boot_sector ! 0x1C9)) :: u32
       in if lba = 0
          then Inl (Panic ''fat16_init: LBA 0 is neither a FAT16 boot sector nor an MBR with a usable partition'')
          else
            rbind (blk_bytes (ucast lba) 1 s) (\<lambda>boot_sector.
            if \<not> looks_like_fat16_bpb (bpb_of boot_sector)
            then Inl (Panic ''fat16_init: MBR partition 0'')
            else Inr (Some (ucast lba), bpb_of boot_sector)))"

definition geometry :: "fat16_bpb \<Rightarrow> fat16_fs \<Rightarrow> fat16_fs" where
  "geometry bpb f =
     (let bps = ucast (bpb_bytes_per_sector bpb);
          root_start = ucast (bpb_reserved_sector_count bpb) +
            ucast (bpb_num_fats bpb) * ucast (bpb_fat_size_16 bpb);
          root_dir_bytes = ucast (bpb_root_entry_count bpb) * 32;
          root_sectors = (root_dir_bytes + bps - 1) div bps
      in f\<lparr>bytes_per_sector := bps,
           sectors_per_cluster := ucast (bpb_sectors_per_cluster bpb),
           cluster_size_bytes := bps * ucast (bpb_sectors_per_cluster bpb),
           fat_start_sector := ucast (bpb_reserved_sector_count bpb),
           root_dir_start_sector := root_start,
           root_dir_entry_count := ucast (bpb_root_entry_count bpb),
           root_dir_sectors := root_sectors,
           first_data_sector := root_start + root_sectors\<rparr>)"

definition fat16_init :: "'a fat_state_scheme \<Rightarrow> 'a fat_state_scheme res" where
  "fat16_init s =
     rbind (find_volume s) (\<lambda>(part, bpb).
     let s = (case part of None \<Rightarrow> s | Some lba \<Rightarrow> s\<lparr>fs := (fs s)\<lparr>partition_lba := lba\<rparr>\<rparr>);
         s = s\<lparr>fs := geometry bpb (fs s)\<rparr>;
         fat_bytes = ucast (bpb_fat_size_16 bpb) * ucast (bpb_bytes_per_sector bpb) :: u32
     in rbind (kmalloc (ucast fat_bytes) s) (\<lambda>(p, s).
        let s = s\<lparr>fs := (fs s)\<lparr>fat_cache := p\<rparr>\<rparr> in
        if p = 0 then Inl (Panic ''fat16_init: kmalloc failed for the FAT cache'')
        else
          rbind (read_sectors (fat_start_sector (fs s)) (ucast (bpb_fat_size_16 bpb)) p s) (\<lambda>s.
          Inr (s\<lparr>fs := (fs s)\<lparr>fat_cache_entries := fat_bytes div 2\<rparr>\<rparr>))))"

subsection \<open>8.3 names\<close>

definition upcase :: "u8 \<Rightarrow> u8" where
  "upcase c = (if 0x61 \<le> c \<and> c \<le> 0x7A then c - 0x61 + 0x41 else c)"

text \<open>The two copying loops: the position in the output, the rest of the name, the output.\<close>

fun base_loop :: "nat \<Rightarrow> u8 list \<Rightarrow> u8 list \<Rightarrow> u8 list \<times> u8 list" where
  "base_loop oi [] out = ([], out)"
| "base_loop oi (c # p) out =
     (if c \<noteq> 0x2E \<and> oi < 8 then base_loop (oi + 1) p (out[oi := upcase c]) else (c # p, out))"

fun ext_loop :: "nat \<Rightarrow> u8 list \<Rightarrow> u8 list \<Rightarrow> u8 list" where
  "ext_loop ei [] out = out"
| "ext_loop ei (c # p) out = (if ei < 11 then ext_loop (ei + 1) p (out[ei := upcase c]) else out)"

definition format_83 :: "u8 list \<Rightarrow> u8 list" where
  "format_83 name =
     (let (p, out) = base_loop 0 name (replicate 11 0x20);
          p = dropWhile (\<lambda>c. c \<noteq> 0x2E) p
      in case p of [] \<Rightarrow> out | dot # p \<Rightarrow> ext_loop 8 p out)"

subsection \<open>Directories\<close>

definition read_root_dir :: "'a fat_state_scheme \<Rightarrow> (u64 \<times> 'a fat_state_scheme) res" where
  "read_root_dir s =
     rbind (kmalloc (ucast (root_dir_sectors (fs s)) * ucast (bytes_per_sector (fs s))) s) (\<lambda>(buf, s).
     if buf = 0 then Inl (Panic ''fat16: kmalloc failed for the root directory buffer'')
     else rbind (read_sectors (root_dir_start_sector (fs s)) (root_dir_sectors (fs s)) buf s) (\<lambda>s.
       Inr (buf, s)))"

definition in_chain :: "u32 \<Rightarrow> bool" where
  "in_chain c \<longleftrightarrow> c \<ge> 2 \<and> c < FAT16_EOC_MIN"

text \<open>A loop that may not end gives \<open>None\<close>.\<close>

definition ends :: "'a res option \<Rightarrow> 'a res" where
  "ends r = (case r of None \<Rightarrow> Inl Hang | Some x \<Rightarrow> x)"

partial_function (option) count_clusters :: "'a fat_state_scheme \<Rightarrow> u32 \<Rightarrow> u32 \<Rightarrow> u32 res option" where
  "count_clusters s c count =
     (if in_chain c
      then let next = fat_next_cluster c s in
        if isl next then Some (Inl (projl next)) else count_clusters s (projr next) (count + 1)
      else Some (Inr count))"

partial_function (option) read_clusters :: "u32 \<Rightarrow> u64 \<Rightarrow> 'a fat_state_scheme \<Rightarrow> 'a fat_state_scheme res option" where
  "read_clusters c dst s =
     (if in_chain c
      then let r = read_sectors (cluster_to_sector (fs s) c) (sectors_per_cluster (fs s)) dst s in
        if isl r then Some (Inl (projl r))
        else let next = fat_next_cluster c (projr r) in
          if isl next then Some (Inl (projl next))
          else read_clusters (projr next) (dst + ucast (cluster_size_bytes (fs s))) (projr r)
      else Some (Inr s))"

definition read_subdir_clusters :: "u32 \<Rightarrow> 'a fat_state_scheme \<Rightarrow> (u64 \<times> u32 \<times> 'a fat_state_scheme) res" where
  "read_subdir_clusters first_cluster s =
     rbind (ends (count_clusters s first_cluster 0)) (\<lambda>count.
     let tot = count * cluster_size_bytes (fs s) in
     rbind (kmalloc (ucast tot) s) (\<lambda>(buf, s).
     if buf = 0 then Inl (Panic ''fat16: kmalloc failed for a directory buffer'')
     else rbind (ends (read_clusters first_cluster buf s)) (\<lambda>s. Inr (buf, tot, s))))"

definition read_directory :: "u32 \<Rightarrow> 'a fat_state_scheme \<Rightarrow> (u64 \<times> u32 \<times> 'a fat_state_scheme) res" where
  "read_directory dir_cluster s =
     (if dir_cluster = 0
      then rbind (read_root_dir s) (\<lambda>(buf, s). Inr (buf, root_dir_entry_count (fs s), s))
      else rbind (read_subdir_clusters dir_cluster s) (\<lambda>(buf, tot, s). Inr (buf, tot div 32, s)))"

definition dirent_ptr :: "u64 \<Rightarrow> nat \<Rightarrow> u64" where
  "dirent_ptr dirbuf e = dirbuf + of_nat e * 32"

definition skipped :: "fat16_dirent \<Rightarrow> bool" where
  "skipped de \<longleftrightarrow> de_name de ! 0 = 0xE5 \<or> de_attr de = ATTR_LONG_NAME \<or> de_attr de AND ATTR_VOLUME_ID \<noteq> 0"

primrec scan_dir :: "u8 list \<Rightarrow> fat16_dirent list \<Rightarrow> fat16_dirent option" where
  "scan_dir want [] = None"
| "scan_dir want (de # des) =
     (if de_name de ! 0 = 0 then None
      else if skipped de then scan_dir want des
      else if de_name de = want then Some de
      else scan_dir want des)"

definition dirents :: "mem \<Rightarrow> u64 \<Rightarrow> u32 \<Rightarrow> fat16_dirent list" where
  "dirents m dirbuf entry_count = map (\<lambda>e. dirent_at m (dirent_ptr dirbuf e)) [0..<unat entry_count]"

definition find_entry_in_dir ::
  "u32 \<Rightarrow> u8 list \<Rightarrow> 'a fat_state_scheme \<Rightarrow> (fat16_dirent option \<times> 'a fat_state_scheme) res" where
  "find_entry_in_dir dir_cluster want s =
     rbind (read_directory dir_cluster s) (\<lambda>(dirbuf, entry_count, s).
     let found = scan_dir want (dirents (mem s) dirbuf entry_count) in
     rbind (kfree dirbuf s) (\<lambda>s. Inr (found, s)))"

subsection \<open>Paths\<close>

text \<open>One component, at most 12 bytes of it, and the rest of the path after the slashes.\<close>

definition next_component :: "u8 list \<Rightarrow> u8 list \<times> u8 list" where
  "next_component p =
     (let component = takeWhile (\<lambda>c. c \<noteq> 0x2F) (take 12 p)
      in (component, dropWhile (\<lambda>c. c = 0x2F) (drop (length component) p)))"

lemma next_component_nil: "next_component [] = ([], [])"
  by (simp add: next_component_def)

lemma next_component_shorter:
  assumes "next_component p = (component, q)" "p \<noteq> []"
  shows "length q < length p"
proof -
  define c where "c = takeWhile (\<lambda>c. c \<noteq> 0x2F) (take 12 p)"
  have q: "q = dropWhile (\<lambda>c. c = 0x2F) (drop (length c) p)"
    using assms(1) by (auto simp: next_component_def Let_def c_def)
  show ?thesis
  proof (cases "c = []")
    case True
    then have "hd p = 0x2F" using assms(2) by (cases p) (auto simp: c_def split: if_splits)
    then show ?thesis using True q assms(2) by (cases p) (auto simp: le_imp_less_Suc length_dropWhile_le)
  next
    case False
    then have "length (drop (length c) p) < length p" using assms(2) by simp
    then show ?thesis unfolding q by (rule le_less_trans[OF length_dropWhile_le])
  qed
qed

function resolve_parent_loop ::
  "u32 \<Rightarrow> u8 list \<Rightarrow> 'a fat_state_scheme \<Rightarrow> ((u32 \<times> u8 list) option \<times> 'a fat_state_scheme) res" where
  "resolve_parent_loop current_dir p s =
     (case next_component p of (component, q) \<Rightarrow>
        if q = [] then Inr (Some (current_dir, component), s)
        else
          rbind (find_entry_in_dir current_dir (format_83 component) s) (\<lambda>(entry, s).
          case entry of
            None \<Rightarrow> Inr (None, s)
          | Some de \<Rightarrow>
              if de_attr de AND ATTR_DIRECTORY = 0 then Inr (None, s)
              else resolve_parent_loop (de_first_cluster de) q s))"
  by pat_completeness auto
termination
  by (relation "measure (\<lambda>(d, p, s). length p)")
    (auto intro!: next_component_shorter dest: sym simp: next_component_nil)

definition resolve_parent_dir ::
  "u8 list \<Rightarrow> 'a fat_state_scheme \<Rightarrow> ((u32 \<times> u8 list) option \<times> 'a fat_state_scheme) res" where
  "resolve_parent_dir path s = resolve_parent_loop 0 path s"

function resolve_directory_loop ::
  "u32 \<Rightarrow> u8 list \<Rightarrow> 'a fat_state_scheme \<Rightarrow> (u32 option \<times> 'a fat_state_scheme) res" where
  "resolve_directory_loop current_dir p s =
     (case next_component p of (component, q) \<Rightarrow>
        if component = [] then Inr (Some current_dir, s)
        else
          rbind (find_entry_in_dir current_dir (format_83 component) s) (\<lambda>(entry, s).
          case entry of
            None \<Rightarrow> Inr (None, s)
          | Some de \<Rightarrow>
              if de_attr de AND ATTR_DIRECTORY = 0 then Inr (None, s)
              else if q = [] then Inr (Some (de_first_cluster de), s)
              else resolve_directory_loop (de_first_cluster de) q s))"
  by pat_completeness auto
termination
  by (relation "measure (\<lambda>(d, p, s). length p)")
    (auto intro!: next_component_shorter dest: sym simp: next_component_nil)

text \<open>A NULL path is \<open>None\<close>.\<close>

definition resolve_directory :: "u8 list option \<Rightarrow> 'a fat_state_scheme \<Rightarrow> (u32 option \<times> 'a fat_state_scheme) res" where
  "resolve_directory path s =
     (case path of
        None \<Rightarrow> Inr (Some 0, s)
      | Some p \<Rightarrow> if p = [] then Inr (Some 0, s) else resolve_directory_loop 0 p s)"

subsection \<open>Files\<close>

record fat16_file =
  first_cluster :: u32
  fsize :: u32

definition fat16_open :: "u8 list \<Rightarrow> 'a fat_state_scheme \<Rightarrow> (fat16_file option \<times> 'a fat_state_scheme) res" where
  "fat16_open path s =
     rbind (resolve_parent_dir path s) (\<lambda>(r, s).
     case r of
       None \<Rightarrow> Inr (None, s)
     | Some (dir_cluster, leaf) \<Rightarrow>
         rbind (find_entry_in_dir dir_cluster (format_83 leaf) s) (\<lambda>(entry, s).
         case entry of
           None \<Rightarrow> Inr (None, s)
         | Some de \<Rightarrow> Inr (Some \<lparr>first_cluster = de_first_cluster de, fsize = de_file_size de\<rparr>, s)))"

partial_function (option) read_loop ::
  "u64 \<Rightarrow> u32 \<Rightarrow> u32 \<Rightarrow> u64 \<Rightarrow> 'a fat_state_scheme \<Rightarrow> (u32 \<times> 'a fat_state_scheme) res option" where
  "read_loop cluster_buf cluster remaining dst s =
     (if remaining > 0 \<and> in_chain cluster
      then let r = read_sectors (cluster_to_sector (fs s) cluster) (sectors_per_cluster (fs s)) cluster_buf s in
        if isl r then Some (Inl (projl r))
        else
          let s = projr r;
              chunk = (if cluster_size_bytes (fs s) < remaining then cluster_size_bytes (fs s) else remaining);
              s = s\<lparr>mem := memcpy dst cluster_buf (ucast chunk) (mem s)\<rparr>;
              next = fat_next_cluster cluster s
          in if isl next then Some (Inl (projl next))
             else read_loop cluster_buf (projr next) (remaining - chunk) (dst + ucast chunk) s
      else Some (Inr (remaining, s)))"

definition fat16_read :: "fat16_file \<Rightarrow> u64 \<Rightarrow> u32 \<Rightarrow> 'a fat_state_scheme \<Rightarrow> (u32 \<times> 'a fat_state_scheme) res" where
  "fat16_read file buf max_len s =
     (let tot = (if fsize file < max_len then fsize file else max_len) in
      rbind (kmalloc (ucast (cluster_size_bytes (fs s))) s) (\<lambda>(cluster_buf, s).
      if cluster_buf = 0 then Inl (Panic ''fat16_read: kmalloc failed for a cluster buffer'')
      else
        rbind (ends (read_loop cluster_buf (first_cluster file) tot buf s)) (\<lambda>(remaining, s).
        rbind (kfree cluster_buf s) (\<lambda>s. Inr (tot - remaining, s)))))"

subsection \<open>Listing a directory\<close>

definition list_line :: "fat16_dirent \<Rightarrow> u8 list" where
  "list_line de =
     takeWhile (\<lambda>c. c \<noteq> 0x20) (take 8 (de_name de)) @
     (if de_name de ! 8 \<noteq> 0x20
      then 0x2E # takeWhile (\<lambda>c. c \<noteq> 0x20) (take 3 (drop 8 (de_name de))) else []) @
     [0x0A]"

text \<open>The loop over the entries: entries are read from memory as the loop goes, because the listing
  itself is written to memory.\<close>

primrec list_loop :: "u64 \<Rightarrow> u64 \<Rightarrow> u32 \<Rightarrow> nat list \<Rightarrow> u32 \<times> mem \<Rightarrow> u32 \<times> mem" where
  "list_loop dirbuf buf max_len [] r = r"
| "list_loop dirbuf buf max_len (e # es) r =
     (case r of (written, m) \<Rightarrow>
      let de = dirent_at m (dirent_ptr dirbuf e) in
      if de_name de ! 0 = 0 then r
      else if skipped de then list_loop dirbuf buf max_len es r
      else
        let line = list_line de; li = of_nat (length line) in
        if written + li \<ge> max_len then r
        else list_loop dirbuf buf max_len es (written + li, store_bytes (buf + ucast written) line m))"

definition fat16_list_dir ::
  "u8 list option \<Rightarrow> u64 \<Rightarrow> u32 \<Rightarrow> 'a fat_state_scheme \<Rightarrow> (i32 \<times> 'a fat_state_scheme) res" where
  "fat16_list_dir path buf max_len s =
     rbind (resolve_directory path s) (\<lambda>(dir, s).
     case dir of
       None \<Rightarrow> Inr (-1, s)
     | Some dir_cluster \<Rightarrow>
         rbind (read_directory dir_cluster s) (\<lambda>(dirbuf, entry_count, s).
         let (written, m) = list_loop dirbuf buf max_len [0..<unat entry_count] (0, mem s);
             s = s\<lparr>mem := m\<rparr>
         in rbind (kfree dirbuf s) (\<lambda>s.
            let s = (if max_len > 0
                  then s\<lparr>mem := (mem s)(buf + ucast (if written < max_len then written else max_len - 1) := 0)\<rparr>
                  else s)
            in Inr (written, s))))"

subsection \<open>Writing a file\<close>

definition alloc_cluster :: "'a fat_state_scheme \<Rightarrow> u32 res" where
  "alloc_cluster s =
     (case find (\<lambda>c. fat_entry s (of_nat c) = FAT16_FREE_MARK) [2..<unat (fat_cache_entries (fs s))] of
        Some c \<Rightarrow> Inr (of_nat c)
      | None \<Rightarrow> Inl (Panic ''fat16: disk full (no free clusters)''))"

definition write_fat_cache_to_disk :: "'a fat_state_scheme \<Rightarrow> 'a fat_state_scheme res" where
  "write_fat_cache_to_disk s =
     (let fat_bytes = fat_cache_entries (fs s) * 2; fat_sectors = fat_bytes div bytes_per_sector (fs s)
      in write_sectors (fat_start_sector (fs s)) fat_sectors (fat_cache (fs s)) s)"

text \<open>The scan for the entry to overwrite and the first free slot: the existing entry's index, if
  there is one, and the first free index seen before the loop ended.\<close>

fun scan_slots :: "u8 list \<Rightarrow> nat \<Rightarrow> fat16_dirent list \<Rightarrow> nat option \<Rightarrow> nat option \<times> nat option" where
  "scan_slots want e [] free = (None, free)"
| "scan_slots want e (de # des) free =
     (let here = (if free = None then Some e else free) in
      if de_name de ! 0 = 0 then (None, here)
      else if de_name de ! 0 = 0xE5 then scan_slots want (e + 1) des here
      else if de_attr de = ATTR_LONG_NAME \<or> de_attr de AND ATTR_VOLUME_ID \<noteq> 0 then scan_slots want (e + 1) des free
      else if de_name de = want then (Some e, free)
      else scan_slots want (e + 1) des free)"

partial_function (option) free_chain :: "u32 \<Rightarrow> 'a fat_state_scheme \<Rightarrow> 'a fat_state_scheme res option" where
  "free_chain old_cluster s =
     (if in_chain old_cluster
      then if old_cluster \<ge> fat_cache_entries (fs s) then Some (Inl (Undefined ''fat_cache index out of bounds''))
        else free_chain (ucast (fat_entry s old_cluster)) (set_fat_entry old_cluster FAT16_FREE_MARK s)
      else Some (Inr s))"

record write_vars =
  wv_first :: u32
  wv_prev :: u32
  wv_src :: u64
  wv_remaining :: u32

definition write_cluster ::
  "u64 \<Rightarrow> nat \<Rightarrow> write_vars \<times> 'a fat_state_scheme \<Rightarrow> (write_vars \<times> 'a fat_state_scheme) res" where
  "write_cluster cluster_buf i vs =
     (case vs of (v, s) \<Rightarrow>
      rbind (alloc_cluster s) (\<lambda>c.
      let s = set_fat_entry c FAT16_EOC_MARK s;
          (v, s) = (if wv_prev v = 0 then (v\<lparr>wv_first := c\<rparr>, s) else (v, set_fat_entry (wv_prev v) (ucast c) s));
          v = v\<lparr>wv_prev := c\<rparr>;
          sz = cluster_size_bytes (fs s);
          chunk = (if sz < wv_remaining v then sz else wv_remaining v)
      in if cluster_buf = 0 then Inl (Undefined ''write through a NULL cluster buffer'')
         else
           let s = s\<lparr>mem := memset cluster_buf 0 (ucast sz) (mem s)\<rparr>;
               s = s\<lparr>mem := memcpy cluster_buf (wv_src v) (ucast chunk) (mem s)\<rparr>
           in rbind (write_sectors (cluster_to_sector (fs s) c) (sectors_per_cluster (fs s)) cluster_buf s) (\<lambda>s.
              Inr (v\<lparr>wv_src := wv_src v + ucast chunk, wv_remaining := wv_remaining v - chunk\<rparr>, s))))"

definition write_dirent :: "u64 \<Rightarrow> u8 list \<Rightarrow> u32 \<Rightarrow> u32 \<Rightarrow> mem \<Rightarrow> mem" where
  "write_dirent de want cluster sz m =
     (let m = memset de 0 32 m;
          m = store_bytes de want m;
          m = m(de + 11 := ATTR_ARCHIVE);
          m = store_le 2 (ucast (drop_bit 16 cluster) :: u16) (de + 20) m;
          m = store_le 2 (ucast (cluster AND 0xFFFF) :: u16) (de + 26) m
      in store_le 4 sz (de + 28) m)"

definition clusters_for :: "fat16_fs \<Rightarrow> u32 \<Rightarrow> u32" where
  "clusters_for f sz = (if sz = 0 then 0 else (sz + cluster_size_bytes f - 1) div cluster_size_bytes f)"

definition fat16_write_file :: "u8 list \<Rightarrow> u64 \<Rightarrow> u32 \<Rightarrow> 'a fat_state_scheme \<Rightarrow> (i32 \<times> 'a fat_state_scheme) res" where
  "fat16_write_file name data sz s =
     (let want = format_83 name in
      rbind (read_root_dir s) (\<lambda>(root, s).
      let (existing_index, free_index) =
            scan_slots want 0 (dirents (mem s) root (root_dir_entry_count (fs s))) None
      in case (case existing_index of Some e \<Rightarrow> Some e | None \<Rightarrow> free_index) of
         None \<Rightarrow> rbind (kfree root s) (\<lambda>s. Inl (Panic ''fat16_write_file: root directory is full''))
       | Some slot \<Rightarrow>
           rbind (case existing_index of
               Some e \<Rightarrow> ends (free_chain (de_first_cluster (dirent_at (mem s) (dirent_ptr root e))) s)
             | None \<Rightarrow> Inr s) (\<lambda>s.
           let clusters_needed = clusters_for (fs s) sz in
           rbind (if clusters_needed > 0 then kmalloc (ucast (cluster_size_bytes (fs s))) s else Inr (0, s))
             (\<lambda>(cluster_buf, s).
           rbind (rfold (write_cluster cluster_buf) [0..<unat clusters_needed]
               (\<lparr>wv_first = 0, wv_prev = 0, wv_src = data, wv_remaining = sz\<rparr>, s)) (\<lambda>(v, s).
           rbind (if cluster_buf \<noteq> 0 then kfree cluster_buf s else Inr s) (\<lambda>s.
           let s = s\<lparr>mem := write_dirent (dirent_ptr root slot) want (wv_first v) sz (mem s)\<rparr>;
               entries_per_sector = bytes_per_sector (fs s) div 32;
               sector_index = of_nat slot div entries_per_sector
           in rbind (write_sectors (root_dir_start_sector (fs s) + sector_index) 1
                (root + ucast (sector_index * bytes_per_sector (fs s))) s) (\<lambda>s.
              rbind (write_fat_cache_to_disk s) (\<lambda>s.
              rbind (kfree root s) (\<lambda>s. Inr (1, s))))))))))"

end
