(* ===== verification/Vfs.thy ===== *)
theory Vfs
  imports Fat16
begin

section \<open>The virtual file system layer (kernel/src/vfs.c)\<close>

text \<open>
  Whole-file operations on the one mounted volume, each under the lock \<open>fat16_vfs_lock\<close> with
  interrupts off. \<open>vfs_init\<close> is \<open>fat16_init\<close> after the disk has been found; the search for the
  disk is in the theory \<open>Ahci\<close>.
\<close>

record vfs_state = fat_state +
  fat16_vfs_lock :: spinlock_t

definition vfs_init :: "('a vfs_state_scheme \<Rightarrow> 'a vfs_state_scheme res) \<Rightarrow> 'a vfs_state_scheme \<Rightarrow> 'a vfs_state_scheme res" where
  "vfs_init blockdev_init s = rbind (blockdev_init s) fat16_init"

definition vfs_lock :: "'a vfs_state_scheme \<Rightarrow> (bool \<times> 'a vfs_state_scheme) res" where
  "vfs_lock s =
     (let (flags, s) = irq_save_disable s in
      rbind (spinlock_acquire (fat16_vfs_lock s)) (\<lambda>l. Inr (flags, s\<lparr>fat16_vfs_lock := l\<rparr>)))"

definition vfs_unlock :: "bool \<Rightarrow> 'a vfs_state_scheme \<Rightarrow> 'a vfs_state_scheme" where
  "vfs_unlock flags s = irq_restore flags (s\<lparr>fat16_vfs_lock := spinlock_release (fat16_vfs_lock s)\<rparr>)"

text \<open>The result of \<open>vfs_read_file\<close> is the buffer and its size; \<open>None\<close> is the return value 0.\<close>

definition vfs_read_file :: "u8 list \<Rightarrow> 'a vfs_state_scheme \<Rightarrow> ((u64 \<times> u32) option \<times> 'a vfs_state_scheme) res" where
  "vfs_read_file path s =
     rbind (vfs_lock s) (\<lambda>(flags, s).
     rbind (fat16_open path s) (\<lambda>(file, s).
     case file of
       None \<Rightarrow> Inr (None, vfs_unlock flags s)
     | Some file \<Rightarrow>
         rbind (kmalloc (ucast (fsize file)) s) (\<lambda>(buf, s).
         if buf = 0 then Inl (Panic ''vfs_read_file: kmalloc failed'')
         else
           rbind (fat16_read file buf (fsize file) s) (\<lambda>(n, s).
           if n \<noteq> fsize file then Inl (Panic ''vfs_read_file: short read'')
           else Inr (Some (buf, fsize file), vfs_unlock flags s)))))"

definition vfs_read_file_into :: "u8 list \<Rightarrow> u64 \<Rightarrow> u32 \<Rightarrow> 'a vfs_state_scheme \<Rightarrow> (i32 \<times> 'a vfs_state_scheme) res" where
  "vfs_read_file_into path buf max_len s =
     rbind (vfs_lock s) (\<lambda>(flags, s).
     rbind (fat16_open path s) (\<lambda>(file, s).
     case file of
       None \<Rightarrow> Inr (-1, vfs_unlock flags s)
     | Some file \<Rightarrow>
         rbind (fat16_read file buf max_len s) (\<lambda>(result, s). Inr (result, vfs_unlock flags s))))"

definition vfs_write_file :: "u8 list \<Rightarrow> u64 \<Rightarrow> u32 \<Rightarrow> 'a vfs_state_scheme \<Rightarrow> (i32 \<times> 'a vfs_state_scheme) res" where
  "vfs_write_file path data sz s =
     rbind (vfs_lock s) (\<lambda>(flags, s).
     rbind (fat16_write_file path data sz s) (\<lambda>(result, s). Inr (result, vfs_unlock flags s)))"

definition vfs_list_dir :: "u8 list option \<Rightarrow> u64 \<Rightarrow> u32 \<Rightarrow> 'a vfs_state_scheme \<Rightarrow> (i32 \<times> 'a vfs_state_scheme) res" where
  "vfs_list_dir path buf max_len s =
     rbind (vfs_lock s) (\<lambda>(flags, s).
     rbind (fat16_list_dir path buf max_len s) (\<lambda>(result, s). Inr (result, vfs_unlock flags s)))"

end
