(* ===== verification/Fat16_Spec.thy ===== *)
theory Fat16_Spec
  imports Fat16
begin

section \<open>Correctness of the FAT16 driver\<close>

text \<open>
  The volume as an abstract object: the root directory is a list of entries, the FAT a function on
  cluster numbers, a file the concatenation of the clusters of its chain. The lemmas relate every
  operation of \<open>Fat16\<close> to it. Each operation that allocates a buffer either gives the stated result
  or ends because \<open>kmalloc\<close> returned NULL.
\<close>

subsection \<open>The volume\<close>

definition fat_entries :: "fat16_fs \<Rightarrow> nat" where
  "fat_entries f = unat (fat_cache_entries f)"

definition spc :: "fat16_fs \<Rightarrow> nat" where
  "spc f = unat (sectors_per_cluster f)"

definition geometry_ok :: "fat16_fs \<Rightarrow> nat \<Rightarrow> bool" where
  "geometry_ok f cap \<longleftrightarrow> bytes_per_sector f = 512 \<and> 0 < spc f \<and> spc f \<le> 255 \<and>
     unat (cluster_size_bytes f) = 512 * spc f \<and>
     0 < unat (root_dir_entry_count f) \<and> unat (root_dir_entry_count f) \<le> 65535 \<and>
     unat (root_dir_sectors f) = (unat (root_dir_entry_count f) * 32 + 511) div 512 \<and>
     2 < fat_entries f \<and> fat_entries f \<le> 0xFFF8 \<and> fat_entries f mod 256 = 0 \<and>
     unat (fat_start_sector f) + fat_entries f div 256 \<le> unat (root_dir_start_sector f) \<and>
     unat (first_data_sector f) = unat (root_dir_start_sector f) + unat (root_dir_sectors f) \<and>
     unat (partition_lba f) + unat (first_data_sector f) + fat_entries f * spc f \<le> cap \<and> cap \<le> 2 ^ 32"

definition vol_ok :: "'a fat_state_scheme \<Rightarrow> bool" where
  "vol_ok s \<longleftrightarrow> heap_inv s \<and> geometry_ok (fs s) (disk_sectors s) \<and>
     (\<exists>k. (fat_cache (fs s), k) \<in> allocs s \<and> 2 * fat_entries (fs s) \<le> unat k)"

definition vol_sector :: "'a fat_state_scheme \<Rightarrow> nat \<Rightarrow> nat \<Rightarrow> u8 list" where
  "vol_sector s rel n = sector_bytes s (unat (partition_lba (fs s)) + rel) n"

definition cluster_at :: "fat16_fs \<Rightarrow> nat \<Rightarrow> nat" where
  "cluster_at f c = unat (first_data_sector f) + (c - 2) * spc f"

definition cluster_bytes :: "'a fat_state_scheme \<Rightarrow> u32 \<Rightarrow> u8 list" where
  "cluster_bytes s c = vol_sector s (cluster_at (fs s) (unat c)) (spc (fs s))"

definition root_bytes :: "'a fat_state_scheme \<Rightarrow> u8 list" where
  "root_bytes s = vol_sector s (unat (root_dir_start_sector (fs s))) (unat (root_dir_sectors (fs s)))"

definition dirent_in :: "u8 list \<Rightarrow> nat \<Rightarrow> fat16_dirent" where
  "dirent_in bs e = dirent_at (\<lambda>a. bs ! unat a) (of_nat (32 * e))"

definition root_entries :: "'a fat_state_scheme \<Rightarrow> fat16_dirent list" where
  "root_entries s = map (dirent_in (root_bytes s)) [0..<unat (root_dir_entry_count (fs s))]"

subsection \<open>Geometry\<close>

lemma geometry_okD:
  assumes "geometry_ok f cap"
  shows "bytes_per_sector f = 512" "0 < spc f" "spc f \<le> 255" "unat (cluster_size_bytes f) = 512 * spc f"
    "0 < unat (root_dir_entry_count f)" "unat (root_dir_entry_count f) \<le> 65535"
    "unat (root_dir_sectors f) = (unat (root_dir_entry_count f) * 32 + 511) div 512"
    "2 < fat_entries f" "fat_entries f \<le> 0xFFF8" "fat_entries f mod 256 = 0"
    "unat (fat_start_sector f) + fat_entries f div 256 \<le> unat (root_dir_start_sector f)"
    "unat (first_data_sector f) = unat (root_dir_start_sector f) + unat (root_dir_sectors f)"
    "unat (partition_lba f) + unat (first_data_sector f) + fat_entries f * spc f \<le> cap" "cap \<le> 2 ^ 32"
  using assms unfolding geometry_ok_def by blast+

lemma root_size:
  assumes "geometry_ok f cap"
  shows "unat (root_dir_entry_count f) * 32 \<le> unat (root_dir_sectors f) * 512"
    "0 < unat (root_dir_sectors f)" "unat (root_dir_sectors f) \<le> 4096"
  using geometry_okD(5-7)[OF assms] by auto

lemma vol_okD:
  assumes "vol_ok s"
  shows "heap_inv s" "geometry_ok (fs s) (disk_sectors s)"
    "\<exists>k. (fat_cache (fs s), k) \<in> allocs s \<and> 2 * fat_entries (fs s) \<le> unat k"
  using assms unfolding vol_ok_def by blast+

lemma read_sectors_ok:
  assumes "disk_sectors s \<le> 2 ^ 32" "unat (partition_lba (fs s)) + unat rel + unat n \<le> disk_sectors s"
  shows "read_sectors rel n buf s = Inr (s\<lparr>mem := store_bytes buf (vol_sector s (unat rel) (unat n)) (mem s)\<rparr>)"
proof -
  have u: "unat (partition_lba (fs s) + ucast rel) = unat (partition_lba (fs s)) + unat rel"
    using assms by (subst unat_add_no_wrap) auto
  show ?thesis unfolding read_sectors_def vol_sector_def
    using blockdev_read_ok[of "partition_lba (fs s) + ucast rel" n s buf] assms by (simp add: u)
qed

text \<open>The disk after a write of \<open>bs\<close> at a sector.\<close>

definition disk_write :: "nat \<Rightarrow> u8 list \<Rightarrow> (nat \<Rightarrow> u8) \<Rightarrow> nat \<Rightarrow> u8" where
  "disk_write lba bs d = (\<lambda>k. if lba * 512 \<le> k \<and> k < lba * 512 + length bs then bs ! (k - lba * 512) else d k)"

lemma write_sectors_ok:
  assumes "disk_sectors s \<le> 2 ^ 32" "unat (partition_lba (fs s)) + unat rel + unat n \<le> disk_sectors s"
  shows "write_sectors rel n buf s = Inr (s\<lparr>disk := disk_write (unat (partition_lba (fs s)) + unat rel)
    (bytes_at (mem s) buf (unat n * 512)) (disk s)\<rparr>)"
proof -
  have u: "unat (partition_lba (fs s) + ucast rel) = unat (partition_lba (fs s)) + unat rel"
    using assms by (subst unat_add_no_wrap) auto
  have le: "unat (partition_lba (fs s) + ucast rel) + unat n \<le> disk_sectors s" using assms u by simp
  have e: "(\<lambda>d. if l * 512 \<le> d \<and> d < (l + c) * 512 then m (buf + of_nat (d - l * 512)) else D d) =
    disk_write l (bytes_at m buf (c * 512)) D" for l c m D
    by (rule ext) (auto simp: disk_write_def algebra_simps)
  show ?thesis unfolding write_sectors_def blockdev_write_ok[OF le] e u ..
qed

lemma vol_sector_write:
  assumes "d = disk_write (unat (partition_lba (fs s)) + rel) bs (disk s)" "length bs = n * 512"
  shows "vol_sector (s\<lparr>disk := d\<rparr>) rel n = bs"
    "rel' + n' \<le> rel \<or> rel + n \<le> rel' \<Longrightarrow> vol_sector (s\<lparr>disk := d\<rparr>) rel' n' = vol_sector s rel' n'"
proof -
  show "vol_sector (s\<lparr>disk := d\<rparr>) rel n = bs"
    by (rule nth_equalityI) (use assms in \<open>simp_all add: vol_sector_def sector_bytes_def disk_write_def\<close>)
  assume far: "rel' + n' \<le> rel \<or> rel + n \<le> rel'"
  let ?p = "unat (partition_lba (fs s))"
  have "\<not> ((?p + rel) * 512 \<le> (?p + rel') * 512 + k \<and> (?p + rel') * 512 + k < (?p + rel) * 512 + n * 512)"
    if "k < n' * 512" for k using far that by (auto simp: algebra_simps)
  then show "vol_sector (s\<lparr>disk := d\<rparr>) rel' n' = vol_sector s rel' n'"
    unfolding vol_sector_def sector_bytes_def using assms by (auto simp: disk_write_def)
qed

lemma cluster_sector:
  assumes g: "geometry_ok f cap" and c: "2 \<le> unat c" "unat c < fat_entries f"
  shows "unat (cluster_to_sector f c) = cluster_at f (unat c)"
    "unat (partition_lba f) + cluster_at f (unat c) + spc f \<le> cap"
    "unat (first_data_sector f) \<le> cluster_at f (unat c)"
proof -
  note D = geometry_okD[OF g]
  have "(unat c - 2) * spc f + spc f = (unat c - 1) * spc f" using c(1) by (cases "unat c") (auto simp: algebra_simps)
  also have "\<dots> \<le> fat_entries f * spc f" using c(2) by (intro mult_right_mono) auto
  finally have m: "(unat c - 2) * spc f + spc f \<le> fat_entries f * spc f" .
  show "unat (partition_lba f) + cluster_at f (unat c) + spc f \<le> cap" using m D(13) by (simp add: cluster_at_def)
  have small: "unat (first_data_sector f) + (unat c - 2) * spc f < 2 ^ 32"
    using m D(2,13,14) by simp
  have u2: "unat (c - 2) = unat c - 2" using c(1) by (subst unat_sub_le) (simp_all add: word_le_nat_alt)
  then have um: "unat ((c - 2) * sectors_per_cluster f) = (unat c - 2) * spc f"
    using small by (subst unat_mult_no_wrap) (simp_all add: spc_def)
  then show "unat (cluster_to_sector f c) = cluster_at f (unat c)"
    unfolding cluster_to_sector_def cluster_at_def using small by (subst unat_add_no_wrap) simp_all
  show "unat (first_data_sector f) \<le> cluster_at f (unat c)" by (simp add: cluster_at_def)
qed

subsection \<open>The FAT in memory\<close>

abbreviation fat_region :: "'a fat_state_scheme \<Rightarrow> u64 set" where
  "fat_region s \<equiv> region (fat_cache (fs s)) (2 * fat_entries (fs s))"

lemma fat_region_room:
  assumes "vol_ok s"
  shows "unat (fat_cache (fs s)) + 2 * fat_entries (fs s) \<le> unat HEAP_END"
    "\<And>x. x \<in> fat_region s \<Longrightarrow> held s x"
proof -
  obtain k where k: "(fat_cache (fs s), k) \<in> allocs s" "2 * fat_entries (fs s) \<le> unat k"
    using vol_okD(3)[OF assms] by blast
  show "unat (fat_cache (fs s)) + 2 * fat_entries (fs s) \<le> unat HEAP_END"
    using alloc_bounds(2)[OF vol_okD(1)[OF assms] k(1)] k(2) by simp
  show "held s x" if "x \<in> fat_region s" for x
    unfolding held_def using k that by (intro disjI2 bexI[OF _ k(1)]) (auto simp: region_def)
qed

lemma fat_slot:
  fixes c :: u32
  assumes "vol_ok s" "unat c < fat_entries (fs s)"
  shows "unat (fat_cache (fs s) + 2 * ucast c) = unat (fat_cache (fs s)) + 2 * unat c"
    "region (fat_cache (fs s) + 2 * ucast c) 2 \<subseteq> fat_region s"
    "unat (fat_cache (fs s) + 2 * ucast c) + 2 \<le> 2 ^ 64"
proof -
  have r: "unat (fat_cache (fs s)) + 2 * fat_entries (fs s) \<le> 0x2000000" using fat_region_room(1)[OF assms(1)] by simp
  have "unat (2 * ucast c :: u64) = 2 * unat c" using assms(2) r by (subst unat_mult_no_wrap) auto
  then show u: "unat (fat_cache (fs s) + 2 * ucast c) = unat (fat_cache (fs s)) + 2 * unat c"
    using assms(2) r by (subst unat_add_no_wrap) auto
  show "region (fat_cache (fs s) + 2 * ucast c) 2 \<subseteq> fat_region s"
    unfolding region_def u using assms(2) by auto
  show "unat (fat_cache (fs s) + 2 * ucast c) + 2 \<le> 2 ^ 64" using u assms(2) r by simp
qed

lemma fat_entry_cong:
  assumes "vol_ok s" "unat c < fat_entries (fs s)" "fs s' = fs s" "\<And>x. x \<in> fat_region s \<Longrightarrow> mem s' x = mem s x"
  shows "fat_entry s' c = fat_entry s c"
  unfolding fat_entry_def load16_def assms(3)
  by (rule load_le_region) (use fat_slot[OF assms(1,2)] assms(4) in auto)

lemma fat_entry_set:
  assumes "vol_ok s" "unat c < fat_entries (fs s)" "unat d < fat_entries (fs s)"
  shows "fat_entry (set_fat_entry c v s) d = (if d = c then v else fat_entry s d)"
proof (cases "d = c")
  case True
  then show ?thesis
    using load_le_store_le_same[of 2 v "fat_cache (fs s) + 2 * ucast c" "mem s"]
    by (simp add: take_bit_word_eq_self fat_entry_def set_fat_entry_def load16_def)
next
  case False
  have ne: "unat d \<noteq> unat c" using False by (simp add: word_unat_eq_iff)
  note C = fat_slot[OF assms(1,2)] and D = fat_slot[OF assms(1,3)]
  have "load_le 2 (store_le 2 v (fat_cache (fs s) + 2 * ucast c) (mem s)) (fat_cache (fs s) + 2 * ucast d) =
    (load_le 2 (mem s) (fat_cache (fs s) + 2 * ucast d) :: u16)"
  proof (rule load_le_region[OF D(3)], rule store_le_region[OF C(3)])
    fix x assume "x \<in> region (fat_cache (fs s) + 2 * ucast d) 2"
    then show "x \<notin> region (fat_cache (fs s) + 2 * ucast c) 2"
      unfolding region_def C(1) D(1) using ne by auto
  qed
  then show ?thesis using False by (simp add: fat_entry_def set_fat_entry_def load16_def)
qed

lemma set_fat_entry_frame:
  assumes "vol_ok s" "unat c < fat_entries (fs s)"
  shows "x \<notin> fat_region s \<Longrightarrow> mem (set_fat_entry c v s) x = mem s x"
    "set_fat_entry c v s = s\<lparr>mem := mem (set_fat_entry c v s)\<rparr>" "vol_ok (set_fat_entry c v s)"
    "allocs (set_fat_entry c v s) = allocs s"
proof -
  show "mem (set_fat_entry c v s) x = mem s x" if "x \<notin> fat_region s"
    using store_le_region[OF fat_slot(3)[OF assms], of x v "mem s"] fat_slot(2)[OF assms] that
    by (auto simp: set_fat_entry_def)
  show e: "set_fat_entry c v s = s\<lparr>mem := mem (set_fat_entry c v s)\<rparr>" by (simp add: set_fat_entry_def)
  show a: "allocs (set_fat_entry c v s) = allocs s" by (simp add: set_fat_entry_def allocs_def)
  have "heap_inv (set_fat_entry c v s) = heap_inv s" by (simp add: set_fat_entry_def heap_inv_def)
  then show "vol_ok (set_fat_entry c v s)" using assms(1) a by (simp add: vol_ok_def) (simp add: set_fat_entry_def)
qed

subsection \<open>Runs that only read the volume\<close>

text \<open>\<open>frame s s1 s2 W\<close>: \<open>s2\<close> has the allocations of \<open>s1\<close> and differs from \<open>s\<close> in no held
  byte outside \<open>W\<close>; the disk may differ.\<close>

definition frame :: "'a fat_state_scheme \<Rightarrow> 'a fat_state_scheme \<Rightarrow> u64 set \<Rightarrow> 'a fat_state_scheme \<Rightarrow> bool" where
  "frame s s1 W s2 \<longleftrightarrow> heap_inv s2 \<and> allocs s2 = allocs s1 \<and> fs s2 = fs s \<and> disk_sectors s2 = disk_sectors s \<and>
     (\<forall>x. held s x \<longrightarrow> x \<notin> W \<longrightarrow> mem s2 x = mem s x)"

lemma frameD:
  assumes "frame s s1 W s2"
  shows "heap_inv s2" "allocs s2 = allocs s1" "fs s2 = fs s" "disk_sectors s2 = disk_sectors s"
    "\<And>x. held s x \<Longrightarrow> x \<notin> W \<Longrightarrow> mem s2 x = mem s x"
  using assms unfolding frame_def by blast+

definition keeps :: "'a fat_state_scheme \<Rightarrow> 'a fat_state_scheme \<Rightarrow> bool" where
  "keeps s s' \<longleftrightarrow> frame s s {} s' \<and> disk s' = disk s"

lemma keepsD:
  assumes "keeps s s'"
  shows "heap_inv s'" "allocs s' = allocs s" "fs s' = fs s" "disk_sectors s' = disk_sectors s" "disk s' = disk s"
    "\<And>x. held s x \<Longrightarrow> mem s' x = mem s x"
  using assms unfolding keeps_def frame_def by blast+

lemma keeps_refl: "heap_inv s \<Longrightarrow> keeps s s"
  by (simp add: keeps_def frame_def)

lemma keeps_trans: "keeps s s' \<Longrightarrow> keeps s' s'' \<Longrightarrow> keeps s s''"
  unfolding keeps_def frame_def using held_cong[of s' s] by simp

lemma keeps_vol:
  assumes "vol_ok s" "keeps s s'"
  shows "vol_ok s'" "vol_sector s' = vol_sector s" "cluster_bytes s' = cluster_bytes s" "root_bytes s' = root_bytes s"
    "root_entries s' = root_entries s"
proof -
  note K = keepsD[OF assms(2)]
  show "vol_ok s'" using assms(1) K by (simp add: vol_ok_def)
  show v: "vol_sector s' = vol_sector s" by (simp add: fun_eq_iff vol_sector_def sector_bytes_def K)
  show "cluster_bytes s' = cluster_bytes s" by (simp add: fun_eq_iff cluster_bytes_def v K)
  show r: "root_bytes s' = root_bytes s" by (simp add: root_bytes_def v K)
  show "root_entries s' = root_entries s" by (simp add: root_entries_def r K)
qed

lemma keeps_fat: "vol_ok s \<Longrightarrow> keeps s s' \<Longrightarrow> unat c < fat_entries (fs s) \<Longrightarrow> fat_entry s' c = fat_entry s c"
  by (rule fat_entry_cong) (auto dest: keepsD fat_region_room(2))

text \<open>The faults of a run that did not get a buffer from \<open>kmalloc\<close>.\<close>

definition oom :: "fault \<Rightarrow> bool" where
  "oom f \<longleftrightarrow> f \<in> {Panic ''fat16: kmalloc failed for the root directory buffer'',
     Panic ''fat16: kmalloc failed for a directory buffer'', Panic ''fat16_read: kmalloc failed for a cluster buffer'',
     Undefined ''write through a NULL cluster buffer''}"

definition gives :: "'b res \<Rightarrow> ('b \<Rightarrow> bool) \<Rightarrow> bool" where
  "gives r P \<longleftrightarrow> (case r of Inl f \<Rightarrow> oom f | Inr v \<Rightarrow> P v)"

lemma gives_simps [simp]: "gives (Inl f) P = oom f" "gives (Inr v) P = P v"
  by (simp_all add: gives_def)

lemma gives_bind: "gives r P \<Longrightarrow> (\<And>v. r = Inr v \<Longrightarrow> P v \<Longrightarrow> gives (f v) Q) \<Longrightarrow> gives (rbind r f) Q"
  by (cases r) auto

lemma gives_mono: "gives r P \<Longrightarrow> (\<And>v. P v \<Longrightarrow> Q v) \<Longrightarrow> gives r Q"
  by (cases r) auto

text \<open>A buffer borrowed for the time of a run: what was held before is framed when it is freed.\<close>

lemma borrowed_frame:
  assumes "borrowed s p n s1"
  shows "frame s s1 {} s1" "disk s1 = disk s"
proof -
  note B = borrowedD[OF assms]
  have "fs s1 = fs s" "disk_sectors s1 = disk_sectors s" "mem s1 = mem s" by (subst B(2), simp)+
  then show "frame s s1 {} s1" using B(3) by (simp add: frame_def)
  show "disk s1 = disk s" by (subst B(2), simp)
qed

lemma borrow_return:
  assumes b: "borrowed s p n s1" and f: "frame s s1 W s2"
  obtains s3 where "kfree p s2 = Inr s3" "frame s s W s3" "disk s3 = disk s2" "mem s3 = mem s2"
proof -
  note F = frameD[OF f]
  obtain s3 where s3: "kfree p s2 = Inr s3" "s3 = s2\<lparr>hdr := hdr s3\<rparr>" "heap_inv s3" "allocs s3 = allocs s"
    by (rule kfree_return[OF b F(1,2)])
  have e: "fs s3 = fs s2" "disk_sectors s3 = disk_sectors s2" "disk s3 = disk s2" "mem s3 = mem s2"
    by (subst s3(2), simp)+
  then have "frame s s W s3" using s3(3,4) F by (simp add: frame_def)
  then show ?thesis using s3(1) e that by blast
qed

lemma frame_mem:
  assumes f: "frame s s1 W s2" and m: "\<And>x. held s x \<Longrightarrow> x \<notin> W' \<Longrightarrow> m x = mem s2 x" and W: "W \<subseteq> W'"
  shows "frame s s1 W' (s2\<lparr>mem := m\<rparr>)"
proof -
  have "m x = mem s x" if "held s x" "x \<notin> W'" for x using frameD(5)[OF f that(1)] m[OF that] W that(2) by auto
  then show ?thesis using frameD(1-4)[OF f] by (simp add: frame_def)
qed

lemma frame_disk: "frame s s1 W s2 \<Longrightarrow> frame s s1 W (s2\<lparr>disk := d\<rparr>)"
  by (simp add: frame_def)

lemma frame_buffer:
  assumes b: "borrowed s p n s1" and f: "frame s s1 W s2" and bs: "length bs \<le> n"
  shows "frame s s1 W (s2\<lparr>mem := store_bytes p bs (mem s2)\<rparr>)"
proof (rule frame_mem[OF f])
  note B = borrowedD[OF b]
  fix x assume "held s x"
  then have "x \<notin> region p n" using B(5) by blast
  then have "x \<notin> region p (length bs)" using bs by (auto simp: region_def)
  then show "store_bytes p bs (mem s2) x = mem s2 x" by (rule store_bytes_region[rotated]) (use B(4) bs in simp)
qed simp

subsection \<open>Directory entries\<close>

lemma load_le_cong2:
  assumes "\<And>k. k < n \<Longrightarrow> m (a + of_nat k) = m' (b + of_nat k)"
  shows "load_le n m a = load_le n m' b"
  by (rule bit_word_eqI) (auto simp: bit_load_le assms less_mult_imp_div_less mult.commute)

lemma load_le_window:
  assumes "\<And>i. i < N \<Longrightarrow> m (p + of_nat i) = m' (p' + of_nat i)" "j + n \<le> N"
  shows "load_le n m (p + of_nat j) = load_le n m' (p' + of_nat j)"
proof (rule load_le_cong2)
  fix i assume "i < n"
  then show "m (p + of_nat j + of_nat i) = m' (p' + of_nat j + of_nat i)"
    using assms(1)[of "j + i"] assms(2) by (simp add: add.assoc)
qed

lemma dirent_at_cong:
  assumes "\<And>i. i < 32 \<Longrightarrow> m (p + of_nat i) = m' (p' + of_nat i)"
  shows "dirent_at m p = dirent_at m' p'"
proof -
  have b: "m (p + numeral k) = m' (p' + numeral k)" if "numeral k < (32 :: nat)" for k
    using assms[of "numeral k"] that by simp
  have n: "bytes_at m p 11 = bytes_at m' p' 11" by (rule bytes_at_cong) (use assms in simp)
  have w: "load16 m (p + numeral j) = load16 m' (p' + numeral j)" if "numeral j + 2 \<le> (32 :: nat)" for j
    using load_le_window[of 32 m p m' p' "numeral j" 2] assms that by (simp add: load16_def)
  have d: "load32 m (p + 28) = load32 m' (p' + 28)"
    using load_le_window[of 32 m p m' p' 28 4] assms by (simp add: load32_def)
  show ?thesis unfolding dirent_at_def n d by (simp add: b w)
qed

lemma length_vol_sector [simp]: "length (vol_sector s rel n) = n * 512"
  by (simp add: vol_sector_def)

lemma length_root_entries [simp]: "length (root_entries s) = unat (root_dir_entry_count (fs s))"
  by (simp add: root_entries_def)

lemma dirent_in_buffer:
  assumes b: "bytes_at m buf (length bs) = bs" and e: "32 * e + 32 \<le> length bs" and n: "length bs < 2 ^ 64"
  shows "dirent_at m (dirent_ptr buf e) = dirent_in bs e"
  unfolding dirent_in_def
proof (rule dirent_at_cong)
  fix i :: nat assume i: "i < 32"
  then have k: "32 * e + i < length bs" using e by simp
  have "dirent_ptr buf e + of_nat i = buf + of_nat (32 * e + i)" by (simp add: dirent_ptr_def mult.commute add.assoc)
  moreover have "unat (of_nat (32 * e) + of_nat i :: u64) = 32 * e + i"
    using unat_of_nat_less[of "32 * e + i", where ?'a = 64] k n by simp
  ultimately show "m (dirent_ptr buf e + of_nat i) = bs ! unat (of_nat (32 * e) + of_nat i :: u64)"
    using arg_cong[OF b, of "\<lambda>xs. xs ! (32 * e + i)"] k by (simp add: add.assoc)
qed

lemma root_room:
  assumes "vol_ok s" "e < unat (root_dir_entry_count (fs s))"
  shows "32 * e + 32 \<le> length (root_bytes s)"
  using root_size(1)[OF vol_okD(2)[OF assms(1)]] assms(2) by (simp add: root_bytes_def)

lemma dirents_root:
  assumes "vol_ok s" "bytes_at m buf (length (root_bytes s)) = root_bytes s"
  shows "dirents m buf (root_dir_entry_count (fs s)) = root_entries s"
proof -
  have n: "length (root_bytes s) < 2 ^ 64"
    using root_size(3)[OF vol_okD(2)[OF assms(1)]] by (simp add: root_bytes_def)
  show ?thesis unfolding dirents_def root_entries_def
    by (intro map_cong refl dirent_in_buffer[OF assms(2) _ n]) (use root_room[OF assms(1)] in simp)
qed

text \<open>The buffer with the root directory, ready to be searched or changed.\<close>

definition root_buffer :: "'a fat_state_scheme \<Rightarrow> u64 \<Rightarrow> 'a fat_state_scheme \<Rightarrow> bool" where
  "root_buffer s p s2 \<longleftrightarrow> (\<exists>s1. borrowed s p (length (root_bytes s)) s1 \<and> frame s s1 {} s2) \<and>
     bytes_at (mem s2) p (length (root_bytes s)) = root_bytes s \<and> disk s2 = disk s"

lemma read_root_dir_gives:
  assumes v: "vol_ok s"
  shows "gives (read_root_dir s) (\<lambda>(p, s2). root_buffer s p s2)"
proof -
  note g = vol_okD(2)[OF v]
  note D = geometry_okD[OF g] and R = root_size[OF g]
  let ?n = "ucast (root_dir_sectors (fs s)) * ucast (bytes_per_sector (fs s)) :: u64"
  have un: "unat ?n = length (root_bytes s)" using R(3) unfolding D(1)
    by (subst unat_mult_no_wrap) (simp_all add: root_bytes_def)
  then have n: "?n \<noteq> 0" "unat ?n + 15 < 2 ^ 64" using R(2,3) by (auto simp: root_bytes_def)
  from vol_okD(1)[OF v] n show ?thesis
  proof (cases rule: kmalloc_borrow)
    case null
    then show ?thesis by (simp add: read_root_dir_def oom_def)
  next
    case (buf p s1)
    note b = buf(2)[unfolded un] and F = borrowed_frame[OF buf(2)]
    have fs1: "fs s1 = fs s" "disk_sectors s1 = disk_sectors s" using frameD(3,4)[OF F(1)] .
    have vs: "vol_sector s1 = vol_sector s" by (simp add: fun_eq_iff vol_sector_def sector_bytes_def fs1 F(2))
    have "read_sectors (root_dir_start_sector (fs s)) (root_dir_sectors (fs s)) p s1 =
      Inr (s1\<lparr>mem := store_bytes p (root_bytes s) (mem s1)\<rparr>)"
      unfolding root_bytes_def vs[symmetric] by (rule read_sectors_ok) (use D(12-14) fs1 in auto)
    moreover have "root_buffer s p (s1\<lparr>mem := store_bytes p (root_bytes s) (mem s1)\<rparr>)"
      unfolding root_buffer_def using frame_buffer[OF b F(1) order_refl] b F(2) borrowedD(4)[OF b]
      by auto
    ultimately show ?thesis using buf(1) borrowedD(1)[OF b] by (simp add: read_root_dir_def fs1)
  qed
qed

lemma root_bufferD:
  assumes "root_buffer s p s2" "vol_ok s"
  shows "dirents (mem s2) p (root_dir_entry_count (fs s2)) = root_entries s" "fs s2 = fs s" "disk s2 = disk s"
    "disk_sectors s2 = disk_sectors s"
proof -
  obtain s1 where b: "borrowed s p (length (root_bytes s)) s1" "frame s s1 {} s2"
    using assms(1) unfolding root_buffer_def by blast
  show "fs s2 = fs s" "disk_sectors s2 = disk_sectors s" "disk s2 = disk s"
    using frameD(3,4)[OF b(2)] assms(1) unfolding root_buffer_def by auto
  then show "dirents (mem s2) p (root_dir_entry_count (fs s2)) = root_entries s"
    using dirents_root[OF assms(2)] assms(1) unfolding root_buffer_def by simp
qed

lemma find_root_entry:
  assumes v: "vol_ok s"
  shows "gives (find_entry_in_dir 0 want s) (\<lambda>(r, s'). r = scan_dir want (root_entries s) \<and> keeps s s')"
  unfolding find_entry_in_dir_def read_directory_def if_P[OF refl] rbind_assoc
proof (rule gives_bind[OF read_root_dir_gives[OF v]], clarsimp, goal_cases)
  case (1 p s2)
  obtain s1 where b: "borrowed s p (length (root_bytes s)) s1" "frame s s1 {} s2"
    using 1 unfolding root_buffer_def by blast
  obtain s3 where s3: "kfree p s2 = Inr s3" "frame s s {} s3" "disk s3 = disk s2" "mem s3 = mem s2"
    by (rule borrow_return[OF b])
  then show ?case using root_bufferD[OF 1(2) v] by (simp add: keeps_def)
qed

lemma plain_component:
  assumes "0x2F \<notin> set name" "length name \<le> 12"
  shows "next_component name = (name, [])"
proof -
  have "takeWhile (\<lambda>c. c \<noteq> 0x2F) (take 12 name) = name" using assms by (auto simp: takeWhile_eq_all_conv)
  then show ?thesis by (simp add: next_component_def Let_def)
qed

lemma open_plain:
  assumes v: "vol_ok s" and n: "0x2F \<notin> set name" "length name \<le> 12"
  shows "gives (fat16_open name s) (\<lambda>(r, s'). r = map_option
    (\<lambda>de. \<lparr>first_cluster = de_first_cluster de, fsize = de_file_size de\<rparr>) (scan_dir (format_83 name) (root_entries s)) \<and>
    keeps s s')"
proof -
  have "resolve_parent_dir name s = Inr (Some (0, name), s)"
    by (simp add: resolve_parent_dir_def resolve_parent_loop.simps[of 0 name] plain_component[OF n])
  then have e: "fat16_open name s = rbind (find_entry_in_dir 0 (format_83 name) s) (\<lambda>(entry, s).
      case entry of None \<Rightarrow> Inr (None, s)
      | Some de \<Rightarrow> Inr (Some \<lparr>first_cluster = de_first_cluster de, fsize = de_file_size de\<rparr>, s))"
    by (simp add: fat16_open_def)
  show ?thesis unfolding e
    by (rule gives_bind[OF find_root_entry[OF v, of "format_83 name"]]) (auto split: option.splits)
qed

subsection \<open>Cluster chains\<close>

primrec fat_path :: "(u32 \<Rightarrow> u32) \<Rightarrow> nat \<Rightarrow> u32 \<Rightarrow> u32 list \<Rightarrow> bool" where
  "fat_path nx N c [] \<longleftrightarrow> \<not> in_chain c"
| "fat_path nx N c (x # xs) \<longleftrightarrow> x = c \<and> in_chain c \<and> unat c < N \<and> fat_path nx N (nx c) xs"

definition fat_chain :: "'a fat_state_scheme \<Rightarrow> u32 \<Rightarrow> u32 list \<Rightarrow> bool" where
  "fat_chain s = fat_path (\<lambda>c. ucast (fat_entry s c)) (fat_entries (fs s))"

definition chain_bytes :: "'a fat_state_scheme \<Rightarrow> u32 list \<Rightarrow> u8 list" where
  "chain_bytes s cs = concat (map (cluster_bytes s) cs)"

lemma fat_path_cong: "(\<And>x. x \<in> set cs \<Longrightarrow> nx' x = nx x) \<Longrightarrow> fat_path nx' N c cs = fat_path nx N c cs"
  by (induction cs arbitrary: c) auto

lemma fat_path_range: "fat_path nx N c cs \<Longrightarrow> x \<in> set cs \<Longrightarrow> 2 \<le> unat x \<and> unat x < N"
  by (induction cs arbitrary: c) (auto simp: in_chain_def word_le_nat_alt)

lemma length_cluster_bytes [simp]: "length (cluster_bytes s c) = spc (fs s) * 512"
  by (simp add: cluster_bytes_def)

lemma length_chain_bytes [simp]: "length (chain_bytes s cs) = length cs * (spc (fs s) * 512)"
  by (induction cs) (simp_all add: chain_bytes_def)

text \<open>A caller's buffer: held bytes outside the FAT.\<close>

definition user_buf :: "'a fat_state_scheme \<Rightarrow> u64 \<Rightarrow> nat \<Rightarrow> bool" where
  "user_buf s a n \<longleftrightarrow> unat a + n \<le> 2 ^ 64 \<and> (\<forall>x\<in>region a n. held s x \<and> x \<notin> fat_region s)"

lemma user_buf_sub: "user_buf s a n \<Longrightarrow> i + j \<le> n \<Longrightarrow> i < 2 ^ 64 \<Longrightarrow> unat a + i < 2 ^ 64 \<Longrightarrow>
  user_buf s (a + of_nat i) j \<and> unat (a + of_nat i) = unat a + i"
proof -
  assume u: "user_buf s a n" and n: "i + j \<le> n" and i: "i < 2 ^ 64" "unat a + i < 2 ^ 64"
  have "unat (a + of_nat i) = unat a + i" using i by (subst unat_add_no_wrap) (auto simp: unat_of_nat_less)
  moreover have "region (a + of_nat i) j \<subseteq> region a n" by (rule region_sub) (use u n i in \<open>auto simp: user_buf_def\<close>)
  ultimately show ?thesis using u n by (auto simp: user_buf_def)
qed

text \<open>One turn of the loop of \<open>fat16_read\<close>.\<close>

lemma read_step:
  assumes v: "vol_ok s" and b: "borrowed s p (spc (fs s) * 512) s1" and f: "frame s s1 W s2" and d: "disk s2 = disk s"
    and W: "W \<inter> fat_region s = {}" and dst: "user_buf s dst chunk" "region dst chunk \<subseteq> W"
    and c: "in_chain c" "unat c < fat_entries (fs s)" and ch: "chunk \<le> spc (fs s) * 512"
  defines "s3 \<equiv> s2\<lparr>mem := store_bytes p (cluster_bytes s c) (mem s2)\<rparr>"
  defines "s4 \<equiv> s3\<lparr>mem := memcpy dst p (of_nat chunk) (mem s3)\<rparr>"
  shows "read_sectors (cluster_to_sector (fs s2) c) (sectors_per_cluster (fs s2)) p s2 = Inr s3"
    "frame s s1 W s4" "disk s4 = disk s" "bytes_at (mem s4) dst chunk = take chunk (cluster_bytes s c)"
    "\<And>x. held s x \<Longrightarrow> x \<notin> region dst chunk \<Longrightarrow> mem s4 x = mem s2 x"
    "fat_next_cluster c s4 = Inr (ucast (fat_entry s c))"
proof -
  note g = vol_okD(2)[OF v] and F = frameD[OF f] and B = borrowedD[OF b]
  have c2: "2 \<le> unat c" using c(1) by (simp add: in_chain_def word_le_nat_alt)
  note C = cluster_sector[OF g c2 c(2)]
  have vs: "vol_sector s2 = vol_sector s" by (simp add: fun_eq_iff vol_sector_def sector_bytes_def F d)
  have cb: "vol_sector s2 (unat (cluster_to_sector (fs s2) c)) (unat (sectors_per_cluster (fs s2))) = cluster_bytes s c"
    by (simp add: vs F C(1) cluster_bytes_def spc_def)
  show "read_sectors (cluster_to_sector (fs s2) c) (sectors_per_cluster (fs s2)) p s2 = Inr s3"
    unfolding s3_def cb[symmetric]
    by (rule read_sectors_ok) (use C(1,2) geometry_okD(14)[OF g] in \<open>auto simp: F spc_def\<close>)
  have f3: "frame s s1 W s3" unfolding s3_def by (rule frame_buffer[OF b f]) simp
  have ch64: "chunk < 2 ^ 64" using ch geometry_okD(3)[OF g] by simp
  then have uch: "unat (of_nat chunk :: u64) = chunk" by (simp add: unat_of_nat_less)
  have pr: "region p chunk \<subseteq> region p (spc (fs s) * 512)" using ch by (auto simp: region_def)
  have dis: "region dst chunk \<inter> region p chunk = {}" using dst(1) B(5) pr by (auto simp: user_buf_def)
  have "bytes_at (mem s3) p chunk = take chunk (cluster_bytes s c)"
    by (rule nth_equalityI) (use ch geometry_okD(3)[OF g] in \<open>auto simp: s3_def mem_simps\<close>)
  then have m4: "mem s4 = store_bytes dst (take chunk (cluster_bytes s c)) (mem s3)"
    unfolding s4_def using memcpy_disjoint[of dst "of_nat chunk" p "mem s3"] dst(1) B(4) ch dis uch
    by (auto simp: user_buf_def)
  have len: "length (take chunk (cluster_bytes s c)) = chunk" using ch by simp
  have dw: "unat dst + chunk \<le> 2 ^ 64" using dst(1) by (simp add: user_buf_def)
  have out: "mem s4 x = mem s3 x" if "x \<notin> region dst chunk" for x
    unfolding m4 by (rule store_bytes_region) (use that dw in \<open>simp_all only: len not_False_eq_True\<close>)
  show f4: "frame s s1 W s4" unfolding s4_def
  proof (rule frame_mem[OF f3 _ order_refl])
    fix x assume "held s x" "x \<notin> W"
    then have "mem s4 x = mem s3 x" using dst(2) by (intro out) blast
    then show "memcpy dst p (of_nat chunk) (mem s3) x = mem s3 x" by (simp add: s4_def)
  qed
  show "disk s4 = disk s" by (simp add: s4_def s3_def d)
  show "bytes_at (mem s4) dst chunk = take chunk (cluster_bytes s c)"
    unfolding m4 using bytes_at_store_bytes[of "take chunk (cluster_bytes s c)" dst "mem s3"] ch64 by (simp only: len)
  show fr: "mem s4 x = mem s2 x" if "held s x" "x \<notin> region dst chunk" for x
  proof -
    note out[OF that(2)]
    also have "x \<notin> region p (spc (fs s) * 512)" using B(5) that(1) by blast
    then have "mem s3 x = mem s2 x" unfolding s3_def using B(4) by (simp add: store_bytes_region)
    finally show ?thesis .
  qed
  have "fat_entry s4 c = fat_entry s c"
    by (rule fat_entry_cong[OF v c(2) frameD(3)[OF f4]])
      (use frameD(5)[OF f4] fat_region_room(2)[OF v] W in blast)
  then show "fat_next_cluster c s4 = Inr (ucast (fat_entry s c))"
    using c(2) frameD(3)[OF f4] by (simp add: fat_next_cluster_def word_le_nat_alt fat_entries_def)
qed

lemma user_buf_rest:
  assumes "user_buf s a n" "i \<le> n" "i < 2 ^ 64"
  shows "user_buf s (a + of_nat i) (n - i)" "region (a + of_nat i) (n - i) \<subseteq> region a n"
    "region (a + of_nat i) (n - i) \<inter> region a i = {}"
proof (atomize (full), cases "i = n")
  case True
  then show "user_buf s (a + of_nat i) (n - i) \<and> region (a + of_nat i) (n - i) \<subseteq> region a n \<and>
      region (a + of_nat i) (n - i) \<inter> region a i = {}"
    using unsigned_less[of "a + of_nat i", where ?'a = nat] by (auto simp: user_buf_def region_def)
next
  case False
  then have w: "unat a + i < 2 ^ 64" using assms by (auto simp: user_buf_def)
  note sub = user_buf_sub[OF assms(1) _ assms(3) w, of "n - i"]
  have "region (a + of_nat i) (n - i) \<subseteq> region a n"
    by (rule region_sub) (use assms in \<open>auto simp: user_buf_def\<close>)
  then show "user_buf s (a + of_nat i) (n - i) \<and> region (a + of_nat i) (n - i) \<subseteq> region a n \<and>
      region (a + of_nat i) (n - i) \<inter> region a i = {}"
    using sub assms(2) by (auto simp: region_def)
qed

lemma read_loop_run:
  assumes v: "vol_ok s" and b: "borrowed s p (spc (fs s) * 512) s1" and W: "W \<inter> fat_region s = {}"
  shows "fat_chain s c cs \<Longrightarrow> frame s s1 W s2 \<Longrightarrow> disk s2 = disk s \<Longrightarrow> user_buf s dst (unat n) \<Longrightarrow>
    region dst (unat n) \<subseteq> W \<Longrightarrow>
    \<exists>r s3. read_loop p c n dst s2 = Some (Inr (r, s3)) \<and> unat r = unat n - length cs * (spc (fs s) * 512) \<and>
      frame s s1 W s3 \<and> disk s3 = disk s \<and>
      bytes_at (mem s3) dst (unat n - unat r) = take (unat n) (chain_bytes s cs) \<and>
      (\<forall>x. held s x \<longrightarrow> x \<notin> region dst (unat n) \<longrightarrow> mem s3 x = mem s2 x)"
proof (induction cs arbitrary: c n dst s2)
  case Nil
  then have "\<not> in_chain c" by (simp add: fat_chain_def)
  then have "read_loop p c n dst s2 = Some (Inr (n, s2))" by (subst read_loop.simps) simp
  then show ?case using Nil by (intro exI[of _ n] exI[of _ s2]) (simp add: chain_bytes_def)
next
  case (Cons c' cs)
  have c: "c' = c" "in_chain c" "unat c < fat_entries (fs s)" and rest: "fat_chain s (ucast (fat_entry s c)) cs"
    using Cons.prems(1) by (simp_all add: fat_chain_def)
  note g = vol_okD(2)[OF v] and F = frameD[OF Cons.prems(2)]
  let ?csz = "spc (fs s) * 512"
  show ?case
  proof (cases "n = 0")
    case True
    then have "read_loop p c n dst s2 = Some (Inr (n, s2))" by (subst read_loop.simps) simp
    then show ?thesis using True Cons.prems by (intro exI[of _ n] exI[of _ s2]) simp
  next
    case False
    define chunk where "chunk = min ?csz (unat n)"
    define ch where "ch = (if cluster_size_bytes (fs s) < n then cluster_size_bytes (fs s) else n)"
    have uch: "unat ch = chunk" using geometry_okD(4)[OF g]
      by (auto simp: ch_def chunk_def min_def word_less_nat_alt mult.commute)
    have dst: "user_buf s dst chunk" "region dst chunk \<subseteq> W"
      using Cons.prems(4,5) by (auto simp: user_buf_def region_def chunk_def)
    have "chunk \<le> ?csz" by (simp add: chunk_def)
    note st = read_step[OF v b Cons.prems(2,3) W dst c(2,3) this]
    define s3 where "s3 = s2\<lparr>mem := store_bytes p (cluster_bytes s c) (mem s2)\<rparr>"
    define s4 where "s4 = s3\<lparr>mem := memcpy dst p (of_nat chunk) (mem s3)\<rparr>"
    note st = st[folded s3_def, folded s4_def]
    have uc: "(ucast ch :: u64) = of_nat chunk" by (simp add: word_unat_eq_iff uch[symmetric])
    have "fs s3 = fs s" by (simp add: s3_def F)
    then have step: "read_loop p c n dst s2 = read_loop p (ucast (fat_entry s c)) (n - ch) (dst + ucast ch) s4"
      using False c(2) st(1,6) uc unfolding s4_def
      by (cases "cluster_size_bytes (fs s) < n"; subst read_loop.simps) (simp_all add: Let_def ch_def word_gt_0)
    have un: "unat (n - ch) = unat n - chunk" using uch by (subst unat_sub_le) (auto simp: word_le_nat_alt chunk_def)
    have n32: "unat n < 2 ^ 32" using unsigned_less[of n, where ?'a = nat] by simp
    have cn: "chunk \<le> unat n" "chunk < 2 ^ 64" using n32 by (auto simp: chunk_def)
    note rb = user_buf_rest[OF Cons.prems(4) cn]
    have sub: "region (dst + of_nat chunk) (unat n - chunk) \<subseteq> W" using rb(2) Cons.prems(5) by blast
    from Cons.IH[OF rest st(2,3), of "dst + ucast ch" "n - ch", unfolded un uc, OF rb(1) sub] obtain r s5 where
      r: "read_loop p (ucast (fat_entry s c)) (n - ch) (dst + of_nat chunk) s4 = Some (Inr (r, s5))"
        "unat r = unat n - chunk - length cs * ?csz" "frame s s1 W s5" "disk s5 = disk s"
        "bytes_at (mem s5) (dst + of_nat chunk) (unat n - chunk - unat r) = take (unat n - chunk) (chain_bytes s cs)"
        "\<forall>x. held s x \<longrightarrow> x \<notin> region (dst + of_nat chunk) (unat n - chunk) \<longrightarrow> mem s5 x = mem s4 x"
      by blast
    have keep: "mem s5 x = mem s2 x" if "held s x" "x \<notin> region dst (unat n)" for x
      using that r(6) rb(2) st(5)[OF that(1)] cn(1) by (auto simp: region_def)
    have "mem s5 x = mem s4 x" if "x \<in> region dst chunk" for x
      using r(6) rb(3) dst(1) that by (auto simp: user_buf_def)
    then have first: "bytes_at (mem s5) dst chunk = take chunk (cluster_bytes s c)"
      unfolding st(4)[symmetric] using dst(1) by (intro bytes_at_region) (auto simp: user_buf_def)
    have ur: "unat r = unat n - length (c' # cs) * ?csz" using r(2) by (auto simp: chunk_def)
    have tot: "unat n - unat r = chunk + (unat n - chunk - unat r)" using r(2) cn(1) by auto
    have "bytes_at (mem s5) dst (unat n - unat r) = take chunk (cluster_bytes s c) @ take (unat n - chunk) (chain_bytes s cs)"
      unfolding tot bytes_at_append first r(5) ..
    also have "\<dots> = take (unat n) (chain_bytes s (c' # cs))"
      by (simp add: chain_bytes_def chunk_def min_def c(1))
    finally show ?thesis using step[unfolded uc] r(1,3,4) ur keep by auto
  qed
qed

definition read_len :: "fat16_file \<Rightarrow> u32 \<Rightarrow> nat" where
  "read_len file max_len = min (unat (fsize file)) (unat max_len)"

lemma cluster_malloc:
  assumes "vol_ok s"
  shows "unat (ucast (cluster_size_bytes (fs s)) :: u64) = spc (fs s) * 512"
    "(ucast (cluster_size_bytes (fs s)) :: u64) \<noteq> 0" "unat (ucast (cluster_size_bytes (fs s)) :: u64) + 15 < 2 ^ 64"
proof -
  note D = geometry_okD[OF vol_okD(2)[OF assms]]
  show u: "unat (ucast (cluster_size_bytes (fs s)) :: u64) = spc (fs s) * 512" using D(4) by simp
  show "(ucast (cluster_size_bytes (fs s)) :: u64) \<noteq> 0"
    unfolding unat_gt_0[symmetric] u using D(2) by simp
  show "unat (ucast (cluster_size_bytes (fs s)) :: u64) + 15 < 2 ^ 64" unfolding u using D(3) by simp
qed

lemma fat16_read_gives:
  assumes v: "vol_ok s" and ch: "fat_chain s (first_cluster file) cs" and ub: "user_buf s buf (read_len file max_len)"
  shows "gives (fat16_read file buf max_len s) (\<lambda>(n, s').
    unat n = min (read_len file max_len) (length cs * (spc (fs s) * 512)) \<and>
    bytes_at (mem s') buf (unat n) = take (read_len file max_len) (chain_bytes s cs) \<and>
    frame s s (region buf (read_len file max_len)) s' \<and> disk s' = disk s)"
proof -
  note M = cluster_malloc[OF v]
  define tot where "tot = (if fsize file < max_len then fsize file else max_len)"
  have ut: "unat tot = read_len file max_len" by (auto simp: tot_def read_len_def word_less_nat_alt)
  let ?W = "region buf (unat tot)"
  have W: "?W \<inter> fat_region s = {}" using ub unfolding ut user_buf_def by blast
  from vol_okD(1)[OF v] M(2,3) show ?thesis
  proof (cases rule: kmalloc_borrow)
    case null
    then show ?thesis by (simp add: fat16_read_def oom_def)
  next
    case (buf p s1)
    note b = buf(2)[unfolded M(1)] and B = borrowed_frame[OF buf(2)]
    have f1: "frame s s1 ?W s1" using B(1) by (simp add: frame_def)
    obtain r s3 where r: "read_loop p (first_cluster file) tot buf s1 = Some (Inr (r, s3))"
      "unat r = unat tot - length cs * (spc (fs s) * 512)" "frame s s1 ?W s3" "disk s3 = disk s"
      "bytes_at (mem s3) buf (unat tot - unat r) = take (unat tot) (chain_bytes s cs)"
      using read_loop_run[OF v b W ch f1 B(2), of buf tot] ub by (auto simp: ut)
    obtain s4 where s4: "kfree p s3 = Inr s4" "frame s s ?W s4" "disk s4 = disk s3" "mem s4 = mem s3"
      by (rule borrow_return[OF b r(3)])
    have n: "unat (tot - r) = unat tot - unat r" using r(2) by (subst unat_sub_le) (auto simp: word_le_nat_alt)
    then have "unat (tot - r) = min (read_len file max_len) (length cs * (spc (fs s) * 512))"
      using r(2) ut by auto
    then show ?thesis using buf(1) borrowedD(1)[OF b] r s4 n
      by (simp add: fat16_read_def Let_def tot_def[symmetric] ends_def ut)
  qed
qed

subsection \<open>The slot of a new entry\<close>

lemma slot_shift:
  assumes "Suc k \<le> j"
  shows "(de # des)[j - k := ne] = de # des[j - Suc k := ne]" "(de # des) ! (j - k) = des ! (j - Suc k)"
proof -
    obtain i where "j = Suc k + i" using le_Suc_ex[OF assms] by (elim exE)
    then show "(de # des)[j - k := ne] = de # des[j - Suc k := ne]" "(de # des) ! (j - k) = des ! (j - Suc k)" by simp_all
qed

lemma scan_slots_spec:
  assumes ne: "de_name ne = want" "\<not> skipped ne" "want ! 0 \<noteq> 0"
  shows "scan_slots want k des fr = (ex, fr') \<Longrightarrow>
    (case ex of
       Some e \<Rightarrow> k \<le> e \<and> e < k + length des \<and> scan_dir want des = Some (des ! (e - k)) \<and>
         scan_dir want (des[e - k := ne]) = Some ne
     | None \<Rightarrow> scan_dir want des = None \<and>
         (case fr of Some j \<Rightarrow> fr' = Some j
          | None \<Rightarrow> \<forall>j. fr' = Some j \<longrightarrow> k \<le> j \<and> j < k + length des \<and> scan_dir want (des[j - k := ne]) = Some ne))"
proof (induction des arbitrary: k fr)
  case Nil
  then have "ex = None" "fr' = fr" by simp_all
  then show ?case by (cases fr; simp)
next
  case (Cons de des)
  have new: "scan_dir want ((de # des)[k - k := ne]) = Some ne" using ne by simp
  let ?here = "if fr = None then Some k else fr"
  consider (stop) "de_name de ! 0 = 0" "ex = None" "fr' = ?here"
    | (deleted) "de_name de ! 0 \<noteq> 0" "skipped de" "scan_slots want (Suc k) des ?here = (ex, fr')"
    | (skip) "de_name de ! 0 \<noteq> 0" "skipped de" "scan_slots want (Suc k) des fr = (ex, fr')"
    | (match) "de_name de ! 0 \<noteq> 0" "\<not> skipped de" "de_name de = want" "ex = Some k"
    | (other) "de_name de ! 0 \<noteq> 0" "\<not> skipped de" "de_name de \<noteq> want" "scan_slots want (Suc k) des fr = (ex, fr')"
    using Cons.prems unfolding scan_slots.simps Let_def skipped_def by (simp split: if_split_asm; simp)
  then show ?case
  proof cases
    case stop
    then show ?thesis using new by (cases fr; simp)
  next
    case deleted
    then show ?thesis using Cons.IH[OF deleted(3)] new by (cases ex; cases fr; simp add: slot_shift del: list_update.simps)
  next
    case skip
    then show ?thesis using Cons.IH[OF skip(3)] by (cases ex; cases fr; simp add: slot_shift del: list_update.simps; fastforce)
  next
    case match
    then show ?thesis using new by simp
  next
    case other
    then show ?thesis using Cons.IH[OF other(4)] by (cases ex; cases fr; simp add: slot_shift del: list_update.simps; fastforce)
  qed
qed

subsection \<open>Writing a directory entry\<close>

definition new_entry :: "u8 list \<Rightarrow> u32 \<Rightarrow> u32 \<Rightarrow> fat16_dirent" where
  "new_entry want c sz = \<lparr>de_name = want, de_attr = ATTR_ARCHIVE, de_nt_reserved = 0, de_create_time_tenth = 0,
     de_create_time = 0, de_create_date = 0, de_last_access_date = 0, de_first_cluster_hi = ucast (drop_bit 16 c),
     de_write_time = 0, de_write_date = 0, de_first_cluster_lo = ucast (c AND 0xFFFF), de_file_size = sz\<rparr>"

lemma new_entry_cluster: "de_first_cluster (new_entry want c sz) = c"
proof -
  have "(0xFFFF :: u32) = mask 16" by (simp add: mask_eq_exp_minus_1)
  then have m: "c AND 0xFFFF = take_bit 16 c" by (simp only: take_bit_eq_mask)
  show ?thesis unfolding de_first_cluster_def new_entry_def m
    by (intro bit_word_eqI) (auto simp: bit_simps)
qed

lemma split_bytes:
  fixes x :: u16 and y :: u32
  shows "ucast (ucast x :: u8) OR push_bit 8 (ucast (ucast (drop_bit 8 x) :: u8)) = x"
  "ucast (ucast y :: u8) OR push_bit 8 (ucast (ucast (drop_bit 8 y) :: u8)) OR
     push_bit 16 (ucast (ucast (drop_bit 16 y) :: u8)) OR push_bit 24 (ucast (ucast (drop_bit 24 y) :: u8)) = y"
proof -
  show "ucast (ucast x :: u8) OR push_bit 8 (ucast (ucast (drop_bit 8 x) :: u8)) = x"
    by (rule bit_word_eqI) (auto simp: bit_simps)
  show "ucast (ucast y :: u8) OR push_bit 8 (ucast (ucast (drop_bit 8 y) :: u8)) OR
     push_bit 16 (ucast (ucast (drop_bit 16 y) :: u8)) OR push_bit 24 (ucast (ucast (drop_bit 24 y) :: u8)) = y" (is "?l = y")
  proof (rule bit_word_eqI)
    fix n assume "n < LENGTH(32)"
    then consider "n < 8" | "8 \<le> n" "n < 16" | "16 \<le> n" "n < 24" | "24 \<le> n" "n < 32" by force
    then show "bit ?l n = bit y n"
      by cases (auto simp: bit_simps)
  qed
qed

lemma write_dirent_at:
  assumes w: "length want = 11"
  shows "dirent_at (write_dirent p want c sz m) p = new_entry want c sz"
proof -
  have m1: "unat (-1 :: u64) = 2 ^ 64 - 1" using unat_sub_if'[of 0 "1 :: u64"] by simp
  note simps = m1 write_dirent_def Let_def store_le_apply memset_apply store_bytes_def w
  have n: "bytes_at (write_dirent p want c sz m) p 11 = want"
  proof (rule nth_equalityI)
    fix i assume i: "i < length (bytes_at (write_dirent p want c sz m) p 11)"
    then have i': "i < 11" by simp
    then have "i = 0 \<or> i = 1 \<or> i = 2 \<or> i = 3 \<or> i = 4 \<or> i = 5 \<or> i = 6 \<or> i = 7 \<or> i = 8 \<or> i = 9 \<or> i = 10" by presburger
    then show "bytes_at (write_dirent p want c sz m) p 11 ! i = want ! i"
      by (elim disjE) (simp_all add: simps)
  qed (simp add: w)
  show ?thesis unfolding dirent_at_def new_entry_def n
    by (simp add: simps load16_def load32_def load_le_numeral add.assoc split_bytes)
qed

lemma write_dirent_frame:
  assumes w: "length want = 11" and p: "unat p + 32 \<le> 2 ^ 64" and x: "x \<notin> region p 32"
  shows "write_dirent p want c sz m x = m x"
proof -
  have sub: "x \<notin> region (p + of_nat j) n" if "j + n \<le> 32" for j n
    using region_sub[of p j n 32] p x that by auto
  have le: "unat (p + of_nat j) + n \<le> 2 ^ 64" if "j + n \<le> 32" "0 < n" for j n
    using p that by (subst unat_add_no_wrap) (auto simp: unat_of_nat_less)
  have "x \<noteq> p + 11" using sub[of 11 1] region_offset[of "p + 11" 1 0] le[of 11 1] by auto
  moreover have "x \<notin> region p 11" using sub[of 0 11] by simp
  moreover have "x \<notin> region (p + 20) 2" "x \<notin> region (p + 26) 2" "x \<notin> region (p + 28) 4"
    using sub[of 20 2] sub[of 26 2] sub[of 28 4] by simp_all
  moreover have "unat (p + 20) + 2 \<le> 2 ^ 64" "unat (p + 26) + 2 \<le> 2 ^ 64" "unat (p + 28) + 4 \<le> 2 ^ 64"
    using le[of 20 2] le[of 26 2] le[of 28 4] by simp_all
  ultimately show ?thesis
    unfolding write_dirent_def Let_def memset_zero using p x w
    by (simp add: store_le_region store_bytes_region)
qed

subsection \<open>Freeing the old chain\<close>

lemma fat_path_unique: "fat_path nx N c xs \<Longrightarrow> fat_path nx N c ys \<Longrightarrow> xs = ys"
proof (induction xs arbitrary: c ys)
  case Nil
  then show ?case by (cases ys) auto
next
  case (Cons x xs)
  then show ?case by (cases ys) auto
qed

lemma fat_path_append: "fat_path nx N c (xs @ y # ys) \<Longrightarrow> fat_path nx N y (y # ys)"
  by (induction xs arbitrary: c) auto

lemma fat_path_distinct: "fat_path nx N c cs \<Longrightarrow> distinct cs"
proof (induction cs arbitrary: c)
  case (Cons x xs)
  have "x \<notin> set xs"
  proof
    assume "x \<in> set xs"
    then obtain ys zs where e: "xs = ys @ x # zs" by (meson split_list)
    have "fat_path nx N c (x # zs)" using fat_path_append[of nx N c "x # ys" x zs] Cons.prems e by auto
    from fat_path_unique[OF this Cons.prems] show False by (simp add: e)
  qed
  then show ?case using Cons by auto
qed simp

lemma free_chain_run:
  "vol_ok s \<Longrightarrow> fat_chain s c cs \<Longrightarrow> \<exists>s'. free_chain c s = Some (Inr s') \<and> vol_ok s' \<and> s' = s\<lparr>mem := mem s'\<rparr> \<and>
     (\<forall>x. unat x < fat_entries (fs s) \<longrightarrow> fat_entry s' x = (if x \<in> set cs then FAT16_FREE_MARK else fat_entry s x)) \<and>
     (\<forall>x. x \<notin> fat_region s \<longrightarrow> mem s' x = mem s x)"
proof (induction cs arbitrary: c s)
  case Nil
  then have "free_chain c s = Some (Inr s)" by (subst free_chain.simps) (simp add: fat_chain_def)
  then show ?case using Nil by simp
next
  case (Cons y cs)
  let ?t = "set_fat_entry c FAT16_FREE_MARK s"
  have c: "y = c" "in_chain c" "unat c < fat_entries (fs s)" and rest: "fat_chain s (ucast (fat_entry s c)) cs"
    using Cons.prems(2) by (simp_all add: fat_chain_def)
  note fr = set_fat_entry_frame[OF Cons.prems(1) c(3), where v = FAT16_FREE_MARK]
  have fst: "fs ?t = fs s" by (subst fr(2)) simp
  have ent: "fat_entry ?t x = (if x = c then FAT16_FREE_MARK else fat_entry s x)" if "unat x < fat_entries (fs s)" for x
    by (rule fat_entry_set[OF Cons.prems(1) c(3) that])
  have "c \<notin> set cs" using fat_path_distinct[OF Cons.prems(2)[unfolded fat_chain_def]] c(1) by simp
  then have "fat_chain ?t (ucast (fat_entry s c)) cs"
    using rest fat_path_range[OF rest[unfolded fat_chain_def]] ent unfolding fat_chain_def fst
    by (subst fat_path_cong[of cs _ "\<lambda>c. ucast (fat_entry s c)"]) auto
  from Cons.IH[OF fr(3) this] obtain s' where s': "free_chain (ucast (fat_entry s c)) ?t = Some (Inr s')" "vol_ok s'"
    "s' = ?t\<lparr>mem := mem s'\<rparr>"
    "\<forall>x. unat x < fat_entries (fs s) \<longrightarrow> fat_entry s' x = (if x \<in> set cs then FAT16_FREE_MARK else fat_entry ?t x)"
    "\<forall>x. x \<notin> fat_region s \<longrightarrow> mem s' x = mem ?t x" unfolding fst by blast
  have "free_chain c s = Some (Inr s')"
    using c(2,3) s'(1) by (subst free_chain.simps) (simp add: word_le_nat_alt fat_entries_def)
  moreover have "s' = s\<lparr>mem := mem s'\<rparr>" by (subst s'(3)) (simp add: set_fat_entry_def)
  ultimately show ?case using s'(2,4,5) ent fr(1) c(1) by auto
qed

subsection \<open>Writing the clusters\<close>

lemma frame_vol: "vol_ok s \<Longrightarrow> frame s s1 W s2 \<Longrightarrow> allocs s \<subseteq> allocs s1 \<Longrightarrow> vol_ok s2"
  unfolding vol_ok_def frame_def by auto

definition free_clusters :: "'a fat_state_scheme \<Rightarrow> u32 set" where
  "free_clusters s = {c. 2 \<le> unat c \<and> unat c < fat_entries (fs s) \<and> fat_entry s c = FAT16_FREE_MARK}"

lemma alloc_cluster_ok:
  assumes "free_clusters s \<noteq> {}"
  obtains c where "alloc_cluster s = Inr c" "c \<in> free_clusters s"
proof -
  let ?P = "\<lambda>c. fat_entry s (of_nat c) = FAT16_FREE_MARK"
  obtain d where d: "2 \<le> unat d" "unat d < fat_entries (fs s)" "fat_entry s d = FAT16_FREE_MARK"
    using assms by (auto simp: free_clusters_def)
  have "find ?P [2..<fat_entries (fs s)] \<noteq> None"
    unfolding find_None_iff using d by (auto intro!: bexI[of _ "unat d"])
  then obtain c where c: "find ?P [2..<fat_entries (fs s)] = Some c" by blast
  have r: "2 \<le> c" "c < fat_entries (fs s)" "?P c" using find_SomeD[OF c] by auto
  have "unat (of_nat c :: u32) = c"
    using r(2) unsigned_less[of "fat_cache_entries (fs s)", where ?'a = nat]
    by (intro unat_of_nat_less) (simp add: fat_entries_def)
  then have "of_nat c \<in> free_clusters s" using r by (simp add: free_clusters_def)
  then show ?thesis using that[of "of_nat c"] c by (simp add: alloc_cluster_def fat_entries_def)
qed

definition padded :: "nat \<Rightarrow> u8 list \<Rightarrow> u8 list" where
  "padded n bs = bs @ replicate (n - length bs) 0"

lemma pad_buffer:
  assumes p: "unat p + n \<le> 2 ^ 64" and l: "length bs \<le> n"
  shows "bytes_at (store_bytes p bs (store_bytes p (replicate n 0) m)) p n = padded n bs"
proof (rule nth_equalityI)
  fix i assume "i < length (bytes_at (store_bytes p bs (store_bytes p (replicate n 0) m)) p n)"
  then have i: "i < n" by simp
  have "n \<le> 2 ^ 64" using p by simp
  then have "unat (p + of_nat i - p) = i" using i by (simp add: unat_of_nat_less)
  then show "bytes_at (store_bytes p bs (store_bytes p (replicate n 0) m)) p n ! i = padded n bs ! i"
    using i l by (simp add: store_bytes_def padded_def nth_append)
qed (use l in \<open>simp add: padded_def\<close>)

text \<open>The FAT after a cluster was taken and linked to the one before it.\<close>

lemma link_cluster:
  assumes v: "vol_ok s" and c: "c \<in> free_clusters s"
    and prev: "prev \<noteq> 0 \<longrightarrow> unat prev < fat_entries (fs s) \<and> prev \<noteq> c"
  defines "t \<equiv> set_fat_entry c FAT16_EOC_MARK s"
  defines "u \<equiv> (if prev = 0 then t else set_fat_entry prev (ucast c) t)"
  shows "vol_ok u" "u = s\<lparr>mem := mem u\<rparr>" "\<And>x. x \<notin> fat_region s \<Longrightarrow> mem u x = mem s x"
    "\<And>x. unat x < fat_entries (fs s) \<Longrightarrow> fat_entry u x =
      (if x = c then FAT16_EOC_MARK else if prev \<noteq> 0 \<and> x = prev then ucast c else fat_entry s x)"
proof -
  have cN: "unat c < fat_entries (fs s)" using c by (simp add: free_clusters_def)
  note T = set_fat_entry_frame[OF v cN, where v = FAT16_EOC_MARK, folded t_def]
  have ft: "fs t = fs s" by (subst T(2)) simp
  have te: "fat_entry t x = (if x = c then FAT16_EOC_MARK else fat_entry s x)" if "unat x < fat_entries (fs s)" for x
    unfolding t_def by (rule fat_entry_set[OF v cN that])
  have U: "vol_ok u \<and> u = s\<lparr>mem := mem u\<rparr> \<and> (\<forall>x. x \<notin> fat_region s \<longrightarrow> mem u x = mem s x) \<and>
    (\<forall>x. unat x < fat_entries (fs s) \<longrightarrow> fat_entry u x =
      (if x = c then FAT16_EOC_MARK else if prev \<noteq> 0 \<and> x = prev then ucast c else fat_entry s x))"
  proof (cases "prev = 0")
    case True
    then show ?thesis using T te by (simp add: u_def)
  next
    case False
    have pN: "unat prev < fat_entries (fs t)" "prev \<noteq> c" using prev False ft by simp_all
    note P = set_fat_entry_frame[OF T(3) pN(1), where v = "ucast c"]
    have u: "u = set_fat_entry prev (ucast c) t" using False by (simp add: u_def)
    have "u = s\<lparr>mem := mem u\<rparr>" unfolding u by (simp add: set_fat_entry_def t_def)
    moreover have "fat_entry u x = (if x = prev then ucast c else fat_entry t x)" if "unat x < fat_entries (fs s)" for x
      unfolding u by (rule fat_entry_set[OF T(3) pN(1)]) (use that ft in simp)
    ultimately show ?thesis using P(1,3) T(1) te False pN(2) unfolding u ft by auto
  qed
  show "vol_ok u" "u = s\<lparr>mem := mem u\<rparr>" using U by blast+
  show "mem u x = mem s x" if "x \<notin> fat_region s" for x using U that by blast
  show "fat_entry u x = (if x = c then FAT16_EOC_MARK else if prev \<noteq> 0 \<and> x = prev then ucast c else fat_entry s x)"
    if "unat x < fat_entries (fs s)" for x using U that by blast
qed

lemma fill_buffer:
  assumes v: "vol_ok s" and b: "borrowed s p n s1" and f: "frame s s1 (fat_region s) s2" and n: "unat sz = n" "chunk \<le> n"
    and src: "user_buf s src chunk" and ch: "unat ch = chunk"
  defines "s3 \<equiv> s2\<lparr>mem := memset p 0 sz (mem s2)\<rparr>"
  defines "s4 \<equiv> s3\<lparr>mem := memcpy p src ch (mem s3)\<rparr>"
  shows "frame s s1 (fat_region s) s4" "bytes_at (mem s4) p n = padded n (bytes_at (mem s) src chunk)"
    "\<And>x. held s x \<Longrightarrow> mem s4 x = mem s2 x"
proof -
  note B = borrowedD[OF b] and F = frameD[OF f]
  have p: "unat p + n \<le> 2 ^ 64" using B(4) by simp
  have m3: "mem s3 = store_bytes p (replicate n 0) (mem s2)" by (simp add: s3_def memset_zero n(1))
  have out3: "mem s3 x = mem s2 x" if "held s x" for x
    unfolding m3 using B(5) that p by (intro store_bytes_region) auto
  have sub: "region p chunk \<subseteq> region p n" using n(2) by (auto simp: region_def)
  have dis: "region p (unat ch) \<inter> region src (unat ch) = {}" using src B(5) sub unfolding ch user_buf_def by blast
  have data: "bytes_at (mem s3) src chunk = bytes_at (mem s) src chunk"
  proof (rule bytes_at_region)
    fix x assume "x \<in> region src chunk"
    then have "held s x" "x \<notin> fat_region s" using src by (auto simp: user_buf_def)
    then show "mem s3 x = mem s x" using out3 F(5) by simp
  qed (use src in \<open>simp add: user_buf_def\<close>)
  have "memcpy p src ch (mem s3) = store_bytes p (bytes_at (mem s3) src (unat ch)) (mem s3)"
    by (rule memcpy_disjoint[OF _ _ dis]) (use p n(2) src in \<open>auto simp: ch user_buf_def\<close>)
  then have m4: "mem s4 = store_bytes p (bytes_at (mem s) src chunk) (mem s3)" by (simp add: s4_def ch data)
  show out4: "mem s4 x = mem s2 x" if "held s x" for x
  proof -
    have "x \<notin> region p chunk" using B(5) that sub by blast
    then have "mem s4 x = mem s3 x" unfolding m4 using p n(2) by (intro store_bytes_region) auto
    then show ?thesis using out3[OF that] by simp
  qed
  show "bytes_at (mem s4) p n = padded n (bytes_at (mem s) src chunk)"
    unfolding m4 m3 by (rule pad_buffer[OF p]) (use n(2) in simp)
  have "s4 = s2\<lparr>mem := mem s4\<rparr>" by (simp add: s4_def s3_def)
  then show "frame s s1 (fat_region s) s4" using frame_mem[OF f, of "fat_region s" "mem s4"] out4 by simp
qed

lemma write_step:
  assumes v: "vol_ok s" and b: "borrowed s p (spc (fs s) * 512) s1" and f: "frame s s1 (fat_region s) s2"
    and ch: "chunk = min (spc (fs s) * 512) (unat (wv_remaining w))" and src: "user_buf s (wv_src w) chunk"
    and free: "free_clusters s2 \<noteq> {}"
    and prev: "wv_prev w \<noteq> 0 \<Longrightarrow> unat (wv_prev w) < fat_entries (fs s) \<and> fat_entry s2 (wv_prev w) \<noteq> FAT16_FREE_MARK"
  obtains c s3 where "write_cluster p i (w, s2) =
      Inr (\<lparr>wv_first = (if wv_prev w = 0 then c else wv_first w), wv_prev = c, wv_src = wv_src w + of_nat chunk,
        wv_remaining = wv_remaining w - of_nat chunk\<rparr>, s3)"
    "c \<in> free_clusters s2" "frame s s1 (fat_region s) s3"
    "\<forall>x. unat x < fat_entries (fs s) \<longrightarrow> fat_entry s3 x =
      (if x = c then FAT16_EOC_MARK else if wv_prev w \<noteq> 0 \<and> x = wv_prev w then ucast c else fat_entry s2 x)"
    "cluster_bytes s3 c = padded (spc (fs s) * 512) (bytes_at (mem s) (wv_src w) chunk)"
    "\<forall>rel n. rel + n \<le> cluster_at (fs s) (unat c) \<or> cluster_at (fs s) (unat c) + spc (fs s) \<le> rel \<longrightarrow>
      vol_sector s3 rel n = vol_sector s2 rel n"
proof -
  note g = vol_okD(2)[OF v] and F = frameD[OF f] and B = borrowedD[OF b]
  have v2: "vol_ok s2" by (rule frame_vol[OF v f B(8)])
  obtain c where c: "alloc_cluster s2 = Inr c" "c \<in> free_clusters s2" by (rule alloc_cluster_ok[OF free])
  have cN: "2 \<le> unat c" "unat c < fat_entries (fs s)" using c(2) F(3) by (simp_all add: free_clusters_def)
  have pc: "wv_prev w \<noteq> 0 \<longrightarrow> unat (wv_prev w) < fat_entries (fs s2) \<and> wv_prev w \<noteq> c"
    using prev c(2) F(3) by (auto simp: free_clusters_def)
  define u where "u = (if wv_prev w = 0 then set_fat_entry c FAT16_EOC_MARK s2
    else set_fat_entry (wv_prev w) (ucast c) (set_fat_entry c FAT16_EOC_MARK s2))"
  note U = link_cluster[OF v2 c(2) pc, folded u_def]
  have "frame s s1 (fat_region s) (s2\<lparr>mem := mem u\<rparr>)" by (rule frame_mem[OF f]) (use U(3) F(3) in auto)
  then have fu: "frame s s1 (fat_region s) u" unfolding U(2)[symmetric] .
  have fsu: "fs u = fs s" by (rule frameD(3)[OF fu])
  define sz where "sz = cluster_size_bytes (fs s)"
  define ch32 where "ch32 = (if sz < wv_remaining w then sz else wv_remaining w)"
  have usz: "unat sz = spc (fs s) * 512" using geometry_okD(4)[OF g] by (simp add: sz_def)
  have uch: "unat ch32 = chunk" by (auto simp: ch32_def ch usz min_def word_less_nat_alt)
  have ch64: "(ucast ch32 :: u64) = of_nat chunk" "ch32 = of_nat chunk" by (simp_all add: word_unat_eq_iff uch[symmetric])
  define s4 where "s4 = u\<lparr>mem := memcpy p (wv_src w) (ucast ch32) (memset p 0 (ucast sz) (mem u))\<rparr>"
  have "s4 = (u\<lparr>mem := memset p 0 (ucast sz) (mem u)\<rparr>)\<lparr>mem := memcpy p (wv_src w) (ucast ch32) (mem (u\<lparr>mem := memset p 0 (ucast sz) (mem u)\<rparr>))\<rparr>"
    by (simp add: s4_def)
  note fill = fill_buffer[OF v b fu _ _ src, of "ucast sz" "ucast ch32", folded this]
  have fill: "frame s s1 (fat_region s) s4" "bytes_at (mem s4) p (spc (fs s) * 512) = padded (spc (fs s) * 512) (bytes_at (mem s) (wv_src w) chunk)"
    "\<And>x. held s x \<Longrightarrow> mem s4 x = mem u x" using fill usz uch ch by simp_all
  note C = cluster_sector[OF g cN]
  define d where "d = disk_write (unat (partition_lba (fs s)) + cluster_at (fs s) (unat c)) (bytes_at (mem s4) p (spc (fs s) * 512)) (disk s2)"
  have fs4: "fs s4 = fs s" "disk_sectors s4 = disk_sectors s" by (rule frameD(3,4)[OF fill(1)])+
  have ds4: "disk s4 = disk s2" unfolding s4_def by (subst U(2)) simp
  have wr: "write_sectors (cluster_to_sector (fs s4) c) (sectors_per_cluster (fs s4)) p s4 = Inr (s4\<lparr>disk := d\<rparr>)"
    using write_sectors_ok[of s4 "cluster_to_sector (fs s) c" "sectors_per_cluster (fs s)" p] C(1,2) geometry_okD(14)[OF g]
    by (simp add: fs4 ds4 d_def spc_def)
  have run: "write_cluster p i (w, s2) =
      Inr (\<lparr>wv_first = (if wv_prev w = 0 then c else wv_first w), wv_prev = c, wv_src = wv_src w + of_nat chunk,
        wv_remaining = wv_remaining w - of_nat chunk\<rparr>, s4\<lparr>disk := d\<rparr>)"
    using wr fsu B(1) ch64 unfolding s4_def u_def
    by (cases "wv_prev w = 0"; cases "sz < wv_remaining w") (simp_all add: write_cluster_def c(1) Let_def sz_def ch32_def)
  have vs: "vol_sector s4 = vol_sector s2" by (simp add: fun_eq_iff vol_sector_def sector_bytes_def fs4 F(3) ds4)
  have "d = disk_write (unat (partition_lba (fs s4)) + cluster_at (fs s) (unat c)) (bytes_at (mem s4) p (spc (fs s) * 512)) (disk s4)"
    by (simp add: d_def fs4 ds4)
  note w = vol_sector_write[OF this, of "spc (fs s)", unfolded length_bytes_at, OF refl]
  have ents: "fat_entry (s4\<lparr>disk := d\<rparr>) x = fat_entry u x" if "unat x < fat_entries (fs s)" for x
    by (rule fat_entry_cong[OF U(1)])
      (use that fsu fill(3) fat_region_room(2)[OF v] fs4 in auto)
  show ?thesis
  proof (rule that[OF run c(2) frame_disk[OF fill(1)]])
    show "cluster_bytes (s4\<lparr>disk := d\<rparr>) c = padded (spc (fs s) * 512) (bytes_at (mem s) (wv_src w) chunk)"
      using w(1) fill(2) by (simp add: cluster_bytes_def fs4)
  qed (use ents U(4) F(3) w(2) vs in simp_all)
qed

definition chunk_at :: "nat \<Rightarrow> u8 list \<Rightarrow> nat \<Rightarrow> u8 list" where
  "chunk_at n dat j = take n (drop (j * n) dat)"

lemma concat_chunks:
  "concat (map (\<lambda>j. padded n (chunk_at n dat j)) [0..<k]) = take (k * n) dat @ replicate (k * n - length dat) 0"
proof (induction k)
  case (Suc k)
  have "concat (map (\<lambda>j. padded n (chunk_at n dat j)) [0..<Suc k]) =
    take (k * n) dat @ replicate (k * n - length dat) 0 @ padded n (chunk_at n dat k)" using Suc by simp
  also have "\<dots> = take (Suc k * n) dat @ replicate (Suc k * n - length dat) 0"
  proof (cases "length dat \<le> k * n")
    case True
    then show ?thesis by (simp add: chunk_at_def padded_def replicate_add[symmetric])
  next
    case False
    have "take (k * n) dat @ take n (drop (k * n) dat) = take (Suc k * n) dat"
      using take_add[of "k * n" n dat] by (simp add: add.commute)
    then show ?thesis using False by (simp add: chunk_at_def padded_def) (simp add: append_assoc[symmetric])
  qed
  finally show ?case .
qed simp

lemma link_chain:
  assumes "\<forall>j<length cs. nx (cs ! j) = (if Suc j < length cs then cs ! Suc j else e)" "\<not> in_chain e"
    "\<forall>c\<in>set cs. in_chain c \<and> unat c < N"
  shows "fat_path nx N (if cs = [] then e else cs ! 0) cs"
  using assms
proof (induction cs)
  case (Cons c cs)
  have "\<forall>j<length cs. nx (cs ! j) = (if Suc j < length cs then cs ! Suc j else e)"
  proof (intro allI impI)
    fix j assume "j < length cs"
    then show "nx (cs ! j) = (if Suc j < length cs then cs ! Suc j else e)" using Cons.prems(1)[rule_format, of "Suc j"] by simp
  qed
  then have IH: "fat_path nx N (if cs = [] then e else cs ! 0) cs" using Cons by simp
  have "nx c = (if cs = [] then e else cs ! 0)" using Cons.prems(1)[rule_format, of 0] by (cases cs) auto
  then show ?case using IH Cons.prems(3) by simp
qed simp

lemma clusters_apart:
  assumes "c \<noteq> c'" "2 \<le> unat c" "2 \<le> unat c'"
  shows "cluster_at f (unat c) + spc f \<le> cluster_at f (unat c') \<or> cluster_at f (unat c') + spc f \<le> cluster_at f (unat c)"
proof -
  have step: "cluster_at f a + spc f \<le> cluster_at f b" if "a < b" "2 \<le> a" for a b
  proof -
    have "Suc (a - 2) * spc f \<le> (b - 2) * spc f" using that by (intro mult_right_mono) auto
    then show ?thesis by (simp add: cluster_at_def)
  qed
  have "unat c < unat c' \<or> unat c' < unat c" using assms(1) by (auto simp: word_unat_eq_iff)
  then show ?thesis using step assms(2,3) by blast
qed

text \<open>The loop of \<open>fat16_write_file\<close> after \<open>i\<close> turns: the clusters \<open>cs\<close> are taken and linked and hold
  the first \<open>i\<close> chunks of the data; nothing else has changed.\<close>

definition writing :: "'a fat_state_scheme \<Rightarrow> 'a fat_state_scheme \<Rightarrow> u64 \<Rightarrow> nat \<Rightarrow> u32 list \<Rightarrow> write_vars \<times> 'a fat_state_scheme \<Rightarrow> bool" where
  "writing s s1 data n cs ws \<longleftrightarrow> (case ws of (w, s') \<Rightarrow>
     distinct cs \<and> set cs \<subseteq> free_clusters s \<and> frame s s1 (fat_region s) s' \<and>
     (\<forall>x. unat x < fat_entries (fs s) \<longrightarrow> x \<notin> set cs \<longrightarrow> fat_entry s' x = fat_entry s x) \<and>
     (\<forall>j<length cs. fat_entry s' (cs ! j) = (if Suc j < length cs then ucast (cs ! Suc j) else FAT16_EOC_MARK)) \<and>
     (\<forall>j<length cs. cluster_bytes s' (cs ! j) =
       padded (spc (fs s) * 512) (chunk_at (spc (fs s) * 512) (bytes_at (mem s) data n) j)) \<and>
     (\<forall>rel m. (\<forall>c\<in>set cs. rel + m \<le> cluster_at (fs s) (unat c) \<or> cluster_at (fs s) (unat c) + spc (fs s) \<le> rel) \<longrightarrow>
       vol_sector s' rel m = vol_sector s rel m) \<and>
     wv_first w = (if cs = [] then 0 else cs ! 0) \<and> wv_prev w = (if cs = [] then 0 else last cs) \<and>
     wv_src w = data + of_nat (min (length cs * (spc (fs s) * 512)) n) \<and>
     unat (wv_remaining w) = n - length cs * (spc (fs s) * 512))"

lemma writingD:
  assumes "writing s s1 data n cs (w, s')"
  shows "distinct cs" "set cs \<subseteq> free_clusters s" "frame s s1 (fat_region s) s'"
    "\<And>x. unat x < fat_entries (fs s) \<Longrightarrow> x \<notin> set cs \<Longrightarrow> fat_entry s' x = fat_entry s x"
    "\<And>j. j < length cs \<Longrightarrow> fat_entry s' (cs ! j) = (if Suc j < length cs then ucast (cs ! Suc j) else FAT16_EOC_MARK)"
    "\<And>j. j < length cs \<Longrightarrow> cluster_bytes s' (cs ! j) =
       padded (spc (fs s) * 512) (chunk_at (spc (fs s) * 512) (bytes_at (mem s) data n) j)"
    "\<And>rel m. \<forall>c\<in>set cs. rel + m \<le> cluster_at (fs s) (unat c) \<or> cluster_at (fs s) (unat c) + spc (fs s) \<le> rel \<Longrightarrow>
       vol_sector s' rel m = vol_sector s rel m"
    "wv_first w = (if cs = [] then 0 else cs ! 0)" "wv_prev w = (if cs = [] then 0 else last cs)"
    "wv_src w = data + of_nat (min (length cs * (spc (fs s) * 512)) n)"
    "unat (wv_remaining w) = n - length cs * (spc (fs s) * 512)"
  using assms unfolding writing_def prod.case by blast+

lemma free_cluster_small:
  assumes "vol_ok s" "c \<in> free_clusters s"
  shows "in_chain c" "ucast c \<noteq> FAT16_FREE_MARK" "ucast (ucast c :: u16) = c"
proof -
  have r: "2 \<le> unat c" "unat c < 0xFFF8"
    using assms(2) geometry_okD(9)[OF vol_okD(2)[OF assms(1)]] by (auto simp: free_clusters_def)
  then show "in_chain c" by (simp add: in_chain_def word_le_nat_alt word_less_nat_alt)
  have u: "unat (ucast c :: u16) = unat c" using r by (intro unat_ucast_fits) simp
  then show "ucast c \<noteq> FAT16_FREE_MARK" using r by (auto simp: word_unat_eq_iff)
  show "ucast (ucast c :: u16) = c" by (simp add: word_unat_eq_iff u)
qed

lemma take_drop_bytes_at: "take a (drop b (bytes_at m p n)) = bytes_at m (p + of_nat b) (min a (n - b))"
  by (rule nth_equalityI) (auto simp: algebra_simps)

lemma writing_free:
  assumes v: "vol_ok s" and W: "writing s s1 data n cs (w, s')"
  shows "free_clusters s' = free_clusters s - set cs" "\<And>c. c \<in> set cs \<Longrightarrow> fat_entry s' c \<noteq> FAT16_FREE_MARK"
proof -
  note D = writingD[OF W] and fs' = frameD(3)[OF writingD(3)[OF W]]
  show nz: "fat_entry s' c \<noteq> FAT16_FREE_MARK" if c: "c \<in> set cs" for c
  proof -
    obtain j where j: "j < length cs" "c = cs ! j" using c by (auto simp: in_set_conv_nth)
    have "cs ! Suc j \<in> free_clusters s" if "Suc j < length cs" using D(2) that by auto
    then show ?thesis using D(5)[OF j(1)] free_cluster_small(2)[OF v] j(2) by auto
  qed
  have "c \<in> free_clusters s' \<longleftrightarrow> c \<in> free_clusters s \<and> c \<notin> set cs" for c
    using nz[of c] D(4)[of c] by (cases "c \<in> set cs") (auto simp: free_clusters_def fs')
  then show "free_clusters s' = free_clusters s - set cs" by blast
qed

lemma writing_extend:
  assumes W: "writing s s1 data n cs (w, s')" and c: "c \<in> free_clusters s" "c \<notin> set cs"
    and f: "frame s s1 (fat_region s) s''"
    and ent: "\<forall>x. unat x < fat_entries (fs s) \<longrightarrow> fat_entry s'' x =
      (if x = c then FAT16_EOC_MARK else if wv_prev w \<noteq> 0 \<and> x = wv_prev w then ucast c else fat_entry s' x)"
    and bytes: "cluster_bytes s'' c = padded (spc (fs s) * 512) (chunk_at (spc (fs s) * 512) (bytes_at (mem s) data n) (length cs))"
    and far: "\<forall>rel n. rel + n \<le> cluster_at (fs s) (unat c) \<or> cluster_at (fs s) (unat c) + spc (fs s) \<le> rel \<longrightarrow>
      vol_sector s'' rel n = vol_sector s' rel n"
    and chunk: "chunk = min (spc (fs s) * 512) (unat (wv_remaining w))" and more: "length cs * (spc (fs s) * 512) < n"
  shows "writing s s1 data n (cs @ [c]) (\<lparr>wv_first = (if wv_prev w = 0 then c else wv_first w), wv_prev = c,
    wv_src = wv_src w + of_nat chunk, wv_remaining = wv_remaining w - of_nat chunk\<rparr>, s'')"
proof -
  let ?z = "spc (fs s) * 512"
  note D = writingD[OF W]
  have rng: "2 \<le> unat x" "unat x < fat_entries (fs s)" "x \<noteq> 0" "x \<noteq> c" if "x \<in> set cs" for x
    using D(2) c(2) that by (auto simp: free_clusters_def)
  have cr: "2 \<le> unat c" "unat c < fat_entries (fs s)" using c(1) by (simp_all add: free_clusters_def)
  have prev: "wv_prev w = 0 \<longleftrightarrow> cs = []" using D(9) rng(3) by (auto dest: last_in_set)
  have ents: "fat_entry s'' ((cs @ [c]) ! j) =
      (if Suc j < length (cs @ [c]) then ucast ((cs @ [c]) ! Suc j) else FAT16_EOC_MARK)" if j: "j < length (cs @ [c])" for j
  proof (cases "j < length cs")
    case True
    then have m: "cs ! j \<in> set cs" by simp
    have "cs \<noteq> []" using True by auto
    then have "cs ! j = last cs \<longleftrightarrow> j = length cs - 1"
      unfolding last_conv_nth[OF \<open>cs \<noteq> []\<close>] using nth_eq_iff_index_eq[OF D(1)] True by simp
    then have "cs ! j = last cs \<longleftrightarrow> Suc j = length cs" using True by auto
    then show ?thesis using ent rng[OF m] D(5)[OF True] prev D(9) True by (auto simp: nth_append)
  next
    case False
    then show ?thesis using j ent cr by (simp add: nth_append)
  qed
  have cb: "cluster_bytes s'' ((cs @ [c]) ! j) = padded ?z (chunk_at ?z (bytes_at (mem s) data n) j)" if j: "j < length (cs @ [c])" for j
  proof (cases "j < length cs")
    case True
    then have m: "cs ! j \<in> set cs" by simp
    have "cluster_bytes s'' (cs ! j) = cluster_bytes s' (cs ! j)"
      unfolding cluster_bytes_def frameD(3)[OF f] frameD(3)[OF D(3)]
      using clusters_apart[OF rng(4)[OF m] rng(1)[OF m] cr(1), of "fs s"] far by blast
    then show ?thesis using D(6)[OF True] True by (simp add: nth_append)
  next
    case False
    then have "j = length cs" using j by simp
    then show ?thesis using bytes by (simp add: nth_append)
  qed
  have rem: "unat (wv_remaining w) = n - length cs * ?z" by (rule D(11))
  have "chunk < 2 ^ 32" using chunk unsigned_less[of "wv_remaining w", where ?'a = nat] by simp
  then have "unat (of_nat chunk :: u32) = chunk" by (intro unat_of_nat_less) simp
  then have r: "unat (wv_remaining w - of_nat chunk) = unat (wv_remaining w) - chunk"
    using chunk by (subst unat_sub_le) (auto simp: word_le_nat_alt)
  have sum: "min (length cs * ?z) n + chunk = min (length (cs @ [c]) * ?z) n" using chunk rem more by auto
  then have src: "wv_src w + of_nat chunk = data + of_nat (min (length (cs @ [c]) * ?z) n)"
    unfolding D(10) sum[symmetric] by simp
  have vs: "vol_sector s'' rel m = vol_sector s rel m"
    if "\<forall>x\<in>set (cs @ [c]). rel + m \<le> cluster_at (fs s) (unat x) \<or> cluster_at (fs s) (unat x) + spc (fs s) \<le> rel" for rel m
    using D(7)[of rel m] far that by auto
  have other: "fat_entry s'' x = fat_entry s x" if "unat x < fat_entries (fs s)" "x \<notin> set (cs @ [c])" for x
  proof -
    have "\<not> (wv_prev w \<noteq> 0 \<and> x = wv_prev w)" using that(2) D(9) prev by auto
    then show ?thesis using ent D(4)[OF that(1)] that by auto
  qed
  have first: "(if wv_prev w = 0 then c else wv_first w) = (cs @ [c]) ! 0" using prev D(8) by (cases cs) auto
  have rest: "unat (wv_remaining w - of_nat chunk) = n - length (cs @ [c]) * ?z" unfolding r rem using chunk rem by auto
  show ?thesis unfolding writing_def prod.case using D(1,2) c f other ents cb vs first src rest by simp
qed

lemma writing_step:
  assumes v: "vol_ok s" and b: "borrowed s p (spc (fs s) * 512) s1" and ub: "user_buf s data n"
    and W: "writing s s1 data n cs (w, s')" and more: "length cs * (spc (fs s) * 512) < n" "n < 2 ^ 32"
    and room: "length cs < card (free_clusters s)"
  shows "\<exists>c ws'. write_cluster p i (w, s') = Inr ws' \<and> writing s s1 data n (cs @ [c]) ws'"
proof -
  let ?N = "fat_entries (fs s)" and ?z = "spc (fs s) * 512"
  define k where "k = length cs * ?z"
  define chunk where "chunk = min ?z (n - k)"
  note D = writingD[OF W] and FC = writing_free[OF v W]
  have k: "k < n" "k \<le> n" "k < 2 ^ 64" using more by (simp_all add: k_def)
  have src: "wv_src w = data + of_nat k" using D(10) k by (simp add: k_def[symmetric])
  have rem: "unat (wv_remaining w) = n - k" using D(11) by (simp add: k_def)
  have us: "user_buf s (wv_src w) chunk"
    using user_buf_rest(1)[OF ub k(2,3)] unfolding src by (auto simp: user_buf_def region_def chunk_def)
  have "card (set cs) < card (free_clusters s)" using room distinct_card[OF D(1)] by simp
  then have "\<not> free_clusters s \<subseteq> set cs" by (meson card_mono finite_set not_less)
  then have ne: "free_clusters s' \<noteq> {}" unfolding FC(1) by blast
  have prev: "unat (wv_prev w) < ?N \<and> fat_entry s' (wv_prev w) \<noteq> FAT16_FREE_MARK" if "wv_prev w \<noteq> 0"
  proof -
    have "cs \<noteq> []" using that D(9) by auto
    then have "wv_prev w \<in> set cs" using D(9) by simp
    then show ?thesis using FC(2) D(2) by (auto simp: free_clusters_def)
  qed
  have chunk: "chunk = min ?z (unat (wv_remaining w))" by (simp add: chunk_def rem)
  obtain c s'' where st: "write_cluster p i (w, s') =
      Inr (\<lparr>wv_first = (if wv_prev w = 0 then c else wv_first w), wv_prev = c, wv_src = wv_src w + of_nat chunk,
        wv_remaining = wv_remaining w - of_nat chunk\<rparr>, s'')"
    "c \<in> free_clusters s'" "frame s s1 (fat_region s) s''"
    "\<forall>x. unat x < ?N \<longrightarrow> fat_entry s'' x =
      (if x = c then FAT16_EOC_MARK else if wv_prev w \<noteq> 0 \<and> x = wv_prev w then ucast c else fat_entry s' x)"
    "cluster_bytes s'' c = padded ?z (bytes_at (mem s) (wv_src w) chunk)"
    "\<forall>rel n. rel + n \<le> cluster_at (fs s) (unat c) \<or> cluster_at (fs s) (unat c) + spc (fs s) \<le> rel \<longrightarrow>
      vol_sector s'' rel n = vol_sector s' rel n"
    by (rule write_step[OF v b D(3) chunk us ne prev])
  have c: "c \<in> free_clusters s" "c \<notin> set cs" using st(2) FC(1) by auto
  have "bytes_at (mem s) (wv_src w) chunk = chunk_at ?z (bytes_at (mem s) data n) (length cs)"
    by (simp add: chunk_at_def take_drop_bytes_at src chunk_def k_def)
  then have "cluster_bytes s'' c = padded ?z (chunk_at ?z (bytes_at (mem s) data n) (length cs))" using st(5) by simp
  from writing_extend[OF W c st(3,4) this st(6) chunk more(1)] show ?thesis using st(1) by blast
qed

abbreviation write_start :: "u64 \<Rightarrow> u32 \<Rightarrow> write_vars" where
  "write_start data sz \<equiv> \<lparr>wv_first = 0, wv_prev = 0, wv_src = data, wv_remaining = sz\<rparr>"

lemma write_loop:
  assumes v: "vol_ok s" and b: "borrowed s p (spc (fs s) * 512) s1" and ub: "user_buf s data (unat sz)"
    and room: "k \<le> card (free_clusters s)" and k: "\<And>j. j < k \<Longrightarrow> j * (spc (fs s) * 512) < unat sz"
  shows "\<exists>cs ws. rfold (write_cluster p) [0..<k] (write_start data sz, s1) = Inr ws \<and> length cs = k \<and>
    writing s s1 data (unat sz) cs ws"
  using room k
proof (induction k)
  case 0
  have f: "frame s s1 {} s1" "disk s1 = disk s" using borrowed_frame[OF b] by blast+
  have fs1: "fs s1 = fs s" by (rule frameD(3)[OF f(1)])
  have m: "mem s1 = mem s" by (subst borrowedD(2)[OF b]) simp
  have "vol_sector s1 = vol_sector s" by (simp add: fun_eq_iff vol_sector_def sector_bytes_def fs1 f(2))
  moreover have "fat_entry s1 = fat_entry s" by (simp add: fun_eq_iff fat_entry_def fs1 m)
  moreover have "frame s s1 (fat_region s) s1" using f(1) by (auto simp: frame_def)
  ultimately have "writing s s1 data (unat sz) [] (write_start data sz, s1)" by (simp add: writing_def)
  then show ?case by auto
next
  case (Suc k)
  then obtain cs w s' where IH: "rfold (write_cluster p) [0..<k] (write_start data sz, s1) = Inr (w, s')" "length cs = k"
    "writing s s1 data (unat sz) cs (w, s')" by fastforce
  have n: "unat sz < 2 ^ 32" using unsigned_less[of sz, where ?'a = nat] by simp
  obtain c ws' where "write_cluster p k (w, s') = Inr ws'" "writing s s1 data (unat sz) (cs @ [c]) ws'"
    using writing_step[OF v b ub IH(3) _ n, of k] Suc.prems IH(2) by auto
  then show ?case using IH by (intro exI[of _ "cs @ [c]"]) (simp add: rfold_append)
qed

lemma writing_chain:
  assumes v: "vol_ok s" and W: "writing s s1 data n cs (w, s')"
  shows "fat_chain s' (wv_first w) cs" "chain_bytes s' cs = take (length cs * (spc (fs s) * 512)) (bytes_at (mem s) data n) @
    replicate (length cs * (spc (fs s) * 512) - n) 0"
proof -
  let ?z = "spc (fs s) * 512"
  note D = writingD[OF W] and fs' = frameD(3)[OF writingD(3)[OF W]]
  have cl: "in_chain c \<and> unat c < fat_entries (fs s)" "ucast (ucast c :: u16) = c" if "c \<in> set cs" for c
    using free_cluster_small[OF v, of c] D(2) that by (auto simp: free_clusters_def)
  have e: "\<not> in_chain 0xFFFF" by (simp add: in_chain_def)
  have "\<forall>j<length cs. ucast (fat_entry s' (cs ! j)) = (if Suc j < length cs then cs ! Suc j else 0xFFFF)"
    using D(5) cl(2) by simp
  from link_chain[OF this e] cl(1) have "fat_path (\<lambda>c. ucast (fat_entry s' c)) (fat_entries (fs s)) (if cs = [] then 0xFFFF else cs ! 0) cs"
    by blast
  then show "fat_chain s' (wv_first w) cs" unfolding fat_chain_def fs' D(8)
    by (cases cs) (auto simp: in_chain_def)
  have "map (cluster_bytes s') cs = map (\<lambda>j. padded ?z (chunk_at ?z (bytes_at (mem s) data n) j)) [0..<length cs]"
    by (rule nth_equalityI) (simp_all add: D(6))
  then show "chain_bytes s' cs = take (length cs * ?z) (bytes_at (mem s) data n) @ replicate (length cs * ?z - n) 0"
    unfolding chain_bytes_def by (simp only: concat_chunks length_bytes_at)
qed

lemma ceil_div:
  fixes n z :: nat
  assumes "0 < z"
  shows "n \<le> (n + z - 1) div z * z" "j < (n + z - 1) div z \<Longrightarrow> j * z < n"
proof -
  define q where "q = (n + z - 1) div z"
  have e: "q * z + (n + z - 1) mod z = n + z - 1" unfolding q_def by (rule div_mult_mod_eq)
  have "(n + z - 1) mod z < z" using assms by simp
  then show "n \<le> (n + z - 1) div z * z" unfolding q_def[symmetric] using e by linarith
  show "j * z < n" if "j < (n + z - 1) div z"
  proof -
    have "Suc j * z \<le> q * z" using that unfolding q_def[symmetric] by (intro mult_right_mono) simp_all
    then show ?thesis using e assms by simp
  qed
qed

lemma clusters_for_count:
  assumes "vol_ok s" "unat sz + spc (fs s) * 512 \<le> 2 ^ 32"
  shows "unat sz \<le> unat (clusters_for (fs s) sz) * (spc (fs s) * 512)"
    "j < unat (clusters_for (fs s) sz) \<Longrightarrow> j * (spc (fs s) * 512) < unat sz"
    "clusters_for (fs s) sz = 0 \<longleftrightarrow> sz = 0"
proof -
  let ?z = "spc (fs s) * 512"
  note D = geometry_okD[OF vol_okD(2)[OF assms(1)]]
  have z: "unat (cluster_size_bytes (fs s)) = ?z" "0 < ?z" using D(2,4) by simp_all
  have u: "unat (clusters_for (fs s) sz) = (unat sz + ?z - 1) div ?z"
  proof (cases "sz = 0")
    case True
    then show ?thesis using z(2) by (simp add: clusters_for_def)
  next
    case False
    then have "0 < unat sz" by (simp add: unat_gt_0)
    have "unat (cluster_size_bytes (fs s) - 1) = ?z - 1"
      using z by (subst unat_sub_le) (auto simp: word_le_nat_alt)
    then have "unat (sz + (cluster_size_bytes (fs s) - 1)) = unat sz + ?z - 1"
      using assms(2) z(2) by (subst unat_add_no_wrap) auto
    then have "unat (sz + cluster_size_bytes (fs s) - 1) = unat sz + ?z - 1" by (simp add: algebra_simps)
    then show ?thesis using False z(1) by (simp add: clusters_for_def unat_div)
  qed
  show a: "unat sz \<le> unat (clusters_for (fs s) sz) * ?z" unfolding u by (rule ceil_div(1)[OF z(2)])
  show b: "j * ?z < unat sz" if "j < unat (clusters_for (fs s) sz)" for j
    using ceil_div(2)[OF z(2), of j "unat sz"] that unfolding u by simp
  show "clusters_for (fs s) sz = 0 \<longleftrightarrow> sz = 0"
  proof
    assume "clusters_for (fs s) sz = 0"
    then show "sz = 0" using a by (simp add: unat_eq_zero)
  qed (simp add: clusters_for_def)
qed

subsection \<open>A whole file\<close>

text \<open>The part of \<open>fat16_write_file\<close> between the old chain and the directory entry.\<close>

definition write_data :: "u64 \<Rightarrow> u32 \<Rightarrow> 'a fat_state_scheme \<Rightarrow> (write_vars \<times> 'a fat_state_scheme) res" where
  "write_data data sz s =
     (let clusters_needed = clusters_for (fs s) sz in
      rbind (if clusters_needed > 0 then kmalloc (ucast (cluster_size_bytes (fs s))) s else Inr (0, s)) (\<lambda>(cluster_buf, s).
      rbind (rfold (write_cluster cluster_buf) [0..<unat clusters_needed] (write_start data sz, s)) (\<lambda>(v, s).
      rbind (if cluster_buf \<noteq> 0 then kfree cluster_buf s else Inr s) (\<lambda>s. Inr (v, s)))))"

definition stored :: "'a fat_state_scheme \<Rightarrow> u64 \<Rightarrow> nat \<Rightarrow> u32 list \<Rightarrow> write_vars \<times> 'a fat_state_scheme \<Rightarrow> bool" where
  "stored s data n cs ws \<longleftrightarrow> (case ws of (w, s') \<Rightarrow>
     frame s s (fat_region s) s' \<and> set cs \<subseteq> free_clusters s \<and> fat_chain s' (wv_first w) cs \<and>
     n \<le> length cs * (spc (fs s) * 512) \<and> take n (chain_bytes s' cs) = bytes_at (mem s) data n \<and>
     (\<forall>x. unat x < fat_entries (fs s) \<longrightarrow> x \<notin> set cs \<longrightarrow> fat_entry s' x = fat_entry s x) \<and>
     (\<forall>rel m. (\<forall>c\<in>set cs. rel + m \<le> cluster_at (fs s) (unat c) \<or> cluster_at (fs s) (unat c) + spc (fs s) \<le> rel) \<longrightarrow>
       vol_sector s' rel m = vol_sector s rel m))"

lemma storedD:
  assumes "stored s data n cs (w, s')"
  shows "frame s s (fat_region s) s'" "set cs \<subseteq> free_clusters s" "fat_chain s' (wv_first w) cs"
    "n \<le> length cs * (spc (fs s) * 512)" "take n (chain_bytes s' cs) = bytes_at (mem s) data n"
    "\<And>x. unat x < fat_entries (fs s) \<Longrightarrow> x \<notin> set cs \<Longrightarrow> fat_entry s' x = fat_entry s x"
    "\<And>rel m. \<forall>c\<in>set cs. rel + m \<le> cluster_at (fs s) (unat c) \<or> cluster_at (fs s) (unat c) + spc (fs s) \<le> rel \<Longrightarrow>
       vol_sector s' rel m = vol_sector s rel m"
  using assms unfolding stored_def prod.case by blast+

lemma fat_view_cong:
  assumes "fs t = fs s" "disk t = disk s" "mem t = mem s"
  shows "fat_entry t = fat_entry s" "vol_sector t = vol_sector s" "cluster_bytes t = cluster_bytes s"
    "chain_bytes t = chain_bytes s" "fat_chain t = fat_chain s" "root_bytes t = root_bytes s" "root_entries t = root_entries s"
proof -
  show e: "fat_entry t = fat_entry s" by (simp add: fun_eq_iff fat_entry_def assms)
  show v: "vol_sector t = vol_sector s" by (simp add: fun_eq_iff vol_sector_def sector_bytes_def assms)
  show c: "cluster_bytes t = cluster_bytes s" by (simp add: fun_eq_iff cluster_bytes_def v assms)
  show "chain_bytes t = chain_bytes s" by (simp add: fun_eq_iff chain_bytes_def c)
  show "fat_chain t = fat_chain s" by (simp add: fun_eq_iff fat_chain_def e assms)
  show r: "root_bytes t = root_bytes s" by (simp add: root_bytes_def v assms)
  show "root_entries t = root_entries s" by (simp add: root_entries_def r assms)
qed

lemma write_data_gives:
  assumes v: "vol_ok s" and ub: "user_buf s data (unat sz)" and sz: "unat sz + spc (fs s) * 512 \<le> 2 ^ 32"
    and room: "unat (clusters_for (fs s) sz) \<le> card (free_clusters s)"
  shows "gives (write_data data sz s) (\<lambda>ws. \<exists>cs. stored s data (unat sz) cs ws)"
proof (cases "sz = 0")
  case True
  have "stored s data 0 [] (write_start data 0, s)" using vol_okD(1)[OF v]
    by (simp add: stored_def frame_def fat_chain_def in_chain_def chain_bytes_def)
  then show ?thesis using True by (auto simp: write_data_def clusters_for_def)
next
  case False
  note CF = clusters_for_count[OF v sz]
  have k: "clusters_for (fs s) sz \<noteq> 0" "0 < clusters_for (fs s) sz" using False CF(3) by (auto simp: word_gt_0)
  note M = cluster_malloc[OF v]
  from vol_okD(1)[OF v] M(2,3) show ?thesis
  proof (cases rule: kmalloc_borrow)
    case null
    have "0 < unat (clusters_for (fs s) sz)" using k(1) by (simp add: unat_gt_0)
    then have "free_clusters s \<noteq> {}" using room by auto
    then obtain c where c: "alloc_cluster s = Inr c" by (rule alloc_cluster_ok)
    have "[0..<unat (clusters_for (fs s) sz)] = 0 # [Suc 0..<unat (clusters_for (fs s) sz)]"
      using \<open>0 < unat (clusters_for (fs s) sz)\<close> by (simp add: upt_conv_Cons)
    then have "write_data data sz s = Inl (Undefined ''write through a NULL cluster buffer'')"
      using null(1) k(2) c by (simp add: write_data_def write_cluster_def Let_def)
    then show ?thesis by (simp add: oom_def)
  next
    case (buf p s1)
    note b = buf(2)[unfolded M(1)]
    obtain cs w s2 where W: "rfold (write_cluster p) [0..<unat (clusters_for (fs s) sz)] (write_start data sz, s1) = Inr (w, s2)"
      "length cs = unat (clusters_for (fs s) sz)" "writing s s1 data (unat sz) cs (w, s2)"
      using write_loop[OF v b ub room CF(2)] by fastforce
    note D = writingD[OF W(3)]
    obtain s3 where s3: "kfree p s2 = Inr s3" "frame s s (fat_region s) s3" "disk s3 = disk s2" "mem s3 = mem s2"
      by (rule borrow_return[OF b D(3)])
    have "fs s3 = fs s2" using frameD(3)[OF s3(2)] frameD(3)[OF D(3)] by simp
    note V = fat_view_cong[OF this s3(3,4)]
    have "take (unat sz) (chain_bytes s3 cs) = bytes_at (mem s) data (unat sz)"
      unfolding V writing_chain(2)[OF v W(3)] using CF(1) W(2) by simp
    then have "stored s data (unat sz) cs (w, s3)"
      using s3(2) D(2,4,7) writing_chain(1)[OF v W(3)] CF(1) W(2) by (simp add: stored_def V)
    moreover have "write_data data sz s = Inr (w, s3)"
      using k buf(1) W(1) s3(1) borrowedD(1)[OF b] by (simp add: write_data_def Let_def)
    ultimately show ?thesis by auto
  qed
qed

lemma dirent_in_cong:
  assumes "length bs = length bs'" "32 * e + 32 \<le> length bs" "length bs < 2 ^ 64"
    "\<And>k. 32 * e \<le> k \<Longrightarrow> k < 32 * e + 32 \<Longrightarrow> bs ! k = bs' ! k"
  shows "dirent_in bs e = dirent_in bs' e"
  unfolding dirent_in_def
proof (rule dirent_at_cong)
  fix i :: nat assume i: "i < 32"
  have "unat (of_nat (32 * e) + of_nat i :: u64) = 32 * e + i"
    using unat_of_nat_less[of "32 * e + i", where ?'a = 64] i assms(2,3) by simp
  then show "bs ! unat (of_nat (32 * e) + of_nat i :: u64) = bs' ! unat (of_nat (32 * e) + of_nat i :: u64)"
    using assms(4)[of "32 * e + i"] i by simp
qed

text \<open>The bytes of the directory buffer with a new entry in it.\<close>

lemma entry_in_buffer:
  fixes c sz :: u32
  assumes p: "unat p + length bs \<le> 2 ^ 64" and bs: "bytes_at m p (length bs) = bs" "length bs < 2 ^ 64"
    and w: "length want = 11" and slot: "32 * slot + 32 \<le> length bs"
  defines "m' \<equiv> write_dirent (dirent_ptr p slot) want c sz m"
  defines "nb \<equiv> bytes_at m' p (length bs)"
  shows "\<And>x. x \<notin> region p (length bs) \<Longrightarrow> m' x = m x"
    "\<And>k. k < length bs \<Longrightarrow> k < 32 * slot \<or> 32 * slot + 32 \<le> k \<Longrightarrow> nb ! k = bs ! k"
    "\<And>e. 32 * e + 32 \<le> length bs \<Longrightarrow> dirent_in nb e = (if e = slot then new_entry want c sz else dirent_in bs e)"
proof -
  have dp: "dirent_ptr p slot = p + of_nat (32 * slot)" by (simp add: dirent_ptr_def mult.commute)
  have udp: "unat (dirent_ptr p slot) = unat p + 32 * slot"
    using unat_add_no_wrap[of p "of_nat (32 * slot)"] unat_of_nat_less[of "32 * slot", where ?'a = 64] p slot bs(2)
    unfolding dp by (simp del: of_nat_mult)
  have sub: "region (dirent_ptr p slot) 32 \<subseteq> region p (length bs)" unfolding region_def udp using slot by auto
  have fr: "m' x = m x" if "x \<notin> region (dirent_ptr p slot) 32" for x
    unfolding m'_def by (rule write_dirent_frame[OF w _ that]) (use udp p slot in simp)
  then show "m' x = m x" if "x \<notin> region p (length bs)" for x using that sub by blast
  show same: "nb ! k = bs ! k" if k: "k < length bs" "k < 32 * slot \<or> 32 * slot + 32 \<le> k" for k
  proof -
    have "unat (p + of_nat k) = unat p + k" using p k(1) bs(2) by (subst unat_add_no_wrap) (auto simp: unat_of_nat_less)
    then have "p + of_nat k \<notin> region (dirent_ptr p slot) 32" unfolding region_def udp using k(2) by auto
    then show ?thesis using fr arg_cong[OF bs(1), of "\<lambda>xs. xs ! k"] k(1) by (simp add: nb_def)
  qed
  show "dirent_in nb e = (if e = slot then new_entry want c sz else dirent_in bs e)" if e: "32 * e + 32 \<le> length bs" for e
  proof (cases "e = slot")
    case True
    have "dirent_at m' (dirent_ptr p slot) = dirent_in nb slot"
      by (rule dirent_in_buffer) (use slot bs(2) in \<open>simp_all add: nb_def\<close>)
    then show ?thesis using True write_dirent_at[OF w, of "dirent_ptr p slot" c sz m] by (simp add: m'_def)
  next
    case False
    have "nb ! k = bs ! k" if "32 * e \<le> k" "k < 32 * e + 32" for k
      by (rule same) (use that e False in auto)
    then have "dirent_in nb e = dirent_in bs e" by (intro dirent_in_cong) (use e bs(2) in \<open>simp_all add: nb_def\<close>)
    then show ?thesis using False by simp
  qed
qed

text \<open>Writing back the one sector with the new entry brings the directory on disk up to the buffer.\<close>

lemma sector_of_slot:
  assumes vs: "vol_sector s r m = bs" and nb: "length nb = m * 512"
    and same: "\<And>k. k < m * 512 \<Longrightarrow> k div 512 \<noteq> i \<Longrightarrow> nb ! k = bs ! k" and i: "i < m"
    and d: "d = disk_write (unat (partition_lba (fs s)) + (r + i)) (take 512 (drop (i * 512) nb)) (disk s)"
  shows "vol_sector (s\<lparr>disk := d\<rparr>) r m = nb"
proof (rule nth_equalityI)
  let ?p = "unat (partition_lba (fs s))"
  fix k assume "k < length (vol_sector (s\<lparr>disk := d\<rparr>) r m)"
  then have k: "k < m * 512" by simp
  have len: "length (take 512 (drop (i * 512) nb)) = 512" using i nb by simp
  have "(i + 1) * 512 \<le> m * 512" using i by (intro mult_right_mono) simp_all
  show "vol_sector (s\<lparr>disk := d\<rparr>) r m ! k = nb ! k"
  proof (cases "k div 512 = i")
    case True
    then have "i * 512 \<le> k" "k < i * 512 + 512" by auto
    then show ?thesis using k len nb by (simp add: vol_sector_def sector_bytes_def d disk_write_def algebra_simps)
  next
    case False
    then have "k < i * 512 \<or> i * 512 + 512 \<le> k" by (metis div_nat_eqI add.commute mult.commute mult_Suc not_less)
    then have "vol_sector (s\<lparr>disk := d\<rparr>) r m ! k = vol_sector s r m ! k"
      using k len by (auto simp: vol_sector_def sector_bytes_def d disk_write_def algebra_simps)
    then show ?thesis using vs same[OF k False] by simp
  qed
qed (simp add: nb)

lemma write_fat_ok:
  assumes v: "vol_ok s" and g: "geometry_ok (fs s) (disk_sectors s)"
  defines "n \<equiv> fat_entries (fs s) div 256" and "r \<equiv> unat (fat_start_sector (fs s))"
  obtains s' where "write_fat_cache_to_disk s = Inr s'" "s' = s\<lparr>disk := disk s'\<rparr>"
    "vol_sector s' r n = bytes_at (mem s) (fat_cache (fs s)) (2 * fat_entries (fs s))"
    "\<And>rel m. rel + m \<le> r \<or> r + n \<le> rel \<Longrightarrow> vol_sector s' rel m = vol_sector s rel m"
proof -
  note D = geometry_okD[OF g]
  have "unat (fat_cache_entries (fs s) * 2) = 2 * fat_entries (fs s)"
    using D(9) by (subst unat_mult_no_wrap) (auto simp: fat_entries_def)
  then have q: "unat (fat_cache_entries (fs s) * 2 div bytes_per_sector (fs s)) = n"
    unfolding D(1) unat_div n_def by simp
  have n512: "n * 512 = 2 * fat_entries (fs s)"
    using D(10) div_mult_mod_eq[of "fat_entries (fs s)" 256] unfolding n_def by simp
  define d where "d = disk_write (unat (partition_lba (fs s)) + r) (bytes_at (mem s) (fat_cache (fs s)) (n * 512)) (disk s)"
  have "write_sectors (fat_start_sector (fs s)) (fat_cache_entries (fs s) * 2 div bytes_per_sector (fs s)) (fat_cache (fs s)) s =
      Inr (s\<lparr>disk := d\<rparr>)"
    unfolding d_def r_def q[symmetric] by (rule write_sectors_ok) (use D(11-14) q n_def in auto)
  then have "write_fat_cache_to_disk s = Inr (s\<lparr>disk := d\<rparr>)" by (simp add: write_fat_cache_to_disk_def Let_def)
  moreover have "vol_sector (s\<lparr>disk := d\<rparr>) r n = bytes_at (mem s) (fat_cache (fs s)) (2 * fat_entries (fs s))"
    using vol_sector_write(1)[OF d_def, of n] by (simp add: n512)
  moreover have "vol_sector (s\<lparr>disk := d\<rparr>) rel m = vol_sector s rel m" if "rel + m \<le> r \<or> r + n \<le> rel" for rel m
    by (rule vol_sector_write(2)[OF d_def _ that]) simp
  ultimately show ?thesis by (intro that[of "s\<lparr>disk := d\<rparr>"]) simp_all
qed

lemma slot_sector:
  assumes g: "geometry_ok f cap" and slot: "slot < unat (root_dir_entry_count f)"
  shows "unat (of_nat slot div 16 :: u32) = slot div 16" "slot div 16 < unat (root_dir_sectors f)"
    "unat (root_dir_start_sector f + of_nat slot div 16) = unat (root_dir_start_sector f) + slot div 16"
    "(ucast (of_nat slot div 16 * 512 :: u32) :: u64) = of_nat (slot div 16 * 512)"
proof -
  note D = geometry_okD[OF g] and R = root_size[OF g]
  have "unat (of_nat slot :: u32) = slot" using D(6) slot by (intro unat_of_nat_less) simp
  then show u: "unat (of_nat slot div 16 :: u32) = slot div 16" by (simp add: unat_div)
  show lt: "slot div 16 < unat (root_dir_sectors f)" using slot R(1) by (simp add: div_less_iff_less_mult)
  show "unat (root_dir_start_sector f + of_nat slot div 16) = unat (root_dir_start_sector f) + slot div 16"
    using D(12-14) lt u by (subst unat_add_no_wrap) auto
  have "unat (of_nat slot div 16 * 512 :: u32) = slot div 16 * 512"
    using lt R(3) u by (subst unat_mult_no_wrap) auto
  then show "(ucast (of_nat slot div 16 * 512 :: u32) :: u64) = of_nat (slot div 16 * 512)"
    using lt R(3) by (simp add: word_unat_eq_iff unat_of_nat_less del: of_nat_mult)
qed

lemma slot_bytes:
  fixes k slot :: nat
  assumes "k div 512 \<noteq> slot div 16"
  shows "k < 32 * slot \<or> 32 * slot + 32 \<le> k"
proof (rule ccontr)
  assume "\<not> (k < 32 * slot \<or> 32 * slot + 32 \<le> k)"
  then have "k div 32 = slot" by auto
  then have "k div 32 div 16 = slot div 16" by simp
  then show False using assms by (simp add: div_mult2_eq[symmetric])
qed

lemma root_entries_update:
  assumes "fs s' = fs s" "vol_ok s" "root_bytes s' = nb" "slot < unat (root_dir_entry_count (fs s))"
    "\<And>e. 32 * e + 32 \<le> length (root_bytes s) \<Longrightarrow> dirent_in nb e = (if e = slot then ne else dirent_in (root_bytes s) e)"
  shows "root_entries s' = (root_entries s)[slot := ne]"
proof (rule nth_equalityI)
  fix e assume "e < length (root_entries s')"
  then have e: "e < unat (root_dir_entry_count (fs s))" by (simp add: assms(1))
  then show "root_entries s' ! e = (root_entries s)[slot := ne] ! e"
    using assms(5)[OF root_room[OF assms(2) e]] assms(1,3,4) by (auto simp: root_entries_def nth_list_update)
qed (simp add: assms(1))

text \<open>The end of \<open>fat16_write_file\<close>: the entry goes into the buffer, its sector and the FAT to the disk.\<close>

definition commit :: "u64 \<Rightarrow> nat \<Rightarrow> u8 list \<Rightarrow> u32 \<Rightarrow> u32 \<Rightarrow> 'a fat_state_scheme \<Rightarrow> (i32 \<times> 'a fat_state_scheme) res" where
  "commit root slot want c sz s =
     (let s = s\<lparr>mem := write_dirent (dirent_ptr root slot) want c sz (mem s)\<rparr>;
          entries_per_sector = bytes_per_sector (fs s) div 32;
          sector_index = of_nat slot div entries_per_sector
      in rbind (write_sectors (root_dir_start_sector (fs s) + sector_index) 1
           (root + ucast (sector_index * bytes_per_sector (fs s))) s) (\<lambda>s.
         rbind (write_fat_cache_to_disk s) (\<lambda>s.
         rbind (kfree root s) (\<lambda>s. Inr (1, s)))))"

lemma commit_ok:
  assumes v: "vol_ok s" and b: "borrowed s p (length (root_bytes s)) s1" and f: "frame s s1 (fat_region s) t"
    and buf: "bytes_at (mem t) p (length (root_bytes s)) = root_bytes s" and root: "root_bytes t = root_bytes s"
    and slot: "slot < unat (root_dir_entry_count (fs s))" and w: "length want = 11"
  obtains s' where "commit p slot want c sz t = Inr (1, s')" "frame s s (fat_region s) s'"
    "\<forall>x. held s x \<longrightarrow> mem s' x = mem t x" "root_entries s' = (root_entries s)[slot := new_entry want c sz]"
    "\<forall>rel m. unat (first_data_sector (fs s)) \<le> rel \<longrightarrow> vol_sector s' rel m = vol_sector t rel m"
    "vol_sector s' (unat (fat_start_sector (fs s))) (fat_entries (fs s) div 256) =
      bytes_at (mem s') (fat_cache (fs s)) (2 * fat_entries (fs s))"
proof -
  note g = vol_okD(2)[OF v] and B = borrowedD[OF b] and F = frameD[OF f]
  note D = geometry_okD[OF g] and R = root_size[OF g] and S = slot_sector[OF g slot]
  let ?n = "length (root_bytes s)"
  define nb where "nb = bytes_at (write_dirent (dirent_ptr p slot) want c sz (mem t)) p ?n"
  have n: "?n < 2 ^ 64" "unat p + ?n \<le> 2 ^ 64" "?n = unat (root_dir_sectors (fs s)) * 512"
    using R(3) B(4) by (simp_all add: root_bytes_def)
  note E = entry_in_buffer[OF n(2) buf n(1) w root_room[OF v slot], where c = c and sz = sz, folded nb_def]
  define t1 where "t1 = t\<lparr>mem := write_dirent (dirent_ptr p slot) want c sz (mem t)\<rparr>"
  have mt1: "mem t1 x = mem t x" if "held s x" for x using E(1) B(5) that unfolding t1_def by auto
  have f1: "frame s s1 (fat_region s) t1" unfolding t1_def by (rule frame_mem[OF f]) (use mt1 in \<open>simp_all add: t1_def\<close>)
  have t1: "fs t1 = fs s" "disk_sectors t1 = disk_sectors s" using frameD(3,4)[OF f1] .
  define d where "d = disk_write (unat (partition_lba (fs t1)) + (unat (root_dir_start_sector (fs s)) + slot div 16))
    (take 512 (drop (slot div 16 * 512) nb)) (disk t1)"
  have "slot div 16 * 512 + 512 \<le> ?n" using S(2) unfolding n(3) by auto
  then have sect: "bytes_at (mem t1) (p + of_nat (slot div 16 * 512)) 512 = take 512 (drop (slot div 16 * 512) nb)"
    unfolding nb_def take_drop_bytes_at by (simp add: t1_def)
  have wr: "write_sectors (root_dir_start_sector (fs s) + of_nat slot div 16) 1 (p + of_nat (slot div 16 * 512)) t1 = Inr (t1\<lparr>disk := d\<rparr>)"
    using write_sectors_ok[of t1 "root_dir_start_sector (fs s) + of_nat slot div 16" 1 "p + of_nat (slot div 16 * 512)"]
      S(2,3) D(12-14) sect by (simp add: t1 d_def)
  let ?t2 = "t1\<lparr>disk := d\<rparr>"
  have len: "length (take 512 (drop (slot div 16 * 512) nb)) = 1 * 512"
    using \<open>slot div 16 * 512 + 512 \<le> ?n\<close> by (simp add: nb_def)
  have vst: "vol_sector t1 = vol_sector t" by (simp add: fun_eq_iff vol_sector_def sector_bytes_def t1_def)
  have root2: "vol_sector ?t2 (unat (root_dir_start_sector (fs s))) (unat (root_dir_sectors (fs s))) = nb"
  proof (rule sector_of_slot[OF _ _ _ S(2) d_def])
    show "vol_sector t1 (unat (root_dir_start_sector (fs s))) (unat (root_dir_sectors (fs s))) = root_bytes s"
      using root unfolding vst by (simp add: root_bytes_def F(3))
  qed (use E(2) slot_bytes n(3) in \<open>simp_all add: nb_def\<close>)
  have v2: "vol_ok ?t2" by (rule frame_vol[OF v frame_disk[OF f1] B(8)])
  obtain t3 where t3: "write_fat_cache_to_disk ?t2 = Inr t3" "t3 = ?t2\<lparr>disk := disk t3\<rparr>"
    "vol_sector t3 (unat (fat_start_sector (fs s))) (fat_entries (fs s) div 256) = bytes_at (mem t1) (fat_cache (fs s)) (2 * fat_entries (fs s))"
    "\<forall>rel m. rel + m \<le> unat (fat_start_sector (fs s)) \<or> unat (fat_start_sector (fs s)) + fat_entries (fs s) div 256 \<le> rel \<longrightarrow>
      vol_sector t3 rel m = vol_sector ?t2 rel m"
    by (rule write_fat_ok[OF v2 vol_okD(2)[OF v2]]) (simp add: t1)
  have f3: "frame s s1 (fat_region s) t3" by (subst t3(2)) (intro frame_disk f1)
  have m3: "mem t3 = mem t1" by (subst t3(2)) simp
  obtain s' where s': "kfree p t3 = Inr s'" "frame s s (fat_region s) s'" "disk s' = disk t3" "mem s' = mem t3"
    by (rule borrow_return[OF b f3])
  have fs': "fs s' = fs s" "fs t3 = fs s" using frameD(3)[OF s'(2)] frameD(3)[OF f3] .
  have "fs s' = fs t3" using fs' by simp
  note V = fat_view_cong[OF this s'(3,4)]
  have rb: "root_bytes s' = nb" using t3(4) D(11) root2 by (simp add: V root_bytes_def fs')
  have far: "vol_sector s' rel m = vol_sector t rel m" if "unat (first_data_sector (fs s)) \<le> rel" for rel m
    using that t3(4) vol_sector_write(2)[OF d_def len, of rel m] D(11,12) S(2) by (simp add: V vst)
  have "commit p slot want c sz t = Inr (1, s')"
    using wr t3(1) s'(1) t1(1) S(4) by (simp add: commit_def Let_def t1_def[symmetric] D(1) F(3))
  then show ?thesis using s'(2,4) m3 mt1 root_entries_update[OF fs'(1) v rb slot E(3)] far t3(3)
    by (intro that[of s']) (simp_all add: V)
qed

lemma rbind_regroup:
  "rbind A (\<lambda>(p, s). rbind (B p s) (\<lambda>(v, s). rbind (C p s) (\<lambda>s. R v s))) =
   rbind (rbind A (\<lambda>(p, s). rbind (B p s) (\<lambda>(v, s). rbind (C p s) (\<lambda>s. Inr (v, s))))) (\<lambda>(v, s). R v s)"
  by (auto simp: rbind_def split: sum.splits prod.splits)

definition chosen_slot :: "u8 list \<Rightarrow> fat16_dirent list \<Rightarrow> nat option" where
  "chosen_slot want des = (case scan_slots want 0 des None of (ex, fr) \<Rightarrow> (case ex of Some e \<Rightarrow> Some e | None \<Rightarrow> fr))"

definition old_cluster :: "u8 list \<Rightarrow> fat16_dirent list \<Rightarrow> u32" where
  "old_cluster want des = (case scan_dir want des of Some de \<Rightarrow> de_first_cluster de | None \<Rightarrow> 0)"

lemma scan_slots_existing:
  assumes w: "want ! 0 \<noteq> 0" "want ! 0 \<noteq> 0xE5" and sc: "scan_slots want 0 des None = (ex, fr)"
  shows "old_cluster want des = (case ex of Some e \<Rightarrow> de_first_cluster (des ! e) | None \<Rightarrow> 0)"
    "ex = Some e \<Longrightarrow> e < length des"
    "chosen_slot want des = Some slot \<Longrightarrow> slot < length des \<and> scan_dir want (des[slot := new_entry want c sz]) = Some (new_entry want c sz)"
proof -
  have ne: "de_name (new_entry want c sz) = want" "\<not> skipped (new_entry want c sz)"
    using w by (simp_all add: new_entry_def skipped_def)
  note S = scan_slots_spec[OF ne w(1) sc]
  show "old_cluster want des = (case ex of Some e \<Rightarrow> de_first_cluster (des ! e) | None \<Rightarrow> 0)"
    using S by (simp add: old_cluster_def split: option.splits)
  show "e < length des" if "ex = Some e" using S that by simp
  show "slot < length des \<and> scan_dir want (des[slot := new_entry want c sz]) = Some (new_entry want c sz)"
    if "chosen_slot want des = Some slot"
    using S that by (cases ex) (simp_all add: chosen_slot_def sc)
qed

lemma write_file_eq:
  "fat16_write_file name data sz s = rbind (read_root_dir s) (\<lambda>(root, s).
     case scan_slots (format_83 name) 0 (dirents (mem s) root (root_dir_entry_count (fs s))) None of (ex, fr) \<Rightarrow>
     case (case ex of Some e \<Rightarrow> Some e | None \<Rightarrow> fr) of
       None \<Rightarrow> rbind (kfree root s) (\<lambda>s. Inl (Panic ''fat16_write_file: root directory is full''))
     | Some slot \<Rightarrow>
         rbind (case ex of
             Some e \<Rightarrow> ends (free_chain (de_first_cluster (dirent_at (mem s) (dirent_ptr root e))) s)
           | None \<Rightarrow> Inr s) (\<lambda>s.
         rbind (write_data data sz s) (\<lambda>(v, s). commit root slot (format_83 name) (wv_first v) sz s)))"
proof -
  have eq: "(\<lambda>s. rbind (write_data data sz s) (\<lambda>(v, s). commit root slot want (wv_first v) sz s)) =
    (\<lambda>s. let clusters_needed = clusters_for (fs s) sz in
           rbind (if clusters_needed > 0 then kmalloc (ucast (cluster_size_bytes (fs s))) s else Inr (0, s))
             (\<lambda>(cluster_buf, s).
           rbind (rfold (write_cluster cluster_buf) [0..<unat clusters_needed]
               (\<lparr>wv_first = 0, wv_prev = 0, wv_src = data, wv_remaining = sz\<rparr>, s)) (\<lambda>(v, s).
           rbind (if cluster_buf \<noteq> 0 then kfree cluster_buf s else Inr s) (\<lambda>s.
             commit root slot want (wv_first v) sz s))))" for root slot want
    unfolding write_data_def Let_def rbind_regroup[symmetric] by simp
  show ?thesis unfolding eq unfolding fat16_write_file_def commit_def Let_def ..
qed

text \<open>What a successful write leaves: the new entry in its slot, its chain with the data, and every
  cluster in use before, other than the old chain of the file, as it was.\<close>

definition wrote ::
  "'a fat_state_scheme \<Rightarrow> u8 list \<Rightarrow> u64 \<Rightarrow> u32 \<Rightarrow> nat \<Rightarrow> u32 list \<Rightarrow> u32 list \<Rightarrow> 'a fat_state_scheme \<Rightarrow> bool" where
  "wrote s want data sz slot old cs s' \<longleftrightarrow> vol_ok s' \<and> frame s s (fat_region s) s' \<and>
     (\<exists>c. root_entries s' = (root_entries s)[slot := new_entry want c sz] \<and> fat_chain s' c cs) \<and>
     unat sz \<le> length cs * (spc (fs s) * 512) \<and> take (unat sz) (chain_bytes s' cs) = bytes_at (mem s) data (unat sz) \<and>
     (\<forall>c. 2 \<le> unat c \<longrightarrow> unat c < fat_entries (fs s) \<longrightarrow> fat_entry s c \<noteq> FAT16_FREE_MARK \<longrightarrow> c \<notin> set old \<longrightarrow>
       c \<notin> set cs \<and> fat_entry s' c = fat_entry s c \<and> cluster_bytes s' c = cluster_bytes s c) \<and>
     vol_sector s' (unat (fat_start_sector (fs s))) (fat_entries (fs s) div 256) =
       bytes_at (mem s') (fat_cache (fs s)) (2 * fat_entries (fs s))"

text \<open>The FAT with the old chain given back.\<close>

definition released :: "'a fat_state_scheme \<Rightarrow> u32 list \<Rightarrow> 'a fat_state_scheme \<Rightarrow> 'a fat_state_scheme \<Rightarrow> bool" where
  "released s old sa sb \<longleftrightarrow> vol_ok sb \<and> sb = sa\<lparr>mem := mem sb\<rparr> \<and>
     (\<forall>x. unat x < fat_entries (fs s) \<longrightarrow> fat_entry sb x = (if x \<in> set old then FAT16_FREE_MARK else fat_entry s x)) \<and>
     (\<forall>x. x \<notin> fat_region s \<longrightarrow> mem sb x = mem sa x)"

lemma release_old:
  assumes v: "vol_ok s" and rb: "root_buffer s p sa" and ch: "fat_chain s (old_cluster want (root_entries s)) old"
    and w: "want ! 0 \<noteq> 0" "want ! 0 \<noteq> 0xE5" and sc: "scan_slots want 0 (root_entries s) None = (ex, fr)"
  obtains sb where "(case ex of Some e \<Rightarrow> ends (free_chain (de_first_cluster (dirent_at (mem sa) (dirent_ptr p e))) sa)
      | None \<Rightarrow> Inr sa) = Inr sb" "released s old sa sb"
proof -
  note RB = root_bufferD[OF rb v] and X = scan_slots_existing[OF w sc]
  obtain s1 where b: "borrowed s p (length (root_bytes s)) s1" "frame s s1 {} sa" using rb unfolding root_buffer_def by blast
  have va: "vol_ok sa" by (rule frame_vol[OF v b(2) borrowedD(8)[OF b(1)]])
  have ea: "fat_entry sa x = fat_entry s x" if "unat x < fat_entries (fs s)" for x
    by (rule fat_entry_cong[OF v that RB(2)]) (use frameD(5)[OF b(2)] fat_region_room(2)[OF v] in auto)
  have cha: "fat_chain sa c old = fat_chain s c old" if "fat_chain s c old" for c
    unfolding fat_chain_def RB(2)
    by (rule fat_path_cong) (use ea fat_path_range[OF that[unfolded fat_chain_def]] in auto)
  show ?thesis
  proof (cases ex)
    case None
    then have "\<not> in_chain (old_cluster want (root_entries s))" unfolding X(1) by (simp add: in_chain_def)
    then have "old = []" using ch by (cases old) (auto simp: fat_chain_def)
    then show ?thesis using None that[of sa] va ea by (simp add: released_def)
  next
    case (Some e)
    have "dirent_at (mem sa) (dirent_ptr p e) = dirents (mem sa) p (root_dir_entry_count (fs sa)) ! e"
      using X(2)[OF Some] RB(2) by (simp add: dirents_def)
    then have e: "de_first_cluster (dirent_at (mem sa) (dirent_ptr p e)) = old_cluster want (root_entries s)"
      unfolding RB(1) X(1) using Some by simp
    obtain sb where sb: "free_chain (old_cluster want (root_entries s)) sa = Some (Inr sb)" "vol_ok sb" "sb = sa\<lparr>mem := mem sb\<rparr>"
      "\<forall>x. unat x < fat_entries (fs sa) \<longrightarrow> fat_entry sb x = (if x \<in> set old then FAT16_FREE_MARK else fat_entry sa x)"
      "\<forall>x. x \<notin> fat_region sa \<longrightarrow> mem sb x = mem sa x"
      using free_chain_run[OF va, of "old_cluster want (root_entries s)" old] cha[OF ch] ch by blast
    then have "released s old sa sb" using ea by (simp add: released_def RB(2))
    then show ?thesis using that[of sb] Some e sb(1) by (simp add: ends_def)
  qed
qed

lemma released_stored:
  assumes v: "vol_ok s" and rb: "root_buffer s p sa" and rel: "released s old sa sb" and st: "stored sb data n cs (w, sc)"
    and ub: "user_buf s data n"
  shows "\<exists>s1. borrowed s p (length (root_bytes s)) s1 \<and> frame s s1 (fat_region s) sc"
    "bytes_at (mem sc) p (length (root_bytes s)) = root_bytes s" "root_bytes sc = root_bytes s" "fs sb = fs s"
    "bytes_at (mem sb) data n = bytes_at (mem s) data n" "vol_sector sb = vol_sector s"
proof -
  note RB = root_bufferD[OF rb v]
  obtain s1 where b: "borrowed s p (length (root_bytes s)) s1" "frame s s1 {} sa" using rb unfolding root_buffer_def by blast
  note B = borrowedD[OF b(1)] and Fa = frameD[OF b(2)] and S = storedD[OF st]
  have vb: "vol_ok sb" and sb: "sb = sa\<lparr>mem := mem sb\<rparr>" and mb: "\<And>x. x \<notin> fat_region s \<Longrightarrow> mem sb x = mem sa x"
    using rel by (simp_all add: released_def)
  show fsb: "fs sb = fs s" by (subst sb) (simp add: RB)
  have al: "allocs sb = allocs s1" by (subst sb) (simp add: Fa(2))
  have db: "disk sb = disk s" "disk_sectors sb = disk_sectors s" by (subst sb, simp add: RB)+
  show vs: "vol_sector sb = vol_sector s" by (simp add: fun_eq_iff vol_sector_def sector_bytes_def fsb db)
  have held: "held sb x" if "held s x \<or> x \<in> region p (length (root_bytes s))" for x
    using B(6,7) that held_cong[OF al] by auto
  note Fc = frameD[OF S(1), unfolded fsb]
  have ms: "mem sb x = mem s x" if "held s x" "x \<notin> fat_region s" for x using mb[OF that(2)] Fa(5)[OF that(1)] by simp
  have mc: "mem sc x = mem sb x" if "held sb x" "x \<notin> fat_region s" for x using Fc(5)[OF that] .
  show "\<exists>s1. borrowed s p (length (root_bytes s)) s1 \<and> frame s s1 (fat_region s) sc"
    using b(1) Fc(1-4) al db(2) ms mc held by (intro exI[of _ s1]) (simp add: frame_def)
  have out: "x \<notin> fat_region s" if "x \<in> region p (length (root_bytes s))" for x
    using B(5)[OF that] fat_region_room(2)[OF v] by blast
  have "bytes_at (mem sc) p (length (root_bytes s)) = bytes_at (mem sa) p (length (root_bytes s))"
    by (rule bytes_at_region) (use B(4) mc mb out held in auto)
  then show "bytes_at (mem sc) p (length (root_bytes s)) = root_bytes s" using rb by (simp add: root_buffer_def)
  have far: "unat (root_dir_start_sector (fs s)) + unat (root_dir_sectors (fs s)) \<le> cluster_at (fs s) (unat c)" for c :: u32
    using geometry_okD(12)[OF vol_okD(2)[OF v]] by (simp add: cluster_at_def)
  show "root_bytes sc = root_bytes s"
    using S(7)[of "unat (root_dir_start_sector (fs s))" "unat (root_dir_sectors (fs s))"] far
    by (simp add: root_bytes_def Fc(3) fsb vs)
  show "bytes_at (mem sb) data n = bytes_at (mem s) data n"
    by (rule bytes_at_region) (use ub ms in \<open>auto simp: user_buf_def\<close>)
qed

lemma finish_write:
  assumes v: "vol_ok s" and rb: "root_buffer s p sa" and rel: "released s old sa sb"
    and st: "stored sb data (unat sz) cs (w, sc)" and ub: "user_buf s data (unat sz)"
    and slot: "slot < unat (root_dir_entry_count (fs s))" and want: "length want = 11"
  shows "\<exists>s'. commit p slot want (wv_first w) sz sc = Inr (1, s') \<and> wrote s want data sz slot old cs s'"
proof -
  note RS = released_stored[OF v rb rel st ub] and S = storedD[OF st]
  note S = S[unfolded RS(4)]
  have g: "geometry_ok (fs s) (disk_sectors s)" by (rule vol_okD(2)[OF v])
  obtain s1 where b: "borrowed s p (length (root_bytes s)) s1" "frame s s1 (fat_region s) sc" using RS(1) by blast
  obtain s' where s': "commit p slot want (wv_first w) sz sc = Inr (1, s')" "frame s s (fat_region s) s'"
    "\<forall>x. held s x \<longrightarrow> mem s' x = mem sc x" "root_entries s' = (root_entries s)[slot := new_entry want (wv_first w) sz]"
    "\<forall>rel m. unat (first_data_sector (fs s)) \<le> rel \<longrightarrow> vol_sector s' rel m = vol_sector sc rel m"
    "vol_sector s' (unat (fat_start_sector (fs s))) (fat_entries (fs s) div 256) =
      bytes_at (mem s') (fat_cache (fs s)) (2 * fat_entries (fs s))"
    by (rule commit_ok[OF v b RS(2,3) slot want])
  have fs': "fs s' = fs s" "fs sc = fs s" using frameD(3)[OF s'(2)] frameD(3)[OF b(2)] .
  have v': "vol_ok s'" by (rule frame_vol[OF v s'(2) order_refl])
  have vc: "vol_ok sc" by (rule frame_vol[OF v b(2) borrowedD(8)[OF b(1)]])
  have e': "fat_entry s' x = fat_entry sc x" if "unat x < fat_entries (fs s)" for x
    by (rule fat_entry_cong[OF vc]) (use that fs' s'(3) fat_region_room(2)[OF v] in auto)
  have cb: "cluster_bytes s' c = cluster_bytes sc c" for c
    using s'(5) by (simp add: cluster_bytes_def fs' cluster_at_def)
  have "chain_bytes s' cs = chain_bytes sc cs" unfolding chain_bytes_def by (simp add: cb cong: map_cong)
  then have data: "take (unat sz) (chain_bytes s' cs) = bytes_at (mem s) data (unat sz)" using S(5) RS(5) by simp
  have "fat_chain s' (wv_first w) cs = fat_chain sc (wv_first w) cs"
    unfolding fat_chain_def fs' by (rule fat_path_cong)
      (use e' fat_path_range[OF S(3)[unfolded fat_chain_def]] fs' in auto)
  then have chain: "fat_chain s' (wv_first w) cs" using S(3) by simp
  have rl: "fat_entry sb x = (if x \<in> set old then FAT16_FREE_MARK else fat_entry s x)" if "unat x < fat_entries (fs s)" for x
    using rel that by (simp add: released_def)
  have others: "c \<notin> set cs \<and> fat_entry s' c = fat_entry s c \<and> cluster_bytes s' c = cluster_bytes s c"
    if c: "2 \<le> unat c" "unat c < fat_entries (fs s)" "fat_entry s c \<noteq> FAT16_FREE_MARK" "c \<notin> set old" for c
  proof -
    have n: "c \<notin> set cs" using S(2) rl[OF c(2)] c(3,4) by (auto simp: free_clusters_def RS(4))
    have apart: "\<forall>x\<in>set cs. cluster_at (fs s) (unat c) + spc (fs s) \<le> cluster_at (fs s) (unat x) \<or>
        cluster_at (fs s) (unat x) + spc (fs s) \<le> cluster_at (fs s) (unat c)"
    proof
      fix x assume x: "x \<in> set cs"
      then have "c \<noteq> x" "2 \<le> unat x" using n S(2) by (auto simp: free_clusters_def)
      from clusters_apart[OF this(1) c(1) this(2)]
      show "cluster_at (fs s) (unat c) + spc (fs s) \<le> cluster_at (fs s) (unat x) \<or>
        cluster_at (fs s) (unat x) + spc (fs s) \<le> cluster_at (fs s) (unat c)" .
    qed
    have "cluster_bytes sc c = cluster_bytes s c" using S(7)[OF apart] by (simp add: cluster_bytes_def fs' RS(6))
    then show ?thesis using n cb e'[OF c(2)] S(6)[OF c(2) n] rl[OF c(2)] c(4) by simp
  qed
  have "wrote s want data sz slot old cs s'"
    unfolding wrote_def using v' s'(2,4,6) chain S(4) data others by blast
  then show ?thesis using s'(1) by blast
qed

subsection \<open>8.3 names\<close>

lemma base_loop_spec:
  "base_loop oi p out = (q, out') \<Longrightarrow> length out = 11 \<Longrightarrow>
   length out' = 11 \<and> (\<forall>i. i < oi \<or> 8 \<le> i \<longrightarrow> out' ! i = out ! i) \<and>
   (oi < 8 \<longrightarrow> out' ! oi = (if p = [] \<or> hd p = 0x2E then out ! oi else upcase (hd p)))"
proof (induction oi p out rule: base_loop.induct)
  case (2 oi c p out)
  show ?case
  proof (cases "c \<noteq> 0x2E \<and> oi < 8")
    case True
    then have "base_loop (oi + 1) p (out[oi := upcase c]) = (q, out')" using 2(2) by simp
    from 2(1)[OF True this] 2(3) show ?thesis using True by auto
  qed (use 2 in auto)
qed auto

lemma ext_loop_spec: "8 \<le> ei \<Longrightarrow> length out = 11 \<Longrightarrow> length (ext_loop ei p out) = 11 \<and> (\<forall>i<8. ext_loop ei p out ! i = out ! i)"
  by (induction ei p out rule: ext_loop.induct) auto

lemma format_83_spec:
  "length (format_83 name) = 11"
  "format_83 name ! 0 = (if name = [] \<or> hd name = 0x2E then 0x20 else upcase (hd name))"
proof -
  obtain p out where b: "base_loop 0 name (replicate 11 0x20) = (p, out)" by fastforce
  note B = base_loop_spec[OF b, simplified]
  have "length (format_83 name) = 11 \<and> format_83 name ! 0 = out ! 0"
    using B ext_loop_spec[of 8 out] by (simp add: format_83_def b Let_def split: list.splits)
  then show "length (format_83 name) = 11" "format_83 name ! 0 = (if name = [] \<or> hd name = 0x2E then 0x20 else upcase (hd name))"
    using B by auto
qed

text \<open>A name that can be found again: not empty after a deleted entry's mark and without a NUL.\<close>

definition storable :: "u8 list \<Rightarrow> bool" where
  "storable name \<longleftrightarrow> name \<noteq> [] \<and> hd name \<noteq> 0 \<and> hd name \<noteq> 0xE5"

lemma storable_first:
  assumes "storable name"
  shows "format_83 name ! 0 \<noteq> 0" "format_83 name ! 0 \<noteq> 0xE5"
proof -
  have "upcase c \<noteq> 0 \<and> upcase c \<noteq> 0xE5" if "c \<noteq> 0" "c \<noteq> 0xE5" for c
  proof (cases "0x61 \<le> c \<and> c \<le> 0x7A")
    case True
    then have "unat (c - 0x20) = unat c - 0x20" "0x61 \<le> unat c" "unat c \<le> 0x7A"
      by (simp_all add: unat_sub word_le_nat_alt)
    then have "unat (upcase c) = unat c - 0x20" "0x61 \<le> unat c" "unat c \<le> 0x7A" using True by (simp_all add: upcase_def)
    then show ?thesis by auto
  qed (use that in \<open>auto simp: upcase_def\<close>)
  then show "format_83 name ! 0 \<noteq> 0" "format_83 name ! 0 \<noteq> 0xE5"
    using assms unfolding format_83_spec(2) storable_def by auto
qed

text \<open>The conditions under which a file can be written: a slot, a sound old chain, enough clusters.\<close>

definition can_write :: "'a fat_state_scheme \<Rightarrow> u8 list \<Rightarrow> u64 \<Rightarrow> u32 \<Rightarrow> nat \<Rightarrow> u32 list \<Rightarrow> bool" where
  "can_write s name data sz slot old \<longleftrightarrow> vol_ok s \<and> storable name \<and> user_buf s data (unat sz) \<and>
     unat sz + spc (fs s) * 512 \<le> 2 ^ 32 \<and> chosen_slot (format_83 name) (root_entries s) = Some slot \<and>
     fat_chain s (old_cluster (format_83 name) (root_entries s)) old \<and>
     unat (clusters_for (fs s) sz) \<le> card (free_clusters s \<union> set old)"

lemma user_buf_mono:
  "user_buf s a n \<Longrightarrow> fs t = fs s \<Longrightarrow> (\<And>x. held s x \<Longrightarrow> held t x) \<Longrightarrow> user_buf t a n"
  by (auto simp: user_buf_def)

lemma write_file_gives:
  assumes C: "can_write s name data sz slot old"
  shows "gives (fat16_write_file name data sz s) (\<lambda>(r, s'). r = 1 \<and> (\<exists>cs. wrote s (format_83 name) data sz slot old cs s'))"
proof -
  let ?want = "format_83 name"
  have v: "vol_ok s" and st: "storable name" and ub: "user_buf s data (unat sz)"
    and sz: "unat sz + spc (fs s) * 512 \<le> 2 ^ 32" and slot: "chosen_slot ?want (root_entries s) = Some slot"
    and old: "fat_chain s (old_cluster ?want (root_entries s)) old"
    and room: "unat (clusters_for (fs s) sz) \<le> card (free_clusters s \<union> set old)" using C by (auto simp: can_write_def)
  obtain ex fr where sc: "scan_slots ?want 0 (root_entries s) None = (ex, fr)" by fastforce
  note W = storable_first[OF st]
  have sl: "slot < unat (root_dir_entry_count (fs s))" using scan_slots_existing(3)[OF W sc slot] by simp
  have sel: "(case ex of Some e \<Rightarrow> Some e | None \<Rightarrow> fr) = Some slot" using slot by (simp add: chosen_slot_def sc)
  show ?thesis unfolding write_file_eq
  proof (rule gives_bind[OF read_root_dir_gives[OF v]], clarify, goal_cases)
    case (1 p sa)
    note rb = 1(2)
    note RB = root_bufferD[OF rb v]
    obtain sb where sb: "(case ex of Some e \<Rightarrow> ends (free_chain (de_first_cluster (dirent_at (mem sa) (dirent_ptr p e))) sa)
      | None \<Rightarrow> Inr sa) = Inr sb" "released s old sa sb" by (rule release_old[OF v rb old W sc])
    obtain s1 where b: "borrowed s p (length (root_bytes s)) s1" "frame s s1 {} sa" using rb unfolding root_buffer_def by blast
    have vb: "vol_ok sb" and eb: "sb = sa\<lparr>mem := mem sb\<rparr>" using sb(2) by (simp_all add: released_def)
    have fsb: "fs sb = fs s" by (subst eb) (simp add: RB)
    have "allocs sb = allocs s1" by (subst eb) (simp add: frameD(2)[OF b(2)])
    from held_cong[OF this] have ubb: "user_buf sb data (unat sz)"
      by (intro user_buf_mono[OF ub fsb]) (simp add: borrowedD(7)[OF b(1)])
    have "free_clusters sb = free_clusters s \<union> set old"
      using sb(2) fat_path_range[OF old[unfolded fat_chain_def]] by (auto simp: free_clusters_def fsb released_def)
    then have "gives (write_data data sz sb) (\<lambda>ws. \<exists>cs. stored sb data (unat sz) cs ws)"
      by (intro write_data_gives[OF vb ubb]) (use sz room fsb in simp_all)
    then have "gives (rbind (write_data data sz sb) (\<lambda>(v, s). commit p slot ?want (wv_first v) sz s))
        (\<lambda>(r, s'). r = 1 \<and> (\<exists>cs. wrote s ?want data sz slot old cs s'))"
    proof (rule gives_bind)
      fix ws assume "\<exists>cs. stored sb data (unat sz) cs ws"
      then obtain cs w sc where ws: "ws = (w, sc)" "stored sb data (unat sz) cs (w, sc)" by (cases ws) auto
      from finish_write[OF v rb sb(2) ws(2) ub sl format_83_spec(1), of name]
      show "gives (case ws of (v, s) \<Rightarrow> commit p slot ?want (wv_first v) sz s)
          (\<lambda>(r, s'). r = 1 \<and> (\<exists>cs. wrote s ?want data sz slot old cs s'))" unfolding ws(1) by auto
    qed
    then show ?case using sc sel sb(1) by (simp add: RB(1))
  qed
qed

lemma upcase_upcase [simp]: "upcase (upcase c) = upcase c"
proof (cases "0x61 \<le> c \<and> c \<le> 0x7A")
  case True
  then have "unat (c - 0x20) = unat c - 0x20" "unat c \<le> 0x7A" by (simp_all add: unat_sub word_le_nat_alt)
  then have "\<not> 0x61 \<le> c - 0x20" by (simp add: word_le_nat_alt)
  then show ?thesis using True by (simp add: upcase_def)
qed (auto simp: upcase_def)

lemma upcase_dot [simp]: "upcase c = 0x2E \<longleftrightarrow> c = 0x2E"
proof (cases "0x61 \<le> c \<and> c \<le> 0x7A")
  case True
  then have "unat (c - 0x20) = unat c - 0x20" "0x61 \<le> unat c" by (simp_all add: unat_sub word_le_nat_alt)
  then have "c - 0x20 \<noteq> 0x2E" "c \<noteq> 0x2E" by auto
  then show ?thesis using True by (simp add: upcase_def)
qed (auto simp: upcase_def)

lemma base_loop_upcase: "base_loop oi (map upcase p) out = (case base_loop oi p out of (q, out') \<Rightarrow> (map upcase q, out'))"
  by (induction oi p out rule: base_loop.induct) auto

lemma ext_loop_upcase: "ext_loop ei (map upcase p) out = ext_loop ei p out"
  by (induction ei p out rule: ext_loop.induct) auto

lemma format_83_upcase: "format_83 (map upcase name) = format_83 name"
proof -
  have "dropWhile (\<lambda>c. c \<noteq> 0x2E) (map upcase p) = map upcase (dropWhile (\<lambda>c. c \<noteq> 0x2E) p)" for p
    by (simp add: dropWhile_map comp_def)
  moreover obtain q out where "base_loop 0 name (replicate 11 0x20) = (q, out)" by fastforce
  moreover define d where "d = dropWhile (\<lambda>c. c \<noteq> 0x2E) q"
  ultimately show ?thesis
    by (cases d) (simp_all add: format_83_def base_loop_upcase ext_loop_upcase d_def[symmetric])
qed

lemma base_loop_prefix:
  "0x2E \<notin> set xs \<Longrightarrow> length pre + length xs \<le> 8 \<Longrightarrow> length xs \<le> length suf \<Longrightarrow>
   base_loop (length pre) (xs @ ys) (pre @ suf) =
   base_loop (length pre + length xs) ys (pre @ map upcase xs @ drop (length xs) suf)"
proof (induction xs arbitrary: pre suf)
  case (Cons x xs)
  obtain z zs where suf: "suf = z # zs" using Cons.prems(3) by (cases suf) auto
  have u: "(pre @ z # zs)[length pre := upcase x] = (pre @ [upcase x]) @ zs" by (simp add: list_update_append)
  show ?case using Cons.IH[of "pre @ [upcase x]" zs] Cons.prems by (simp add: suf u)
qed simp

lemma ext_loop_prefix:
  "length pre + length xs \<le> 11 \<Longrightarrow> length xs \<le> length suf \<Longrightarrow>
   ext_loop (length pre) xs (pre @ suf) = pre @ map upcase xs @ drop (length xs) suf"
proof (induction xs arbitrary: pre suf)
  case (Cons x xs)
  obtain z zs where suf: "suf = z # zs" using Cons.prems(2) by (cases suf) auto
  have u: "(pre @ z # zs)[length pre := upcase x] = (pre @ [upcase x]) @ zs" by (simp add: list_update_append)
  show ?case using Cons.IH[of "pre @ [upcase x]" zs] Cons.prems by (simp add: suf u)
qed simp

text \<open>The name of a file with a base of up to eight characters and an extension of up to three.\<close>

lemma format_83_parts:
  assumes "0x2E \<notin> set base" "length base \<le> 8" "length ext \<le> 3"
  shows "format_83 (base @ 0x2E # ext) =
    map upcase base @ replicate (8 - length base) 0x20 @ map upcase ext @ replicate (3 - length ext) 0x20"
proof -
  let ?pre = "map upcase base @ replicate (8 - length base) (0x20 :: u8)"
  have "base_loop 0 (base @ 0x2E # ext) (replicate 11 0x20) =
      (0x2E # ext, map upcase base @ drop (length base) (replicate 11 0x20))"
    using base_loop_prefix[of base "[]" "replicate 11 0x20" "0x2E # ext"] assms by simp
  moreover have "drop (length base) (replicate 11 (0x20 :: u8)) = replicate (8 - length base) 0x20 @ replicate 3 0x20"
    using assms(2) by (simp add: replicate_add[symmetric])
  moreover have "ext_loop 8 ext (?pre @ replicate 3 0x20) = ?pre @ map upcase ext @ drop (length ext) (replicate 3 0x20)"
    using ext_loop_prefix[of ?pre ext "replicate 3 0x20"] assms by simp
  ultimately show ?thesis by (simp add: format_83_def)
qed

lemma format_83_base:
  assumes "0x2E \<notin> set base" "length base \<le> 8"
  shows "format_83 base = map upcase base @ replicate (11 - length base) 0x20"
  using base_loop_prefix[of base "[]" "replicate 11 0x20" "[]"] assms by (simp add: format_83_def)

lemma takeWhile_padded: "0x20 \<notin> set xs \<Longrightarrow> takeWhile (\<lambda>c. c \<noteq> 0x20) (xs @ replicate n (0x20 :: u8)) = xs"
  by (induction xs; cases n) auto

lemma list_line_parts:
  assumes b: "0x2E \<notin> set base" "length base \<le> 8" "0x20 \<notin> set (map upcase base)"
    and e: "length ext \<le> 3" "0x20 \<notin> set (map upcase ext)" "ext \<noteq> []"
    and de: "de_name de = format_83 (base @ 0x2E # ext)"
  shows "list_line de = map upcase base @ 0x2E # map upcase ext @ [0x0A]"
proof -
  have t: "take 8 (de_name de) = map upcase base @ replicate (8 - length base) 0x20"
    "drop 8 (de_name de) = map upcase ext @ replicate (3 - length ext) 0x20"
    unfolding de format_83_parts[OF b(1,2) e(1)] using b(2) by simp_all
  have "length (drop 8 (de_name de)) = 3" unfolding t using e(1) by simp
  then have t3: "take 3 (drop 8 (de_name de)) = drop 8 (de_name de)" by simp
  have "de_name de ! 8 = drop 8 (de_name de) ! 0" by (simp add: de format_83_spec)
  then have "de_name de ! 8 \<noteq> 0x20" unfolding t using e(2,3) by (cases ext) auto
  then show ?thesis unfolding list_line_def t3 t takeWhile_padded[OF b(3)] takeWhile_padded[OF e(2)]
    using e(1) takeWhile_padded[OF e(2)] by simp
qed

subsection \<open>Listings\<close>

text \<open>The lines that fit: entries in order up to the end mark, hidden ones left out, as long as the
  listing with its NUL stays within the buffer.\<close>

fun listing :: "nat \<Rightarrow> nat \<Rightarrow> fat16_dirent list \<Rightarrow> u8 list" where
  "listing w mx [] = []"
| "listing w mx (de # des) =
     (if de_name de ! 0 = 0 then []
      else if skipped de then listing w mx des
      else if mx \<le> w + length (list_line de) then []
      else list_line de @ listing (w + length (list_line de)) mx des)"

lemma length_list_line: "length (list_line de) \<le> 13"
proof -
  let ?P = "\<lambda>c :: u8. c \<noteq> 0x20"
  have "length (takeWhile ?P (take 8 (de_name de))) \<le> 8" by (rule order_trans[OF length_takeWhile_le]) simp
  moreover have "length (takeWhile ?P (take 3 (drop 8 (de_name de)))) \<le> 3" by (rule order_trans[OF length_takeWhile_le]) simp
  ultimately show ?thesis by (simp add: list_line_def)
qed

lemma listing_bound: "w < mx \<Longrightarrow> w + length (listing w mx des) < mx"
  by (induction w mx des rule: listing.induct) auto

text \<open>The loop writes the listing into the buffer, one line after the other.\<close>

lemma list_loop_run:
  assumes "\<forall>e\<in>set es. \<forall>i<32. dirent_ptr p e + of_nat i \<notin> region buf mx" "unat buf + mx \<le> 2 ^ 64"
    "unat max_len = mx" "unat w + 13 * length es < 2 ^ 32" "0 < mx \<longrightarrow> unat w < mx"
  shows "\<exists>w' m'. list_loop p buf max_len es (w, m) = (w', m') \<and>
    unat w' = unat w + length (listing (unat w) mx (map (\<lambda>e. dirent_at m (dirent_ptr p e)) es)) \<and>
    bytes_at m' (buf + of_nat (unat w)) (unat w' - unat w) = listing (unat w) mx (map (\<lambda>e. dirent_at m (dirent_ptr p e)) es) \<and>
    (\<forall>x. x \<notin> region (buf + of_nat (unat w)) (unat w' - unat w) \<longrightarrow> m' x = m x)"
  using assms
proof (induction es arbitrary: w m)
  case Nil
  then show ?case by simp
next
  case (Cons e es)
  let ?de = "dirent_at m (dirent_ptr p e)" and ?ents = "\<lambda>m es. map (\<lambda>e. dirent_at m (dirent_ptr p e)) es"
  let ?L = "list_line ?de"
  have len: "length ?L \<le> 13" by (rule length_list_line)
  have li: "unat (w + of_nat (length ?L)) = unat w + length ?L"
    using Cons.prems(4) len by (subst unat_add_no_wrap) (auto simp: unat_of_nat_less)
  have full: "w + of_nat (length ?L) \<ge> max_len \<longleftrightarrow> mx \<le> unat w + length ?L"
    by (simp add: word_le_nat_alt li Cons.prems(3))
  consider (stop) "de_name ?de ! 0 = 0 \<or> (\<not> skipped ?de \<and> mx \<le> unat w + length ?L)"
    | (skip) "de_name ?de ! 0 \<noteq> 0" "skipped ?de"
    | (line) "de_name ?de ! 0 \<noteq> 0" "\<not> skipped ?de" "unat w + length ?L < mx" by force
  then show ?case
  proof cases
    case stop
    then have "list_loop p buf max_len (e # es) (w, m) = (w, m)" "listing (unat w) mx (?ents m (e # es)) = []"
      using full by (auto simp: Let_def)
    then show ?thesis by simp
  next
    case skip
    have "list_loop p buf max_len (e # es) (w, m) = list_loop p buf max_len es (w, m)"
      "listing (unat w) mx (?ents m (e # es)) = listing (unat w) mx (?ents m es)" using skip by (simp_all add: Let_def)
    then show ?thesis using Cons.IH[of w m] Cons.prems by simp
  next
    case line
    define m1 where "m1 = store_bytes (buf + ucast w) ?L m"
    define w1 where "w1 = w + of_nat (length ?L)"
    have uw: "(ucast w :: u64) = of_nat (unat w)" by (simp add: word_unat_eq_iff)
    have ub: "unat (buf + of_nat (unat w)) = unat buf + unat w"
      using line(3) Cons.prems(2) by (subst unat_add_no_wrap) (auto simp: unat_of_nat_less)
    have sub: "region (buf + of_nat (unat w)) (length ?L) \<subseteq> region buf mx" unfolding region_def ub using line(3) by auto
    have out: "m1 x = m x" if "x \<notin> region (buf + of_nat (unat w)) (length ?L)" for x
      unfolding m1_def uw by (rule store_bytes_region[OF _ that]) (use ub line(3) Cons.prems(2) in simp)
    have same: "?ents m1 es = ?ents m es"
    proof (intro map_cong refl dirent_at_cong)
      fix e' i assume "e' \<in> set es" "i < (32 :: nat)"
      then show "m1 (dirent_ptr p e' + of_nat i) = m (dirent_ptr p e' + of_nat i)"
        using Cons.prems(1) sub by (intro out) auto
    qed
    have step: "list_loop p buf max_len (e # es) (w, m) = list_loop p buf max_len es (w1, m1)"
      "listing (unat w) mx (?ents m (e # es)) = ?L @ listing (unat w1) mx (?ents m1 es)"
      unfolding same using line full by (simp_all add: Let_def w1_def m1_def li)
    have uw1: "unat w1 = unat w + length ?L" by (simp add: w1_def li)
    obtain w' m' where r: "list_loop p buf max_len es (w1, m1) = (w', m')"
      "unat w' = unat w1 + length (listing (unat w1) mx (?ents m1 es))"
      "bytes_at m' (buf + of_nat (unat w1)) (unat w' - unat w1) = listing (unat w1) mx (?ents m1 es)"
      "\<forall>x. x \<notin> region (buf + of_nat (unat w1)) (unat w' - unat w1) \<longrightarrow> m' x = m1 x"
      using Cons.IH[of w1 m1] Cons.prems line(3) len by (auto simp: w1_def li)
    have ub1: "unat (buf + of_nat (unat w1)) = unat buf + unat w1"
    proof -
      have "unat w1 < 2 ^ 64" using line(3) uw1 Cons.prems(2) by simp
      then have "unat (of_nat (unat w1) :: u64) = unat w1" by (intro unat_of_nat_less) simp
      then show ?thesis using unat_add_no_wrap[of buf "of_nat (unat w1)"] line(3) uw1 Cons.prems(2) by (simp del: of_nat_unat)
    qed
    have fst: "bytes_at m' (buf + of_nat (unat w)) (length ?L) = ?L"
    proof -
      have "m' x = m1 x" if x: "x \<in> region (buf + of_nat (unat w)) (length ?L)" for x
      proof -
        have "unat x < unat buf + unat w1" using x uw1 by (simp only: region_def mem_Collect_eq ub) simp
        then have "x \<notin> region (buf + of_nat (unat w1)) (unat w' - unat w1)" by (simp only: region_def mem_Collect_eq ub1) simp
        then show ?thesis using r(4) by blast
      qed
      then have "bytes_at m' (buf + of_nat (unat w)) (length ?L) = bytes_at m1 (buf + of_nat (unat w)) (length ?L)"
        by (intro bytes_at_region) (use ub line(3) Cons.prems(2) in auto)
      also have "\<dots> = ?L" unfolding m1_def uw by (rule bytes_at_store_bytes) (use len in simp)
      finally show ?thesis .
    qed
    have e: "unat w' - unat w = length ?L + (unat w' - unat w1)" "buf + of_nat (unat w) + of_nat (length ?L) = buf + of_nat (unat w1)"
      using r(2) uw1 by (simp_all add: add.assoc)
    have "bytes_at m' (buf + of_nat (unat w)) (unat w' - unat w) = ?L @ listing (unat w1) mx (?ents m1 es)"
      unfolding e(1) bytes_at_append fst e(2) r(3) ..
    moreover have "m' x = m x" if x: "x \<notin> region (buf + of_nat (unat w)) (unat w' - unat w)" for x
    proof -
      have n: "x \<notin> region (buf + of_nat (unat w)) (length ?L)" "x \<notin> region (buf + of_nat (unat w1)) (unat w' - unat w1)"
        using x uw1 e(1) unfolding region_def mem_Collect_eq ub ub1 by linarith+
      show ?thesis using r(4) n(2) out[OF n(1)] by simp
    qed
    ultimately show ?thesis using step r(1,2) uw1 by auto
  qed
qed

lemma listing_none: "listing 0 0 des = []"
  by (induction des) auto

lemma list_root_gives:
  assumes v: "vol_ok s" and ub: "user_buf s buf (unat max_len)" and path: "path = None \<or> path = Some []"
  shows "gives (fat16_list_dir path buf max_len s) (\<lambda>(w, s').
    unat w = length (listing 0 (unat max_len) (root_entries s)) \<and>
    bytes_at (mem s') buf (unat w) = listing 0 (unat max_len) (root_entries s) \<and>
    (0 < max_len \<longrightarrow> unat w < unat max_len \<and> mem s' (buf + of_nat (unat w)) = 0) \<and>
    frame s s (region buf (unat max_len)) s' \<and> disk s' = disk s)"
proof -
  let ?mx = "unat max_len" and ?es = "[0..<unat (root_dir_entry_count (fs s))]"
  have "resolve_directory path s = Inr (Some 0, s)" using path by (auto simp: resolve_directory_def)
  then have eq: "fat16_list_dir path buf max_len s = rbind (read_root_dir s) (\<lambda>(dirbuf, s).
         let (written, m) = list_loop dirbuf buf max_len [0..<unat (root_dir_entry_count (fs s))] (0, mem s);
             s = s\<lparr>mem := m\<rparr>
         in rbind (kfree dirbuf s) (\<lambda>s.
            let s = (if max_len > 0
                  then s\<lparr>mem := (mem s)(buf + ucast (if written < max_len then written else max_len - 1) := 0)\<rparr>
                  else s)
            in Inr (written, s)))"
    unfolding fat16_list_dir_def by (simp add: read_directory_def rbind_assoc) (rule rbind_cong, simp_all split: prod.split)
  show ?thesis unfolding eq
  proof (rule gives_bind[OF read_root_dir_gives[OF v]], clarify, goal_cases)
    case (1 p sa)
    note RB = root_bufferD[OF 1(2) v]
    obtain s1 where b: "borrowed s p (length (root_bytes s)) s1" "frame s s1 {} sa" using 1(2) unfolding root_buffer_def by blast
    note B = borrowedD[OF b(1)]
    have far: "dirent_ptr p e + of_nat i \<notin> region buf ?mx" if "e \<in> set ?es" "i < 32" for e i
    proof -
      have "32 * e + i < length (root_bytes s)" using root_room[OF v, of e] that by auto
      moreover have "dirent_ptr p e + of_nat i = p + of_nat (32 * e + i)" by (simp add: dirent_ptr_def mult.commute)
      ultimately have "dirent_ptr p e + of_nat i \<in> region p (length (root_bytes s))"
        using region_offset[of p "length (root_bytes s)" "32 * e + i"] B(4) by (simp add: add.assoc)
      then show ?thesis using B(5) ub by (auto simp: user_buf_def)
    qed
    have ents: "map (\<lambda>e. dirent_at (mem sa) (dirent_ptr p e)) ?es = root_entries s"
      using RB(1,2) by (simp add: dirents_def)
    have len: "unat (0 :: u32) + 13 * length ?es < 2 ^ 32" using geometry_okD(6)[OF vol_okD(2)[OF v]] by simp
    obtain w m where L: "list_loop p buf max_len ?es (0, mem sa) = (w, m)" "unat w = length (listing 0 ?mx (root_entries s))"
      "bytes_at m buf (unat w) = listing 0 ?mx (root_entries s)" "\<forall>x. x \<notin> region buf (unat w) \<longrightarrow> m x = mem sa x"
      using list_loop_run[of ?es p buf ?mx max_len 0 "mem sa"] far ub len unfolding ents by (auto simp: user_buf_def)
    have wmx: "unat w < ?mx" if "0 < ?mx" using listing_bound[of 0 ?mx "root_entries s"] L(2) that by simp
    then have sub: "region buf (unat w) \<subseteq> region buf ?mx" using L(2) by (cases "?mx = 0") (auto simp: region_def listing_none)
    have "frame s s1 (region buf ?mx) (sa\<lparr>mem := m\<rparr>)" by (rule frame_mem[OF b(2)]) (use L(4) sub in auto)
    then obtain s3 where s3: "kfree p (sa\<lparr>mem := m\<rparr>) = Inr s3" "frame s s (region buf ?mx) s3" "disk s3 = disk s" "mem s3 = m"
      using borrow_return[OF b(1), of "region buf ?mx" "sa\<lparr>mem := m\<rparr>"] RB(2,3,4) by auto
    show ?case
    proof (cases "max_len = 0")
      case True
      then have "listing 0 0 (root_entries s) = []" by (simp add: listing_none)
      then show ?thesis using L s3 True RB by (simp add: Let_def)
    next
      case False
      then have mx: "0 < ?mx" "0 < max_len" by (auto simp: word_gt_0 unat_gt_0)
      then have wl: "w < max_len" using wmx by (simp add: word_less_nat_alt)
      let ?m = "m(buf + ucast w := 0)"
      have uw: "(ucast w :: u64) = of_nat (unat w)" by (simp add: word_unat_eq_iff)
      have ub2: "unat buf + ?mx \<le> 2 ^ 64" using ub by (simp add: user_buf_def)
      have at: "unat (buf + ucast w) = unat buf + unat w"
        using wmx[OF mx(1)] ub2 by (subst unat_add_no_wrap) auto
      have inr: "buf + ucast w \<in> region buf ?mx" "buf + ucast w \<notin> region buf (unat w)"
        unfolding region_def mem_Collect_eq at using wmx[OF mx(1)] by simp_all
      have "bytes_at ?m buf (unat w) = bytes_at m buf (unat w)"
        by (rule bytes_at_region) (use ub2 wmx[OF mx(1)] inr(2) in auto)
      moreover have "frame s s (region buf ?mx) (s3\<lparr>mem := ?m\<rparr>)"
        by (rule frame_mem[OF s3(2)]) (use inr(1) s3(4) in auto)
      ultimately show ?thesis using L s3 RB wl mx wmx by (simp add: Let_def uw[symmetric])
    qed
  qed
qed

end
