(* ===== verification/Vfs_Spec.thy ===== *)
theory Vfs_Spec
  imports Vfs Fat16_Spec
begin

section \<open>Correctness of the file system layer\<close>

text \<open>
  The lemmas on the FAT16 driver carried to the operations of \<open>Vfs\<close>, which hold the lock and keep
  interrupts off while they run, and the properties of files as a user of the layer sees them.
\<close>

text \<open>States that agree on the volume, the memory and the heap.\<close>

definition same_vol :: "'a fat_state_scheme \<Rightarrow> 'a fat_state_scheme \<Rightarrow> bool" where
  "same_vol s t \<longleftrightarrow> mem t = mem s \<and> disk t = disk s \<and> fs t = fs s \<and> disk_sectors t = disk_sectors s \<and>
     hdr t = hdr s \<and> heap_head t = heap_head s \<and> heap_lock t = heap_lock s"

lemma same_vol_views:
  assumes "same_vol s t"
  shows "heap_inv t = heap_inv s" "allocs t = allocs s" "vol_ok t = vol_ok s" "user_buf t = user_buf s"
    "fat_entry t = fat_entry s" "vol_sector t = vol_sector s" "cluster_bytes t = cluster_bytes s"
    "chain_bytes t = chain_bytes s" "fat_chain t = fat_chain s" "root_entries t = root_entries s"
    "free_clusters t = free_clusters s"
proof -
  have S: "mem t = mem s" "disk t = disk s" "fs t = fs s" "disk_sectors t = disk_sectors s" "hdr t = hdr s"
    "heap_head t = heap_head s" "heap_lock t = heap_lock s" using assms by (simp_all add: same_vol_def)
  note V = fat_view_cong[OF S(3,2,1)]
  show h: "heap_inv t = heap_inv s" by (simp add: heap_inv_def S)
  show a: "allocs t = allocs s" by (simp add: allocs_def S)
  show "vol_ok t = vol_ok s" by (simp add: vol_ok_def h a S)
  show "user_buf t = user_buf s" by (simp add: fun_eq_iff user_buf_def held_cong[OF a] S)
  show "fat_entry t = fat_entry s" "vol_sector t = vol_sector s" "cluster_bytes t = cluster_bytes s"
    "chain_bytes t = chain_bytes s" "fat_chain t = fat_chain s" "root_entries t = root_entries s" using V by blast+
  show "free_clusters t = free_clusters s" by (simp add: free_clusters_def S V)
qed

lemma same_vol_frame:
  assumes "same_vol s t" "same_vol s1 t1" "same_vol s2 t2"
  shows "frame t t1 W t2 = frame s s1 W s2"
proof -
  have "fs t = fs s" "fs t2 = fs s2" "disk_sectors t = disk_sectors s" "disk_sectors t2 = disk_sectors s2"
    "mem t = mem s" "mem t2 = mem s2" using assms(1,3) by (simp_all add: same_vol_def)
  then show ?thesis using same_vol_views(1,2)[OF assms(3)] same_vol_views(2)[OF assms(2)]
    held_cong[OF same_vol_views(2)[OF assms(1)]] by (simp add: frame_def)
qed

lemma same_vol_wrote:
  assumes "same_vol s t" "same_vol s' t'"
  shows "wrote t want data sz slot old cs t' = wrote s want data sz slot old cs s'"
proof -
  have S: "fs t = fs s" "mem t = mem s" "mem t' = mem s'" using assms by (simp_all add: same_vol_def)
  note V = same_vol_views[OF assms(1)] same_vol_views[OF assms(2)]
  show ?thesis unfolding wrote_def same_vol_frame[OF assms(1) assms(1) assms(2)] V S ..
qed

lemma same_vol_can_write:
  assumes "same_vol s t"
  shows "can_write t name data sz slot old = can_write s name data sz slot old"
proof -
  have S: "fs t = fs s" using assms by (simp add: same_vol_def)
  show ?thesis unfolding can_write_def same_vol_views[OF assms] S ..
qed

abbreviation locked :: "'a vfs_state_scheme \<Rightarrow> 'a vfs_state_scheme" where
  "locked s \<equiv> s\<lparr>rflags_if := False, fat16_vfs_lock := 1\<rparr>"

lemma vfs_lock_free [simp]: "fat16_vfs_lock s = 0 \<Longrightarrow> vfs_lock s = Inr (rflags_if s, locked s)"
  by (simp add: vfs_lock_def irq_save_disable_def)

lemma vfs_unlock_view [simp]:
  "fat16_vfs_lock (vfs_unlock f s) = 0" "rflags_if (vfs_unlock f s) = f" "mem (vfs_unlock f s) = mem s"
  "disk (vfs_unlock f s) = disk s"
  by (simp_all add: vfs_unlock_def irq_restore_def)

lemma same_vol_locks: "same_vol s (locked s)" "same_vol s (vfs_unlock f s)" "same_vol s s"
  by (simp_all add: same_vol_def vfs_unlock_def irq_restore_def)

lemmas locked_views = same_vol_views[OF same_vol_locks(1)] same_vol_views[OF same_vol_locks(2)]

lemma vfs_write_file_gives:
  assumes l: "fat16_vfs_lock s = 0" and c: "can_write s name data sz slot old"
  shows "gives (vfs_write_file name data sz s) (\<lambda>(r, s'). r = 1 \<and>
    (\<exists>cs. wrote s (format_83 name) data sz slot old cs s') \<and> fat16_vfs_lock s' = 0 \<and> rflags_if s' = rflags_if s)"
proof -
  have "can_write (locked s) name data sz slot old" using c same_vol_can_write[OF same_vol_locks(1)] by blast
  from write_file_gives[OF this]
  have "gives (rbind (fat16_write_file name data sz (locked s)) (\<lambda>(r, s'). Inr (r, vfs_unlock (rflags_if s) s'))) (\<lambda>(r, s'). r = 1 \<and>
    (\<exists>cs. wrote s (format_83 name) data sz slot old cs s') \<and> fat16_vfs_lock s' = 0 \<and> rflags_if s' = rflags_if s)"
  proof (rule gives_bind, clarify, goal_cases)
    case (1 r s' cs)
    then show ?case using same_vol_wrote[OF same_vol_locks(3) same_vol_locks(2)] same_vol_wrote[OF same_vol_locks(1) same_vol_locks(3)]
      by (simp only: gives_simps prod.case vfs_unlock_view simp_thms) blast
  qed
  then show ?thesis by (simp add: vfs_write_file_def vfs_lock_free[OF l])
qed

text \<open>Reading a file of the root directory whose chain is sound.\<close>

definition file_of :: "fat16_dirent \<Rightarrow> fat16_file" where
  "file_of de = \<lparr>first_cluster = de_first_cluster de, fsize = de_file_size de\<rparr>"

lemma vfs_read_found:
  assumes l: "fat16_vfs_lock s = 0" and v: "vol_ok s" and n: "0x2F \<notin> set name" "length name \<le> 12"
    and de: "scan_dir (format_83 name) (root_entries s) = Some de" and ch: "fat_chain s (de_first_cluster de) cs"
    and ub: "user_buf s buf (read_len (file_of de) max_len)"
  shows "gives (vfs_read_file_into name buf max_len s) (\<lambda>(r, s').
    unat r = min (read_len (file_of de) max_len) (length cs * (spc (fs s) * 512)) \<and>
    bytes_at (mem s') buf (unat r) = take (read_len (file_of de) max_len) (chain_bytes s cs) \<and>
    frame s s (region buf (read_len (file_of de) max_len)) s' \<and> disk s' = disk s \<and>
    fat16_vfs_lock s' = 0 \<and> rflags_if s' = rflags_if s)"
proof -
  let ?f = "file_of de" and ?W = "region buf (read_len (file_of de) max_len)" and ?t = "locked s"
  have vt: "vol_ok ?t" using v by (simp only: locked_views)
  have "gives (rbind (fat16_open name ?t) (\<lambda>(file, s'). case file of None \<Rightarrow> Inr (- 1, vfs_unlock (rflags_if s) s')
      | Some file \<Rightarrow> rbind (fat16_read file buf max_len s') (\<lambda>(result, s'). Inr (result, vfs_unlock (rflags_if s) s'))))
    (\<lambda>(r, s'). unat r = min (read_len ?f max_len) (length cs * (spc (fs s) * 512)) \<and>
      bytes_at (mem s') buf (unat r) = take (read_len ?f max_len) (chain_bytes s cs) \<and>
      frame s s ?W s' \<and> disk s' = disk s \<and> fat16_vfs_lock s' = 0 \<and> rflags_if s' = rflags_if s)"
  proof (rule gives_bind[OF open_plain[OF vt n]], goal_cases)
    case (1 r)
    obtain entry s1 where r: "r = (entry, s1)" by fastforce
    have f: "entry = Some ?f" and kp: "keeps ?t s1" using 1(2) de by (simp_all add: r locked_views file_of_def)
    note K = keepsD[OF kp] and V = keeps_vol[OF vt kp]
    have "fat_chain s1 (de_first_cluster de) cs = fat_chain ?t (de_first_cluster de) cs"
      unfolding fat_chain_def K(3)
      by (rule fat_path_cong) (use ch fat_path_range keeps_fat[OF vt kp] in \<open>fastforce simp: fat_chain_def locked_views\<close>)
    then have c1: "fat_chain s1 (first_cluster ?f) cs" using ch by (simp add: locked_views file_of_def)
    have "user_buf s1 buf (read_len ?f max_len)"
      by (rule user_buf_mono[of ?t]) (use ub K(2,3) held_cong[OF K(2)] in \<open>simp_all add: locked_views\<close>)
    from fat16_read_gives[OF V(1) c1 this]
    have "gives (rbind (fat16_read ?f buf max_len s1) (\<lambda>(result, s'). Inr (result, vfs_unlock (rflags_if s) s')))
      (\<lambda>(r, s'). unat r = min (read_len ?f max_len) (length cs * (spc (fs s) * 512)) \<and>
        bytes_at (mem s') buf (unat r) = take (read_len ?f max_len) (chain_bytes s cs) \<and>
        frame s s ?W s' \<and> disk s' = disk s \<and> fat16_vfs_lock s' = 0 \<and> rflags_if s' = rflags_if s)"
    proof (rule gives_bind, clarify, goal_cases)
      case (1 r s2)
      have fr: "frame s1 s1 ?W s2" using 1 by blast
      have "frame ?t ?t ?W s2" using frameD[OF fr] K held_cong[OF K(2)] by (simp add: frame_def)
      then have "frame s s ?W (vfs_unlock (rflags_if s) s2)"
        using same_vol_frame[OF same_vol_locks(1) same_vol_locks(1) same_vol_locks(3)]
          same_vol_frame[OF same_vol_locks(3) same_vol_locks(3) same_vol_locks(2)] by blast
      moreover have "chain_bytes s1 cs = chain_bytes s cs" unfolding chain_bytes_def V(3) locked_views ..
      moreover have "disk s2 = disk s" "fs s1 = fs s" using 1 K(3,5) by simp_all
      ultimately show ?case using 1 by simp
    qed
    then show ?case using f by (simp add: r)
  qed
  then show ?thesis by (simp add: vfs_read_file_into_def vfs_lock_free[OF l])
qed

lemma vfs_write_read_gives:
  assumes l: "fat16_vfs_lock s = 0" and c: "can_write s name data sz slot old"
    and n: "0x2F \<notin> set name" "length name \<le> 12" and ub: "user_buf s buf (min (unat sz) (unat max_len))"
  shows "gives (rbind (vfs_write_file name data sz s) (\<lambda>(r, s). vfs_read_file_into name buf max_len s))
    (\<lambda>(r, s'). unat r = min (unat sz) (unat max_len) \<and>
      bytes_at (mem s') buf (unat r) = bytes_at (mem s) data (unat r))"
proof (rule gives_bind[OF vfs_write_file_gives[OF l c]], clarify, goal_cases)
  case (1 r s1 cs)
  let ?w = "format_83 name"
  have v: "vol_ok s" and slot: "chosen_slot ?w (root_entries s) = Some slot" and st: "storable name"
    using c by (simp_all add: can_write_def)
  obtain k where k: "root_entries s1 = (root_entries s)[slot := new_entry ?w k sz]" "fat_chain s1 k cs"
    using 1(2) unfolding wrote_def by blast
  have W: "vol_ok s1" "frame s s (fat_region s) s1" "unat sz \<le> length cs * (spc (fs s) * 512)"
    "take (unat sz) (chain_bytes s1 cs) = bytes_at (mem s) data (unat sz)" using 1(2) unfolding wrote_def by blast+
  obtain ex fr where sc: "scan_slots ?w 0 (root_entries s) None = (ex, fr)" by fastforce
  let ?de = "new_entry ?w k sz"
  have de: "scan_dir ?w (root_entries s1) = Some ?de"
    using scan_slots_existing(3)[OF storable_first[OF st] sc slot] k(1) by simp
  have rl: "read_len (file_of ?de) max_len = min (unat sz) (unat max_len)"
    by (simp add: read_len_def file_of_def new_entry_def)
  have ch: "fat_chain s1 (de_first_cluster ?de) cs" using k(2) by (simp only: new_entry_cluster)
  have "user_buf s1 buf (min (unat sz) (unat max_len))"
    by (rule user_buf_mono[OF ub]) (use frameD(2,3)[OF W(2)] held_cong[of s1 s] in simp_all)
  then have ub1: "user_buf s1 buf (read_len (file_of ?de) max_len)" by (simp only: rl)
  from vfs_read_found[OF 1(3) W(1) n de ch ub1]
  show ?case
  proof (rule gives_mono, clarify, goal_cases)
    case (1 r s2)
    have fs1: "fs s1 = fs s" by (rule frameD(3)[OF W(2)])
    have ur: "unat r = min (unat sz) (unat max_len)" using 1(2) W(3) unfolding rl fs1 by simp
    have "take (min (unat sz) (unat max_len)) (chain_bytes s1 cs) = take (unat max_len) (take (unat sz) (chain_bytes s1 cs))"
      by (simp add: min.commute)
    also have "\<dots> = bytes_at (mem s) data (unat r)" unfolding W(4) ur by (simp add: bytes_at_def take_map min_def)
    finally show ?case using 1(3) ur unfolding rl by simp
  qed
qed

lemma vfs_list_root_gives:
  assumes l: "fat16_vfs_lock s = 0" and v: "vol_ok s" and ub: "user_buf s buf (unat max_len)"
    and path: "path = None \<or> path = Some []"
  shows "gives (vfs_list_dir path buf max_len s) (\<lambda>(w, s').
    unat w = length (listing 0 (unat max_len) (root_entries s)) \<and>
    bytes_at (mem s') buf (unat w) = listing 0 (unat max_len) (root_entries s) \<and>
    (0 < max_len \<longrightarrow> unat w < unat max_len \<and> mem s' (buf + of_nat (unat w)) = 0) \<and>
    frame s s (region buf (unat max_len)) s' \<and> disk s' = disk s \<and> fat16_vfs_lock s' = 0 \<and> rflags_if s' = rflags_if s)"
proof -
  let ?t = "locked s" and ?W = "region buf (unat max_len)"
  have "gives (rbind (fat16_list_dir path buf max_len ?t) (\<lambda>(r, s'). Inr (r, vfs_unlock (rflags_if s) s'))) (\<lambda>(w, s').
    unat w = length (listing 0 (unat max_len) (root_entries s)) \<and>
    bytes_at (mem s') buf (unat w) = listing 0 (unat max_len) (root_entries s) \<and>
    (0 < max_len \<longrightarrow> unat w < unat max_len \<and> mem s' (buf + of_nat (unat w)) = 0) \<and>
    frame s s ?W s' \<and> disk s' = disk s \<and> fat16_vfs_lock s' = 0 \<and> rflags_if s' = rflags_if s)"
  proof (rule gives_bind[OF list_root_gives[OF _ _ path]], goal_cases)
    case 1 show ?case using v by (simp only: locked_views)
  next
    case 2 show ?case using ub by (simp only: locked_views)
  next
    case (3 r)
    obtain w s1 where r: "r = (w, s1)" by fastforce
    have "frame s s ?W (vfs_unlock (rflags_if s) s1)"
      using 3(2) same_vol_frame[OF same_vol_locks(1) same_vol_locks(1) same_vol_locks(3)]
        same_vol_frame[OF same_vol_locks(3) same_vol_locks(3) same_vol_locks(2)] unfolding r by blast
    then show ?case using 3(2) by (auto simp: r locked_views)
  qed
  then show ?thesis by (simp add: vfs_list_dir_def vfs_lock_free[OF l])
qed

subsection \<open>An example volume\<close>

text \<open>An empty volume with one FAT sector, one directory sector and clusters of one sector; its FAT
  is cached in the first heap block. Five bytes to be written lie at \<open>0x5000\<close>.\<close>

definition vfs_example :: vfs_state where
  "vfs_example = \<lparr>mem = store_bytes 0x5000 (cstr ''hello'') (\<lambda>_. 0), rflags_if = True, bitmap = 0x1000,
     bitmap_bits = 4, free_pages = 2, search_hint = 1, pmm_lock = 0, kernel_pml4 = 0, cr3 = 0, efer = 0,
     hdr = (\<lambda>_. \<lparr>hb_size = 0, hb_free = 0, hb_next = 0\<rparr>)
       (HEAP_BASE := \<lparr>hb_size = 0x200, hb_free = 0, hb_next = HEAP_BASE + 0x218\<rparr>,
        HEAP_BASE + 0x218 := \<lparr>hb_size = HEAP_SIZE - 0x230, hb_free = 1, hb_next = 0\<rparr>),
     heap_head = HEAP_BASE, heap_lock = 0, disk = \<lambda>_. 0, disk_sectors = 259,
     fs = \<lparr>partition_lba = 0, bytes_per_sector = 512, sectors_per_cluster = 1, cluster_size_bytes = 512,
       fat_start_sector = 1, root_dir_start_sector = 2, root_dir_sectors = 1, root_dir_entry_count = 16,
       first_data_sector = 3, fat_cache = HEAP_BASE + HEADER, fat_cache_entries = 256\<rparr>, fat16_vfs_lock = 0\<rparr>"

lemma vfs_example_chain: "chain (hdr vfs_example) HEAP_BASE HEAP_END [HEAP_BASE, HEAP_BASE + 0x218]"
  by (simp add: vfs_example_def blk_ok_def blk_end_def)

lemma vfs_example_heap: "heap_inv vfs_example" "allocs vfs_example = {(HEAP_BASE + HEADER, 0x200)}"
proof -
  have h: "heap_lock vfs_example = 0" "heap_head vfs_example = HEAP_BASE" by (simp_all add: vfs_example_def)
  then show "heap_inv vfs_example" unfolding heap_inv_def using vfs_example_chain by blast
  show "allocs vfs_example = {(HEAP_BASE + HEADER, 0x200)}"
    unfolding allocs_chain[OF vfs_example_chain h(2)] by (auto simp: vfs_example_def)
qed

lemma vfs_example_fs:
  "fs vfs_example = \<lparr>partition_lba = 0, bytes_per_sector = 512, sectors_per_cluster = 1, cluster_size_bytes = 512,
     fat_start_sector = 1, root_dir_start_sector = 2, root_dir_sectors = 1, root_dir_entry_count = 16,
     first_data_sector = 3, fat_cache = HEAP_BASE + HEADER, fat_cache_entries = 256\<rparr>"
  "disk_sectors vfs_example = 259" "disk vfs_example = (\<lambda>_. 0)" "fat16_vfs_lock vfs_example = 0"
  "mem vfs_example = store_bytes 0x5000 (cstr ''hello'') (\<lambda>_. 0)"
  by (simp_all add: vfs_example_def)

lemma vfs_example_vol: "vol_ok vfs_example"
  unfolding vol_ok_def geometry_ok_def fat_entries_def spc_def vfs_example_heap vfs_example_fs
  using vfs_example_heap(1) by (simp add: vfs_example_fs)

lemma vfs_example_root: "root_entries vfs_example = replicate 16 (dirent_at (\<lambda>_. 0) 0)"
proof -
  have "root_bytes vfs_example = replicate 512 0"
    by (simp add: root_bytes_def vol_sector_def sector_bytes_def vfs_example_fs map_replicate_const)
  moreover have "dirent_in (replicate 512 0) e = dirent_at (\<lambda>_. 0) 0" if "e < 16" for e
    unfolding dirent_in_def
  proof (rule dirent_at_cong)
    fix i :: nat assume "i < 32"
    then have "unat (of_nat (32 * e) + of_nat i :: u64) = 32 * e + i" using that
      unfolding of_nat_add[symmetric] by (intro unat_of_nat_less) simp
    then show "replicate 512 0 ! unat (of_nat (32 * e) + of_nat i :: u64) = 0" using that \<open>i < 32\<close> by simp
  qed
  ultimately show ?thesis by (auto simp: root_entries_def vfs_example_fs intro!: nth_equalityI)
qed

lemma vfs_example_fat: "unat c < 256 \<Longrightarrow> fat_entry vfs_example c = 0"
proof -
  assume c: "unat c < 256"
  note S = fat_slot[OF vfs_example_vol, of c]
  have "load_le 2 (store_bytes 0x5000 (cstr ''hello'') (\<lambda>_. 0)) (fat_cache (fs vfs_example) + 2 * ucast c) =
      (load_le 2 (\<lambda>_. 0) (fat_cache (fs vfs_example) + 2 * ucast c) :: u16)"
  proof (rule load_le_region)
    show "unat (fat_cache (fs vfs_example) + 2 * ucast c) + 2 \<le> 2 ^ 64" using S(3) c by (simp add: fat_entries_def vfs_example_fs)
    fix x assume "x \<in> region (fat_cache (fs vfs_example) + 2 * ucast c) 2"
    then have "x \<in> fat_region vfs_example" using S(2) c by (auto simp: fat_entries_def vfs_example_fs)
    then have "0x1000018 \<le> unat x" by (simp add: region_def vfs_example_fs)
    then have "x \<notin> region 0x5000 (length (cstr ''hello''))" by (simp add: region_def cstr_def)
    then show "store_bytes 0x5000 (cstr ''hello'') (\<lambda>_. 0) x = 0" by (subst store_bytes_region) (simp_all add: cstr_def)
  qed
  also have "\<dots> = 0" by (rule bit_word_eqI) (simp add: bit_load_le)
  finally show ?thesis by (simp add: fat_entry_def load16_def vfs_example_fs(5))
qed

lemma vfs_example_write: "can_write vfs_example (cstr ''a.txt'') 0x5000 5 0 []"
proof -
  have z: "de_name (dirent_at (\<lambda>_. 0) 0) ! 0 = 0" by (simp add: dirent_at_def bytes_at_def)
  then have s: "chosen_slot w (root_entries vfs_example) = Some 0" "old_cluster w (root_entries vfs_example) = 0" for w
    unfolding vfs_example_root by (simp_all add: chosen_slot_def old_cluster_def numeral_eq_Suc)
  have u: "user_buf vfs_example 0x5000 (unat (5 :: u32))"
    by (auto simp: user_buf_def held_def region_def vfs_example_fs)
  have "2 \<in> free_clusters vfs_example" using vfs_example_fat[of 2] by (simp add: free_clusters_def fat_entries_def vfs_example_fs)
  moreover have "finite (free_clusters vfs_example)" by simp
  ultimately have "1 \<le> card (free_clusters vfs_example)" by (metis One_nat_def Suc_leI card_gt_0_iff empty_iff)
  then show ?thesis unfolding can_write_def s using vfs_example_vol u
    by (simp add: storable_def cstr_def spc_def vfs_example_fs clusters_for_def fat_chain_def in_chain_def)
qed

lemma vfs_example_buf: "n \<le> 0x1000 \<Longrightarrow> user_buf vfs_example 0x6000 n"
  by (auto simp: user_buf_def held_def region_def vfs_example_fs)

subsection \<open>Properties\<close>







text \<open>C4. A name of up to eight characters, a dot and up to three characters is stored and listed as
  itself in upper case, and it finds the same entry whatever its case.\<close>

theorem name_83_roundtrip:
  assumes "0x2E \<notin> set base" "length base \<le> 8" "0x20 \<notin> set (map upcase base)"
    "length ext \<le> 3" "0x20 \<notin> set (map upcase ext)" "ext \<noteq> []"
  shows "list_line (new_entry (format_83 (base @ 0x2E # ext)) c sz) = map upcase base @ 0x2E # map upcase ext @ [0x0A] \<and>
    format_83 (map upcase (base @ 0x2E # ext)) = format_83 (base @ 0x2E # ext)"
proof
  show "list_line (new_entry (format_83 (base @ 0x2E # ext)) c sz) = map upcase base @ 0x2E # map upcase ext @ [0x0A]"
    by (rule list_line_parts[OF assms]) (simp add: new_entry_def)
qed (rule format_83_upcase)

theorem name_83_roundtrip_witness:
  "list_line (new_entry (format_83 (cstr ''hello'' @ 0x2E # cstr ''elf'')) 2 9) = cstr ''HELLO.ELF'' @ [0x0A]"
proof -
  have "map upcase (cstr ''hello'') @ 0x2E # map upcase (cstr ''elf'') @ [0x0A] = cstr ''HELLO.ELF'' @ [0x0A]"
    "0x20 \<notin> set (map upcase (cstr ''hello''))" "0x20 \<notin> set (map upcase (cstr ''elf''))"
    "0x2E \<notin> set (cstr ''hello'')" by (simp_all add: cstr_def upcase_def word_le_nat_alt)
  then show ?thesis using name_83_roundtrip[of "cstr ''hello''" "cstr ''elf''" 2 9] by (simp add: cstr_def)
qed

end
