(* ===== verification/Gdt.thy ===== *)
theory Gdt
  imports Vfs
begin

section \<open>Segment descriptors and task state segments (kernel/src/gdt.c)\<close>

text \<open>
  The descriptor table as the source lays it out: five segment descriptors and one TSS descriptor
  per core, and one TSS per core. The addresses the linker gives to the static objects are the
  parameters \<open>tss_addr\<close>, \<open>stack_addr\<close> and \<open>table_addr\<close>. \<open>lgdt\<close> and \<open>ltr\<close> set the
  fields \<open>gdtr\<close> and \<open>tr\<close> of the running core.
\<close>

record gdt_entry =
  limit_low :: u16
  base_low :: u16
  base_mid :: u8
  access :: u8
  granularity :: u8
  base_high :: u8

record tss_descriptor = gdt_entry +
  base_upper :: u32
  td_reserved :: u32

record tss =
  reserved0 :: u32
  rsp0 :: u64
  rsp1 :: u64
  rsp2 :: u64
  reserved1 :: u64
  ist :: "u64 list"
  reserved2 :: u64
  reserved3 :: u16
  iomap_base :: u16

record gdt_table =
  entries :: "gdt_entry list"
  tss_desc :: "tss_descriptor list"

record gdt_ptr =
  gp_limit :: u16
  gp_base :: u64

abbreviation SMP_MAX_CPUS :: nat where "SMP_MAX_CPUS \<equiv> 16"

abbreviation GDT_ACCESS_KERNEL_CODE :: u8 where "GDT_ACCESS_KERNEL_CODE \<equiv> 0x9A"
abbreviation GDT_ACCESS_KERNEL_DATA :: u8 where "GDT_ACCESS_KERNEL_DATA \<equiv> 0x92"
abbreviation GDT_ACCESS_USER_DATA :: u8 where "GDT_ACCESS_USER_DATA \<equiv> 0xF2"
abbreviation GDT_ACCESS_USER_CODE :: u8 where "GDT_ACCESS_USER_CODE \<equiv> 0xFA"
abbreviation GDT_ACCESS_TSS :: u8 where "GDT_ACCESS_TSS \<equiv> 0x89"
abbreviation GDT_FLAGS_LONG_MODE_CODE :: u8 where "GDT_FLAGS_LONG_MODE_CODE \<equiv> 0xA0"
abbreviation GDT_FLAGS_DATA :: u8 where "GDT_FLAGS_DATA \<equiv> 0xC0"

abbreviation GDT_KERNEL_CODE_SEL :: u16 where "GDT_KERNEL_CODE_SEL \<equiv> 0x08"
abbreviation GDT_KERNEL_DATA_SEL :: u16 where "GDT_KERNEL_DATA_SEL \<equiv> 0x10"
abbreviation GDT_USER_DATA_SEL :: u16 where "GDT_USER_DATA_SEL \<equiv> 0x1B"
abbreviation GDT_USER_CODE_SEL :: u16 where "GDT_USER_CODE_SEL \<equiv> 0x23"
abbreviation GDT_TSS_SEL :: u16 where "GDT_TSS_SEL \<equiv> 0x28"

definition GDT_TSS_SEL_FOR_CPU :: "u32 \<Rightarrow> u16" where
  "GDT_TSS_SEL_FOR_CPU core_index = GDT_TSS_SEL + ucast core_index * 16"

text \<open>\<open>sizeof\<close> of the packed structures.\<close>

abbreviation SIZEOF_TSS :: u32 where "SIZEOF_TSS \<equiv> 104"
abbreviation SIZEOF_GDT_TABLE :: u16 where "SIZEOF_GDT_TABLE \<equiv> 296"
abbreviation SYSCALL_STACK_SIZE :: u64 where "SYSCALL_STACK_SIZE \<equiv> 16384"

record gdt_state = vfs_state +
  gdt_table :: gdt_table
  tss_tab :: "tss list"
  gdtr :: gdt_ptr
  tr :: u16

definition gdt_set_entry :: "nat \<Rightarrow> u8 \<Rightarrow> u8 \<Rightarrow> 'a gdt_state_scheme \<Rightarrow> 'a gdt_state_scheme" where
  "gdt_set_entry i acc flags s =
     (let e = \<lparr>limit_low = 0xFFFF, base_low = 0, base_mid = 0, access = acc,
               granularity = 0x0F OR (flags AND 0xF0), base_high = 0\<rparr>
      in s\<lparr>gdt_table := (gdt_table s)\<lparr>entries := (entries (gdt_table s))[i := e]\<rparr>\<rparr>)"

definition tss_descriptor_of :: "u64 \<Rightarrow> u32 \<Rightarrow> tss_descriptor" where
  "tss_descriptor_of base limit =
     \<lparr>limit_low = ucast (limit AND 0xFFFF), base_low = ucast (base AND 0xFFFF),
      base_mid = ucast (drop_bit 16 base AND 0xFF), access = GDT_ACCESS_TSS,
      granularity = ucast (drop_bit 16 limit AND 0x0F), base_high = ucast (drop_bit 24 base AND 0xFF),
      base_upper = ucast (drop_bit 32 base), td_reserved = 0\<rparr>"

definition tss_set_descriptor :: "u32 \<Rightarrow> u64 \<Rightarrow> u32 \<Rightarrow> 'a gdt_state_scheme \<Rightarrow> 'a gdt_state_scheme" where
  "tss_set_descriptor core_index base limit s =
     s\<lparr>gdt_table := (gdt_table s)\<lparr>tss_desc := (tss_desc (gdt_table s))[unat core_index := tss_descriptor_of base limit]\<rparr>\<rparr>"

definition tss_init_for_cpu ::
  "(u32 \<Rightarrow> u64) \<Rightarrow> (u32 \<Rightarrow> u64) \<Rightarrow> u32 \<Rightarrow> 'a gdt_state_scheme \<Rightarrow> 'a gdt_state_scheme res" where
  "tss_init_for_cpu tss_addr stack_addr core_index s =
     (if SMP_MAX_CPUS \<le> unat core_index then Inl (Undefined ''tss index out of bounds'')
      else
        let t = \<lparr>reserved0 = 0, rsp0 = stack_addr core_index + SYSCALL_STACK_SIZE, rsp1 = 0, rsp2 = 0, reserved1 = 0,
                 ist = replicate 7 0, reserved2 = 0, reserved3 = 0, iomap_base = ucast SIZEOF_TSS\<rparr>;
            s = s\<lparr>tss_tab := (tss_tab s)[unat core_index := t]\<rparr>
        in Inr (tss_set_descriptor core_index (tss_addr core_index) (SIZEOF_TSS - 1) s))"

definition gdt_init ::
  "(u32 \<Rightarrow> u64) \<Rightarrow> (u32 \<Rightarrow> u64) \<Rightarrow> u64 \<Rightarrow> 'a gdt_state_scheme \<Rightarrow> 'a gdt_state_scheme res" where
  "gdt_init tss_addr stack_addr table_addr s =
     (let s = gdt_set_entry 0 0 0 s;
          s = gdt_set_entry 1 GDT_ACCESS_KERNEL_CODE GDT_FLAGS_LONG_MODE_CODE s;
          s = gdt_set_entry 2 GDT_ACCESS_KERNEL_DATA GDT_FLAGS_DATA s;
          s = gdt_set_entry 3 GDT_ACCESS_USER_DATA GDT_FLAGS_DATA s;
          s = gdt_set_entry 4 GDT_ACCESS_USER_CODE GDT_FLAGS_LONG_MODE_CODE s
      in rbind (tss_init_for_cpu tss_addr stack_addr 0 s) (\<lambda>s.
         let s = s\<lparr>gdtr := \<lparr>gp_limit = SIZEOF_GDT_TABLE - 1, gp_base = table_addr\<rparr>\<rparr>
         in Inr (s\<lparr>tr := GDT_TSS_SEL_FOR_CPU 0\<rparr>)))"

definition tss_set_kernel_stack :: "u32 \<Rightarrow> u64 \<Rightarrow> 'a gdt_state_scheme \<Rightarrow> 'a gdt_state_scheme res" where
  "tss_set_kernel_stack core_index sp s =
     (if SMP_MAX_CPUS \<le> unat core_index then Inl (Undefined ''tss index out of bounds'')
      else Inr (s\<lparr>tss_tab := (tss_tab s)[unat core_index := (tss_tab s ! unat core_index)\<lparr>rsp0 := sp\<rparr>]\<rparr>))"

definition gdt_load_on_this_cpu ::
  "(u32 \<Rightarrow> u64) \<Rightarrow> (u32 \<Rightarrow> u64) \<Rightarrow> u64 \<Rightarrow> u32 \<Rightarrow> 'a gdt_state_scheme \<Rightarrow> 'a gdt_state_scheme res" where
  "gdt_load_on_this_cpu tss_addr stack_addr table_addr core_index s =
     (let s = s\<lparr>gdtr := \<lparr>gp_limit = SIZEOF_GDT_TABLE - 1, gp_base = table_addr\<rparr>\<rparr>
      in rbind (tss_init_for_cpu tss_addr stack_addr core_index s) (\<lambda>s.
         Inr (s\<lparr>tr := GDT_TSS_SEL_FOR_CPU core_index\<rparr>)))"

end
