(* ===== verification/Context.thy ===== *)
theory Context
  imports Gdt
begin

section \<open>Cores and context switches (kernel/src/context_switch.S, kernel/src/smp.c)\<close>

text \<open>
  What one core holds besides memory: its Local APIC ID and the registers that
  \<open>switch_context\<close> saves. The register file in a state is the one at the instruction the core is
  about to execute; at the entry of \<open>switch_context\<close> the return address is on top of the stack.
  The functions are the instructions of the source one by one, on the memory of the machine.
\<close>

record regs =
  r_rsp :: u64
  r_rbp :: u64
  r_rbx :: u64
  r_r12 :: u64
  r_r13 :: u64
  r_r14 :: u64
  r_r15 :: u64
  r_rdi :: u64
  r_rip :: u64

record cpu_state = gdt_state +
  regs :: regs
  apic_id :: u32
  cpu_count :: u32
  core_apic_ids :: "u32 list"

text \<open>\<open>smp_current_cpu_index\<close>: the index of the running core, found by its Local APIC ID.\<close>

definition smp_cpu_count :: "'a cpu_state_scheme \<Rightarrow> u32" where
  "smp_cpu_count s = cpu_count s"

definition smp_current_cpu_index :: "'a cpu_state_scheme \<Rightarrow> u32" where
  "smp_current_cpu_index s =
     (case find (\<lambda>i. core_apic_ids s ! i = apic_id s) [0..<unat (cpu_count s)] of
        Some i \<Rightarrow> of_nat i | None \<Rightarrow> 0)"

subsection \<open>The stack\<close>

definition push :: "u64 \<Rightarrow> 'a cpu_state_scheme \<Rightarrow> 'a cpu_state_scheme" where
  "push v s =
     (let sp = r_rsp (regs s) - 8
      in s\<lparr>mem := store64 sp v (mem s), regs := (regs s)\<lparr>r_rsp := sp\<rparr>\<rparr>)"

definition pop :: "'a cpu_state_scheme \<Rightarrow> u64 \<times> 'a cpu_state_scheme" where
  "pop s = (load64 (mem s) (r_rsp (regs s)), s\<lparr>regs := (regs s)\<lparr>r_rsp := r_rsp (regs s) + 8\<rparr>\<rparr>)"

definition push_callee_saved :: "'a cpu_state_scheme \<Rightarrow> 'a cpu_state_scheme" where
  "push_callee_saved s =
     (let s = push (r_rbp (regs s)) s;
          s = push (r_rbx (regs s)) s;
          s = push (r_r12 (regs s)) s;
          s = push (r_r13 (regs s)) s;
          s = push (r_r14 (regs s)) s
      in push (r_r15 (regs s)) s)"

definition pop_callee_saved :: "'a cpu_state_scheme \<Rightarrow> 'a cpu_state_scheme" where
  "pop_callee_saved s =
     (let (v, s) = pop s; s = s\<lparr>regs := (regs s)\<lparr>r_r15 := v\<rparr>\<rparr>;
          (v, s) = pop s; s = s\<lparr>regs := (regs s)\<lparr>r_r14 := v\<rparr>\<rparr>;
          (v, s) = pop s; s = s\<lparr>regs := (regs s)\<lparr>r_r13 := v\<rparr>\<rparr>;
          (v, s) = pop s; s = s\<lparr>regs := (regs s)\<lparr>r_r12 := v\<rparr>\<rparr>;
          (v, s) = pop s; s = s\<lparr>regs := (regs s)\<lparr>r_rbx := v\<rparr>\<rparr>;
          (v, s) = pop s; s = s\<lparr>regs := (regs s)\<lparr>r_rbp := v\<rparr>\<rparr>;
          (v, s) = pop s
      in s\<lparr>regs := (regs s)\<lparr>r_rip := v\<rparr>\<rparr>)"

subsection \<open>\<open>switch_context\<close> and \<open>switch_context_release\<close>\<close>

text \<open>\<open>save\<close> stores the stack pointer through \<open>old_rsp_ptr\<close>; \<open>release\<close> is the store of \<open>-1\<close>
  through \<open>release_flag\<close>.\<close>

definition switch_context ::
  "(u64 \<Rightarrow> 'a cpu_state_scheme \<Rightarrow> 'a cpu_state_scheme) \<Rightarrow> u64 \<Rightarrow> 'a cpu_state_scheme \<Rightarrow> 'a cpu_state_scheme" where
  "switch_context save new_rsp s =
     (let s = push_callee_saved s;
          s = save (r_rsp (regs s)) s;
          s = s\<lparr>regs := (regs s)\<lparr>r_rsp := new_rsp\<rparr>\<rparr>
      in pop_callee_saved s)"

definition switch_context_release ::
  "(u64 \<Rightarrow> 'a cpu_state_scheme \<Rightarrow> 'a cpu_state_scheme) \<Rightarrow> u64 \<Rightarrow> ('a cpu_state_scheme \<Rightarrow> 'a cpu_state_scheme) \<Rightarrow>
   'a cpu_state_scheme \<Rightarrow> 'a cpu_state_scheme" where
  "switch_context_release save new_rsp release s =
     (let s = push_callee_saved s;
          s = save (r_rsp (regs s)) s;
          s = release s;
          s = s\<lparr>regs := (regs s)\<lparr>r_rsp := new_rsp\<rparr>\<rparr>
      in pop_callee_saved s)"

text \<open>\<open>thread_trampoline\<close> up to its indirect call: interrupts on, the argument in \<open>rdi\<close>, the
  return address pushed.\<close>

definition thread_trampoline_call :: "u64 \<Rightarrow> 'a cpu_state_scheme \<Rightarrow> 'a cpu_state_scheme res" where
  "thread_trampoline_call return_addr s =
     (let s = s\<lparr>rflags_if := True\<rparr>;
          s = s\<lparr>regs := (regs s)\<lparr>r_rdi := r_r12 (regs s)\<rparr>\<rparr>
      in if r_rbx (regs s) = 0 then Inl (Panic ''thread_trampoline: entry (rbx) is NULL'')
         else let s = push return_addr s in Inr (s\<lparr>regs := (regs s)\<lparr>r_rip := r_rbx (regs s)\<rparr>\<rparr>))"

end
