(* ===== verification/Scheduler.thy ===== *)
theory Scheduler
  imports Context "HOL-Library.Signed_Division"
begin

section \<open>The scheduler (kernel/src/scheduler.c)\<close>

text \<open>
  The thread table and the operations on it, every one under \<open>scheduler_lock\<close> as in the source.
  C's \<open>int\<close> fields that use -1 as a marker are integers. \<open>schedule\<close> runs on the core the state
  describes and returns whether it switched: after a switch the register file is that of the
  thread switched to. The code addresses of \<open>thread_trampoline\<close> and \<open>idle_loop\<close> are parameters.
\<close>

datatype thread_state = THREAD_UNUSED | THREAD_ACTIVE | THREAD_ZOMBIE

record thread =
  t_rsp :: u64
  t_cr3 :: u64
  kernel_stack_top :: u64
  stack_base :: u64
  t_state :: thread_state
  running_on_core :: int
  heap_brk :: u64
  exit_code_out :: u64
  is_idle :: bool
  t_name :: "u8 list"

abbreviation SCHEDULER_MAX_THREADS :: nat where "SCHEDULER_MAX_THREADS \<equiv> 32"
abbreviation SCHEDULER_STACK_SIZE :: u64 where "SCHEDULER_STACK_SIZE \<equiv> 16384"
abbreviation ELF_USER_LOAD_BASE :: u64 where "ELF_USER_LOAD_BASE \<equiv> 0x8000400000"
abbreviation USER_HEAP_VADDR_START :: u64 where "USER_HEAP_VADDR_START \<equiv> ELF_USER_LOAD_BASE + 0x1000000"

record sched_state = cpu_state +
  scheduler_lock :: spinlock_t
  threads :: "thread list"
  active_count :: u32
  current_thread :: "int list"
  discard_rsp :: "u64 list"
  idle_tid :: "int list"

abbreviation set_thread :: "nat \<Rightarrow> (thread \<Rightarrow> thread) \<Rightarrow> 'a sched_state_scheme \<Rightarrow> 'a sched_state_scheme" where
  "set_thread i f s \<equiv> s\<lparr>threads := (threads s)[i := f (threads s ! i)]\<rparr>"

subsection \<open>Initialisation\<close>

definition scheduler_init :: "'a sched_state_scheme \<Rightarrow> 'a sched_state_scheme" where
  "scheduler_init s =
     (let s = s\<lparr>threads := map (\<lambda>t. t\<lparr>t_state := THREAD_UNUSED, running_on_core := -1\<rparr>) (threads s)\<rparr>;
          s = s\<lparr>active_count := 0\<rparr>
      in s\<lparr>current_thread := replicate SMP_MAX_CPUS (-1), idle_tid := replicate SMP_MAX_CPUS (-1)\<rparr>)"

subsection \<open>Creating threads\<close>

text \<open>The frame a new thread's first switch pops, from the stack's top downwards.\<close>

definition initial_frame :: "u64 \<Rightarrow> u64 \<Rightarrow> u64 \<Rightarrow> u64 \<Rightarrow> mem \<Rightarrow> mem" where
  "initial_frame sp trampoline entry arg m =
     (let m = store64 (sp - 8) trampoline m;
          m = store64 (sp - 16) 0 m;
          m = store64 (sp - 24) entry m;
          m = store64 (sp - 32) arg m;
          m = store64 (sp - 40) 0 m;
          m = store64 (sp - 48) 0 m
      in store64 (sp - 56) 0 m)"

definition thread_create_ex ::
  "u64 \<Rightarrow> u8 list \<Rightarrow> u64 \<Rightarrow> u64 \<Rightarrow> u64 \<Rightarrow> u64 \<Rightarrow> 'a sched_state_scheme \<Rightarrow> (nat \<times> 'a sched_state_scheme) res" where
  "thread_create_ex trampoline name entry arg pml4 code_out s =
     (let (flags, s) = irq_save_disable s in
      rbind (spinlock_acquire (scheduler_lock s)) (\<lambda>l.
      let s = s\<lparr>scheduler_lock := l\<rparr> in
      case find (\<lambda>i. t_state (threads s ! i) = THREAD_UNUSED) [0..<SCHEDULER_MAX_THREADS] of
        None \<Rightarrow> Inl (Panic ''thread_create: too many threads'')
      | Some i \<Rightarrow>
          rbind (kmalloc SCHEDULER_STACK_SIZE s) (\<lambda>(stack, s).
          if stack = 0 then Inl (Panic ''thread_create: kmalloc failed for a stack'')
          else
            let sp = stack + SCHEDULER_STACK_SIZE;
                s = s\<lparr>mem := initial_frame sp trampoline entry arg (mem s)\<rparr>;
                s = set_thread i (\<lambda>t. t\<lparr>t_rsp := sp - 56, t_cr3 := pml4, stack_base := stack,
                      kernel_stack_top := stack + SCHEDULER_STACK_SIZE, t_state := THREAD_ACTIVE,
                      running_on_core := -1, heap_brk := USER_HEAP_VADDR_START,
                      exit_code_out := code_out, is_idle := False\<rparr>) s;
                s = s\<lparr>active_count := active_count s + 1\<rparr>;
                s = set_thread i (\<lambda>t. t\<lparr>t_name := take 15 name\<rparr>) s;
                s = s\<lparr>scheduler_lock := spinlock_release (scheduler_lock s)\<rparr>
            in Inr (i, irq_restore flags s))))"

definition thread_create ::
  "u64 \<Rightarrow> u8 list \<Rightarrow> u64 \<Rightarrow> 'a sched_state_scheme \<Rightarrow> (nat \<times> 'a sched_state_scheme) res" where
  "thread_create trampoline name entry s = thread_create_ex trampoline name entry 0 (vmm_kernel_cr3 s) 0 s"

definition thread_create_process ::
  "u64 \<Rightarrow> u8 list \<Rightarrow> u64 \<Rightarrow> u64 \<Rightarrow> 'a sched_state_scheme \<Rightarrow> (nat \<times> 'a sched_state_scheme) res" where
  "thread_create_process trampoline name entry pml4 s = thread_create_ex trampoline name entry 0 pml4 0 s"

definition thread_create_process_arg ::
  "u64 \<Rightarrow> u8 list \<Rightarrow> u64 \<Rightarrow> u64 \<Rightarrow> u64 \<Rightarrow> u64 \<Rightarrow> 'a sched_state_scheme \<Rightarrow> (nat \<times> 'a sched_state_scheme) res" where
  "thread_create_process_arg trampoline name entry arg pml4 code_out s =
     thread_create_ex trampoline name entry arg pml4 code_out s"

definition create_idle_thread ::
  "u64 \<Rightarrow> u64 \<Rightarrow> nat \<Rightarrow> 'a sched_state_scheme \<Rightarrow> 'a sched_state_scheme res" where
  "create_idle_thread trampoline idle_loop core s =
     rbind (thread_create_ex trampoline (cstr ''idle'') idle_loop 0 (vmm_kernel_cr3 s) 0 s) (\<lambda>(tid, s).
     let s = set_thread tid (\<lambda>t. t\<lparr>is_idle := True\<rparr>) s
     in if SMP_MAX_CPUS \<le> core then Inl (Undefined ''idle_tid index out of bounds'')
        else Inr (s\<lparr>idle_tid := (idle_tid s)[core := int tid]\<rparr>))"

definition scheduler_create_idle_threads ::
  "u64 \<Rightarrow> u64 \<Rightarrow> u32 \<Rightarrow> 'a sched_state_scheme \<Rightarrow> 'a sched_state_scheme res" where
  "scheduler_create_idle_threads trampoline idle_loop n s =
     rfold (create_idle_thread trampoline idle_loop) [0..<unat n] s"

subsection \<open>Picking the next thread\<close>

definition thread_ready :: "thread \<Rightarrow> bool" where
  "thread_ready t \<longleftrightarrow> t_state t = THREAD_ACTIVE \<and> running_on_core t < 0 \<and> \<not> is_idle t"

definition slot_after :: "int \<Rightarrow> nat \<Rightarrow> nat" where
  "slot_after start i =
     (let idx = (start + int i) smod int SCHEDULER_MAX_THREADS
      in nat (if idx < 0 then idx + int SCHEDULER_MAX_THREADS else idx))"

definition next_ready_after :: "int \<Rightarrow> 'a sched_state_scheme \<Rightarrow> int" where
  "next_ready_after start s =
     (case find (\<lambda>i. thread_ready (threads s ! slot_after start i)) [1..<Suc SCHEDULER_MAX_THREADS] of
        Some i \<Rightarrow> int (slot_after start i) | None \<Rightarrow> -1)"

subsection \<open>\<open>schedule\<close>\<close>

text \<open>The two places \<open>switch_context\<close> saves the stack pointer to, and the release of a thread.\<close>

definition save_discard :: "nat \<Rightarrow> u64 \<Rightarrow> 'a sched_state_scheme \<Rightarrow> 'a sched_state_scheme" where
  "save_discard core sp s = s\<lparr>discard_rsp := (discard_rsp s)[core := sp]\<rparr>"

definition save_thread :: "nat \<Rightarrow> u64 \<Rightarrow> 'a sched_state_scheme \<Rightarrow> 'a sched_state_scheme" where
  "save_thread i sp s = set_thread i (\<lambda>t. t\<lparr>t_rsp := sp\<rparr>) s"

definition release_thread :: "nat \<Rightarrow> 'a sched_state_scheme \<Rightarrow> 'a sched_state_scheme" where
  "release_thread i s = set_thread i (\<lambda>t. t\<lparr>running_on_core := -1\<rparr>) s"

text \<open>The part of \<open>schedule\<close> after the choice of \<open>next\<close>. Still under the lock it claims the thread and
  gives the slot of a zombie free, whose stack is the first component of the result.\<close>

definition claim_next :: "nat \<Rightarrow> int \<Rightarrow> bool \<Rightarrow> nat \<Rightarrow> 'a sched_state_scheme \<Rightarrow> u64 \<times> 'a sched_state_scheme" where
  "claim_next core prev prev_is_zombie next s =
     (let s = s\<lparr>current_thread := (current_thread s)[core := int next]\<rparr>;
          s = set_thread next (\<lambda>t. t\<lparr>running_on_core := int core\<rparr>) s
      in if prev_is_zombie
         then let zombie_stack = stack_base (threads s ! nat prev);
                  s = set_thread (nat prev) (\<lambda>t. t\<lparr>t_state := THREAD_UNUSED, running_on_core := -1\<rparr>) s
              in (zombie_stack, s\<lparr>active_count := active_count s - 1\<rparr>)
         else (0, s))"

text \<open>Then it loads the address space and the kernel stack, releases the lock, frees the stack of the
  zombie and switches.\<close>

definition switch_to :: "nat \<Rightarrow> int \<Rightarrow> bool \<Rightarrow> nat \<Rightarrow> 'a sched_state_scheme \<Rightarrow> 'a sched_state_scheme res" where
  "switch_to core prev prev_is_zombie next s =
     (let (zombie_stack, s) = claim_next core prev prev_is_zombie next s;
          s = vmm_load_cr3 (t_cr3 (threads s ! next)) s
      in rbind (tss_set_kernel_stack (of_nat core) (kernel_stack_top (threads s ! next)) s) (\<lambda>s.
         let s = s\<lparr>scheduler_lock := spinlock_release (scheduler_lock s)\<rparr> in
         if prev < 0 then Inr (switch_context (save_discard core) (t_rsp (threads s ! next)) s)
         else if zombie_stack \<noteq> 0 then
           rbind (kfree zombie_stack s) (\<lambda>s.
           Inr (switch_context (save_discard core) (t_rsp (threads s ! next)) s))
         else Inr (switch_context_release (save_thread (nat prev)) (t_rsp (threads s ! next)) (release_thread (nat prev)) s)))"

definition schedule :: "'a sched_state_scheme \<Rightarrow> (bool \<times> 'a sched_state_scheme) res" where
  "schedule s =
     (let s = s\<lparr>rflags_if := False\<rparr>;
          core = unat (smp_current_cpu_index s)
      in rbind (spinlock_acquire (scheduler_lock s)) (\<lambda>l.
         let s = s\<lparr>scheduler_lock := l\<rparr>;
             prev = current_thread s ! core;
             prev_is_zombie = (prev \<ge> 0 \<and> t_state (threads s ! nat prev) = THREAD_ZOMBIE)
         in if \<not> prev_is_zombie \<and> active_count s \<le> 1
            then Inr (False, s\<lparr>scheduler_lock := spinlock_release (scheduler_lock s)\<rparr>)
            else
              let next = next_ready_after prev s in
              if next < 0 \<and> \<not> prev_is_zombie
              then Inr (False, s\<lparr>scheduler_lock := spinlock_release (scheduler_lock s)\<rparr>)
              else
                let next = (if next < 0 then idle_tid s ! core else next) in
                if next < 0 then Inl (Undefined ''threads index out of bounds'')
                else rbind (switch_to core prev prev_is_zombie (nat next) s) (\<lambda>s. Inr (True, s))))"

subsection \<open>Exit\<close>

text \<open>The loop around \<open>schedule\<close> after the thread has become a zombie: it ends when control has
  gone to another thread.\<close>

partial_function (option) exit_loop :: "'a sched_state_scheme \<Rightarrow> 'a sched_state_scheme res option" where
  "exit_loop s =
     (let r = schedule s in
      if isl r then Some (Inl (projl r))
      else if fst (projr r) then Some (Inr (snd (projr r)))
      else exit_loop (snd (projr r)))"

definition thread_exit_code :: "i64 \<Rightarrow> 'a sched_state_scheme \<Rightarrow> 'a sched_state_scheme res" where
  "thread_exit_code code s =
     (let core = unat (smp_current_cpu_index s);
          tid = current_thread s ! core
      in if tid < 0 then Inl (Panic ''thread_exit_code: called with no current thread'')
         else
           let s = (if exit_code_out (threads s ! nat tid) \<noteq> 0
                 then s\<lparr>mem := store64 (exit_code_out (threads s ! nat tid)) code (mem s)\<rparr> else s);
               (flags, s) = irq_save_disable s
           in rbind (spinlock_acquire (scheduler_lock s)) (\<lambda>l.
              let s = s\<lparr>scheduler_lock := l\<rparr>;
                  s = set_thread (nat tid) (\<lambda>t. t\<lparr>t_state := THREAD_ZOMBIE\<rparr>) s;
                  s = s\<lparr>scheduler_lock := spinlock_release (scheduler_lock s)\<rparr>
              in ends (exit_loop s)))"

definition thread_exit :: "'a sched_state_scheme \<Rightarrow> 'a sched_state_scheme res" where
  "thread_exit s = thread_exit_code 0 s"

text \<open>The diagnostic a trampoline with no entry point ends in: which of the two panics it is.\<close>

definition thread_trampoline_null_entry_panic :: "'a sched_state_scheme \<Rightarrow> fault" where
  "thread_trampoline_null_entry_panic s =
     (let core = unat (smp_current_cpu_index s); tid = current_thread s ! core
      in if tid < 0 then Panic ''thread_trampoline: entry (rbx) is NULL and current_thread is -1''
         else Panic ''thread_trampoline: entry (rbx) is NULL for tid'')"

subsection \<open>Queries\<close>

definition thread_is_alive :: "int \<Rightarrow> 'a sched_state_scheme \<Rightarrow> bool" where
  "thread_is_alive tid s \<longleftrightarrow>
     (if tid < 0 \<or> tid \<ge> int SCHEDULER_MAX_THREADS then False
      else t_state (threads s ! nat tid) = THREAD_ACTIVE)"

definition thread_current_name :: "'a sched_state_scheme \<Rightarrow> u8 list" where
  "thread_current_name s =
     (let tid = current_thread s ! unat (smp_current_cpu_index s)
      in if tid < 0 then cstr ''(none)'' else t_name (threads s ! nat tid))"

definition thread_get_heap_brk :: "'a sched_state_scheme \<Rightarrow> u64 res" where
  "thread_get_heap_brk s =
     (let tid = current_thread s ! unat (smp_current_cpu_index s)
      in if tid < 0 then Inl (Undefined ''threads index out of bounds'')
         else Inr (heap_brk (threads s ! nat tid)))"

definition thread_set_heap_brk :: "u64 \<Rightarrow> 'a sched_state_scheme \<Rightarrow> 'a sched_state_scheme res" where
  "thread_set_heap_brk brk s =
     (let tid = current_thread s ! unat (smp_current_cpu_index s)
      in if tid < 0 then Inl (Undefined ''threads index out of bounds'')
         else Inr (set_thread (nat tid) (\<lambda>t. t\<lparr>heap_brk := brk\<rparr>) s))"

subsection \<open>Starting a core\<close>

definition scheduler_start :: "'a sched_state_scheme \<Rightarrow> 'a sched_state_scheme res" where
  "scheduler_start s =
     (let s = s\<lparr>rflags_if := False\<rparr>;
          core = unat (smp_current_cpu_index s)
      in rbind (spinlock_acquire (scheduler_lock s)) (\<lambda>l.
         let s = s\<lparr>scheduler_lock := l\<rparr> in
         if active_count s = 0 then Inl (Panic ''scheduler_start: no threads created'')
         else
           let first = next_ready_after (-1) s;
               first = (if first < 0 then idle_tid s ! core else first)
           in if first < 0 then Inl (Undefined ''threads index out of bounds'')
              else
                let s = s\<lparr>current_thread := (current_thread s)[core := first]\<rparr>;
                    s = set_thread (nat first) (\<lambda>t. t\<lparr>running_on_core := int core\<rparr>) s;
                    s = vmm_load_cr3 (t_cr3 (threads s ! nat first)) s
                in rbind (tss_set_kernel_stack (of_nat core) (kernel_stack_top (threads s ! nat first)) s) (\<lambda>s.
                   let s = s\<lparr>scheduler_lock := spinlock_release (scheduler_lock s)\<rparr>
                   in Inr (switch_context (save_discard core) (t_rsp (threads s ! nat first)) s))))"

end
