(* ===== verification/Ioport.thy ===== *)
theory Ioport
  imports Scheduler
begin

section \<open>Port I/O and memory-mapped I/O (common/include/ioport.h)\<close>

text \<open>
  The devices of the machine are code outside the kernel: a record of functions on a device state of
  any type \<open>'d\<close> says what a port or register access returns and how it changes the devices. A
  memory-mapped access may also change memory, because devices transfer data by DMA; \<open>hw_tick\<close> is
  what they do on their own between two reads of a polling loop. Drivers take
  the record as their first argument and keep the device state in the field \<open>dev\<close>. The table of
  interrupt handlers of \<open>idt.c\<close>, whose entries are functions of the kernel, is a table of their
  names.
\<close>

record 'd hardware =
  hw_in8 :: "u16 \<Rightarrow> 'd \<Rightarrow> u8 \<times> 'd"
  hw_out8 :: "u16 \<Rightarrow> u8 \<Rightarrow> 'd \<Rightarrow> 'd"
  hw_in32 :: "u16 \<Rightarrow> 'd \<Rightarrow> u32 \<times> 'd"
  hw_out32 :: "u16 \<Rightarrow> u32 \<Rightarrow> 'd \<Rightarrow> 'd"
  hw_load32 :: "u64 \<Rightarrow> 'd \<times> mem \<Rightarrow> u32 \<times> 'd \<times> mem"
  hw_store32 :: "u64 \<Rightarrow> u32 \<Rightarrow> 'd \<times> mem \<Rightarrow> 'd \<times> mem"
  hw_tick :: "'d \<times> mem \<Rightarrow> 'd \<times> mem"
  hw_rdmsr :: "u32 \<Rightarrow> 'd \<Rightarrow> u64"
  hw_wrmsr :: "u32 \<Rightarrow> u64 \<Rightarrow> 'd \<Rightarrow> 'd"

datatype irq_handler = Timer_Irq | Keyboard_Irq | Mouse_Irq

record 'd io_state = sched_state +
  dev :: 'd
  irq_handlers :: "irq_handler option list"

definition outb :: "'d hardware \<Rightarrow> u16 \<Rightarrow> u8 \<Rightarrow> ('d, 'a) io_state_scheme \<Rightarrow> ('d, 'a) io_state_scheme" where
  "outb hw port val s = s\<lparr>dev := hw_out8 hw port val (dev s)\<rparr>"

definition inb :: "'d hardware \<Rightarrow> u16 \<Rightarrow> ('d, 'a) io_state_scheme \<Rightarrow> u8 \<times> ('d, 'a) io_state_scheme" where
  "inb hw port s = (case hw_in8 hw port (dev s) of (v, d) \<Rightarrow> (v, s\<lparr>dev := d\<rparr>))"

definition outl :: "'d hardware \<Rightarrow> u16 \<Rightarrow> u32 \<Rightarrow> ('d, 'a) io_state_scheme \<Rightarrow> ('d, 'a) io_state_scheme" where
  "outl hw port val s = s\<lparr>dev := hw_out32 hw port val (dev s)\<rparr>"

definition inl :: "'d hardware \<Rightarrow> u16 \<Rightarrow> ('d, 'a) io_state_scheme \<Rightarrow> u32 \<times> ('d, 'a) io_state_scheme" where
  "inl hw port s = (case hw_in32 hw port (dev s) of (v, d) \<Rightarrow> (v, s\<lparr>dev := d\<rparr>))"

definition io_wait :: "'d hardware \<Rightarrow> ('d, 'a) io_state_scheme \<Rightarrow> ('d, 'a) io_state_scheme" where
  "io_wait hw s = outb hw 0x80 0 s"

text \<open>A volatile 32-bit load or store at a device register.\<close>

definition mmio_read32 :: "'d hardware \<Rightarrow> u64 \<Rightarrow> ('d, 'a) io_state_scheme \<Rightarrow> u32 \<times> ('d, 'a) io_state_scheme" where
  "mmio_read32 hw a s = (case hw_load32 hw a (dev s, mem s) of (v, d, m) \<Rightarrow> (v, s\<lparr>dev := d, mem := m\<rparr>))"

definition mmio_write32 :: "'d hardware \<Rightarrow> u64 \<Rightarrow> u32 \<Rightarrow> ('d, 'a) io_state_scheme \<Rightarrow> ('d, 'a) io_state_scheme" where
  "mmio_write32 hw a v s = (case hw_store32 hw a v (dev s, mem s) of (d, m) \<Rightarrow> s\<lparr>dev := d, mem := m\<rparr>)"

definition dma_tick :: "'d hardware \<Rightarrow> ('d, 'a) io_state_scheme \<Rightarrow> ('d, 'a) io_state_scheme" where
  "dma_tick hw s = (case hw_tick hw (dev s, mem s) of (d, m) \<Rightarrow> s\<lparr>dev := d, mem := m\<rparr>)"

subsection \<open>Registering handlers (idt.c)\<close>

abbreviation IRQ_HANDLER_COUNT :: nat where "IRQ_HANDLER_COUNT \<equiv> 16"

definition idt_set_irq_handler :: "u8 \<Rightarrow> irq_handler \<Rightarrow> ('d, 'a) io_state_scheme \<Rightarrow> ('d, 'a) io_state_scheme" where
  "idt_set_irq_handler irq handler s =
     (if unat irq < IRQ_HANDLER_COUNT then s\<lparr>irq_handlers := (irq_handlers s)[unat irq := Some handler]\<rparr> else s)"

end
