(* ===== verification/Timer.thy ===== *)
theory Timer
  imports Ioport
begin

section \<open>Interrupt controller and timer (kernel/src/timer.c)\<close>

text \<open>
  The 8259 interrupt controllers and the 8253 timer as sequences of port writes, and the tick
  handler. The only callback the kernel installs is \<open>schedule\<close>; \<open>None\<close> is the null pointer.
\<close>

abbreviation PIC1_COMMAND :: u16 where "PIC1_COMMAND \<equiv> 0x20"
abbreviation PIC1_DATA :: u16 where "PIC1_DATA \<equiv> 0x21"
abbreviation PIC2_COMMAND :: u16 where "PIC2_COMMAND \<equiv> 0xA0"
abbreviation PIC2_DATA :: u16 where "PIC2_DATA \<equiv> 0xA1"
abbreviation PIC_EOI :: u8 where "PIC_EOI \<equiv> 0x20"
abbreviation ICW1_INIT :: u8 where "ICW1_INIT \<equiv> 0x10"
abbreviation ICW1_ICW4 :: u8 where "ICW1_ICW4 \<equiv> 0x01"
abbreviation ICW4_8086 :: u8 where "ICW4_8086 \<equiv> 0x01"
abbreviation PIT_CHANNEL0 :: u16 where "PIT_CHANNEL0 \<equiv> 0x40"
abbreviation PIT_COMMAND :: u16 where "PIT_COMMAND \<equiv> 0x43"
abbreviation PIT_FREQUENCY_HZ :: u32 where "PIT_FREQUENCY_HZ \<equiv> 1193182"
abbreviation TIMER_IRQ_VECTOR :: u8 where "TIMER_IRQ_VECTOR \<equiv> 32"

datatype tick_callback = Tick_Schedule

record 'd timer_state = "'d io_state" +
  tick_count :: u64
  tick_callback :: "tick_callback option"

definition pic_remap :: "'d hardware \<Rightarrow> u8 \<Rightarrow> u8 \<Rightarrow> ('d, 'a) io_state_scheme \<Rightarrow> ('d, 'a) io_state_scheme" where
  "pic_remap hw offset1 offset2 s =
     (let s = io_wait hw (outb hw PIC1_COMMAND (ICW1_INIT OR ICW1_ICW4) s);
          s = io_wait hw (outb hw PIC2_COMMAND (ICW1_INIT OR ICW1_ICW4) s);
          s = io_wait hw (outb hw PIC1_DATA offset1 s);
          s = io_wait hw (outb hw PIC2_DATA offset2 s);
          s = io_wait hw (outb hw PIC1_DATA 4 s);
          s = io_wait hw (outb hw PIC2_DATA 2 s);
          s = io_wait hw (outb hw PIC1_DATA ICW4_8086 s);
          s = io_wait hw (outb hw PIC2_DATA ICW4_8086 s);
          s = outb hw PIC1_DATA 0xFF s
      in outb hw PIC2_DATA 0xFF s)"

definition pic_send_eoi :: "'d hardware \<Rightarrow> u8 \<Rightarrow> ('d, 'a) io_state_scheme \<Rightarrow> ('d, 'a) io_state_scheme" where
  "pic_send_eoi hw irq s =
     (let s = (if irq \<ge> 8 then outb hw PIC2_COMMAND PIC_EOI s else s)
      in outb hw PIC1_COMMAND PIC_EOI s)"

definition pic_unmask_irq :: "'d hardware \<Rightarrow> u8 \<Rightarrow> ('d, 'a) io_state_scheme \<Rightarrow> ('d, 'a) io_state_scheme" where
  "pic_unmask_irq hw irq s =
     (let port = (if irq < 8 then PIC1_DATA else PIC2_DATA);
          line = (if irq < 8 then irq else irq - 8);
          (mask, s) = inb hw port s
      in outb hw port (mask AND NOT (push_bit (unat line) 1)) s)"

definition pit_divisor :: "u32 \<Rightarrow> u16" where
  "pit_divisor hz = ucast (PIT_FREQUENCY_HZ div hz)"

definition pit_set_frequency :: "'d hardware \<Rightarrow> u32 \<Rightarrow> ('d, 'a) io_state_scheme \<Rightarrow> ('d, 'a) io_state_scheme res" where
  "pit_set_frequency hw hz s =
     (if hz = 0 then Inl (Undefined ''division by zero'')
      else
        let divisor = pit_divisor hz;
            s = outb hw PIT_COMMAND 0x36 s;
            s = outb hw PIT_CHANNEL0 (ucast (divisor AND 0xFF)) s
        in Inr (outb hw PIT_CHANNEL0 (ucast (drop_bit 8 divisor AND 0xFF)) s))"

definition timer_irq_handler :: "'d hardware \<Rightarrow> ('d, 'a) timer_state_scheme \<Rightarrow> ('d, 'a) timer_state_scheme res" where
  "timer_irq_handler hw s =
     (let s = s\<lparr>tick_count := tick_count s + 1\<rparr>;
          s = pic_send_eoi hw 0 s
      in case tick_callback s of
           None \<Rightarrow> Inr s
         | Some Tick_Schedule \<Rightarrow> rbind (schedule s) (\<lambda>(switched, s). Inr s))"

definition timer_init :: "'d hardware \<Rightarrow> u32 \<Rightarrow> ('d, 'a) timer_state_scheme \<Rightarrow> ('d, 'a) timer_state_scheme res" where
  "timer_init hw hz s =
     (let s = pic_remap hw TIMER_IRQ_VECTOR (TIMER_IRQ_VECTOR + 8) s in
      rbind (pit_set_frequency hw hz s) (\<lambda>s.
      let s = idt_set_irq_handler 0 Timer_Irq s;
          s = pic_unmask_irq hw 0 s
      in Inr (s\<lparr>rflags_if := True\<rparr>)))"

definition timer_ticks :: "('d, 'a) timer_state_scheme \<Rightarrow> u64" where
  "timer_ticks s = tick_count s"

definition timer_set_tick_callback ::
  "tick_callback option \<Rightarrow> ('d, 'a) timer_state_scheme \<Rightarrow> ('d, 'a) timer_state_scheme" where
  "timer_set_tick_callback callback s = s\<lparr>tick_callback := callback\<rparr>"

end
