(* ===== verification/Console.thy ===== *)
theory Console
  imports Timer
begin

section \<open>Serial output and formatted printing (common/src/serial.c, kernel/src/kprintf.c)\<close>

text \<open>
  The serial driver as port accesses, with its busy-wait as a loop that may not end; the formatter as
  a function from a format string and its arguments to the characters given to
  \<open>serial_write_char\<close>. The kernel's own output is collected in \<open>con_out\<close>. An argument of the
  wrong kind, or none where one is read, is undefined, as is the negation of the least 64-bit integer.
\<close>

subsection \<open>The serial port\<close>

abbreviation COM1 :: u16 where "COM1 \<equiv> 0x3F8"

definition serial_init :: "'d hardware \<Rightarrow> ('d, 'a) io_state_scheme \<Rightarrow> ('d, 'a) io_state_scheme" where
  "serial_init hw s =
     (let s = outb hw (COM1 + 1) 0x00 s;
          s = outb hw (COM1 + 3) 0x80 s;
          s = outb hw (COM1 + 0) 0x03 s;
          s = outb hw (COM1 + 1) 0x00 s;
          s = outb hw (COM1 + 3) 0x03 s;
          s = outb hw (COM1 + 2) 0xC7 s
      in outb hw (COM1 + 4) 0x0B s)"

definition transmit_empty :: "'d hardware \<Rightarrow> ('d, 'a) io_state_scheme \<Rightarrow> bool \<times> ('d, 'a) io_state_scheme" where
  "transmit_empty hw s = (case inb hw (COM1 + 5) s of (v, s) \<Rightarrow> (v AND 0x20 \<noteq> 0, s))"

partial_function (option) wait_transmit :: "'d hardware \<Rightarrow> ('d, 'a) io_state_scheme \<Rightarrow> ('d, 'a) io_state_scheme option" where
  "wait_transmit hw s =
     (let r = transmit_empty hw s in if fst r then Some (snd r) else wait_transmit hw (snd r))"

definition serial_write_char :: "'d hardware \<Rightarrow> u8 \<Rightarrow> ('d, 'a) io_state_scheme \<Rightarrow> ('d, 'a) io_state_scheme res" where
  "serial_write_char hw c s =
     (case wait_transmit hw s of
        None \<Rightarrow> Inl Hang
      | Some s \<Rightarrow>
          let s = outb hw COM1 c s in
          if c = 0x0A
          then (case wait_transmit hw s of None \<Rightarrow> Inl Hang | Some s \<Rightarrow> Inr (outb hw COM1 0x0D s))
          else Inr s)"

definition serial_write :: "'d hardware \<Rightarrow> u8 list \<Rightarrow> ('d, 'a) io_state_scheme \<Rightarrow> ('d, 'a) io_state_scheme res" where
  "serial_write hw cs s = rfold (serial_write_char hw) cs s"

subsection \<open>Numbers\<close>

definition lower_digits :: "u8 list" where "lower_digits = cstr ''0123456789abcdef''"
definition upper_digits :: "u8 list" where "upper_digits = cstr ''0123456789ABCDEF''"

text \<open>The digit loop: the free space of the 32-byte buffer, the rest of the number, the digits so far
  in the order they are printed.\<close>

primrec digit_loop :: "nat \<Rightarrow> u8 list \<Rightarrow> u64 \<Rightarrow> u64 \<Rightarrow> u8 list \<Rightarrow> u8 list" where
  "digit_loop 0 digits base v buf = buf"
| "digit_loop (Suc n) digits base v buf =
     (if v > 0 then digit_loop n digits base (v div base) (digits ! unat (v mod base) # buf) else buf)"

definition print_unsigned :: "u64 \<Rightarrow> u64 \<Rightarrow> bool \<Rightarrow> u8 list" where
  "print_unsigned v base uppercase =
     (let digits = (if uppercase then upper_digits else lower_digits)
      in if v = 0 then [0x30] else digit_loop 32 digits base v [])"

definition print_signed :: "i64 \<Rightarrow> u8 list res" where
  "print_signed v =
     (if v <s 0
      then if v = push_bit 63 1 then Inl (Undefined ''negation of INT64_MIN'')
        else Inr (0x2D # print_unsigned (- v) 10 False)
      else Inr (print_unsigned v 10 False))"

subsection \<open>\<open>kvprintf\<close>\<close>

text \<open>An argument of the variable part: a string pointer (\<open>None\<close> for NULL) or an integer.\<close>

datatype karg = KStr "u8 list option" | KInt u64

definition kv_conv :: "bool \<Rightarrow> u8 \<Rightarrow> karg list \<Rightarrow> (u8 list \<times> karg list) res" where
  "kv_conv is_long c args =
     (if c = 0x73 then
        (case args of KStr p # args \<Rightarrow> Inr (case p of None \<Rightarrow> cstr ''(null)'' | Some cs \<Rightarrow> cs, args)
         | _ \<Rightarrow> Inl (Undefined ''va_arg''))
      else if c = 0x63 then
        (case args of KInt v # args \<Rightarrow> Inr ([ucast v], args) | _ \<Rightarrow> Inl (Undefined ''va_arg''))
      else if c = 0x64 then
        (case args of KInt v # args \<Rightarrow>
           rbind (print_signed (if is_long then v else scast (ucast v :: 32 word))) (\<lambda>out. Inr (out, args))
         | _ \<Rightarrow> Inl (Undefined ''va_arg''))
      else if c = 0x75 then
        (case args of KInt v # args \<Rightarrow>
           Inr (print_unsigned (if is_long then v else ucast (ucast v :: 32 word)) 10 False, args)
         | _ \<Rightarrow> Inl (Undefined ''va_arg''))
      else if c = 0x78 then
        (case args of KInt v # args \<Rightarrow>
           Inr (print_unsigned (if is_long then v else ucast (ucast v :: 32 word)) 16 False, args)
         | _ \<Rightarrow> Inl (Undefined ''va_arg''))
      else if c = 0x70 then
        (case args of KInt v # args \<Rightarrow> Inr (cstr ''0x'' @ print_unsigned v 16 False, args)
         | _ \<Rightarrow> Inl (Undefined ''va_arg''))
      else if c = 0x25 then Inr ([0x25], args)
      else Inr ([0x25, c], args))"

fun kv_format :: "u8 list \<Rightarrow> karg list \<Rightarrow> u8 list res" where
  "kv_format [] args = Inr []"
| "kv_format (c # p) args =
     (if c \<noteq> 0x25 then rbind (kv_format p args) (\<lambda>out. Inr (c # out))
      else
        (case p of
           [] \<Rightarrow> Inr []
         | d # q \<Rightarrow>
             if d = 0x6C
             then (case q of
                 [] \<Rightarrow> Inr []
               | e # q' \<Rightarrow> rbind (kv_conv True e args) (\<lambda>(out, args).
                   rbind (kv_format q' args) (\<lambda>rest. Inr (out @ rest))))
             else rbind (kv_conv False d args) (\<lambda>(out, args).
                 rbind (kv_format q args) (\<lambda>rest. Inr (out @ rest)))))"

record 'd con_state = "'d timer_state" +
  con_out :: "u8 list"
  serial_lock :: spinlock_t

definition kvprintf :: "u8 list \<Rightarrow> karg list \<Rightarrow> ('d, 'a) con_state_scheme \<Rightarrow> ('d, 'a) con_state_scheme res" where
  "kvprintf fmt args s =
     rbind (spinlock_acquire (serial_lock s)) (\<lambda>l.
     let s = s\<lparr>serial_lock := l\<rparr> in
     rbind (kv_format fmt args) (\<lambda>out.
     let s = s\<lparr>con_out := con_out s @ out\<rparr>
     in Inr (s\<lparr>serial_lock := spinlock_release (serial_lock s)\<rparr>)))"

definition kprintf :: "string \<Rightarrow> karg list \<Rightarrow> ('d, 'a) con_state_scheme \<Rightarrow> ('d, 'a) con_state_scheme res" where
  "kprintf fmt args s = kvprintf (cstr fmt) args s"

end
