(* ===== verification/Framebuffer.thy ===== *)
theory Framebuffer
  imports Console
begin

section \<open>The framebuffer (kernel/src/framebuffer.c, kernel/src/font8x8.c)\<close>

text \<open>
  Pixels are 32-bit words of memory at the address the firmware gave; text is drawn from a table of
  8 by 8 glyphs. The colour shifts are those of \<open>boot_framebuffer_t\<close>, below 32 as the boot loader
  sets them.
\<close>

subsection \<open>Glyphs\<close>

definition glyph_fallback :: "u8 list" where
  "glyph_fallback = [0xFF, 0x81, 0x81, 0x81, 0x81, 0x81, 0xFF, 0x00]"

definition font_table :: "(u8 \<times> u8 list) list" where
  "font_table = [
     (0x20, [0x00, 0x00, 0x00, 0x00, 0x00, 0x00, 0x00, 0x00]),
     (0x21, [0x18, 0x18, 0x18, 0x18, 0x18, 0x00, 0x18, 0x00]),
     (0x22, [0x24, 0x24, 0x00, 0x00, 0x00, 0x00, 0x00, 0x00]),
     (0x27, [0x18, 0x18, 0x00, 0x00, 0x00, 0x00, 0x00, 0x00]),
     (0x28, [0x18, 0x20, 0x40, 0x40, 0x40, 0x20, 0x18, 0x00]),
     (0x29, [0x18, 0x04, 0x02, 0x02, 0x02, 0x04, 0x18, 0x00]),
     (0x2B, [0x00, 0x18, 0x18, 0x7E, 0x18, 0x18, 0x00, 0x00]),
     (0x2C, [0x00, 0x00, 0x00, 0x00, 0x00, 0x18, 0x10, 0x20]),
     (0x2D, [0x00, 0x00, 0x00, 0x3C, 0x00, 0x00, 0x00, 0x00]),
     (0x2E, [0x00, 0x00, 0x00, 0x00, 0x00, 0x00, 0x18, 0x00]),
     (0x2F, [0x01, 0x02, 0x04, 0x08, 0x10, 0x20, 0x40, 0x00]),
     (0x30, [0x7E, 0x83, 0x85, 0x89, 0x91, 0xC1, 0x7E, 0x00]),
     (0x31, [0x10, 0x30, 0x10, 0x10, 0x10, 0x10, 0x7E, 0x00]),
     (0x32, [0x7E, 0x81, 0x01, 0x3E, 0x40, 0x80, 0xFF, 0x00]),
     (0x33, [0xFE, 0x02, 0x02, 0x7C, 0x02, 0x02, 0xFE, 0x00]),
     (0x34, [0x08, 0x18, 0x28, 0x48, 0xFF, 0x08, 0x08, 0x00]),
     (0x35, [0xFF, 0x80, 0x80, 0xFE, 0x01, 0x01, 0xFE, 0x00]),
     (0x36, [0x3E, 0x40, 0x80, 0xFE, 0x81, 0x81, 0x7E, 0x00]),
     (0x37, [0xFF, 0x01, 0x02, 0x04, 0x08, 0x08, 0x08, 0x00]),
     (0x38, [0x7E, 0x81, 0x81, 0x7E, 0x81, 0x81, 0x7E, 0x00]),
     (0x39, [0x7E, 0x81, 0x81, 0x7F, 0x01, 0x02, 0x7C, 0x00]),
     (0x3A, [0x00, 0x18, 0x18, 0x00, 0x18, 0x18, 0x00, 0x00]),
     (0x3B, [0x00, 0x18, 0x18, 0x00, 0x18, 0x10, 0x20, 0x00]),
     (0x3D, [0x00, 0x00, 0x7E, 0x00, 0x7E, 0x00, 0x00, 0x00]),
     (0x3F, [0x7E, 0x81, 0x02, 0x04, 0x08, 0x00, 0x08, 0x00]),
     (0x41, [0x3C, 0x42, 0x81, 0x81, 0xFF, 0x81, 0x81, 0x00]),
     (0x42, [0xFE, 0x81, 0x81, 0xFE, 0x81, 0x81, 0xFE, 0x00]),
     (0x43, [0x7E, 0x81, 0x80, 0x80, 0x80, 0x81, 0x7E, 0x00]),
     (0x44, [0xFC, 0x82, 0x81, 0x81, 0x81, 0x82, 0xFC, 0x00]),
     (0x45, [0xFF, 0x80, 0x80, 0xFC, 0x80, 0x80, 0xFF, 0x00]),
     (0x46, [0xFF, 0x80, 0x80, 0xFC, 0x80, 0x80, 0x80, 0x00]),
     (0x47, [0x7E, 0x81, 0x80, 0x9F, 0x81, 0x81, 0x7E, 0x00]),
     (0x48, [0x81, 0x81, 0x81, 0xFF, 0x81, 0x81, 0x81, 0x00]),
     (0x49, [0xFF, 0x18, 0x18, 0x18, 0x18, 0x18, 0xFF, 0x00]),
     (0x4A, [0xFF, 0x04, 0x04, 0x04, 0x84, 0x84, 0x78, 0x00]),
     (0x4B, [0x81, 0x82, 0x84, 0xF8, 0x84, 0x82, 0x81, 0x00]),
     (0x4C, [0x80, 0x80, 0x80, 0x80, 0x80, 0x80, 0xFF, 0x00]),
     (0x4D, [0x81, 0xC3, 0xA5, 0x99, 0x81, 0x81, 0x81, 0x00]),
     (0x4E, [0x81, 0xC1, 0xA1, 0x91, 0x89, 0x85, 0x83, 0x00]),
     (0x4F, [0x7E, 0x81, 0x81, 0x81, 0x81, 0x81, 0x7E, 0x00]),
     (0x50, [0xFE, 0x81, 0x81, 0xFE, 0x80, 0x80, 0x80, 0x00]),
     (0x51, [0x7E, 0x81, 0x81, 0x81, 0x85, 0x82, 0x7D, 0x00]),
     (0x52, [0xFE, 0x81, 0x81, 0xFE, 0x84, 0x82, 0x81, 0x00]),
     (0x53, [0x7E, 0x80, 0x80, 0x7E, 0x01, 0x01, 0x7E, 0x00]),
     (0x54, [0xFF, 0x18, 0x18, 0x18, 0x18, 0x18, 0x18, 0x00]),
     (0x55, [0x81, 0x81, 0x81, 0x81, 0x81, 0x81, 0x7E, 0x00]),
     (0x56, [0x81, 0x81, 0x81, 0x81, 0x42, 0x42, 0x3C, 0x00]),
     (0x57, [0x81, 0x81, 0x81, 0x99, 0xA5, 0xC3, 0x81, 0x00]),
     (0x58, [0x81, 0x42, 0x24, 0x18, 0x18, 0x24, 0x42, 0x00]),
     (0x59, [0x81, 0x42, 0x24, 0x18, 0x18, 0x18, 0x18, 0x00]),
     (0x5A, [0xFF, 0x02, 0x04, 0x08, 0x10, 0x20, 0xFF, 0x00]),
     (0x5F, [0x00, 0x00, 0x00, 0x00, 0x00, 0x00, 0xFF, 0x00])]"

definition font8x8_get_glyph :: "u8 \<Rightarrow> u8 list" where
  "font8x8_get_glyph c =
     (let c = (if 0x61 \<le> c \<and> c \<le> 0x7A then c - 32 else c)
      in case map_of font_table c of Some rows \<Rightarrow> rows | None \<Rightarrow> glyph_fallback)"

subsection \<open>Pixels\<close>

record 'd fb_state = "'d con_state" +
  g_fb :: boot_framebuffer

definition fb_init :: "boot_framebuffer \<Rightarrow> ('d, 'a) fb_state_scheme \<Rightarrow> ('d, 'a) fb_state_scheme" where
  "fb_init fb s = s\<lparr>g_fb := fb\<rparr>"

definition fb_get_info :: "('d, 'a) fb_state_scheme \<Rightarrow> boot_framebuffer" where
  "fb_get_info s = g_fb s"

definition pack_color :: "boot_framebuffer \<Rightarrow> u32 \<Rightarrow> u32" where
  "pack_color fb rgb =
     (let r = ucast (drop_bit 16 rgb AND 0xFF) :: u8;
          g = ucast (drop_bit 8 rgb AND 0xFF) :: u8;
          b = ucast (rgb AND 0xFF) :: u8
      in push_bit (unat (red_shift fb)) (ucast r) OR push_bit (unat (green_shift fb)) (ucast g) OR
         push_bit (unat (blue_shift fb)) (ucast b))"

definition pixel_addr :: "boot_framebuffer \<Rightarrow> u32 \<Rightarrow> u32 \<Rightarrow> u64" where
  "pixel_addr fb x y =
     fb_base fb + ucast y * ucast (pixels_per_scanline fb) * ucast (bytes_per_pixel fb) + 4 * ucast x"

definition put_pixel :: "boot_framebuffer \<Rightarrow> u32 \<Rightarrow> u32 \<Rightarrow> u32 \<Rightarrow> mem \<Rightarrow> mem" where
  "put_pixel fb x y native_color m =
     (if x \<ge> fb_width fb \<or> y \<ge> fb_height fb then m
      else store_le 4 native_color (pixel_addr fb x y) m)"

definition fb_clear :: "u32 \<Rightarrow> ('d, 'a) fb_state_scheme \<Rightarrow> ('d, 'a) fb_state_scheme" where
  "fb_clear rgb s =
     (let native = pack_color (g_fb s) rgb
      in s\<lparr>mem := fold (\<lambda>y. fold (\<lambda>x. put_pixel (g_fb s) (of_nat x) (of_nat y) native)
                      [0..<unat (fb_width (g_fb s))]) [0..<unat (fb_height (g_fb s))] (mem s)\<rparr>)"

definition fb_putc :: "u32 \<Rightarrow> u32 \<Rightarrow> u8 \<Rightarrow> u32 \<Rightarrow> u32 \<Rightarrow> ('d, 'a) fb_state_scheme \<Rightarrow> ('d, 'a) fb_state_scheme" where
  "fb_putc x y c fg_rgb bg_rgb s =
     (let glyph = font8x8_get_glyph c;
          fg = pack_color (g_fb s) fg_rgb;
          bg = pack_color (g_fb s) bg_rgb
      in s\<lparr>mem := fold (\<lambda>row. fold (\<lambda>col.
              put_pixel (g_fb s) (x + of_nat col) (y + of_nat row)
                (if glyph ! row AND drop_bit col 0x80 \<noteq> 0 then fg else bg)) [0..<8]) [0..<8] (mem s)\<rparr>)"

primrec fb_puts_loop :: "u32 \<Rightarrow> u32 \<Rightarrow> u8 list \<Rightarrow> u32 \<Rightarrow> u32 \<Rightarrow> ('d, 'a) fb_state_scheme \<Rightarrow> ('d, 'a) fb_state_scheme" where
  "fb_puts_loop cursor_x y [] fg_rgb bg_rgb s = s"
| "fb_puts_loop cursor_x y (c # p) fg_rgb bg_rgb s =
     fb_puts_loop (cursor_x + 8) y p fg_rgb bg_rgb (fb_putc cursor_x y c fg_rgb bg_rgb s)"

definition fb_puts :: "u32 \<Rightarrow> u32 \<Rightarrow> u8 list \<Rightarrow> u32 \<Rightarrow> u32 \<Rightarrow> ('d, 'a) fb_state_scheme \<Rightarrow> ('d, 'a) fb_state_scheme" where
  "fb_puts x y p fg_rgb bg_rgb s = fb_puts_loop x y p fg_rgb bg_rgb s"

definition fb_pack_color :: "u32 \<Rightarrow> ('d, 'a) fb_state_scheme \<Rightarrow> u32" where
  "fb_pack_color rgb s = pack_color (g_fb s) rgb"

definition fb_read_pixel :: "u32 \<Rightarrow> u32 \<Rightarrow> ('d, 'a) fb_state_scheme \<Rightarrow> u32" where
  "fb_read_pixel x y s =
     (if x \<ge> fb_width (g_fb s) \<or> y \<ge> fb_height (g_fb s) then 0
      else load32 (mem s) (pixel_addr (g_fb s) x y))"

end
