(* ===== verification/Keyboard.thy ===== *)
theory Keyboard
  imports Framebuffer
begin

section \<open>The keyboard driver (kernel/src/keyboard.c)\<close>

text \<open>
  A ring of 64 bytes with head and tail indices, filled by the interrupt handler and drained by
  \<open>keyboard_read_char\<close>. The last two functions end with \<open>sti\<close>, whatever the interrupt flag was.
\<close>

abbreviation KEYBOARD_IRQ :: u8 where "KEYBOARD_IRQ \<equiv> 1"
abbreviation KEYBOARD_DATA_PORT :: u16 where "KEYBOARD_DATA_PORT \<equiv> 0x60"
abbreviation KEYBOARD_BUFFER_SIZE :: u32 where "KEYBOARD_BUFFER_SIZE \<equiv> 64"

definition scancode_to_ascii :: "u8 list" where
  "scancode_to_ascii =
     [0, 0] @ cstr ''1234567890-='' @ [8] @
     [9] @ cstr ''qwertyuiop[]'' @ [10] @
     [0] @ cstr ''asdfghjkl;'' @ [39, 96] @
     [0] @ [92] @ cstr ''zxcvbnm,./'' @
     [0] @ cstr ''*'' @ [0] @ cstr '' ''"

record ring =
  buffer :: "u8 list"
  buf_head :: u32
  buf_tail :: u32

definition buffer_push :: "u8 \<Rightarrow> ring \<Rightarrow> ring" where
  "buffer_push c r =
     (let next = (buf_head r + 1) mod KEYBOARD_BUFFER_SIZE in
      if next = buf_tail r then r
      else r\<lparr>buffer := (buffer r)[unat (buf_head r) := c], buf_head := next\<rparr>)"

definition buffer_pop :: "ring \<Rightarrow> int \<times> ring" where
  "buffer_pop r =
     (if buf_tail r \<noteq> buf_head r
      then (uint (buffer r ! unat (buf_tail r)), r\<lparr>buf_tail := (buf_tail r + 1) mod KEYBOARD_BUFFER_SIZE\<rparr>)
      else (-1, r))"

record 'd kbd_state = "'d fb_state" +
  kbd :: ring

text \<open>The effect of a scan code on the ring.\<close>

definition scancode_push :: "u8 \<Rightarrow> ring \<Rightarrow> ring" where
  "scancode_push scancode r =
     (if scancode AND 0x80 \<noteq> 0 then r
      else if unat scancode < length scancode_to_ascii
      then let c = scancode_to_ascii ! unat scancode in if c \<noteq> 0 then buffer_push c r else r
      else r)"

definition keyboard_irq_handler :: "'d hardware \<Rightarrow> ('d, 'a) kbd_state_scheme \<Rightarrow> ('d, 'a) kbd_state_scheme" where
  "keyboard_irq_handler hw s =
     (let (scancode, s) = inb hw KEYBOARD_DATA_PORT s;
          s = pic_send_eoi hw KEYBOARD_IRQ s
      in s\<lparr>kbd := scancode_push scancode (kbd s)\<rparr>)"

definition keyboard_init :: "'d hardware \<Rightarrow> ('d, 'a) kbd_state_scheme \<Rightarrow> ('d, 'a) kbd_state_scheme" where
  "keyboard_init hw s = pic_unmask_irq hw KEYBOARD_IRQ (idt_set_irq_handler KEYBOARD_IRQ Keyboard_Irq s)"

definition keyboard_read_char :: "('d, 'a) kbd_state_scheme \<Rightarrow> int \<times> ('d, 'a) kbd_state_scheme" where
  "keyboard_read_char s =
     (let s = s\<lparr>rflags_if := False\<rparr>;
          (result, r) = buffer_pop (kbd s);
          s = s\<lparr>kbd := r\<rparr>
      in (result, s\<lparr>rflags_if := True\<rparr>))"

definition keyboard_inject_char :: "u8 \<Rightarrow> ('d, 'a) kbd_state_scheme \<Rightarrow> ('d, 'a) kbd_state_scheme" where
  "keyboard_inject_char c s =
     (let s = s\<lparr>rflags_if := False\<rparr>;
          s = s\<lparr>kbd := buffer_push c (kbd s)\<rparr>
      in s\<lparr>rflags_if := True\<rparr>)"

end
