(* ===== verification/Mouse.thy ===== *)
theory Mouse
  imports Keyboard
begin

section \<open>The mouse driver (kernel/src/mouse.c)\<close>

text \<open>
  The three-byte packets of a PS/2 mouse, collected one byte per interrupt, move a position that is
  clamped to the screen. Positions are C's 32-bit signed integers. The two waits of the controller
  handshake give up after \<open>PS2_WAIT_SPIN_LIMIT\<close> polls, so they are bounded loops.
\<close>

abbreviation PS2_DATA :: u16 where "PS2_DATA \<equiv> 0x60"
abbreviation PS2_STATUS :: u16 where "PS2_STATUS \<equiv> 0x64"
abbreviation PS2_CMD :: u16 where "PS2_CMD \<equiv> 0x64"
abbreviation PS2_STATUS_OUT_FULL :: u8 where "PS2_STATUS_OUT_FULL \<equiv> 1"
abbreviation PS2_STATUS_IN_FULL :: u8 where "PS2_STATUS_IN_FULL \<equiv> 2"
abbreviation MOUSE_IRQ :: u8 where "MOUSE_IRQ \<equiv> 12"
abbreviation PACKET_LEFT_BTN :: u8 where "PACKET_LEFT_BTN \<equiv> 0x01"
abbreviation PACKET_RIGHT_BTN :: u8 where "PACKET_RIGHT_BTN \<equiv> 0x02"
abbreviation PACKET_MIDDLE_BTN :: u8 where "PACKET_MIDDLE_BTN \<equiv> 0x04"
abbreviation PACKET_ALWAYS_ONE :: u8 where "PACKET_ALWAYS_ONE \<equiv> 8"
abbreviation PACKET_X_SIGN :: u8 where "PACKET_X_SIGN \<equiv> 16"
abbreviation PACKET_Y_SIGN :: u8 where "PACKET_Y_SIGN \<equiv> 32"
abbreviation PS2_WAIT_SPIN_LIMIT :: nat where "PS2_WAIT_SPIN_LIMIT \<equiv> 1000000"

record mouse =
  mouse_x :: i32
  mouse_y :: i32
  mouse_buttons :: u8
  packet :: "u8 list"
  packet_index :: u32

record 'd mouse_state = "'d kbd_state" +
  mouse :: mouse

subsection \<open>The controller\<close>

primrec ps2_wait :: "'d hardware \<Rightarrow> (u8 \<Rightarrow> bool) \<Rightarrow> nat \<Rightarrow> ('d, 'a) io_state_scheme \<Rightarrow> ('d, 'a) io_state_scheme" where
  "ps2_wait hw busy 0 s = s"
| "ps2_wait hw busy (Suc n) s =
     (case inb hw PS2_STATUS s of (status, s) \<Rightarrow> if busy status then ps2_wait hw busy n s else s)"

definition wait_input_clear :: "'d hardware \<Rightarrow> ('d, 'a) io_state_scheme \<Rightarrow> ('d, 'a) io_state_scheme" where
  "wait_input_clear hw s = ps2_wait hw (\<lambda>status. status AND PS2_STATUS_IN_FULL \<noteq> 0) (Suc PS2_WAIT_SPIN_LIMIT) s"

definition wait_output_full :: "'d hardware \<Rightarrow> ('d, 'a) io_state_scheme \<Rightarrow> ('d, 'a) io_state_scheme" where
  "wait_output_full hw s = ps2_wait hw (\<lambda>status. status AND PS2_STATUS_OUT_FULL = 0) (Suc PS2_WAIT_SPIN_LIMIT) s"

definition ps2_write_command :: "'d hardware \<Rightarrow> u8 \<Rightarrow> ('d, 'a) io_state_scheme \<Rightarrow> ('d, 'a) io_state_scheme" where
  "ps2_write_command hw cmd s = outb hw PS2_CMD cmd (wait_input_clear hw s)"

definition ps2_write_data :: "'d hardware \<Rightarrow> u8 \<Rightarrow> ('d, 'a) io_state_scheme \<Rightarrow> ('d, 'a) io_state_scheme" where
  "ps2_write_data hw data s = outb hw PS2_DATA data (wait_input_clear hw s)"

definition ps2_read_data :: "'d hardware \<Rightarrow> ('d, 'a) io_state_scheme \<Rightarrow> u8 \<times> ('d, 'a) io_state_scheme" where
  "ps2_read_data hw s = inb hw PS2_DATA (wait_output_full hw s)"

definition mouse_write :: "'d hardware \<Rightarrow> u8 \<Rightarrow> ('d, 'a) io_state_scheme \<Rightarrow> ('d, 'a) io_state_scheme" where
  "mouse_write hw data s = ps2_write_data hw data (ps2_write_command hw 0xD4 s)"

subsection \<open>Packets\<close>

definition clamp_low :: "i32 \<Rightarrow> i32" where
  "clamp_low v = (if v <s 0 then 0 else v)"

definition clamp_high :: "u32 \<Rightarrow> i32 \<Rightarrow> i32" where
  "clamp_high bound v = (if bound > 0 \<and> bound \<le>s v then bound - 1 else v)"

text \<open>One byte of the stream.\<close>

definition mouse_byte :: "boot_framebuffer \<Rightarrow> u8 \<Rightarrow> mouse \<Rightarrow> mouse res" where
  "mouse_byte fb data m =
     (if packet_index m \<ge> 3 then Inl (Undefined ''packet index out of bounds'')
      else
        let m = m\<lparr>packet := (packet m)[unat (packet_index m) := data], packet_index := packet_index m + 1\<rparr> in
        if packet_index m < 3 then Inr m
        else
          let m = m\<lparr>packet_index := 0\<rparr>;
              flags = packet m ! 0
          in if flags AND PACKET_ALWAYS_ONE = 0 then Inr m
             else
               let dx = ucast (packet m ! 1);
                   dy = ucast (packet m ! 2);
                   dx = (if flags AND PACKET_X_SIGN \<noteq> 0 then dx - 256 else dx);
                   dy = (if flags AND PACKET_Y_SIGN \<noteq> 0 then dy - 256 else dy);
                   m = m\<lparr>mouse_buttons := flags AND (PACKET_LEFT_BTN OR PACKET_RIGHT_BTN OR PACKET_MIDDLE_BTN)\<rparr>;
                   m = m\<lparr>mouse_x := mouse_x m + dx\<rparr>;
                   m = m\<lparr>mouse_y := mouse_y m - dy\<rparr>;
                   m = m\<lparr>mouse_x := clamp_low (mouse_x m)\<rparr>;
                   m = m\<lparr>mouse_y := clamp_low (mouse_y m)\<rparr>;
                   m = m\<lparr>mouse_x := clamp_high (fb_width fb) (mouse_x m)\<rparr>
               in Inr (m\<lparr>mouse_y := clamp_high (fb_height fb) (mouse_y m)\<rparr>))"

definition mouse_irq_handler :: "'d hardware \<Rightarrow> ('d, 'a) mouse_state_scheme \<Rightarrow> ('d, 'a) mouse_state_scheme res" where
  "mouse_irq_handler hw s =
     (let (data, s) = inb hw PS2_DATA s;
          s = pic_send_eoi hw MOUSE_IRQ s
      in rbind (mouse_byte (fb_get_info s) data (mouse s)) (\<lambda>m. Inr (s\<lparr>mouse := m\<rparr>)))"

definition mouse_init :: "'d hardware \<Rightarrow> ('d, 'a) mouse_state_scheme \<Rightarrow> ('d, 'a) mouse_state_scheme" where
  "mouse_init hw s =
     (let s = s\<lparr>rflags_if := False\<rparr>;
          s = ps2_write_command hw 0xA8 s;
          s = ps2_write_command hw 0x20 s;
          (config, s) = ps2_read_data hw s;
          config = config OR 2;
          config = config AND NOT 32;
          s = ps2_write_command hw 0x60 s;
          s = ps2_write_data hw config s;
          s = mouse_write hw 0xF6 s;
          (ack, s) = ps2_read_data hw s;
          s = mouse_write hw 0xF4 s;
          (ack, s) = ps2_read_data hw s;
          s = s\<lparr>mouse := (mouse s)\<lparr>mouse_x := 0, mouse_y := 0, mouse_buttons := 0, packet_index := 0\<rparr>\<rparr>;
          s = idt_set_irq_handler MOUSE_IRQ Mouse_Irq s;
          s = pic_unmask_irq hw MOUSE_IRQ s;
          s = pic_unmask_irq hw 2 s
      in s\<lparr>rflags_if := True\<rparr>)"

definition mouse_get_state :: "('d, 'a) mouse_state_scheme \<Rightarrow> (i32 \<times> i32 \<times> u8) \<times> ('d, 'a) mouse_state_scheme" where
  "mouse_get_state s =
     (let s = s\<lparr>rflags_if := False\<rparr>;
          out = (mouse_x (mouse s), mouse_y (mouse s), mouse_buttons (mouse s))
      in (out, s\<lparr>rflags_if := True\<rparr>))"

end
