(* ===== verification/Mouse_Spec.thy ===== *)
theory Mouse_Spec
  imports Mouse
begin

section \<open>The mouse pointer\<close>

text \<open>
  Signed 32-bit arithmetic of the packet handler, and the invariant that every byte stream keeps.
\<close>

subsection \<open>The pointer stays on the screen\<close>

lemma sint_small: "uint (w :: 32 word) < 2147483648 \<Longrightarrow> sint w = uint w"
  unfolding sint_uint by (rule signed_take_bit_int_eq_self) (use uint_ge_0[of w] in \<open>simp_all, linarith\<close>)

lemma sint_plus_exact:
  fixes a b :: "32 word"
  assumes "-2147483648 \<le> sint a + sint b" "sint a + sint b < 2147483648"
  shows "sint (a + b) = sint a + sint b"
  using assms by (simp add: sint_word_ariths signed_take_bit_int_eq_self)

lemma sint_minus_exact:
  fixes a b :: "32 word"
  assumes "-2147483648 \<le> sint a - sint b" "sint a - sint b < 2147483648"
  shows "sint (a - b) = sint a - sint b"
  using assms by (simp add: sint_word_ariths signed_take_bit_int_eq_self)

lemma sint_byte: "sint (ucast (b :: 8 word) :: 32 word) = uint b"
proof -
  have "uint (ucast b :: 32 word) = uint b" by (simp add: uint_up_ucast is_up)
  then show ?thesis using uint_lt2p[of b] by (subst sint_small) simp_all
qed

definition movement :: "bool \<Rightarrow> u8 \<Rightarrow> i32" where
  "movement negative b = (if negative then ucast b - 256 else ucast b)"

lemma sint_movement: "-256 \<le> sint (movement n b)" "sint (movement n b) < 256"
proof -
  have "sint (256 :: 32 word) = 256" by (subst sint_small) simp_all
  then have "sint (ucast b - 256 :: 32 word) = uint b - 256"
    using uint_lt2p[of b] uint_ge_0[of b] sint_byte[of b] by (subst sint_minus_exact) (simp_all del: uint_ge_0)
  then show "-256 \<le> sint (movement n b)" "sint (movement n b) < 256"
    using uint_lt2p[of b] order_trans[OF _ uint_ge_0[of b], of "-256"] by (auto simp: movement_def sint_byte)
qed

lemma clamped:
  assumes "0 < uint bound" "uint bound < 1073741824" "-2147483648 \<le> sint v" "sint v < 2147483648"
  shows "sint (clamp_high bound (clamp_low v)) = max 0 (min (sint v) (uint bound - 1))"
proof -
  have b: "sint bound = uint bound" using assms by (simp add: sint_small)
  have "uint (bound - 1) = uint bound - 1" using assms by (simp add: uint_sub_if' split: if_splits)
  then have b1: "sint (bound - 1) = uint bound - 1" using assms by (simp add: sint_small)
  have "0 < bound" using assms by (simp add: word_less_def)
  then show ?thesis using assms b b1 by (auto simp: clamp_high_def clamp_low_def word_sless_alt word_sle_eq)
qed

definition on_screen :: "boot_framebuffer \<Rightarrow> mouse \<Rightarrow> bool" where
  "on_screen fb m \<longleftrightarrow> length (packet m) = 3 \<and> packet_index m < 3 \<and>
     0 \<le> sint (mouse_x m) \<and> sint (mouse_x m) < uint (fb_width fb) \<and>
     0 \<le> sint (mouse_y m) \<and> sint (mouse_y m) < uint (fb_height fb) \<and> uint (mouse_buttons m) < 8"

lemma buttons_bound: "uint (flags AND (PACKET_LEFT_BTN OR PACKET_RIGHT_BTN OR PACKET_MIDDLE_BTN)) < 8"
proof -
  have "flags AND 7 = take_bit 3 flags" by (simp add: take_bit_eq_mask mask_numeral)
  moreover have "uint (take_bit 3 flags) < 8" by (simp add: unsigned_take_bit_eq take_bit_int_less_exp[of 3, simplified])
  ultimately show ?thesis by simp
qed

lemma mouse_byte_on_screen:
  assumes ok: "on_screen fb m" and fb: "uint (fb_width fb) < 1073741824" "uint (fb_height fb) < 1073741824"
  shows "\<exists>m'. mouse_byte fb data m = Inr m' \<and> on_screen fb m'"
proof -
  note o = ok[unfolded on_screen_def]
  let ?p = "(packet m)[unat (packet_index m) := data]"
  let ?f = "?p ! 0"
  let ?x = "mouse_x m + movement (?f AND PACKET_X_SIGN \<noteq> 0) (?p ! 1)" and ?y = "mouse_y m - movement (?f AND PACKET_Y_SIGN \<noteq> 0) (?p ! 2)"
  have x: "sint ?x = sint (mouse_x m) + sint (movement (?f AND PACKET_X_SIGN \<noteq> 0) (?p ! 1))"
    by (rule sint_plus_exact) (use o fb sint_movement[of "?f AND PACKET_X_SIGN \<noteq> 0" "?p ! 1"] in linarith)+
  have y: "sint ?y = sint (mouse_y m) - sint (movement (?f AND PACKET_Y_SIGN \<noteq> 0) (?p ! 2))"
    by (rule sint_minus_exact) (use o fb sint_movement[of "?f AND PACKET_Y_SIGN \<noteq> 0" "?p ! 2"] in linarith)+
  have cx: "sint (clamp_high (fb_width fb) (clamp_low ?x)) = max 0 (min (sint ?x) (uint (fb_width fb) - 1))"
    by (rule clamped) (use o fb x sint_movement[of "?f AND PACKET_X_SIGN \<noteq> 0" "?p ! 1"] in linarith)+
  have cy: "sint (clamp_high (fb_height fb) (clamp_low ?y)) = max 0 (min (sint ?y) (uint (fb_height fb) - 1))"
    by (rule clamped) (use o fb y sint_movement[of "?f AND PACKET_Y_SIGN \<noteq> 0" "?p ! 2"] in linarith)+
  have i: "packet_index m + 1 < 3 \<or> packet_index m = 2"
  proof -
    have n: "unat (packet_index m) < 3" using o by (simp add: word_less_nat_alt)
    then have "unat (packet_index m + 1) = unat (packet_index m) + 1" by (simp add: unat_add_no_wrap)
    then show ?thesis using n by (auto simp: word_less_nat_alt word_unat_eq_iff)
  qed
  show ?thesis
  proof (cases "packet_index m + 1 < 3")
    case True
    then show ?thesis using o by (simp add: mouse_byte_def on_screen_def Let_def not_le)
  next
    case False
    then show ?thesis
      using o i cx cy buttons_bound[of ?f]
      by (simp add: mouse_byte_def on_screen_def Let_def not_le movement_def min_less_iff_disj)
  qed
qed

text \<open>C21. The mouse pointer never leaves the screen: on a screen less than 2^30 pixels wide and high, every
  stream of bytes from the mouse, in step with the three-byte packets or not, is taken by the interrupt
  handler without an access outside the packet buffer, and leaves the pointer inside the screen and only
  the three button bits set.\<close>

theorem mouse_stays_on_screen:
  assumes "on_screen fb m" "uint (fb_width fb) < 1073741824" "uint (fb_height fb) < 1073741824"
  shows "\<exists>m'. rfold (mouse_byte fb) bytes m = Inr m' \<and> on_screen fb m'"
  using assms(1)
proof (induction bytes arbitrary: m)
  case (Cons b bs)
  from mouse_byte_on_screen[OF Cons.prems assms(2,3), of b] obtain m' where "mouse_byte fb b m = Inr m'" "on_screen fb m'" by blast
  then show ?case using Cons.IH[of m'] by simp
qed simp

definition example_fb :: boot_framebuffer where
  "example_fb = \<lparr>fb_base = 0x80000000, fb_size = 0x300000, fb_width = 1024, fb_height = 768, pixels_per_scanline = 1024,
     bytes_per_pixel = 4, red_shift = 16, green_shift = 8, blue_shift = 0\<rparr>"

theorem mouse_stays_on_screen_witness:
  "\<exists>m'. rfold (mouse_byte example_fb) [0x18, 0x00, 0xFF, 0x08, 0xFF] \<lparr>mouse_x = 0, mouse_y = 767, mouse_buttons = 0, packet = [0, 0, 0], packet_index = 0\<rparr> = Inr m' \<and>
     on_screen example_fb m'"
proof (rule mouse_stays_on_screen)
  have "sint (767 :: 32 word) = 767" by (subst sint_small) simp_all
  then show "on_screen example_fb \<lparr>mouse_x = 0, mouse_y = 767, mouse_buttons = 0, packet = [0, 0, 0], packet_index = 0\<rparr>"
    by (simp add: on_screen_def example_fb_def)
qed (simp_all add: example_fb_def)

end
