(* ===== verification/Elf_Loader.thy ===== *)
theory Elf_Loader
  imports Gdt
begin

section \<open>The program loader (kernel/src/elf_loader.c, common/include/elf64.h)\<close>

text \<open>
  Loading an ELF64 image that lies in memory at \<open>elf_data\<close> into the address space rooted at
  \<open>pml4_phys\<close>, building the argument block on the new stack, and growing a stack on a page fault.
  The argument strings, which the source copies into kernel buffers before, are lists of bytes.
\<close>

subsection \<open>Constants (elf_loader.h)\<close>

abbreviation ELF_USER_STACK_TOP :: u64 where "ELF_USER_STACK_TOP \<equiv> 0x8010000000"
abbreviation ELF_USER_STACK_PAGES :: nat where "ELF_USER_STACK_PAGES \<equiv> 1"
abbreviation ELF_USER_STACK_MAX_PAGES :: u64 where "ELF_USER_STACK_MAX_PAGES \<equiv> 64"
abbreviation ELF_ARGV_MAX_ARGS :: nat where "ELF_ARGV_MAX_ARGS \<equiv> 16"
abbreviation ELF_ARGV_MAX_TOTAL_BYTES :: u64 where "ELF_ARGV_MAX_TOTAL_BYTES \<equiv> 3072"
abbreviation PT_LOAD :: u32 where "PT_LOAD \<equiv> 1"
abbreviation PF_X :: u32 where "PF_X \<equiv> 1"
abbreviation PF_W :: u32 where "PF_W \<equiv> 2"
abbreviation EM_X86_64 :: u16 where "EM_X86_64 \<equiv> 62"
abbreviation ELFCLASS64 :: u8 where "ELFCLASS64 \<equiv> 2"
abbreviation SIZEOF_EHDR :: u64 where "SIZEOF_EHDR \<equiv> 64"

subsection \<open>Headers\<close>

record elf64_ehdr =
  e_ident :: "u8 list"
  e_type :: u16
  e_machine :: u16
  e_version :: u32
  e_entry :: u64
  e_phoff :: u64
  e_shoff :: u64
  e_flags :: u32
  e_ehsize :: u16
  e_phentsize :: u16
  e_phnum :: u16
  e_shentsize :: u16
  e_shnum :: u16
  e_shstrndx :: u16

record elf64_phdr =
  p_type :: u32
  p_flags :: u32
  p_offset :: u64
  p_vaddr :: u64
  p_paddr :: u64
  p_filesz :: u64
  p_memsz :: u64
  p_align :: u64

definition ehdr_at :: "mem \<Rightarrow> u64 \<Rightarrow> elf64_ehdr" where
  "ehdr_at m a = \<lparr>e_ident = bytes_at m a 16, e_type = load16 m (a + 16), e_machine = load16 m (a + 18),
     e_version = load32 m (a + 20), e_entry = load64 m (a + 24), e_phoff = load64 m (a + 32),
     e_shoff = load64 m (a + 40), e_flags = load32 m (a + 48), e_ehsize = load16 m (a + 52),
     e_phentsize = load16 m (a + 54), e_phnum = load16 m (a + 56), e_shentsize = load16 m (a + 58),
     e_shnum = load16 m (a + 60), e_shstrndx = load16 m (a + 62)\<rparr>"

definition phdr_at :: "mem \<Rightarrow> u64 \<Rightarrow> elf64_phdr" where
  "phdr_at m a = \<lparr>p_type = load32 m a, p_flags = load32 m (a + 4), p_offset = load64 m (a + 8),
     p_vaddr = load64 m (a + 16), p_paddr = load64 m (a + 24), p_filesz = load64 m (a + 32),
     p_memsz = load64 m (a + 40), p_align = load64 m (a + 48)\<rparr>"

definition elf_magic_ok :: "elf64_ehdr \<Rightarrow> bool" where
  "elf_magic_ok e \<longleftrightarrow> \<not> (e_ident e ! 0 \<noteq> 0x7F \<or> e_ident e ! 1 \<noteq> 0x45 \<or> e_ident e ! 2 \<noteq> 0x4C \<or> e_ident e ! 3 \<noteq> 0x46)"

definition page_align_down :: "u64 \<Rightarrow> u64" where
  "page_align_down x = x AND NOT (PMM_PAGE_SIZE - 1)"

definition page_align_up :: "u64 \<Rightarrow> u64" where
  "page_align_up x = (x + PMM_PAGE_SIZE - 1) AND NOT (PMM_PAGE_SIZE - 1)"

subsection \<open>The argument block\<close>

text \<open>The strings with their NULs go first, then the pointer array; the state of the copying loop is
  the two string cursors and memory.\<close>

definition argv_lengths :: "u8 list list \<Rightarrow> u64 list" where
  "argv_lengths argv = map (\<lambda>a. of_nat (length a) + 1) argv"

fun argv_loop :: "u64 \<Rightarrow> u8 list list \<Rightarrow> u64 \<Rightarrow> u64 \<Rightarrow> mem \<Rightarrow> mem" where
  "argv_loop ptr_slot [] string_dst string_vaddr m = store64 ptr_slot 0 m"
| "argv_loop ptr_slot (a # as) string_dst string_vaddr m =
     (let n = of_nat (length a) + 1;
          m = store_bytes string_dst (a @ [0]) m;
          m = store64 ptr_slot string_vaddr m
      in argv_loop (ptr_slot + 8) as (string_dst + n) (string_vaddr + n) m)"

definition string_area :: "u8 list list \<Rightarrow> u64" where
  "string_area argv = (sum_list (argv_lengths argv) + 7) AND NOT 7"

definition blob_size :: "u8 list list \<Rightarrow> u64" where
  "blob_size argv = string_area argv + (of_nat (length argv) + 1) * 8"

text \<open>The result is the new stack top, the virtual address of the pointer array and memory.\<close>

definition write_argv_blob :: "u64 \<Rightarrow> u64 \<Rightarrow> u8 list list \<Rightarrow> mem \<Rightarrow> (u64 \<times> u64 \<times> mem) res" where
  "write_argv_blob top_page_phys top_page_vaddr argv m =
     (if argv = [] then Inr (ELF_USER_STACK_TOP, 0, m)
      else if length argv > ELF_ARGV_MAX_ARGS then Inl (Panic ''elf_load_user_program: too many arguments'')
      else if blob_size argv > ELF_ARGV_MAX_TOTAL_BYTES then Inl (Panic ''elf_load_user_program: argv too large'')
      else
        let blob_bytes = (blob_size argv + 15) AND NOT 15;
            blob_vaddr = ELF_USER_STACK_TOP - blob_bytes;
            blob_phys = top_page_phys + (blob_vaddr - top_page_vaddr)
        in Inr (blob_vaddr, blob_vaddr + string_area argv,
             argv_loop (blob_phys + string_area argv) argv blob_phys blob_vaddr m))"

subsection \<open>Segments\<close>

definition segment_flags :: "elf64_phdr \<Rightarrow> u32" where
  "segment_flags ph =
     (let f = 0;
          f = (if p_flags ph AND PF_W \<noteq> 0 then f OR VMM_MAP_WRITE else f)
      in if p_flags ph AND PF_X \<noteq> 0 then f OR VMM_MAP_EXEC else f)"

text \<open>What one page takes from the file: destination offset, source offset and length.\<close>

definition page_copy :: "elf64_phdr \<Rightarrow> u64 \<Rightarrow> (u64 \<times> u64 \<times> u64) option" where
  "page_copy ph page_vaddr =
     (let page_end = page_vaddr + PMM_PAGE_SIZE;
          file_start = p_vaddr ph;
          file_end = p_vaddr ph + p_filesz ph;
          copy_start = (if page_vaddr > file_start then page_vaddr else file_start);
          copy_end = (if page_end < file_end then page_end else file_end)
      in if copy_end > copy_start
         then Some (copy_start - page_vaddr, p_offset ph + (copy_start - p_vaddr ph), copy_end - copy_start)
         else None)"

definition load_page ::
  "u64 \<Rightarrow> u64 \<Rightarrow> elf64_phdr \<Rightarrow> nat \<Rightarrow> 'a vmm_state_scheme \<Rightarrow> 'a vmm_state_scheme res" where
  "load_page elf_data pml4_phys ph k s =
     (let page_vaddr = page_align_down (p_vaddr ph) + of_nat k * PMM_PAGE_SIZE in
      rbind (pmm_alloc_page s) (\<lambda>(phys, s).
      if phys = 0 then Inl (Panic ''elf_load_user_program: out of physical memory loading segment'')
      else
        let s = s\<lparr>mem := memset phys 0 PMM_PAGE_SIZE (mem s)\<rparr>;
            s = (case page_copy ph page_vaddr of
                None \<Rightarrow> s
              | Some (dst_offset, file_offset, n) \<Rightarrow>
                  s\<lparr>mem := memcpy (phys + dst_offset) (elf_data + file_offset) n (mem s)\<rparr>)
        in vmm_map_page pml4_phys page_vaddr phys (segment_flags ph) s))"

text \<open>The number of pages the loop over \<open>page_vaddr\<close> visits: both ends are page-aligned.\<close>

definition segment_pages :: "elf64_phdr \<Rightarrow> nat" where
  "segment_pages ph =
     (let seg_start = page_align_down (p_vaddr ph); seg_end = page_align_up (p_vaddr ph + p_memsz ph)
      in if seg_start < seg_end then unat ((seg_end - seg_start) div PMM_PAGE_SIZE) else 0)"

definition load_segment ::
  "u64 \<Rightarrow> u64 \<Rightarrow> u64 \<Rightarrow> elf64_phdr \<Rightarrow> 'a vmm_state_scheme \<Rightarrow> 'a vmm_state_scheme res" where
  "load_segment elf_data elf_size pml4_phys ph s =
     (if p_type ph \<noteq> PT_LOAD then Inr s
      else if p_offset ph + p_filesz ph > elf_size
      then Inl (Panic ''elf_load_user_program: PT_LOAD segment runs past end of file'')
      else rfold (load_page elf_data pml4_phys ph) [0..<segment_pages ph] s)"

text \<open>The eager stack pages; the result carries the page just below the top.\<close>

definition map_stack_page ::
  "u64 \<Rightarrow> nat \<Rightarrow> (u64 \<times> u64) \<times> 'a vmm_state_scheme \<Rightarrow> ((u64 \<times> u64) \<times> 'a vmm_state_scheme) res" where
  "map_stack_page pml4_phys i r =
     (case r of (top_page, s) \<Rightarrow>
      rbind (pmm_alloc_page s) (\<lambda>(phys, s).
      if phys = 0 then Inl (Panic ''elf_load_user_program: out of physical memory for the user stack'')
      else
        let s = s\<lparr>mem := memset phys 0 PMM_PAGE_SIZE (mem s)\<rparr>;
            vaddr = ELF_USER_STACK_TOP - (of_nat i + 1) * PMM_PAGE_SIZE
        in rbind (vmm_map_page pml4_phys vaddr phys VMM_MAP_WRITE s) (\<lambda>s.
           Inr (if i = 0 then (phys, vaddr) else top_page, s))))"

subsection \<open>\<open>elf_load_user_program\<close>\<close>

text \<open>\<open>elf_process_t\<close> is written field by field to the block at \<open>out\<close>.\<close>

definition write_process :: "u64 \<Rightarrow> u64 \<Rightarrow> u64 \<Rightarrow> u64 \<Rightarrow> u32 \<Rightarrow> mem \<Rightarrow> mem" where
  "write_process out entry stack_top argv_ptr argc m =
     (let m = store64 out entry m;
          m = store64 (out + 8) stack_top m;
          m = store64 (out + 16) argv_ptr m
      in store_le 4 argc (out + 24) m)"

definition elf_load_user_program ::
  "u64 \<Rightarrow> u64 \<Rightarrow> u64 \<Rightarrow> u8 list list \<Rightarrow> u64 \<Rightarrow> 'a vmm_state_scheme \<Rightarrow> 'a vmm_state_scheme res" where
  "elf_load_user_program elf_data elf_size pml4_phys argv out s =
     (if elf_size < SIZEOF_EHDR then Inl (Panic ''elf_load_user_program: file too small to hold an ELF header'')
      else
        let ehdr = ehdr_at (mem s) elf_data in
        if \<not> elf_magic_ok ehdr then Inl (Panic ''elf_load_user_program: bad ELF magic'')
        else if e_ident ehdr ! 4 \<noteq> ELFCLASS64 \<or> e_machine ehdr \<noteq> EM_X86_64
        then Inl (Panic ''elf_load_user_program: not a 64-bit x86_64 ELF'')
        else
          rbind (rfold (\<lambda>i s. load_segment elf_data elf_size pml4_phys
              (phdr_at (mem s) (elf_data + e_phoff ehdr + of_nat i * 56)) s) [0..<unat (e_phnum ehdr)] s) (\<lambda>s.
          rbind (rfold (map_stack_page pml4_phys) [0..<ELF_USER_STACK_PAGES] ((0, 0), s))
            (\<lambda>((top_page_phys, top_page_vaddr), s).
          rbind (write_argv_blob top_page_phys top_page_vaddr argv (mem s)) (\<lambda>(stack_top, argv_ptr, m).
          let s = s\<lparr>mem := m\<rparr>
          in Inr (s\<lparr>mem := write_process out (e_entry (ehdr_at (mem s) elf_data)) stack_top argv_ptr
                      (of_nat (length argv)) (mem s)\<rparr>)))))"

subsection \<open>Stack growth\<close>

definition elf_handle_stack_fault ::
  "u64 \<Rightarrow> u64 \<Rightarrow> bool \<Rightarrow> 'a vmm_state_scheme \<Rightarrow> (bool \<times> 'a vmm_state_scheme) res" where
  "elf_handle_stack_fault fault_addr error_code from_ring3 s =
     (if \<not> from_ring3 then Inr (False, s)
      else if error_code AND 1 \<noteq> 0 then Inr (False, s)
      else
        let page_addr = page_align_down fault_addr;
            stack_low = ELF_USER_STACK_TOP - ELF_USER_STACK_MAX_PAGES * PMM_PAGE_SIZE
        in if page_addr < stack_low \<or> page_addr \<ge> ELF_USER_STACK_TOP then Inr (False, s)
           else
             let pml4_phys = vmm_current_cr3 s in
             if vmm_page_present pml4_phys page_addr s then Inr (False, s)
             else
               rbind (pmm_alloc_page s) (\<lambda>(phys, s).
               if phys = 0 then Inr (False, s)
               else
                 let s = s\<lparr>mem := memset phys 0 PMM_PAGE_SIZE (mem s)\<rparr>
                 in rbind (vmm_map_page pml4_phys page_addr phys VMM_MAP_WRITE s) (\<lambda>s. Inr (True, s))))"

subsection \<open>Launching\<close>

text \<open>The arguments \<open>elf_launch_process\<close> passes to \<open>enter_usermode\<close>: the state in which the core
  enters ring 3.\<close>

record user_entry =
  ue_rip :: u64
  ue_rsp :: u64
  ue_cs :: u16
  ue_ds :: u16
  ue_argc :: u32
  ue_argv :: u64

definition elf_launch_process :: "u64 \<Rightarrow> 'a heap_state_scheme \<Rightarrow> (user_entry \<times> 'a heap_state_scheme) res" where
  "elf_launch_process proc s =
     (let entry = load64 (mem s) proc;
          stack_top = load64 (mem s) (proc + 8);
          argc = load32 (mem s) (proc + 24);
          argv_ptr = load64 (mem s) (proc + 16)
      in rbind (kfree proc s) (\<lambda>s.
         Inr (\<lparr>ue_rip = entry, ue_rsp = stack_top, ue_cs = GDT_USER_CODE_SEL, ue_ds = GDT_USER_DATA_SEL,
               ue_argc = argc, ue_argv = argv_ptr\<rparr>, s)))"

end
