(* ===== verification/Process.thy ===== *)
theory Process
  imports Scheduler Elf_Loader
begin

section \<open>Processes (kernel/src/process.c)\<close>

text \<open>
  Loading a program from disk and starting it as a thread. The addresses of \<open>thread_trampoline\<close> and
  \<open>elf_launch_process\<close> are parameters. A thread that calls \<open>schedule\<close> runs again only after other
  threads have run: \<open>resume\<close>, a parameter, is what they have made of the state by then. The variable
  \<open>exit_code\<close> of the waiting function lies on its stack, at \<open>exit_ptr\<close>.
\<close>

definition process_spawn_args_ex ::
  "u64 \<Rightarrow> u64 \<Rightarrow> u8 list \<Rightarrow> u8 list \<Rightarrow> u8 list list \<Rightarrow> u64 \<Rightarrow> 'a sched_state_scheme \<Rightarrow> (int \<times> 'a sched_state_scheme) res" where
  "process_spawn_args_ex trampoline launch path thread_name argv code_out s =
     rbind (vfs_read_file path s) (\<lambda>(file, s).
     case file of
       None \<Rightarrow> Inr (-1, s)
     | Some (elf_data, elf_size) \<Rightarrow>
         rbind (vmm_create_address_space s) (\<lambda>(pml4, s).
         rbind (kmalloc 32 s) (\<lambda>(proc, s).
         if proc = 0 then Inl (Panic ''process_spawn_args: kmalloc failed for launch info'')
         else
           rbind (elf_load_user_program elf_data (ucast elf_size) pml4 argv proc s) (\<lambda>s.
           rbind (kfree elf_data s) (\<lambda>s.
           rbind (thread_create_process_arg trampoline thread_name launch proc pml4 code_out s) (\<lambda>(tid, s).
           Inr (int tid, s)))))))"

definition process_spawn_args ::
  "u64 \<Rightarrow> u64 \<Rightarrow> u8 list \<Rightarrow> u8 list \<Rightarrow> u8 list list \<Rightarrow> 'a sched_state_scheme \<Rightarrow> (int \<times> 'a sched_state_scheme) res" where
  "process_spawn_args trampoline launch path thread_name argv s =
     process_spawn_args_ex trampoline launch path thread_name argv 0 s"

definition process_spawn ::
  "u64 \<Rightarrow> u64 \<Rightarrow> u8 list \<Rightarrow> u8 list \<Rightarrow> 'a sched_state_scheme \<Rightarrow> (int \<times> 'a sched_state_scheme) res" where
  "process_spawn trampoline launch path thread_name s = process_spawn_args trampoline launch path thread_name [] s"

text \<open>A call of \<open>schedule\<close> as its caller sees it.\<close>

definition yield_cpu :: "('a sched_state_scheme \<Rightarrow> 'a sched_state_scheme) \<Rightarrow> 'a sched_state_scheme \<Rightarrow> 'a sched_state_scheme res" where
  "yield_cpu resume s = rbind (schedule s) (\<lambda>(switched, s). Inr (if switched then resume s else s))"

partial_function (option) wait_loop ::
  "('a sched_state_scheme \<Rightarrow> 'a sched_state_scheme) \<Rightarrow> int \<Rightarrow> 'a sched_state_scheme \<Rightarrow> 'a sched_state_scheme res option" where
  "wait_loop resume tid s =
     (if thread_is_alive tid s
      then let r = yield_cpu resume s in
        if isl r then Some (Inl (projl r)) else wait_loop resume tid (projr r)
      else Some (Inr s))"

definition process_spawn_args_and_wait ::
  "u64 \<Rightarrow> u64 \<Rightarrow> ('a sched_state_scheme \<Rightarrow> 'a sched_state_scheme) \<Rightarrow> u64 \<Rightarrow> u8 list \<Rightarrow> u8 list \<Rightarrow> u8 list list \<Rightarrow>
   'a sched_state_scheme \<Rightarrow> (i32 \<times> 'a sched_state_scheme) res" where
  "process_spawn_args_and_wait trampoline launch resume exit_ptr path thread_name argv s =
     (let s = s\<lparr>mem := store64 exit_ptr 0 (mem s)\<rparr> in
      rbind (process_spawn_args_ex trampoline launch path thread_name argv exit_ptr s) (\<lambda>(tid, s).
      if tid < 0 then Inr (-1, s)
      else rbind (ends (wait_loop resume tid s)) (\<lambda>s. Inr (ucast (load64 (mem s) exit_ptr), s))))"

definition process_spawn_and_wait ::
  "u64 \<Rightarrow> u64 \<Rightarrow> ('a sched_state_scheme \<Rightarrow> 'a sched_state_scheme) \<Rightarrow> u64 \<Rightarrow> u8 list \<Rightarrow> u8 list \<Rightarrow>
   'a sched_state_scheme \<Rightarrow> (i32 \<times> 'a sched_state_scheme) res" where
  "process_spawn_and_wait trampoline launch resume exit_ptr path thread_name s =
     process_spawn_args_and_wait trampoline launch resume exit_ptr path thread_name [] s"

end
