(* ===== verification/Lapic.thy ===== *)
theory Lapic
  imports Mouse
begin

section \<open>The Local APIC (kernel/src/lapic.c)\<close>

text \<open>
  Enabling the Local APIC, sending start-up interrupts and calibrating its timer against the ticks of
  the legacy timer. \<open>pause\<close>, a parameter, is what happens to the state while a wait loop pauses: timer
  interrupts advance \<open>tick_count\<close> there. The waits may not end.
\<close>

abbreviation IA32_APIC_BASE_MSR :: u32 where "IA32_APIC_BASE_MSR \<equiv> 0x1B"
abbreviation APIC_BASE_ENABLE :: u64 where "APIC_BASE_ENABLE \<equiv> 0x800"
abbreviation APIC_BASE_ADDR_MASK :: u64 where "APIC_BASE_ADDR_MASK \<equiv> 0xFFFFFF000"
abbreviation LAPIC_REG_ID :: u32 where "LAPIC_REG_ID \<equiv> 0x20"
abbreviation LAPIC_REG_TPR :: u32 where "LAPIC_REG_TPR \<equiv> 0x80"
abbreviation LAPIC_REG_SPURIOUS :: u32 where "LAPIC_REG_SPURIOUS \<equiv> 0xF0"
abbreviation LAPIC_REG_ICR_LOW :: u32 where "LAPIC_REG_ICR_LOW \<equiv> 0x300"
abbreviation LAPIC_REG_ICR_HIGH :: u32 where "LAPIC_REG_ICR_HIGH \<equiv> 0x310"
abbreviation LAPIC_REG_LVT_TIMER :: u32 where "LAPIC_REG_LVT_TIMER \<equiv> 0x320"
abbreviation LAPIC_REG_TIMER_INITIAL_COUNT :: u32 where "LAPIC_REG_TIMER_INITIAL_COUNT \<equiv> 0x380"
abbreviation LAPIC_REG_TIMER_CURRENT_COUNT :: u32 where "LAPIC_REG_TIMER_CURRENT_COUNT \<equiv> 0x390"
abbreviation LAPIC_REG_TIMER_DIVIDE :: u32 where "LAPIC_REG_TIMER_DIVIDE \<equiv> 0x3E0"
abbreviation LVT_TIMER_PERIODIC :: u32 where "LVT_TIMER_PERIODIC \<equiv> 0x20000"
abbreviation LVT_MASKED :: u32 where "LVT_MASKED \<equiv> 0x10000"
abbreviation TIMER_DIVIDE_BY_16 :: u32 where "TIMER_DIVIDE_BY_16 \<equiv> 0x3"
abbreviation SPURIOUS_ENABLE_VECTOR :: u32 where "SPURIOUS_ENABLE_VECTOR \<equiv> 0x1FF"
abbreviation ICR_DELIVERY_INIT :: u32 where "ICR_DELIVERY_INIT \<equiv> 0x500"
abbreviation ICR_DELIVERY_STARTUP :: u32 where "ICR_DELIVERY_STARTUP \<equiv> 0x600"
abbreviation ICR_LEVEL_ASSERT :: u32 where "ICR_LEVEL_ASSERT \<equiv> 0x4000"
abbreviation ICR_TRIGGER_LEVEL :: u32 where "ICR_TRIGGER_LEVEL \<equiv> 0x8000"
abbreviation ICR_DELIVERY_PENDING :: u32 where "ICR_DELIVERY_PENDING \<equiv> 0x1000"
abbreviation LAPIC_REG_EOI :: u32 where "LAPIC_REG_EOI \<equiv> 0xB0"
abbreviation LAPIC_TIMER_VECTOR32 :: u32 where "LAPIC_TIMER_VECTOR32 \<equiv> 48"

record 'd lapic_state = "'d mouse_state" +
  lapic_base :: u64
  calibrated_initial_count :: u32

definition rdmsr :: "'d hardware \<Rightarrow> u32 \<Rightarrow> ('d, 'a) io_state_scheme \<Rightarrow> u64" where
  "rdmsr hw msr s = hw_rdmsr hw msr (dev s)"

definition wrmsr :: "'d hardware \<Rightarrow> u32 \<Rightarrow> u64 \<Rightarrow> ('d, 'a) io_state_scheme \<Rightarrow> ('d, 'a) io_state_scheme" where
  "wrmsr hw msr val s = s\<lparr>dev := hw_wrmsr hw msr val (dev s)\<rparr>"

definition lapic_read :: "'d hardware \<Rightarrow> u32 \<Rightarrow> ('d, 'a) lapic_state_scheme \<Rightarrow> u32 \<times> ('d, 'a) lapic_state_scheme" where
  "lapic_read hw offset s = mmio_read32 hw (lapic_base s + ucast offset) s"

definition lapic_write :: "'d hardware \<Rightarrow> u32 \<Rightarrow> u32 \<Rightarrow> ('d, 'a) lapic_state_scheme \<Rightarrow> ('d, 'a) lapic_state_scheme" where
  "lapic_write hw offset val s = mmio_write32 hw (lapic_base s + ucast offset) val s"

partial_function (option) ipi_wait :: "'d hardware \<Rightarrow> ('d, 'a) lapic_state_scheme \<Rightarrow> ('d, 'a) lapic_state_scheme option" where
  "ipi_wait hw s =
     (let r = lapic_read hw LAPIC_REG_ICR_LOW s in
      if fst r AND ICR_DELIVERY_PENDING \<noteq> 0 then ipi_wait hw (snd r) else Some (snd r))"

definition lapic_wait_ipi_idle :: "'d hardware \<Rightarrow> ('d, 'a) lapic_state_scheme \<Rightarrow> ('d, 'a) lapic_state_scheme res" where
  "lapic_wait_ipi_idle hw s = (case ipi_wait hw s of None \<Rightarrow> Inl Hang | Some s \<Rightarrow> Inr s)"

definition lapic_init :: "'d hardware \<Rightarrow> ('d, 'a) lapic_state_scheme \<Rightarrow> ('d, 'a) lapic_state_scheme" where
  "lapic_init hw s =
     (let base_msr = rdmsr hw IA32_APIC_BASE_MSR s;
          s = s\<lparr>lapic_base := base_msr AND APIC_BASE_ADDR_MASK\<rparr>;
          s = wrmsr hw IA32_APIC_BASE_MSR (base_msr OR APIC_BASE_ENABLE) s;
          s = lapic_write hw LAPIC_REG_TPR 0 s
      in lapic_write hw LAPIC_REG_SPURIOUS SPURIOUS_ENABLE_VECTOR s)"

definition lapic_id :: "'d hardware \<Rightarrow> ('d, 'a) lapic_state_scheme \<Rightarrow> u32 \<times> ('d, 'a) lapic_state_scheme" where
  "lapic_id hw s = (case lapic_read hw LAPIC_REG_ID s of (v, s) \<Rightarrow> (drop_bit 24 v, s))"

definition lapic_send_init :: "'d hardware \<Rightarrow> u8 \<Rightarrow> ('d, 'a) lapic_state_scheme \<Rightarrow> ('d, 'a) lapic_state_scheme res" where
  "lapic_send_init hw target s =
     (let s = lapic_write hw LAPIC_REG_ICR_HIGH (push_bit 24 (ucast target)) s;
          s = lapic_write hw LAPIC_REG_ICR_LOW (ICR_DELIVERY_INIT OR ICR_LEVEL_ASSERT OR ICR_TRIGGER_LEVEL) s
      in lapic_wait_ipi_idle hw s)"

definition lapic_send_sipi :: "'d hardware \<Rightarrow> u8 \<Rightarrow> u8 \<Rightarrow> ('d, 'a) lapic_state_scheme \<Rightarrow> ('d, 'a) lapic_state_scheme res" where
  "lapic_send_sipi hw target vector s =
     (let s = lapic_write hw LAPIC_REG_ICR_HIGH (push_bit 24 (ucast target)) s;
          s = lapic_write hw LAPIC_REG_ICR_LOW (ICR_DELIVERY_STARTUP OR ucast vector) s
      in lapic_wait_ipi_idle hw s)"

text \<open>Waiting until a condition on the tick counter holds.\<close>

partial_function (option) tick_wait ::
  "(('d, 'a) lapic_state_scheme \<Rightarrow> ('d, 'a) lapic_state_scheme) \<Rightarrow> (u64 \<Rightarrow> bool) \<Rightarrow>
   ('d, 'a) lapic_state_scheme \<Rightarrow> ('d, 'a) lapic_state_scheme option" where
  "tick_wait pause waiting s = (if waiting (timer_ticks s) then tick_wait pause waiting (pause s) else Some s)"

definition lapic_calibrate_timer ::
  "'d hardware \<Rightarrow> (('d, 'a) lapic_state_scheme \<Rightarrow> ('d, 'a) lapic_state_scheme) \<Rightarrow>
   ('d, 'a) lapic_state_scheme \<Rightarrow> ('d, 'a) lapic_state_scheme res" where
  "lapic_calibrate_timer hw pause s =
     (let s = lapic_write hw LAPIC_REG_TIMER_DIVIDE TIMER_DIVIDE_BY_16 s;
          s = lapic_write hw LAPIC_REG_LVT_TIMER LVT_MASKED s;
          start_tick = timer_ticks s
      in case tick_wait pause (\<lambda>t. t = start_tick) s of
           None \<Rightarrow> Inl Hang
         | Some s \<Rightarrow>
             let s = lapic_write hw LAPIC_REG_TIMER_INITIAL_COUNT 0xFFFFFFFF s;
                 calib_start = timer_ticks s
             in case tick_wait pause (\<lambda>t. t < calib_start + 5) s of
                  None \<Rightarrow> Inl Hang
                | Some s \<Rightarrow>
                    let (remaining, s) = lapic_read hw LAPIC_REG_TIMER_CURRENT_COUNT s;
                        s = lapic_write hw LAPIC_REG_LVT_TIMER LVT_MASKED s;
                        elapsed = 0xFFFFFFFF - remaining
                    in Inr (s\<lparr>calibrated_initial_count := elapsed div 5\<rparr>))"

definition lapic_timer_start :: "'d hardware \<Rightarrow> ('d, 'a) lapic_state_scheme \<Rightarrow> ('d, 'a) lapic_state_scheme" where
  "lapic_timer_start hw s =
     (let s = lapic_write hw LAPIC_REG_TIMER_DIVIDE TIMER_DIVIDE_BY_16 s;
          s = lapic_write hw LAPIC_REG_LVT_TIMER (LAPIC_TIMER_VECTOR32 OR LVT_TIMER_PERIODIC) s
      in lapic_write hw LAPIC_REG_TIMER_INITIAL_COUNT (calibrated_initial_count s) s)"

text \<open>The interrupt of the timer: acknowledged first, because \<open>schedule\<close> may not return.\<close>

definition lapic_timer_isr :: "'d hardware \<Rightarrow> ('d, 'a) lapic_state_scheme \<Rightarrow> ('d, 'a) lapic_state_scheme res" where
  "lapic_timer_isr hw s =
     (let s = lapic_write hw LAPIC_REG_EOI 0 s in
      rbind (schedule s) (\<lambda>(switched, s). Inr s))"

end
