(* ===== verification/Syscall.thy ===== *)
theory Syscall
  imports Process Lapic
begin

section \<open>System calls (kernel/src/syscall.c, kernel/include/syscall.h)\<close>

text \<open>
  \<open>syscall_dispatch\<close>, one definition per case. The kernel reaches user memory through the page
  tables of the running process: \<open>mmu_phys\<close> is the processor's translation, and a file operation on
  a user buffer runs on the view of memory in which the buffer's bytes are those of the frames behind
  it. The result is the new register frame, or \<open>None\<close> when the call ended the thread and control
  went to another one. What the rest of the system does while the caller waits, and the addresses the
  linker assigns, are the fields of \<open>env\<close>.
\<close>

subsection \<open>Frames, numbers and the environment\<close>

record interrupt_frame =
  f_r15 :: u64
  f_r14 :: u64
  f_r13 :: u64
  f_r12 :: u64
  f_r11 :: u64
  f_r10 :: u64
  f_r9 :: u64
  f_r8 :: u64
  f_rbp :: u64
  f_rdi :: u64
  f_rsi :: u64
  f_rdx :: u64
  f_rcx :: u64
  f_rbx :: u64
  f_rax :: u64
  f_vector :: u64
  f_error_code :: u64
  f_rip :: u64
  f_cs :: u64
  f_rflags :: u64

abbreviation SYS_WRITE :: u64 where "SYS_WRITE \<equiv> 1"
abbreviation SYS_EXIT :: u64 where "SYS_EXIT \<equiv> 2"
abbreviation SYS_READ_CHAR :: u64 where "SYS_READ_CHAR \<equiv> 3"
abbreviation SYS_EXEC :: u64 where "SYS_EXEC \<equiv> 4"
abbreviation SYS_LIST_DIR :: u64 where "SYS_LIST_DIR \<equiv> 5"
abbreviation SYS_READ_FILE :: u64 where "SYS_READ_FILE \<equiv> 6"
abbreviation SYS_WRITE_FILE :: u64 where "SYS_WRITE_FILE \<equiv> 7"
abbreviation SYS_FB_INFO :: u64 where "SYS_FB_INFO \<equiv> 8"
abbreviation SYS_FB_MAP :: u64 where "SYS_FB_MAP \<equiv> 9"
abbreviation SYS_MOUSE_READ :: u64 where "SYS_MOUSE_READ \<equiv> 10"
abbreviation SYS_SBRK :: u64 where "SYS_SBRK \<equiv> 11"

abbreviation SYS_WRITE_MAX_LEN :: nat where "SYS_WRITE_MAX_LEN \<equiv> 256"
abbreviation SYS_PATH_MAX_LEN :: nat where "SYS_PATH_MAX_LEN \<equiv> 64"
abbreviation SYS_EXEC_MAX_ARGS :: u64 where "SYS_EXEC_MAX_ARGS \<equiv> 16"
abbreviation SYS_EXEC_MAX_ARG_LEN :: nat where "SYS_EXEC_MAX_ARG_LEN \<equiv> 128"
abbreviation USER_FB_VADDR :: u64 where "USER_FB_VADDR \<equiv> ELF_USER_LOAD_BASE + 0x8000000"

record 's env =
  env_trampoline :: u64
  env_launch :: u64
  env_exit_ptr :: u64
  env_resume :: "'s \<Rightarrow> 's"

record 'd sys_state = "'d lapic_state" +
  syscall_write_count :: u64

subsection \<open>User memory\<close>

definition mmu_phys :: "mem \<Rightarrow> u64 \<Rightarrow> u64 \<Rightarrow> u64" where
  "mmu_phys m pml4 va =
     (let e = load64 m (walk_to_leaf m pml4 va)
      in if e AND PAGE_HUGE \<noteq> 0 then (e AND 0xFFFFFFFE00000) + (va AND 0x1FFFFF)
         else (e AND 0xFFFFFFFFFF000) + (va AND 0xFFF))"

definition user_byte :: "'a vmm_state_scheme \<Rightarrow> u64 \<Rightarrow> u8" where
  "user_byte s va = mem s (mmu_phys (mem s) (cr3 s) va)"

definition user_load64 :: "'a vmm_state_scheme \<Rightarrow> u64 \<Rightarrow> u64" where
  "user_load64 s va = load64 (user_byte s) va"

definition user_store :: "u64 \<Rightarrow> u8 list \<Rightarrow> 'a vmm_state_scheme \<Rightarrow> 'a vmm_state_scheme" where
  "user_store va bs s =
     s\<lparr>mem := fold (\<lambda>i m. m(mmu_phys (mem s) (cr3 s) (va + of_nat i) := bs ! i)) [0..<length bs] (mem s)\<rparr>"

definition user_view :: "u64 \<Rightarrow> nat \<Rightarrow> 'a vmm_state_scheme \<Rightarrow> 'a vmm_state_scheme" where
  "user_view buf n s = s\<lparr>mem := store_bytes buf (map (\<lambda>i. user_byte s (buf + of_nat i)) [0..<n]) (mem s)\<rparr>"

definition user_commit :: "'a vmm_state_scheme \<Rightarrow> u64 \<Rightarrow> nat \<Rightarrow> 'a vmm_state_scheme \<Rightarrow> 'a vmm_state_scheme" where
  "user_commit s buf n s' =
     s'\<lparr>mem := fold (\<lambda>i m. m(mmu_phys (mem s) (cr3 s) (buf + of_nat i) := mem s' (buf + of_nat i))) [0..<n]
        (store_bytes buf (bytes_at (mem s) buf n) (mem s'))\<rparr>"

definition user_ptr_valid :: "u64 \<Rightarrow> u64 \<Rightarrow> bool \<Rightarrow> 'a vmm_state_scheme \<Rightarrow> bool res" where
  "user_ptr_valid p len need_write s = vmm_check_range (vmm_current_cr3 s) p len need_write s"

text \<open>\<open>copy_user_string\<close>: the bytes before the NUL, at most one less than the buffer holds.\<close>

primrec copy_user_loop :: "'a vmm_state_scheme \<Rightarrow> nat \<Rightarrow> bool \<Rightarrow> u64 \<Rightarrow> u8 list res" where
  "copy_user_loop s 0 first addr = Inr []"
| "copy_user_loop s (Suc n) first addr =
     rbind (if addr mod PMM_PAGE_SIZE = 0 \<or> first then vmm_check_range (vmm_current_cr3 s) addr 1 False s else Inr True) (\<lambda>ok.
     if \<not> ok then Inl (Panic ''syscall_dispatch: got an invalid pointer'')
     else
       let c = user_byte s addr in
       if c = 0 then Inr []
       else rbind (copy_user_loop s n False (addr + 1)) (\<lambda>rest. Inr (c # rest)))"

definition copy_user_string :: "u64 \<Rightarrow> nat \<Rightarrow> 'a vmm_state_scheme \<Rightarrow> u8 list res" where
  "copy_user_string user_ptr out_size s = copy_user_loop s (out_size - 1) True user_ptr"

subsection \<open>The cases\<close>

type_synonym ('d, 'a) sys_result = "(interrupt_frame option \<times> ('d, 'a) sys_state_scheme) res"

definition sys_write :: "interrupt_frame \<Rightarrow> ('d, 'a) sys_state_scheme \<Rightarrow> ('d, 'a) sys_result" where
  "sys_write frame s =
     rbind (copy_user_string (f_rdi frame) SYS_WRITE_MAX_LEN s) (\<lambda>msg.
     rbind (kprintf ''%s'' [KStr (Some msg)] s) (\<lambda>s.
     let s = s\<lparr>syscall_write_count := syscall_write_count s + 1\<rparr>
     in Inr (Some (frame\<lparr>f_rax := 0\<rparr>), s)))"

definition sys_exit :: "interrupt_frame \<Rightarrow> ('d, 'a) sys_state_scheme \<Rightarrow> ('d, 'a) sys_result" where
  "sys_exit frame s =
     rbind (kvprintf (cstr ''syscall: thread exited with code %ld'' @ [0x0A]) [KInt (f_rdi frame)] s) (\<lambda>s.
     rbind (thread_exit_code (f_rdi frame) s) (\<lambda>s. Inr (None, s)))"

partial_function (option) read_char_loop ::
  "(('d, 'a) sys_state_scheme \<Rightarrow> ('d, 'a) sys_state_scheme) \<Rightarrow> ('d, 'a) sys_state_scheme \<Rightarrow>
   (int \<times> ('d, 'a) sys_state_scheme) res option" where
  "read_char_loop resume s =
     (let c = fst (keyboard_read_char s); s = snd (keyboard_read_char s) in
      if c < 0
      then let r = yield_cpu resume s in
        if isl r then Some (Inl (projl r)) else read_char_loop resume (projr r)
      else Some (Inr (c, s)))"

definition sys_read_char ::
  "(('d, 'a) sys_state_scheme) env \<Rightarrow> interrupt_frame \<Rightarrow> ('d, 'a) sys_state_scheme \<Rightarrow> ('d, 'a) sys_result" where
  "sys_read_char e frame s =
     (let s = s\<lparr>rflags_if := True\<rparr> in
      rbind (ends (read_char_loop (env_resume e) s)) (\<lambda>(c, s).
      Inr (Some (frame\<lparr>f_rax := of_int c\<rparr>), s)))"

definition sys_exec ::
  "(('d, 'a) sys_state_scheme) env \<Rightarrow> interrupt_frame \<Rightarrow> ('d, 'a) sys_state_scheme \<Rightarrow> ('d, 'a) sys_result" where
  "sys_exec e frame s =
     (let argc = f_rsi frame in
      if argc \<le>s 0 \<or> argc > SYS_EXEC_MAX_ARGS then Inl (Panic ''syscall_dispatch: SYS_EXEC got a bad argc'')
      else
        rbind (user_ptr_valid (f_rdi frame) (argc * 8) False s) (\<lambda>ok.
        if \<not> ok then Inl (Panic ''syscall_dispatch: SYS_EXEC got an invalid argv array'')
        else
          rbind (rfold (\<lambda>i argv. rbind (copy_user_string (user_load64 s (f_rdi frame + 8 * of_nat i))
              SYS_EXEC_MAX_ARG_LEN s) (\<lambda>a. Inr (argv @ [a]))) [0..<unat argc] []) (\<lambda>argv.
          let s = s\<lparr>rflags_if := True\<rparr> in
          rbind (process_spawn_args_and_wait (env_trampoline e) (env_launch e) (env_resume e) (env_exit_ptr e)
              (argv ! 0) (cstr ''exec'') argv s) (\<lambda>(r, s).
          Inr (Some (frame\<lparr>f_rax := scast r\<rparr>), s)))))"

text \<open>A file operation on a user buffer of \<open>n\<close> bytes.\<close>

definition on_user_buf ::
  "u64 \<Rightarrow> nat \<Rightarrow> ('a vmm_state_scheme \<Rightarrow> (i32 \<times> 'a vmm_state_scheme) res) \<Rightarrow> 'a vmm_state_scheme \<Rightarrow>
   (i32 \<times> 'a vmm_state_scheme) res" where
  "on_user_buf buf n f s = rbind (f (user_view buf n s)) (\<lambda>(r, s'). Inr (r, user_commit s buf n s'))"

definition sys_list_dir :: "interrupt_frame \<Rightarrow> ('d, 'a) sys_state_scheme \<Rightarrow> ('d, 'a) sys_result" where
  "sys_list_dir frame s =
     rbind (if f_rdi frame = 0 then Inr [] else copy_user_string (f_rdi frame) SYS_PATH_MAX_LEN s) (\<lambda>path.
     rbind (user_ptr_valid (f_rsi frame) (f_rdx frame) True s) (\<lambda>ok.
     if \<not> ok then Inl (Panic ''syscall_dispatch: SYS_LIST_DIR got an invalid buffer'')
     else
       let len = ucast (f_rdx frame) :: u32 in
       rbind (on_user_buf (f_rsi frame) (unat len) (vfs_list_dir (Some path) (f_rsi frame) len) s) (\<lambda>(r, s).
       Inr (Some (frame\<lparr>f_rax := scast r\<rparr>), s))))"

definition sys_read_file :: "interrupt_frame \<Rightarrow> ('d, 'a) sys_state_scheme \<Rightarrow> ('d, 'a) sys_result" where
  "sys_read_file frame s =
     rbind (copy_user_string (f_rdi frame) SYS_PATH_MAX_LEN s) (\<lambda>path.
     rbind (user_ptr_valid (f_rsi frame) (f_rdx frame) True s) (\<lambda>ok.
     if \<not> ok then Inl (Panic ''syscall_dispatch: SYS_READ_FILE got an invalid buffer'')
     else
       let len = ucast (f_rdx frame) :: u32 in
       rbind (on_user_buf (f_rsi frame) (unat len) (vfs_read_file_into path (f_rsi frame) len) s) (\<lambda>(r, s).
       Inr (Some (frame\<lparr>f_rax := scast r\<rparr>), s))))"

definition sys_write_file :: "interrupt_frame \<Rightarrow> ('d, 'a) sys_state_scheme \<Rightarrow> ('d, 'a) sys_result" where
  "sys_write_file frame s =
     rbind (copy_user_string (f_rdi frame) SYS_PATH_MAX_LEN s) (\<lambda>path.
     rbind (user_ptr_valid (f_rsi frame) (f_rdx frame) False s) (\<lambda>ok.
     if \<not> ok then Inl (Panic ''syscall_dispatch: SYS_WRITE_FILE got an invalid buffer'')
     else
       let len = ucast (f_rdx frame) :: u32 in
       rbind (on_user_buf (f_rsi frame) (unat len) (vfs_write_file path (f_rsi frame) len) s) (\<lambda>(ok, s).
       Inr (Some (frame\<lparr>f_rax := (if ok \<noteq> 0 then 0 else -1)\<rparr>), s))))"

text \<open>The bytes of a 32-bit field.\<close>

definition le32 :: "u32 \<Rightarrow> u8 list" where
  "le32 v = [ucast v, ucast (drop_bit 8 v), ucast (drop_bit 16 v), ucast (drop_bit 24 v)]"

definition fb_info_bytes :: "boot_framebuffer \<Rightarrow> u8 list" where
  "fb_info_bytes fb = le32 (fb_width fb) @ le32 (fb_height fb) @ le32 (pixels_per_scanline fb) @
     le32 (bytes_per_pixel fb) @ [red_shift fb, green_shift fb, blue_shift fb, 0]"

definition sys_fb_info :: "interrupt_frame \<Rightarrow> ('d, 'a) sys_state_scheme \<Rightarrow> ('d, 'a) sys_result" where
  "sys_fb_info frame s =
     rbind (user_ptr_valid (f_rdi frame) 20 True s) (\<lambda>ok.
     if \<not> ok then Inl (Panic ''syscall_dispatch: SYS_FB_INFO got an invalid buffer'')
     else
       let s = user_store (f_rdi frame) (fb_info_bytes (fb_get_info s)) s
       in Inr (Some (frame\<lparr>f_rax := 0\<rparr>), s))"

definition map_fb_page :: "u64 \<Rightarrow> boot_framebuffer \<Rightarrow> nat \<Rightarrow> 'a vmm_state_scheme \<Rightarrow> 'a vmm_state_scheme res" where
  "map_fb_page pml4 fb i s =
     (let vaddr = USER_FB_VADDR + of_nat i * PMM_PAGE_SIZE in
      if \<not> vmm_page_present pml4 vaddr s
      then vmm_map_page pml4 vaddr (fb_base fb + of_nat i * PMM_PAGE_SIZE) VMM_MAP_WRITE s
      else Inr s)"

definition sys_fb_map :: "interrupt_frame \<Rightarrow> ('d, 'a) sys_state_scheme \<Rightarrow> ('d, 'a) sys_result" where
  "sys_fb_map frame s =
     (let fb = fb_get_info s;
          pml4 = vmm_current_cr3 s;
          page_count = (fb_size fb + PMM_PAGE_SIZE - 1) div PMM_PAGE_SIZE
      in rbind (rfold (map_fb_page pml4 fb) [0..<unat page_count] s) (\<lambda>s.
         Inr (Some (frame\<lparr>f_rax := USER_FB_VADDR\<rparr>), s)))"

definition sys_mouse_read :: "interrupt_frame \<Rightarrow> ('d, 'a) sys_state_scheme \<Rightarrow> ('d, 'a) sys_result" where
  "sys_mouse_read frame s =
     rbind (user_ptr_valid (f_rdi frame) 12 True s) (\<lambda>ok.
     if \<not> ok then Inl (Panic ''syscall_dispatch: SYS_MOUSE_READ got an invalid buffer'')
     else
       let ((x, y, buttons), s) = mouse_get_state s;
           s = user_store (f_rdi frame) (le32 x @ le32 y @ [buttons, 0, 0, 0]) s
       in Inr (Some (frame\<lparr>f_rax := 0\<rparr>), s))"

text \<open>The page loop of \<open>SYS_SBRK\<close>: the pages left, the address; the result is \<open>ok\<close>.\<close>

primrec sbrk_loop :: "u64 \<Rightarrow> nat \<Rightarrow> u64 \<Rightarrow> 'a vmm_state_scheme \<Rightarrow> (bool \<times> 'a vmm_state_scheme) res" where
  "sbrk_loop pml4 0 p s = Inr (True, s)"
| "sbrk_loop pml4 (Suc n) p s =
     (if vmm_page_present pml4 p s then sbrk_loop pml4 n (p + PMM_PAGE_SIZE) s
      else
        rbind (pmm_alloc_page s) (\<lambda>(phys, s).
        if phys = 0 then Inr (False, s)
        else
          let s = s\<lparr>mem := memset phys 0 PMM_PAGE_SIZE (mem s)\<rparr>
          in rbind (vmm_map_page pml4 p phys VMM_MAP_WRITE s) (\<lambda>s. sbrk_loop pml4 n (p + PMM_PAGE_SIZE) s)))"

definition sbrk_pages :: "u64 \<Rightarrow> u64 \<Rightarrow> nat" where
  "sbrk_pages start_page end_page =
     (if start_page < end_page then unat ((end_page - start_page) div PMM_PAGE_SIZE) else 0)"

definition sys_sbrk :: "interrupt_frame \<Rightarrow> ('d, 'a) sys_state_scheme \<Rightarrow> ('d, 'a) sys_result" where
  "sys_sbrk frame s =
     (let increment = f_rdi frame in
      if increment <s 0 then Inr (Some (frame\<lparr>f_rax := -1\<rparr>), s)
      else
        rbind (thread_get_heap_brk s) (\<lambda>old_brk.
        let new_brk = old_brk + increment;
            pml4 = vmm_current_cr3 s;
            start_page = old_brk AND NOT (PMM_PAGE_SIZE - 1);
            end_page = (new_brk + PMM_PAGE_SIZE - 1) AND NOT (PMM_PAGE_SIZE - 1)
        in rbind (sbrk_loop pml4 (sbrk_pages start_page end_page) start_page s) (\<lambda>(ok, s).
           if ok then rbind (thread_set_heap_brk new_brk s) (\<lambda>s. Inr (Some (frame\<lparr>f_rax := old_brk\<rparr>), s))
           else Inr (Some (frame\<lparr>f_rax := -1\<rparr>), s))))"

subsection \<open>\<open>syscall_dispatch\<close>\<close>

definition syscall_dispatch ::
  "(('d, 'a) sys_state_scheme) env \<Rightarrow> interrupt_frame \<Rightarrow> ('d, 'a) sys_state_scheme \<Rightarrow> ('d, 'a) sys_result" where
  "syscall_dispatch e frame s =
     (if f_cs frame AND 3 \<noteq> 3 then Inl (Panic ''syscall_dispatch: invoked from ring, expected ring 3'')
      else if f_rax frame = SYS_WRITE then sys_write frame s
      else if f_rax frame = SYS_EXIT then sys_exit frame s
      else if f_rax frame = SYS_READ_CHAR then sys_read_char e frame s
      else if f_rax frame = SYS_EXEC then sys_exec e frame s
      else if f_rax frame = SYS_LIST_DIR then sys_list_dir frame s
      else if f_rax frame = SYS_READ_FILE then sys_read_file frame s
      else if f_rax frame = SYS_WRITE_FILE then sys_write_file frame s
      else if f_rax frame = SYS_FB_INFO then sys_fb_info frame s
      else if f_rax frame = SYS_FB_MAP then sys_fb_map frame s
      else if f_rax frame = SYS_MOUSE_READ then sys_mouse_read frame s
      else if f_rax frame = SYS_SBRK then sys_sbrk frame s
      else Inl (Panic ''syscall_dispatch: unknown syscall number''))"

end
