(* ===== verification/Idt.thy ===== *)
theory Idt
  imports Syscall
begin

section \<open>Interrupts and exceptions (kernel/src/idt.c)\<close>

text \<open>
  The gate table, the exception handler that ends a faulting process or panics on a fault of the
  kernel, and the dispatcher. The stub addresses are a parameter, as are \<open>CR2\<close> (the faulting
  address) and the memory-mapped base of the Local APIC, whose handler acknowledges the interrupt and
  calls \<open>schedule\<close>.
\<close>

record idt_entry =
  offset_low :: u16
  selector :: u16
  ie_ist :: u8
  type_attr :: u8
  offset_mid :: u16
  offset_high :: u32
  ie_reserved :: u32

abbreviation IDT_ENTRY_COUNT :: nat where "IDT_ENTRY_COUNT \<equiv> 256"
abbreviation IDT_VECTOR_COUNT :: nat where "IDT_VECTOR_COUNT \<equiv> 49"
abbreviation IDT_TYPE_INTERRUPT_GATE :: u8 where "IDT_TYPE_INTERRUPT_GATE \<equiv> 0x8E"
abbreviation IDT_TYPE_INTERRUPT_GATE_DPL3 :: u8 where "IDT_TYPE_INTERRUPT_GATE_DPL3 \<equiv> 0xEE"
abbreviation SYSCALL_VECTOR :: nat where "SYSCALL_VECTOR \<equiv> 128"
abbreviation LAPIC_TIMER_VECTOR :: u64 where "LAPIC_TIMER_VECTOR \<equiv> 48"

subsection \<open>Gates\<close>

record idt_ptr =
  ip_limit :: u16
  ip_base :: u64

record 'd idt_state = "'d sys_state" +
  idt :: "idt_entry list"
  idtr :: idt_ptr

definition idt_set_entry :: "nat \<Rightarrow> u64 \<Rightarrow> u16 \<Rightarrow> u8 \<Rightarrow> ('d, 'a) idt_state_scheme \<Rightarrow> ('d, 'a) idt_state_scheme" where
  "idt_set_entry vector handler sel attr s =
     s\<lparr>idt := (idt s)[vector := \<lparr>offset_low = ucast (handler AND 0xFFFF), selector = sel, ie_ist = 0,
       type_attr = attr, offset_mid = ucast (drop_bit 16 handler AND 0xFFFF),
       offset_high = ucast (drop_bit 32 handler), ie_reserved = 0\<rparr>]\<rparr>"

definition idt_load_on_this_cpu :: "u64 \<Rightarrow> ('d, 'a) idt_state_scheme \<Rightarrow> ('d, 'a) idt_state_scheme" where
  "idt_load_on_this_cpu idt_addr s = s\<lparr>idtr := \<lparr>ip_limit = 256 * 16 - 1, ip_base = idt_addr\<rparr>\<rparr>"

definition idt_init ::
  "(nat \<Rightarrow> u64) \<Rightarrow> u64 \<Rightarrow> u16 \<Rightarrow> u64 \<Rightarrow> ('d, 'a) idt_state_scheme \<Rightarrow> ('d, 'a) idt_state_scheme" where
  "idt_init isr_stub_table isr_stub_128 cs idt_addr s =
     (let s = fold (\<lambda>i. idt_set_entry i (isr_stub_table i) cs IDT_TYPE_INTERRUPT_GATE) [0..<IDT_VECTOR_COUNT] s;
          s = idt_set_entry SYSCALL_VECTOR isr_stub_128 cs IDT_TYPE_INTERRUPT_GATE_DPL3 s
      in idt_load_on_this_cpu idt_addr s)"

subsection \<open>Exceptions\<close>

definition exception_names :: "string list" where
  "exception_names =
     [''Divide Error'', ''Debug'', ''NMI'', ''Breakpoint'', ''Overflow'',
      ''BOUND Range Exceeded'', ''Invalid Opcode'', ''Device Not Available'',
      ''Double Fault'', ''Coprocessor Segment Overrun'', ''Invalid TSS'',
      ''Segment Not Present'', ''Stack-Segment Fault'', ''General Protection Fault'',
      ''Page Fault'', ''Reserved'', ''x87 FP Exception'', ''Alignment Check'',
      ''Machine Check'', ''SIMD FP Exception'', ''Virtualization Exception'',
      ''Control Protection Exception'', ''Reserved'', ''Reserved'', ''Reserved'',
      ''Reserved'', ''Reserved'', ''Reserved'', ''Reserved'', ''Hypervisor Injection'',
      ''VMM Communication Exception'', ''Security Exception'']"

definition exception_name :: "u64 \<Rightarrow> string" where
  "exception_name vector = (if vector < 32 then exception_names ! unat vector else ''Unknown'')"

definition FAULT_EXIT_CODE :: "u64 \<Rightarrow> i64" where
  "FAULT_EXIT_CODE vector = -1000 - vector"

abbreviation kstr :: "string \<Rightarrow> karg" where "kstr s \<equiv> KStr (Some (cstr s))"

definition exception_handler ::
  "u64 \<Rightarrow> interrupt_frame \<Rightarrow> ('d, 'a) sys_state_scheme \<Rightarrow> ('d, 'a) sys_result" where
  "exception_handler cr2 frame s =
     (let from_ring3 = (f_cs frame AND 3 = 3);
          core = smp_current_cpu_index s;
          tname = thread_current_name s
      in if f_vector frame = 14
         then
           rbind (elf_handle_stack_fault cr2 (f_error_code frame) from_ring3 s) (\<lambda>(handled, s).
           if handled then Inr (Some frame, s)
           else if from_ring3 then
             rbind (kvprintf (cstr (''fault: process killed by page fault at rip=0x%lx, error_code=0x%lx, '' @
                 ''fault address (cr2)=0x%lx, core=%u, thread='') @ [0x22] @ cstr ''%s'' @ [0x22, 0x0A])
               [KInt (f_rip frame), KInt (f_error_code frame), KInt cr2, KInt (ucast core),
                KStr (Some tname)] s) (\<lambda>s.
             rbind (thread_exit_code (FAULT_EXIT_CODE (f_vector frame)) s) (\<lambda>s. Inr (None, s)))
           else Inl (Panic ''CPU exception (page fault)''))
         else if from_ring3 then
           rbind (kvprintf (cstr (''fault: process killed by CPU exception %lu (%s) at rip=0x%lx, error_code=0x%lx, '' @
               ''core=%u, thread='') @ [0x22] @ cstr ''%s'' @ [0x22, 0x0A])
             [KInt (f_vector frame), kstr (exception_name (f_vector frame)), KInt (f_rip frame),
              KInt (f_error_code frame), KInt (ucast core), KStr (Some tname)] s) (\<lambda>s.
           rbind (thread_exit_code (FAULT_EXIT_CODE (f_vector frame)) s) (\<lambda>s. Inr (None, s)))
         else Inl (Panic ''CPU exception''))"

subsection \<open>Dispatch\<close>

definition run_irq_handler ::
  "'d hardware \<Rightarrow> irq_handler \<Rightarrow> ('d, 'a) sys_state_scheme \<Rightarrow> ('d, 'a) sys_state_scheme res" where
  "run_irq_handler hw h s =
     (case h of
        Timer_Irq \<Rightarrow> timer_irq_handler hw s
      | Keyboard_Irq \<Rightarrow> Inr (keyboard_irq_handler hw s)
      | Mouse_Irq \<Rightarrow> mouse_irq_handler hw s)"

definition interrupt_dispatch ::
  "'d hardware \<Rightarrow> (('d, 'a) sys_state_scheme) env \<Rightarrow> u64 \<Rightarrow> interrupt_frame \<Rightarrow>
   ('d, 'a) sys_state_scheme \<Rightarrow> ('d, 'a) sys_result" where
  "interrupt_dispatch hw e cr2 frame s =
     (if f_vector frame < 32 then exception_handler cr2 frame s
      else if f_vector frame = of_nat SYSCALL_VECTOR then syscall_dispatch e frame s
      else if f_vector frame = LAPIC_TIMER_VECTOR
      then rbind (lapic_timer_isr hw s) (\<lambda>s. Inr (Some frame, s))
      else if f_vector frame \<ge> 32 \<and> f_vector frame < 32 + of_nat IRQ_HANDLER_COUNT
      then (case irq_handlers s ! unat (f_vector frame - 32) of
          None \<Rightarrow> Inr (Some frame, s)
        | Some h \<Rightarrow> rbind (run_irq_handler hw h s) (\<lambda>s. Inr (Some frame, s)))
      else Inr (Some frame, s))"

end
