(* ===== verification/Acpi.thy ===== *)
theory Acpi
  imports Buffers
begin

section \<open>ACPI tables (kernel/src/acpi.c)\<close>

text \<open>
  The search for the Local APIC IDs of the machine's cores in the firmware's tables, which lie in
  memory: the root pointer, the root table it names, and the entries of the MADT. The loop over the
  entries advances by a length the table supplies, so it is a partial function.
\<close>

record rsdp =
  rsdp_signature :: "u8 list"
  rsdp_checksum :: u8
  rsdp_oem_id :: "u8 list"
  rsdp_revision :: u8
  rsdt_address :: u32
  rsdp_length :: u32
  xsdt_address :: u64
  extended_checksum :: u8

definition rsdp_at :: "mem \<Rightarrow> u64 \<Rightarrow> rsdp" where
  "rsdp_at m a = \<lparr>rsdp_signature = bytes_at m a 8, rsdp_checksum = m (a + 8), rsdp_oem_id = bytes_at m (a + 9) 6,
     rsdp_revision = m (a + 15), rsdt_address = load32 m (a + 16), rsdp_length = load32 m (a + 20),
     xsdt_address = load64 m (a + 24), extended_checksum = m (a + 32)\<rparr>"

record sdt_header =
  sdt_signature :: "u8 list"
  sdt_length :: u32
  sdt_revision :: u8
  sdt_checksum :: u8
  sdt_oem_id :: "u8 list"
  sdt_oem_table_id :: "u8 list"
  sdt_oem_revision :: u32
  sdt_creator_id :: u32
  sdt_creator_revision :: u32

definition sdt_at :: "mem \<Rightarrow> u64 \<Rightarrow> sdt_header" where
  "sdt_at m a = \<lparr>sdt_signature = bytes_at m a 4, sdt_length = load32 m (a + 4), sdt_revision = m (a + 8),
     sdt_checksum = m (a + 9), sdt_oem_id = bytes_at m (a + 10) 6, sdt_oem_table_id = bytes_at m (a + 16) 8,
     sdt_oem_revision = load32 m (a + 24), sdt_creator_id = load32 m (a + 28),
     sdt_creator_revision = load32 m (a + 32)\<rparr>"

abbreviation SIZEOF_SDT_HEADER :: u32 where "SIZEOF_SDT_HEADER \<equiv> 36"
abbreviation MADT_ENTRY_LOCAL_APIC :: u8 where "MADT_ENTRY_LOCAL_APIC \<equiv> 0"
abbreviation MADT_LOCAL_APIC_ENABLED :: u32 where "MADT_LOCAL_APIC_ENABLED \<equiv> 1"

record madt_local_apic =
  madt_type :: u8
  madt_length :: u8
  acpi_processor_id :: u8
  madt_apic_id :: u8
  madt_flags :: u32

definition madt_entry_at :: "mem \<Rightarrow> u64 \<Rightarrow> madt_local_apic" where
  "madt_entry_at m a = \<lparr>madt_type = m a, madt_length = m (a + 1), acpi_processor_id = m (a + 2),
     madt_apic_id = m (a + 3), madt_flags = load32 m (a + 4)\<rparr>"

definition checksum_ok :: "mem \<Rightarrow> u64 \<Rightarrow> u32 \<Rightarrow> bool" where
  "checksum_ok m p len \<longleftrightarrow> fold (\<lambda>i acc. acc + m (p + of_nat i)) [0..<unat len] 0 = 0"

definition root_table :: "mem \<Rightarrow> u64 \<Rightarrow> u64 \<times> bool" where
  "root_table m rsdp_addr =
     (let r = rsdp_at m rsdp_addr in
      if rsdp_revision r \<ge> 2 \<and> checksum_ok m rsdp_addr (rsdp_length r)
      then (xsdt_address r, True) else (ucast (rsdt_address r), False))"

definition find_madt :: "mem \<Rightarrow> u64 \<Rightarrow> bool \<Rightarrow> u64 option" where
  "find_madt m root is_xsdt =
     (let entries_start = root + ucast SIZEOF_SDT_HEADER;
          entry_size = (if is_xsdt then 8 else 4 :: u32);
          entry_count = (sdt_length (sdt_at m root) - SIZEOF_SDT_HEADER) div entry_size;
          table_addr = (\<lambda>i. if is_xsdt then load64 m (entries_start + of_nat i * ucast entry_size)
            else ucast (load32 m (entries_start + of_nat i * ucast entry_size)))
      in map_option table_addr (find (\<lambda>i. sdt_signature (sdt_at m (table_addr i)) = cstr ''APIC'') [0..<unat entry_count]))"

partial_function (option) madt_loop :: "mem \<Rightarrow> u32 \<Rightarrow> u64 \<Rightarrow> u64 \<Rightarrow> u8 list \<Rightarrow> u8 list option" where
  "madt_loop m max_ids cursor stop ids =
     (if cursor < stop
      then let entry = madt_entry_at m cursor in
        if madt_length entry = 0 then Some ids
        else madt_loop m max_ids (cursor + ucast (madt_length entry)) stop
          (if madt_type entry = MADT_ENTRY_LOCAL_APIC \<and> madt_flags entry AND MADT_LOCAL_APIC_ENABLED \<noteq> 0 \<and>
              length ids < unat max_ids
           then ids @ [madt_apic_id entry] else ids)
      else Some ids)"

text \<open>The result is the list written to \<open>out_ids\<close>, whose length is \<open>*out_count\<close>; the return value is
  whether it is not empty.\<close>

definition acpi_find_local_apic_ids :: "u64 \<Rightarrow> u32 \<Rightarrow> mem \<Rightarrow> u8 list res" where
  "acpi_find_local_apic_ids rsdp_addr max_ids m =
     (if rsdp_addr = 0 then Inr []
      else if rsdp_signature (rsdp_at m rsdp_addr) \<noteq> cstr ''RSD PTR '' \<or> \<not> checksum_ok m rsdp_addr 20 then Inr []
      else
        let (root, is_xsdt) = root_table m rsdp_addr in
        if \<not> checksum_ok m root (sdt_length (sdt_at m root))
        then Inl (Panic ''acpi: root system description table failed its checksum'')
        else
          (case find_madt m root is_xsdt of
             None \<Rightarrow> Inr []
           | Some madt \<Rightarrow>
               (case madt_loop m max_ids (madt + ucast SIZEOF_SDT_HEADER + 8)
                   (madt + ucast (sdt_length (sdt_at m madt))) [] of
                  None \<Rightarrow> Inl Hang | Some ids \<Rightarrow> Inr ids)))"

end
