(* ===== verification/Smp.thy ===== *)
theory Smp
  imports Idt Acpi
begin

section \<open>Starting the other cores (kernel/src/smp.c)\<close>

text \<open>
  The boot core finds the other cores in the ACPI tables and starts them one at a time. A core that
  comes up increments \<open>ap_started_count\<close>; the boot core only sees that while it pauses, so \<open>pause\<close>, a
  parameter, is what the rest of the machine does meanwhile. Link-time addresses are parameters.
\<close>

abbreviation AP_STACK_SIZE :: u64 where "AP_STACK_SIZE \<equiv> 16384"
abbreviation AP_START_TIMEOUT_SPINS :: nat where "AP_START_TIMEOUT_SPINS \<equiv> 200000000"

record 'd smp_state = "'d idt_state" +
  ap_cr3 :: u64
  ap_stack_top :: u64
  ap_entry_point :: u64
  ap_core_index :: u32
  ap_started_count :: u32
  scheduler_ready :: bool
  apic_ids :: "u8 list"

definition spin_delay ::
  "(('d, 'a) smp_state_scheme \<Rightarrow> ('d, 'a) smp_state_scheme) \<Rightarrow> nat \<Rightarrow> ('d, 'a) smp_state_scheme \<Rightarrow> ('d, 'a) smp_state_scheme" where
  "spin_delay pause iterations s = (pause ^^ iterations) s"

definition smp_signal_scheduler_ready :: "('d, 'a) smp_state_scheme \<Rightarrow> ('d, 'a) smp_state_scheme" where
  "smp_signal_scheduler_ready s = s\<lparr>scheduler_ready := True\<rparr>"

subsection \<open>The core that starts\<close>

partial_function (option) ready_wait ::
  "(('d, 'a) smp_state_scheme \<Rightarrow> ('d, 'a) smp_state_scheme) \<Rightarrow> ('d, 'a) smp_state_scheme \<Rightarrow> ('d, 'a) smp_state_scheme option" where
  "ready_wait pause s = (if scheduler_ready s then Some s else ready_wait pause (pause s))"

definition ap_entry ::
  "'d hardware \<Rightarrow> (('d, 'a) smp_state_scheme \<Rightarrow> ('d, 'a) smp_state_scheme) \<Rightarrow> (u32 \<Rightarrow> u64) \<Rightarrow> (u32 \<Rightarrow> u64) \<Rightarrow> u64 \<Rightarrow> u64 \<Rightarrow>
   ('d, 'a) smp_state_scheme \<Rightarrow> ('d, 'a) smp_state_scheme res" where
  "ap_entry hw pause tss_addr stack_addr table_addr idt_addr s =
     (let my_index = ap_core_index s in
      rbind (gdt_load_on_this_cpu tss_addr stack_addr table_addr my_index s) (\<lambda>s.
      let s = idt_load_on_this_cpu idt_addr s;
          s = lapic_init hw s;
          s = lapic_timer_start hw s;
          s = s\<lparr>ap_started_count := ap_started_count s + 1\<rparr>
      in case ready_wait pause s of
           None \<Rightarrow> Inl Hang
         | Some s \<Rightarrow> scheduler_start s))"

subsection \<open>The boot core\<close>

text \<open>Waiting for the core; whether it came up in time.\<close>

primrec started_wait ::
  "(('d, 'a) smp_state_scheme \<Rightarrow> ('d, 'a) smp_state_scheme) \<Rightarrow> u32 \<Rightarrow> nat \<Rightarrow> ('d, 'a) smp_state_scheme \<Rightarrow>
   bool \<times> ('d, 'a) smp_state_scheme" where
  "started_wait pause before 0 s = (ap_started_count s \<noteq> before, s)"
| "started_wait pause before (Suc n) s =
     (if ap_started_count s = before then started_wait pause before n (pause s) else (True, s))"

definition start_core ::
  "'d hardware \<Rightarrow> (('d, 'a) smp_state_scheme \<Rightarrow> ('d, 'a) smp_state_scheme) \<Rightarrow> u64 \<Rightarrow> u8 \<Rightarrow> u32 \<Rightarrow> u8 \<Rightarrow>
   ('d, 'a) smp_state_scheme \<Rightarrow> ('d, 'a) smp_state_scheme res" where
  "start_core hw pause ap_entry_addr sipi_vector bsp_apic_id target s =
     (if ucast target = bsp_apic_id then Inr s
      else
        rbind (kmalloc AP_STACK_SIZE s) (\<lambda>(stack, s).
        if stack = 0 then Inl (Panic ''smp_init: kmalloc failed for an AP stack'')
        else
          let s = s\<lparr>ap_cr3 := vmm_kernel_cr3 s, ap_stack_top := stack + AP_STACK_SIZE,
                    ap_entry_point := ap_entry_addr, ap_core_index := cpu_count s\<rparr>;
              before = ap_started_count s
          in rbind (lapic_send_init hw target s) (\<lambda>s.
             let s = spin_delay pause 10000000 s in
             rbind (lapic_send_sipi hw target sipi_vector s) (\<lambda>s.
             let s = spin_delay pause 2000000 s in
             rbind (lapic_send_sipi hw target sipi_vector s) (\<lambda>s.
             let (started, s) = started_wait pause before AP_START_TIMEOUT_SPINS s in
             rbind (if started then Inr s
                 else kvprintf (cstr ''smp: CPU (APIC ID %u) never came up -- continuing without it'' @ [0x0A])
                   [KInt (ucast target)] s) (\<lambda>s.
             if ap_started_count s \<noteq> before
             then if SMP_MAX_CPUS \<le> unat (cpu_count s) then Inl (Undefined ''core_apic_ids index out of bounds'')
               else Inr (s\<lparr>core_apic_ids := (core_apic_ids s)[unat (cpu_count s) := ucast target],
                          cpu_count := cpu_count s + 1\<rparr>)
             else Inr s))))))"

definition smp_init ::
  "'d hardware \<Rightarrow> (('d, 'a) smp_state_scheme \<Rightarrow> ('d, 'a) smp_state_scheme) \<Rightarrow> u64 \<Rightarrow> u64 \<Rightarrow> u64 \<Rightarrow>
   ('d, 'a) smp_state_scheme \<Rightarrow> ('d, 'a) smp_state_scheme res" where
  "smp_init hw pause ap_entry_addr trampoline_addr rsdp_addr s =
     rbind (acpi_find_local_apic_ids rsdp_addr (of_nat SMP_MAX_CPUS) (mem s)) (\<lambda>ids.
     let s = s\<lparr>apic_ids := ids\<rparr> in
     if ids = [] then kvprintf (cstr ''smp: no ACPI MADT found -- running single-core'' @ [0x0A]) [] s
     else
       let s = lapic_init hw s;
           (bsp_apic_id, s) = lapic_id hw s;
           s = s\<lparr>core_apic_ids := (core_apic_ids s)[0 := bsp_apic_id]\<rparr>;
           sipi_vector = drop_bit 12 trampoline_addr
       in rbind (lapic_calibrate_timer hw pause s) (\<lambda>s.
          rbind (rfold (start_core hw pause ap_entry_addr (ucast sipi_vector) bsp_apic_id) ids s) (\<lambda>s.
          kvprintf (cstr ''smp: %u core(s) running'' @ [0x0A]) [KInt (ucast (cpu_count s))] s)))"

end
