(* ===== verification/Pci.thy ===== *)
theory Pci
  imports Ioport
begin

section \<open>PCI configuration space (kernel/src/pci.c)\<close>

text \<open>
  Configuration reads and writes through the address and data ports, and the scan of bus 0 for a
  device of a given class.
\<close>

abbreviation PCI_CONFIG_ADDRESS :: u16 where "PCI_CONFIG_ADDRESS \<equiv> 0xCF8"
abbreviation PCI_CONFIG_DATA :: u16 where "PCI_CONFIG_DATA \<equiv> 0xCFC"

record pci_device =
  bus :: u8
  device :: u8
  function_nr :: u8

definition pci_address :: "pci_device \<Rightarrow> u8 \<Rightarrow> u32" where
  "pci_address d offset =
     push_bit 31 1 OR push_bit 16 (ucast (bus d)) OR push_bit 11 (ucast (device d)) OR
     push_bit 8 (ucast (function_nr d)) OR ucast (offset AND 0xFC)"

definition pci_config_read32 ::
  "'d hardware \<Rightarrow> pci_device \<Rightarrow> u8 \<Rightarrow> ('d, 'a) io_state_scheme \<Rightarrow> u32 \<times> ('d, 'a) io_state_scheme" where
  "pci_config_read32 hw d offset s = inl hw PCI_CONFIG_DATA (outl hw PCI_CONFIG_ADDRESS (pci_address d offset) s)"

definition pci_config_write32 ::
  "'d hardware \<Rightarrow> pci_device \<Rightarrow> u8 \<Rightarrow> u32 \<Rightarrow> ('d, 'a) io_state_scheme \<Rightarrow> ('d, 'a) io_state_scheme" where
  "pci_config_write32 hw d offset val s = outl hw PCI_CONFIG_DATA val (outl hw PCI_CONFIG_ADDRESS (pci_address d offset) s)"

definition class_matches :: "u8 \<Rightarrow> u8 \<Rightarrow> u8 \<Rightarrow> u32 \<Rightarrow> bool" where
  "class_matches class_code subclass prog_if class_reg \<longleftrightarrow>
     ucast (drop_bit 24 class_reg) = class_code \<and> ucast (drop_bit 16 class_reg) = subclass \<and>
     ucast (drop_bit 8 class_reg) = prog_if"

text \<open>The inner loop over the functions of a device: those left to look at. The result is the device
  found, if any.\<close>

fun pci_functions ::
  "'d hardware \<Rightarrow> (u32 \<Rightarrow> bool) \<Rightarrow> nat \<Rightarrow> nat list \<Rightarrow> ('d, 'a) io_state_scheme \<Rightarrow> pci_device option \<times> ('d, 'a) io_state_scheme" where
  "pci_functions hw matches dv [] s = (None, s)"
| "pci_functions hw matches dv (fn # fns) s =
     (let d = \<lparr>bus = 0, device = of_nat dv, function_nr = of_nat fn\<rparr>;
          (id_reg, s) = pci_config_read32 hw d 0x00 s
      in if id_reg AND 0xFFFF = 0xFFFF then pci_functions hw matches dv fns s
         else
           let (class_reg, s) = pci_config_read32 hw d 0x08 s in
           if matches class_reg then (Some d, s)
           else if fn = 0 then
             let (header_reg, s) = pci_config_read32 hw d 0x0C s;
                 header_type = ucast (drop_bit 16 header_reg) :: u8
             in if header_type AND 0x80 = 0 then (None, s) else pci_functions hw matches dv fns s
           else pci_functions hw matches dv fns s)"

primrec pci_devices ::
  "'d hardware \<Rightarrow> (u32 \<Rightarrow> bool) \<Rightarrow> nat list \<Rightarrow> ('d, 'a) io_state_scheme \<Rightarrow> pci_device option \<times> ('d, 'a) io_state_scheme" where
  "pci_devices hw matches [] s = (None, s)"
| "pci_devices hw matches (dv # dvs) s =
     (case pci_functions hw matches dv [0..<8] s of
        (Some d, s) \<Rightarrow> (Some d, s) | (None, s) \<Rightarrow> pci_devices hw matches dvs s)"

definition pci_find_device ::
  "'d hardware \<Rightarrow> u8 \<Rightarrow> u8 \<Rightarrow> u8 \<Rightarrow> ('d, 'a) io_state_scheme \<Rightarrow> pci_device option \<times> ('d, 'a) io_state_scheme" where
  "pci_find_device hw class_code subclass prog_if s =
     pci_devices hw (class_matches class_code subclass prog_if) [0..<32] s"

end
