(* ===== verification/Ahci.thy ===== *)
theory Ahci
  imports Smp Pci
begin

section \<open>The disk driver (kernel/src/ahci.c)\<close>

text \<open>
  The driver of the one disk: finding the controller and port, stopping and starting its command
  engine, and one command at a time through slot 0. The controller is part of the hardware: a store to
  \<open>PORT_CI\<close> starts the transfer the command table in memory describes. The polling loops give up
  after a fixed number of reads and panic.
\<close>

abbreviation AHCI_CLASS :: u8 where "AHCI_CLASS \<equiv> 0x01"
abbreviation AHCI_SUBCLASS :: u8 where "AHCI_SUBCLASS \<equiv> 0x06"
abbreviation AHCI_PROG_IF :: u8 where "AHCI_PROG_IF \<equiv> 0x01"
abbreviation PCI_COMMAND_OFFSET :: u8 where "PCI_COMMAND_OFFSET \<equiv> 0x04"
abbreviation PCI_COMMAND_MEMORY_SPACE :: u32 where "PCI_COMMAND_MEMORY_SPACE \<equiv> 2"
abbreviation PCI_COMMAND_BUS_MASTER :: u32 where "PCI_COMMAND_BUS_MASTER \<equiv> 4"
abbreviation PCI_BAR5_OFFSET :: u8 where "PCI_BAR5_OFFSET \<equiv> 0x24"
abbreviation HBA_GHC :: u32 where "HBA_GHC \<equiv> 0x04"
abbreviation HBA_PI :: u32 where "HBA_PI \<equiv> 0x0C"
abbreviation GHC_AE :: u32 where "GHC_AE \<equiv> 0x80000000"
abbreviation PORT_REGION_BASE :: u64 where "PORT_REGION_BASE \<equiv> 0x100"
abbreviation PORT_REGION_SIZE :: u64 where "PORT_REGION_SIZE \<equiv> 0x80"
abbreviation PORT_CLB :: u32 where "PORT_CLB \<equiv> 0x00"
abbreviation PORT_CLBU :: u32 where "PORT_CLBU \<equiv> 0x04"
abbreviation PORT_FB :: u32 where "PORT_FB \<equiv> 0x08"
abbreviation PORT_FBU :: u32 where "PORT_FBU \<equiv> 0x0C"
abbreviation PORT_CMD :: u32 where "PORT_CMD \<equiv> 0x18"
abbreviation PORT_TFD :: u32 where "PORT_TFD \<equiv> 0x20"
abbreviation PORT_SIG :: u64 where "PORT_SIG \<equiv> 0x24"
abbreviation PORT_SSTS :: u64 where "PORT_SSTS \<equiv> 0x28"
abbreviation PORT_SERR :: u32 where "PORT_SERR \<equiv> 0x30"
abbreviation PORT_CI :: u32 where "PORT_CI \<equiv> 0x38"
abbreviation PORT_CMD_ST :: u32 where "PORT_CMD_ST \<equiv> 0x1"
abbreviation PORT_CMD_FRE :: u32 where "PORT_CMD_FRE \<equiv> 0x10"
abbreviation PORT_CMD_FR :: u32 where "PORT_CMD_FR \<equiv> 0x4000"
abbreviation PORT_CMD_CR :: u32 where "PORT_CMD_CR \<equiv> 0x8000"
abbreviation PORT_TFD_ERR :: u32 where "PORT_TFD_ERR \<equiv> 0x1"
abbreviation SATA_SIG_DISK :: u32 where "SATA_SIG_DISK \<equiv> 0x101"
abbreviation FIS_TYPE_REG_H2D :: u8 where "FIS_TYPE_REG_H2D \<equiv> 0x27"
abbreviation ATA_CMD_READ_DMA_EXT :: u8 where "ATA_CMD_READ_DMA_EXT \<equiv> 0x25"
abbreviation ATA_CMD_WRITE_DMA_EXT :: u8 where "ATA_CMD_WRITE_DMA_EXT \<equiv> 0x35"
abbreviation CMD_HEADER_WRITE :: u16 where "CMD_HEADER_WRITE \<equiv> 0x40"

record 'd ahci_state = "'d smp_state" +
  hba_base :: u64
  port_base :: u64
  cmd_list :: u64
  cmd_table :: u64
  ahci_lock :: spinlock_t

subsection \<open>Registers\<close>

definition hba_read32 :: "'d hardware \<Rightarrow> u32 \<Rightarrow> ('d, 'a) ahci_state_scheme \<Rightarrow> u32 \<times> ('d, 'a) ahci_state_scheme" where
  "hba_read32 hw offset s = mmio_read32 hw (hba_base s + ucast offset) s"

definition hba_write32 :: "'d hardware \<Rightarrow> u32 \<Rightarrow> u32 \<Rightarrow> ('d, 'a) ahci_state_scheme \<Rightarrow> ('d, 'a) ahci_state_scheme" where
  "hba_write32 hw offset val s = mmio_write32 hw (hba_base s + ucast offset) val s"

definition port_read32 :: "'d hardware \<Rightarrow> u32 \<Rightarrow> ('d, 'a) ahci_state_scheme \<Rightarrow> u32 \<times> ('d, 'a) ahci_state_scheme" where
  "port_read32 hw offset s = mmio_read32 hw (port_base s + ucast offset) s"

definition port_write32 :: "'d hardware \<Rightarrow> u32 \<Rightarrow> u32 \<Rightarrow> ('d, 'a) ahci_state_scheme \<Rightarrow> ('d, 'a) ahci_state_scheme" where
  "port_write32 hw offset val s = mmio_write32 hw (port_base s + ucast offset) val s"

text \<open>A polling loop: \<open>while (port_read32(reg) & bits)\<close> with at most \<open>n\<close> busy reads before the
  panic.\<close>

primrec port_poll ::
  "'d hardware \<Rightarrow> u32 \<Rightarrow> u32 \<Rightarrow> string \<Rightarrow> nat \<Rightarrow> ('d, 'a) ahci_state_scheme \<Rightarrow> ('d, 'a) ahci_state_scheme res" where
  "port_poll hw reg bits msg 0 s =
     (case port_read32 hw reg s of (v, s) \<Rightarrow> if v AND bits \<noteq> 0 then Inl (Panic msg) else Inr s)"
| "port_poll hw reg bits msg (Suc n) s =
     (case port_read32 hw reg s of (v, s) \<Rightarrow> if v AND bits \<noteq> 0 then port_poll hw reg bits msg n s else Inr s)"

definition port_stop :: "'d hardware \<Rightarrow> ('d, 'a) ahci_state_scheme \<Rightarrow> ('d, 'a) ahci_state_scheme res" where
  "port_stop hw s =
     (let (v, s) = port_read32 hw PORT_CMD s;
          s = port_write32 hw PORT_CMD (v AND NOT (PORT_CMD_ST OR PORT_CMD_FRE)) s
      in port_poll hw PORT_CMD (PORT_CMD_FR OR PORT_CMD_CR) ''ahci: port didn't stop its command engine in time''
           100000000 s)"

definition port_start :: "'d hardware \<Rightarrow> ('d, 'a) ahci_state_scheme \<Rightarrow> ('d, 'a) ahci_state_scheme res" where
  "port_start hw s =
     rbind (port_poll hw PORT_CMD PORT_CMD_CR ''ahci: port's command engine still running before restart'' 100000000 s)
       (\<lambda>s. let (v, s) = port_read32 hw PORT_CMD s
            in Inr (port_write32 hw PORT_CMD (v OR PORT_CMD_FRE OR PORT_CMD_ST) s))"

subsection \<open>\<open>blockdev_init\<close>\<close>

fun find_port :: "'d hardware \<Rightarrow> u32 \<Rightarrow> nat list \<Rightarrow> ('d, 'a) ahci_state_scheme \<Rightarrow> nat option \<times> ('d, 'a) ahci_state_scheme" where
  "find_port hw ports_implemented [] s = (None, s)"
| "find_port hw ports_implemented (i # is) s =
     (if ports_implemented AND push_bit i 1 = 0 then find_port hw ports_implemented is s
      else
        let candidate = hba_base s + PORT_REGION_BASE + of_nat i * PORT_REGION_SIZE;
            (ssts, s) = mmio_read32 hw (candidate + PORT_SSTS) s;
            det = ssts AND 0xF;
            (sig, s) = mmio_read32 hw (candidate + PORT_SIG) s
        in if det = 3 \<and> sig = SATA_SIG_DISK then (Some i, s) else find_port hw ports_implemented is s)"

definition alloc_command_pages :: "('d, 'a) ahci_state_scheme \<Rightarrow> ((u64 \<times> u64 \<times> u64) \<times> ('d, 'a) ahci_state_scheme) res" where
  "alloc_command_pages s =
     rbind (pmm_alloc_page s) (\<lambda>(clb, s).
     rbind (pmm_alloc_page s) (\<lambda>(fb, s).
     rbind (pmm_alloc_page s) (\<lambda>(ctb, s).
     if clb = 0 \<or> fb = 0 \<or> ctb = 0 then Inl (Panic ''ahci: out of physical memory for command structures'')
     else
       let s = s\<lparr>mem := memset clb 0 PMM_PAGE_SIZE (mem s)\<rparr>;
           s = s\<lparr>mem := memset fb 0 PMM_PAGE_SIZE (mem s)\<rparr>;
           s = s\<lparr>mem := memset ctb 0 PMM_PAGE_SIZE (mem s)\<rparr>
       in Inr ((clb, fb, ctb), s))))"

definition blockdev_init :: "'d hardware \<Rightarrow> ('d, 'a) ahci_state_scheme \<Rightarrow> ('d, 'a) ahci_state_scheme res" where
  "blockdev_init hw s =
     (let (found, s) = pci_find_device hw AHCI_CLASS AHCI_SUBCLASS AHCI_PROG_IF s in
      case found of
        None \<Rightarrow> Inl (Panic ''ahci: no AHCI controller found on PCI bus 0'')
      | Some d \<Rightarrow>
          let (command_reg, s) = pci_config_read32 hw d PCI_COMMAND_OFFSET s;
              command_reg = command_reg OR (PCI_COMMAND_MEMORY_SPACE OR PCI_COMMAND_BUS_MASTER);
              s = pci_config_write32 hw d PCI_COMMAND_OFFSET command_reg s;
              (bar, s) = pci_config_read32 hw d PCI_BAR5_OFFSET s;
              s = s\<lparr>hba_base := ucast (bar AND NOT 0xF)\<rparr>;
              (ghc, s) = hba_read32 hw HBA_GHC s;
              s = hba_write32 hw HBA_GHC (ghc OR GHC_AE) s;
              (ports_implemented, s) = hba_read32 hw HBA_PI s;
              (found_port, s) = find_port hw ports_implemented [0..<32] s
          in case found_port of
               None \<Rightarrow> Inl (Panic ''ahci: no SATA disk found on any implemented port'')
             | Some i \<Rightarrow>
                 let s = s\<lparr>port_base := hba_base s + PORT_REGION_BASE + of_nat i * PORT_REGION_SIZE\<rparr> in
                 rbind (port_stop hw s) (\<lambda>s.
                 rbind (alloc_command_pages s) (\<lambda>((clb, fb, ctb), s).
                 let s = s\<lparr>cmd_list := clb, cmd_table := ctb\<rparr>;
                     s = port_write32 hw PORT_CLB (ucast clb) s;
                     s = port_write32 hw PORT_CLBU 0 s;
                     s = port_write32 hw PORT_FB (ucast fb) s;
                     s = port_write32 hw PORT_FBU 0 s;
                     s = s\<lparr>mem := store_le 4 (ucast ctb :: u32) (cmd_list s + 8) (mem s)\<rparr>;
                     s = s\<lparr>mem := store_le 4 (0 :: u32) (cmd_list s + 12) (mem s)\<rparr>;
                     (serr, s) = port_read32 hw PORT_SERR s;
                     s = port_write32 hw PORT_SERR serr s
                 in port_start hw s)))"

subsection \<open>Commands\<close>

text \<open>The 20 bytes of the command FIS, the PRDT entry (at offset 128 of the command table) and the
  command header.\<close>

definition command_fis :: "u64 \<Rightarrow> u32 \<Rightarrow> bool \<Rightarrow> u8 list" where
  "command_fis lba count is_write =
     [FIS_TYPE_REG_H2D, 0x80, if is_write then ATA_CMD_WRITE_DMA_EXT else ATA_CMD_READ_DMA_EXT, 0,
      ucast (lba AND 0xFF), ucast (drop_bit 8 lba AND 0xFF), ucast (drop_bit 16 lba AND 0xFF), 0x40,
      ucast (drop_bit 24 lba AND 0xFF), ucast (drop_bit 32 lba AND 0xFF), ucast (drop_bit 40 lba AND 0xFF), 0,
      ucast (count AND 0xFF), ucast (drop_bit 8 count AND 0xFF), 0, 0, 0, 0, 0, 0]"

definition dbc_of :: "u32 \<Rightarrow> u32" where
  "dbc_of count = (count * 512 - 1) AND 0x3FFFFF"

definition write_command :: "u64 \<Rightarrow> u64 \<Rightarrow> u64 \<Rightarrow> u32 \<Rightarrow> u64 \<Rightarrow> bool \<Rightarrow> mem \<Rightarrow> mem" where
  "write_command clist ctab lba count buf is_write m =
     (let m = store_bytes ctab (command_fis lba count is_write) m;
          m = store_le 4 (ucast buf :: u32) (ctab + 128) m;
          m = store_le 4 (0 :: u32) (ctab + 132) m;
          m = store_le 4 (dbc_of count) (ctab + 140) m;
          m = store_le 2 (5 OR (if is_write then CMD_HEADER_WRITE else 0)) clist m;
          m = store_le 2 (1 :: u16) (clist + 2) m
      in store_le 4 (0 :: u32) (clist + 4) m)"

definition issue_rw_command ::
  "'d hardware \<Rightarrow> u64 \<Rightarrow> u32 \<Rightarrow> u64 \<Rightarrow> bool \<Rightarrow> ('d, 'a) ahci_state_scheme \<Rightarrow> ('d, 'a) ahci_state_scheme res" where
  "issue_rw_command hw lba count buf is_write s =
     (if count = 0 then Inr s
      else
        let (irq_flags, s) = irq_save_disable s in
        rbind (spinlock_acquire (ahci_lock s)) (\<lambda>l.
        let s = s\<lparr>ahci_lock := l\<rparr>;
            s = s\<lparr>mem := write_command (cmd_list s) (cmd_table s) lba count buf is_write (mem s)\<rparr>;
            s = port_write32 hw PORT_CI 1 s
        in rbind (port_poll hw PORT_CI 1 ''ahci: command timed out'' 200000000 s) (\<lambda>s.
           let (tfd, s) = port_read32 hw PORT_TFD s in
           if tfd AND PORT_TFD_ERR \<noteq> 0 then Inl (Panic ''ahci: device reported an error'')
           else
             let s = s\<lparr>ahci_lock := spinlock_release (ahci_lock s)\<rparr>
             in Inr (irq_restore irq_flags s))))"

definition ahci_read_sectors ::
  "'d hardware \<Rightarrow> u64 \<Rightarrow> u32 \<Rightarrow> u64 \<Rightarrow> ('d, 'a) ahci_state_scheme \<Rightarrow> ('d, 'a) ahci_state_scheme res" where
  "ahci_read_sectors hw lba count buf s = issue_rw_command hw lba count buf False s"

definition ahci_write_sectors ::
  "'d hardware \<Rightarrow> u64 \<Rightarrow> u32 \<Rightarrow> u64 \<Rightarrow> ('d, 'a) ahci_state_scheme \<Rightarrow> ('d, 'a) ahci_state_scheme res" where
  "ahci_write_sectors hw lba count buf s = issue_rw_command hw lba count buf True s"

end
