(* ===== verification/E1000.thy ===== *)
theory E1000
  imports Ahci
begin

section \<open>The network card driver (kernel/src/e1000.c)\<close>

text \<open>
  The polled driver of the Intel 8254x card: initialisation as register writes and two rings of eight
  16-byte descriptors in memory, sending through the next transmit descriptor and polling the next
  receive descriptor. A frame the caller assembles on its stack is a list of bytes. The card changes
  descriptors and buffers in memory by DMA.
\<close>

abbreviation E1000_CLASS :: u8 where "E1000_CLASS \<equiv> 0x02"
abbreviation E1000_SUBCLASS :: u8 where "E1000_SUBCLASS \<equiv> 0x00"
abbreviation E1000_PROG_IF :: u8 where "E1000_PROG_IF \<equiv> 0x00"
abbreviation E1000_PCI_COMMAND :: u8 where "E1000_PCI_COMMAND \<equiv> 0x04"
abbreviation PCI_BAR0_OFFSET :: u8 where "PCI_BAR0_OFFSET \<equiv> 0x10"
abbreviation REG_CTRL :: u32 where "REG_CTRL \<equiv> 0x0000"
abbreviation REG_ICR :: u32 where "REG_ICR \<equiv> 0x00C0"
abbreviation REG_IMC :: u32 where "REG_IMC \<equiv> 0x00D8"
abbreviation REG_RCTL :: u32 where "REG_RCTL \<equiv> 0x0100"
abbreviation REG_TCTL :: u32 where "REG_TCTL \<equiv> 0x0400"
abbreviation REG_TIPG :: u32 where "REG_TIPG \<equiv> 0x0410"
abbreviation REG_RDBAL :: u32 where "REG_RDBAL \<equiv> 0x2800"
abbreviation REG_RDBAH :: u32 where "REG_RDBAH \<equiv> 0x2804"
abbreviation REG_RDLEN :: u32 where "REG_RDLEN \<equiv> 0x2808"
abbreviation REG_RDH :: u32 where "REG_RDH \<equiv> 0x2810"
abbreviation REG_RDT :: u32 where "REG_RDT \<equiv> 0x2818"
abbreviation REG_TDBAL :: u32 where "REG_TDBAL \<equiv> 0x3800"
abbreviation REG_TDBAH :: u32 where "REG_TDBAH \<equiv> 0x3804"
abbreviation REG_TDLEN :: u32 where "REG_TDLEN \<equiv> 0x3808"
abbreviation REG_TDH :: u32 where "REG_TDH \<equiv> 0x3810"
abbreviation REG_TDT :: u32 where "REG_TDT \<equiv> 0x3818"
abbreviation REG_RAL0 :: u32 where "REG_RAL0 \<equiv> 0x5400"
abbreviation REG_RAH0 :: u32 where "REG_RAH0 \<equiv> 0x5404"
abbreviation CTRL_ASDE :: u32 where "CTRL_ASDE \<equiv> 0x20"
abbreviation CTRL_SLU :: u32 where "CTRL_SLU \<equiv> 0x40"
abbreviation CTRL_RST :: u32 where "CTRL_RST \<equiv> 0x4000000"
abbreviation RCTL_EN :: u32 where "RCTL_EN \<equiv> 0x2"
abbreviation RCTL_BAM :: u32 where "RCTL_BAM \<equiv> 0x8000"
abbreviation RCTL_SECRC :: u32 where "RCTL_SECRC \<equiv> 0x4000000"
abbreviation TCTL_EN :: u32 where "TCTL_EN \<equiv> 0x2"
abbreviation TCTL_PSP :: u32 where "TCTL_PSP \<equiv> 0x8"
abbreviation TX_CMD :: u8 where "TX_CMD \<equiv> 0xB"
abbreviation DESC_STATUS_DD :: u8 where "DESC_STATUS_DD \<equiv> 1"
abbreviation E1000_BUF_SIZE :: u16 where "E1000_BUF_SIZE \<equiv> 2048"
abbreviation RX_DESC_COUNT :: u32 where "RX_DESC_COUNT \<equiv> 8"
abbreviation TX_DESC_COUNT :: u32 where "TX_DESC_COUNT \<equiv> 8"

record 'd nic_state = "'d ahci_state" +
  mmio_base :: u64
  rx_ring :: u64
  tx_ring :: u64
  rx_tail :: u32
  tx_tail :: u32
  mac :: "u8 list"
  e1000_tx_lock :: spinlock_t
  e1000_rx_lock :: spinlock_t

subsection \<open>Registers and descriptors\<close>

definition reg_read :: "'d hardware \<Rightarrow> u32 \<Rightarrow> ('d, 'a) nic_state_scheme \<Rightarrow> u32 \<times> ('d, 'a) nic_state_scheme" where
  "reg_read hw offset s = mmio_read32 hw (mmio_base s + ucast offset) s"

definition reg_write :: "'d hardware \<Rightarrow> u32 \<Rightarrow> u32 \<Rightarrow> ('d, 'a) nic_state_scheme \<Rightarrow> ('d, 'a) nic_state_scheme" where
  "reg_write hw offset val s = mmio_write32 hw (mmio_base s + ucast offset) val s"

text \<open>Field offsets of a descriptor: address 0, length 8; transmit \<open>cso\<close> 10, \<open>cmd\<close> 11 and status 12;
  receive status 12.\<close>

definition desc_ptr :: "u64 \<Rightarrow> u32 \<Rightarrow> u64" where
  "desc_ptr ring_base i = ring_base + ucast i * 16"

subsection \<open>\<open>e1000_init\<close>\<close>

primrec reset_poll :: "'d hardware \<Rightarrow> nat \<Rightarrow> ('d, 'a) nic_state_scheme \<Rightarrow> ('d, 'a) nic_state_scheme res" where
  "reset_poll hw 0 s =
     (case reg_read hw REG_CTRL s of (v, s) \<Rightarrow>
        if v AND CTRL_RST \<noteq> 0 then Inl (Panic ''e1000: device didn't come out of reset in time'') else Inr s)"
| "reset_poll hw (Suc n) s =
     (case reg_read hw REG_CTRL s of (v, s) \<Rightarrow> if v AND CTRL_RST \<noteq> 0 then reset_poll hw n s else Inr s)"

definition mac_of :: "u32 \<Rightarrow> u32 \<Rightarrow> u8 list" where
  "mac_of ral rah =
     [ucast (ral AND 0xFF), ucast (drop_bit 8 ral AND 0xFF), ucast (drop_bit 16 ral AND 0xFF),
      ucast (drop_bit 24 ral AND 0xFF), ucast (rah AND 0xFF), ucast (drop_bit 8 rah AND 0xFF)]"

definition fill_ring ::
  "u64 \<Rightarrow> string \<Rightarrow> u32 \<Rightarrow> ('d, 'a) nic_state_scheme \<Rightarrow> ('d, 'a) nic_state_scheme res" where
  "fill_ring ring_base msg n s =
     rfold (\<lambda>i s. rbind (pmm_alloc_page s) (\<lambda>(buf, s).
       if buf = 0 then Inl (Panic msg)
       else
         let d = desc_ptr ring_base (of_nat i);
             s = s\<lparr>mem := store64 d buf (mem s)\<rparr>
         in Inr (s\<lparr>mem := (mem s)(d + 12 := 0)\<rparr>))) [0..<unat n] s"

definition e1000_init :: "'d hardware \<Rightarrow> ('d, 'a) nic_state_scheme \<Rightarrow> ('d, 'a) nic_state_scheme res" where
  "e1000_init hw s =
     (let (found, s) = pci_find_device hw E1000_CLASS E1000_SUBCLASS E1000_PROG_IF s in
      case found of
        None \<Rightarrow> Inl (Panic ''e1000: no ethernet controller found on PCI bus 0'')
      | Some d \<Rightarrow>
          let (command_reg, s) = pci_config_read32 hw d E1000_PCI_COMMAND s;
              command_reg = command_reg OR (2 OR 4);
              s = pci_config_write32 hw d E1000_PCI_COMMAND command_reg s;
              (bar, s) = pci_config_read32 hw d PCI_BAR0_OFFSET s;
              s = s\<lparr>mmio_base := ucast (bar AND NOT 0xF)\<rparr>;
              (ctrl, s) = reg_read hw REG_CTRL s;
              s = reg_write hw REG_CTRL (ctrl OR CTRL_RST) s
          in rbind (reset_poll hw 100000000 s) (\<lambda>s.
             let s = reg_write hw REG_IMC 0xFFFFFFFF s;
                 (icr, s) = reg_read hw REG_ICR s;
                 (ctrl, s) = reg_read hw REG_CTRL s;
                 s = reg_write hw REG_CTRL (ctrl OR CTRL_SLU OR CTRL_ASDE) s;
                 (ral, s) = reg_read hw REG_RAL0 s;
                 (rah, s) = reg_read hw REG_RAH0 s;
                 s = s\<lparr>mac := mac_of ral rah\<rparr>
             in rbind (pmm_alloc_page s) (\<lambda>(rx, s).
                rbind (pmm_alloc_page s) (\<lambda>(tx, s).
                let s = s\<lparr>rx_ring := rx, tx_ring := tx\<rparr> in
                if rx = 0 \<or> tx = 0 then Inl (Panic ''e1000: out of physical memory for the descriptor rings'')
                else
                  let s = s\<lparr>mem := memset rx 0 PMM_PAGE_SIZE (mem s)\<rparr>;
                      s = s\<lparr>mem := memset tx 0 PMM_PAGE_SIZE (mem s)\<rparr>
                  in rbind (fill_ring rx ''e1000: out of physical memory for an RX buffer'' RX_DESC_COUNT s) (\<lambda>s.
                     rbind (fill_ring tx ''e1000: out of physical memory for a TX buffer'' TX_DESC_COUNT s) (\<lambda>s.
                     let s = reg_write hw REG_RDBAL (ucast rx) s;
                         s = reg_write hw REG_RDBAH 0 s;
                         s = reg_write hw REG_RDLEN (RX_DESC_COUNT * 16) s;
                         s = reg_write hw REG_RDH 0 s;
                         s = reg_write hw REG_RDT (RX_DESC_COUNT - 1) s;
                         s = s\<lparr>rx_tail := RX_DESC_COUNT - 1\<rparr>;
                         s = reg_write hw REG_RCTL (RCTL_EN OR RCTL_BAM OR RCTL_SECRC OR 0) s;
                         s = reg_write hw REG_TDBAL (ucast tx) s;
                         s = reg_write hw REG_TDBAH 0 s;
                         s = reg_write hw REG_TDLEN (TX_DESC_COUNT * 16) s;
                         s = reg_write hw REG_TDH 0 s;
                         s = reg_write hw REG_TDT 0 s;
                         s = s\<lparr>tx_tail := 0\<rparr>;
                         s = reg_write hw REG_TCTL (TCTL_EN OR TCTL_PSP OR push_bit 4 0x0F OR push_bit 12 0x40) s;
                         s = reg_write hw REG_TIPG (10 OR push_bit 10 8 OR push_bit 20 6) s
                     in Inr s))))))"

definition e1000_get_mac :: "('d, 'a) nic_state_scheme \<Rightarrow> u8 list" where
  "e1000_get_mac s = mac s"

subsection \<open>Sending\<close>

primrec sent_poll :: "'d hardware \<Rightarrow> u64 \<Rightarrow> nat \<Rightarrow> ('d, 'a) nic_state_scheme \<Rightarrow> ('d, 'a) nic_state_scheme res" where
  "sent_poll hw d 0 s =
     (let s = dma_tick hw s in
      if mem s (d + 12) AND DESC_STATUS_DD = 0 then Inl (Panic ''e1000_send: card never reported the frame as sent'')
      else Inr s)"
| "sent_poll hw d (Suc n) s =
     (let s = dma_tick hw s in
      if mem s (d + 12) AND DESC_STATUS_DD = 0 then sent_poll hw d n s else Inr s)"

definition e1000_send :: "'d hardware \<Rightarrow> u8 list \<Rightarrow> ('d, 'a) nic_state_scheme \<Rightarrow> ('d, 'a) nic_state_scheme res" where
  "e1000_send hw frame s =
     (let len = of_nat (length frame) :: u16 in
      if len > E1000_BUF_SIZE then Inl (Panic ''e1000_send: frame too large'')
      else
        let (flags, s) = irq_save_disable s in
        rbind (spinlock_acquire (e1000_tx_lock s)) (\<lambda>l.
        let s = s\<lparr>e1000_tx_lock := l\<rparr>;
            d = desc_ptr (tx_ring s) (tx_tail s);
            s = s\<lparr>mem := store_bytes (load64 (mem s) d) frame (mem s)\<rparr>;
            s = s\<lparr>mem := store_le 2 len (d + 8) (mem s)\<rparr>;
            s = s\<lparr>mem := (mem s)(d + 10 := 0, d + 11 := TX_CMD, d + 12 := 0)\<rparr>;
            s = s\<lparr>tx_tail := (tx_tail s + 1) mod TX_DESC_COUNT\<rparr>;
            s = reg_write hw REG_TDT (tx_tail s) s
        in rbind (sent_poll hw d 100000000 s) (\<lambda>s.
           let s = s\<lparr>e1000_tx_lock := spinlock_release (e1000_tx_lock s)\<rparr>
           in Inr (irq_restore flags s))))"

subsection \<open>Receiving\<close>

text \<open>The result is the length the function returns and the bytes it copied to the caller's buffer.\<close>

definition e1000_poll_receive ::
  "'d hardware \<Rightarrow> u16 \<Rightarrow> ('d, 'a) nic_state_scheme \<Rightarrow> ((u16 \<times> u8 list) \<times> ('d, 'a) nic_state_scheme) res" where
  "e1000_poll_receive hw max_len s =
     (let (flags, s) = irq_save_disable s in
      rbind (spinlock_acquire (e1000_rx_lock s)) (\<lambda>l.
      let s = s\<lparr>e1000_rx_lock := l\<rparr>;
          d = desc_ptr (rx_ring s) ((rx_tail s + 1) mod RX_DESC_COUNT)
      in if mem s (d + 12) AND DESC_STATUS_DD = 0
         then Inr ((0, []), irq_restore flags (s\<lparr>e1000_rx_lock := spinlock_release (e1000_rx_lock s)\<rparr>))
         else
           let len = load16 (mem s) (d + 8);
               copy_len = (if len < max_len then len else max_len);
               bytes = bytes_at (mem s) (load64 (mem s) d) (unat copy_len);
               s = s\<lparr>mem := (mem s)(d + 12 := 0)\<rparr>;
               s = s\<lparr>rx_tail := (rx_tail s + 1) mod RX_DESC_COUNT\<rparr>;
               s = reg_write hw REG_RDT (rx_tail s) s;
               s = s\<lparr>e1000_rx_lock := spinlock_release (e1000_rx_lock s)\<rparr>
           in Inr ((len, bytes), irq_restore flags s)))"

end
