(* ===== verification/Net.thy ===== *)
theory Net
  imports E1000
begin

section \<open>The network stack (kernel/src/net.c)\<close>

text \<open>
  Ethernet, ARP and ICMP echo: the frames the two requests consist of, the internet checksum, and the
  bounded retry loops. A packed header is the list of its bytes; 16-bit fields are stored with
  \<open>htons16\<close> first, so they appear in network order.
\<close>

definition NET_OUR_IP :: "u8 list" where "NET_OUR_IP = [10, 0, 2, 15]"
definition NET_GATEWAY_IP :: "u8 list" where "NET_GATEWAY_IP = [10, 0, 2, 2]"
definition BROADCAST_MAC :: "u8 list" where "BROADCAST_MAC = [0xFF, 0xFF, 0xFF, 0xFF, 0xFF, 0xFF]"

abbreviation ETHERTYPE_ARP :: u16 where "ETHERTYPE_ARP \<equiv> 0x0806"
abbreviation ETHERTYPE_IPV4 :: u16 where "ETHERTYPE_IPV4 \<equiv> 0x0800"
abbreviation IP_PROTO_ICMP :: u8 where "IP_PROTO_ICMP \<equiv> 1"
abbreviation ARP_OPER_REQUEST :: u16 where "ARP_OPER_REQUEST \<equiv> 1"
abbreviation ARP_OPER_REPLY :: u16 where "ARP_OPER_REPLY \<equiv> 2"
abbreviation ICMP_TYPE_ECHO_REQUEST :: u8 where "ICMP_TYPE_ECHO_REQUEST \<equiv> 8"
abbreviation ICMP_TYPE_ECHO_REPLY :: u8 where "ICMP_TYPE_ECHO_REPLY \<equiv> 0"
abbreviation MAX_FRAME_SIZE :: u16 where "MAX_FRAME_SIZE \<equiv> 1518"
abbreviation ICMP_PAYLOAD_SIZE :: nat where "ICMP_PAYLOAD_SIZE \<equiv> 32"
abbreviation RETRY_COUNT :: nat where "RETRY_COUNT \<equiv> 20"
abbreviation SPINS_PER_RETRY :: nat where "SPINS_PER_RETRY \<equiv> 2000000"

record 'd net_state = "'d nic_state" +
  our_mac :: "u8 list"

subsection \<open>Byte order and checksum\<close>

definition htons16 :: "u16 \<Rightarrow> u16" where
  "htons16 v = push_bit 8 v OR drop_bit 8 v"

text \<open>The two bytes a 16-bit field has in memory.\<close>

definition le16 :: "u16 \<Rightarrow> u8 list" where
  "le16 v = [ucast v, ucast (drop_bit 8 v)]"

fun sum16 :: "u8 list \<Rightarrow> u32 \<Rightarrow> u32" where
  "sum16 (a # b # p) acc = sum16 p (acc + ucast (push_bit 8 (ucast a) OR ucast b :: u16))"
| "sum16 [a] acc = acc + ucast (push_bit 8 (ucast a) :: u16)"
| "sum16 [] acc = acc"

function fold_carry :: "u32 \<Rightarrow> u32" where
  "fold_carry sm = (if drop_bit 16 sm \<noteq> 0 then fold_carry ((sm AND 0xFFFF) + drop_bit 16 sm) else sm)"
  by pat_completeness auto
termination
proof (relation "measure unat")
  fix sm :: u32
  assume hi: "drop_bit 16 sm \<noteq> 0"
  have d: "unat (drop_bit 16 sm) = unat sm div 65536"
    by (simp add: drop_bit_eq_div unat_div)
  have "sm AND 0xFFFF = take_bit 16 sm" by (simp add: take_bit_eq_mask mask_eq_exp_minus_1)
  then have "unat (sm AND 0xFFFF) = take_bit 16 (unat sm)" by (simp only: unsigned_take_bit_eq)
  then have m: "unat (sm AND 0xFFFF) = unat sm mod 65536" by (simp add: take_bit_eq_mod)
  have pos: "0 < unat sm div 65536" using hi d by (metis bot_nat_0.not_eq_extremum unat_eq_zero)
  have b: "unat sm < 2 ^ 32" using unsigned_less[of sm, where ?'a = nat] by simp
  have "unat ((sm AND 0xFFFF) + drop_bit 16 sm) = unat sm mod 65536 + unat sm div 65536"
    using b by (subst unat_add_no_wrap) (auto simp: m d)
  also have "\<dots> < unat sm" using pos div_mult_mod_eq[of "unat sm" 65536] by linarith
  finally show "((sm AND 0xFFFF) + drop_bit 16 sm, sm) \<in> measure unat" by simp
qed simp

declare fold_carry.simps [simp del]

definition checksum16 :: "u8 list \<Rightarrow> u16" where
  "checksum16 data = ucast (NOT (fold_carry (sum16 data 0)))"

subsection \<open>Frames\<close>

definition eth_header :: "u8 list \<Rightarrow> u8 list \<Rightarrow> u16 \<Rightarrow> u8 list" where
  "eth_header dst src ethertype = dst @ src @ le16 (htons16 ethertype)"

definition arp_request :: "u8 list \<Rightarrow> u8 list \<Rightarrow> u8 list" where
  "arp_request src_mac ip =
     eth_header BROADCAST_MAC src_mac ETHERTYPE_ARP @
     le16 (htons16 1) @ le16 (htons16 ETHERTYPE_IPV4) @ [6, 4] @ le16 (htons16 ARP_OPER_REQUEST) @
     src_mac @ NET_OUR_IP @ replicate 6 0 @ ip"

definition ipv4_header :: "u8 list \<Rightarrow> u16 \<Rightarrow> u8 list" where
  "ipv4_header ip checksum =
     [0x45, 0] @ le16 (htons16 (20 + 8 + of_nat ICMP_PAYLOAD_SIZE)) @ le16 (htons16 1) @ le16 0 @
     [64, IP_PROTO_ICMP] @ le16 checksum @ NET_OUR_IP @ ip"

definition icmp_message :: "u16 \<Rightarrow> u16 \<Rightarrow> u16 \<Rightarrow> u8 list \<Rightarrow> u8 list" where
  "icmp_message identifier seqno checksum payload =
     [ICMP_TYPE_ECHO_REQUEST, 0] @ le16 checksum @ le16 (htons16 identifier) @ le16 (htons16 seqno) @ payload"

definition ping_payload :: "u8 list" where
  "ping_payload = map (\<lambda>i. 0x41 + of_nat (i mod 26)) [0..<ICMP_PAYLOAD_SIZE]"

definition echo_request :: "u8 list \<Rightarrow> u8 list \<Rightarrow> u8 list \<Rightarrow> u16 \<Rightarrow> u16 \<Rightarrow> u8 list" where
  "echo_request src_mac ip dst_mac identifier seqno =
     eth_header dst_mac src_mac ETHERTYPE_IPV4 @
     ipv4_header ip (htons16 (checksum16 (ipv4_header ip 0))) @
     icmp_message identifier seqno (htons16 (checksum16 (icmp_message identifier seqno 0 ping_payload))) ping_payload"

subsection \<open>Replies\<close>

definition field :: "u8 list \<Rightarrow> nat \<Rightarrow> nat \<Rightarrow> u8 list" where
  "field f off n = take n (drop off f)"

definition arp_reply_matches :: "u8 list \<Rightarrow> u8 list \<Rightarrow> bool" where
  "arp_reply_matches ip f \<longleftrightarrow>
     field f 12 2 = le16 (htons16 ETHERTYPE_ARP) \<and> field f 20 2 = le16 (htons16 ARP_OPER_REPLY) \<and> field f 28 4 = ip"

definition echo_reply_matches :: "u8 list \<Rightarrow> u16 \<Rightarrow> u16 \<Rightarrow> u8 list \<Rightarrow> bool" where
  "echo_reply_matches ip identifier seqno f \<longleftrightarrow>
     field f 12 2 = le16 (htons16 ETHERTYPE_IPV4) \<and> f ! 23 = IP_PROTO_ICMP \<and> field f 26 4 = ip \<and>
     f ! 34 = ICMP_TYPE_ECHO_REPLY \<and> field f 38 2 = le16 (htons16 identifier) \<and>
     field f 40 2 = le16 (htons16 seqno) \<and> field f 42 ICMP_PAYLOAD_SIZE = ping_payload"

subsection \<open>Requests\<close>

definition net_init :: "('d, 'a) net_state_scheme \<Rightarrow> ('d, 'a) net_state_scheme" where
  "net_init s = s\<lparr>our_mac := e1000_get_mac s\<rparr>"

text \<open>The polling loop and the retry loop around it; \<open>accept\<close> says what a matching frame of at least
  \<open>min_len\<close> bytes gives.\<close>

primrec await_reply ::
  "'d hardware \<Rightarrow> (('d, 'a) net_state_scheme \<Rightarrow> ('d, 'a) net_state_scheme) \<Rightarrow> u16 \<Rightarrow> (u8 list \<Rightarrow> 'r option) \<Rightarrow>
   nat \<Rightarrow> ('d, 'a) net_state_scheme \<Rightarrow> ('r option \<times> ('d, 'a) net_state_scheme) res" where
  "await_reply hw resume min_len accept 0 s = Inr (None, s)"
| "await_reply hw resume min_len accept (Suc n) s =
     rbind (e1000_poll_receive hw MAX_FRAME_SIZE s) (\<lambda>((len, f), s).
     case (if len \<ge> min_len then accept f else None) of
       Some r \<Rightarrow> Inr (Some r, s)
     | None \<Rightarrow> rbind (yield_cpu resume s) (await_reply hw resume min_len accept n))"

primrec request_loop ::
  "'d hardware \<Rightarrow> (('d, 'a) net_state_scheme \<Rightarrow> ('d, 'a) net_state_scheme) \<Rightarrow> u8 list \<Rightarrow> u16 \<Rightarrow> (u8 list \<Rightarrow> 'r option) \<Rightarrow>
   nat \<Rightarrow> ('d, 'a) net_state_scheme \<Rightarrow> ('r option \<times> ('d, 'a) net_state_scheme) res" where
  "request_loop hw resume request min_len accept 0 s = Inr (None, s)"
| "request_loop hw resume request min_len accept (Suc n) s =
     rbind (e1000_send hw request s) (\<lambda>s.
     rbind (await_reply hw resume min_len accept SPINS_PER_RETRY s) (\<lambda>(r, s).
     case r of Some v \<Rightarrow> Inr (Some v, s) | None \<Rightarrow> request_loop hw resume request min_len accept n s))"

definition net_arp_resolve ::
  "'d hardware \<Rightarrow> (('d, 'a) net_state_scheme \<Rightarrow> ('d, 'a) net_state_scheme) \<Rightarrow> u8 list \<Rightarrow>
   ('d, 'a) net_state_scheme \<Rightarrow> (u8 list option \<times> ('d, 'a) net_state_scheme) res" where
  "net_arp_resolve hw resume ip s =
     request_loop hw resume (arp_request (our_mac s) ip) 42
       (\<lambda>f. if arp_reply_matches ip f then Some (field f 22 6) else None) RETRY_COUNT s"

definition net_ping ::
  "'d hardware \<Rightarrow> (('d, 'a) net_state_scheme \<Rightarrow> ('d, 'a) net_state_scheme) \<Rightarrow> u8 list \<Rightarrow> u8 list \<Rightarrow> u16 \<Rightarrow> u16 \<Rightarrow>
   ('d, 'a) net_state_scheme \<Rightarrow> (bool \<times> ('d, 'a) net_state_scheme) res" where
  "net_ping hw resume ip mac_addr identifier seqno s =
     rbind (request_loop hw resume (echo_request (our_mac s) ip mac_addr identifier seqno) 74
         (\<lambda>f. if echo_reply_matches ip identifier seqno f then Some () else None) RETRY_COUNT s)
       (\<lambda>(r, s). Inr (r \<noteq> None, s))"

end
