(* ===== verification/Kpanic.thy ===== *)
theory Kpanic
  imports Net
begin

section \<open>Kernel panic and the emulator's exit port (kernel/src/panic.c, kernel/src/qemu_debug.c)\<close>

text \<open>
  Everywhere else a panic is the error value \<open>Panic\<close>; here is what the machine does then. Neither
  function returns: the result is the state in which the core halts with interrupts off, or \<open>Hang\<close> when
  the panic itself waits for the lock of the console forever.
\<close>

abbreviation QEMU_DEBUG_EXIT_SUCCESS :: u8 where "QEMU_DEBUG_EXIT_SUCCESS \<equiv> 0x00"
abbreviation QEMU_DEBUG_EXIT_FAILURE :: u8 where "QEMU_DEBUG_EXIT_FAILURE \<equiv> 0x01"
abbreviation PANIC_FRAMES :: nat where "PANIC_FRAMES \<equiv> 16"

record 'd panic_state = "'d net_state" +
  panicking :: bool

definition qemu_debug_exit :: "'d hardware \<Rightarrow> u8 \<Rightarrow> ('d, 'a) io_state_scheme \<Rightarrow> ('d, 'a) io_state_scheme" where
  "qemu_debug_exit hw code s = (let s = outb hw 0xF4 code s in s\<lparr>rflags_if := False\<rparr>)"

text \<open>The chain of frames: at \<open>rbp\<close> the caller's \<open>rbp\<close>, above it the return address.\<close>

primrec stack_frames :: "nat \<Rightarrow> mem \<Rightarrow> u64 \<Rightarrow> u64 list" where
  "stack_frames 0 m rbp = []"
| "stack_frames (Suc n) m rbp =
     (if rbp = 0 then []
      else let return_addr = load64 m (rbp + 8)
        in if return_addr = 0 then [] else return_addr # stack_frames n m (load64 m rbp))"

definition print_stack_trace :: "('d, 'a) panic_state_scheme \<Rightarrow> ('d, 'a) panic_state_scheme res" where
  "print_stack_trace s =
     rbind (kvprintf (cstr ''stack trace (resolve with tools/symbolize.sh):'' @ [0x0A]) [] s) (\<lambda>s.
     rfold (\<lambda>(i, return_addr) s. kvprintf (cstr ''  #%d 0x%lx'' @ [0x0A]) [KInt (of_nat i), KInt return_addr] s)
       (enumerate 0 (stack_frames PANIC_FRAMES (mem s) (r_rbp (regs s)))) s)"

definition panic :: "'d hardware \<Rightarrow> u8 list \<Rightarrow> karg list \<Rightarrow> ('d, 'a) panic_state_scheme \<Rightarrow> ('d, 'a) panic_state_scheme res" where
  "panic hw fmt args s =
     (let s = s\<lparr>rflags_if := False\<rparr> in
      if panicking s then Inr (qemu_debug_exit hw QEMU_DEBUG_EXIT_FAILURE s)
      else
        let s = s\<lparr>panicking := True\<rparr> in
        rbind (kvprintf ([0x0A] @ cstr ''*** KERNEL PANIC ***'' @ [0x0A]) [] s) (\<lambda>s.
        rbind (kvprintf fmt args s) (\<lambda>s.
        rbind (kvprintf [0x0A] [] s) (\<lambda>s.
        rbind (print_stack_trace s) (\<lambda>s.
        let s = fb_clear 0x8B0000 s;
            s = fb_puts 8 8 (cstr ''KERNEL PANIC - see serial log for details'') 0xFFFFFF 0x8B0000 s
        in Inr (qemu_debug_exit hw QEMU_DEBUG_EXIT_FAILURE s))))))"

end
