(* ===== verification/Kmain.thy ===== *)
theory Kmain
  imports Kpanic
begin

section \<open>Kernel entry and self-tests (kernel/src/kmain.c)\<close>

text \<open>
  The boot sequence in its order and both ends of \<open>kmain\<close>: the normal one and that of test mode, with
  its self-tests and test threads. The addresses the linker gives to tables and functions are a record of
  parameters. \<open>pause\<close> is what the rest of the machine does while a loop spins and \<open>resume\<close> what other
  threads do until a thread that called \<open>schedule\<close> runs again. A thread body that runs in ring 3 gives
  its exit code and the texts it passes to \<open>SYS_WRITE\<close>.
\<close>

record link_map =
  lk_tss :: "u32 \<Rightarrow> u64"
  lk_syscall_stack :: "u32 \<Rightarrow> u64"
  lk_gdt :: u64
  lk_isr_stubs :: "nat \<Rightarrow> u64"
  lk_isr_128 :: u64
  lk_cs :: u16
  lk_idt :: u64
  lk_thread_trampoline :: u64
  lk_elf_launch :: u64
  lk_idle_loop :: u64
  lk_ap_entry :: u64
  lk_ap_trampoline :: u64
  lk_function :: "string \<Rightarrow> u64"

record 'd test_state = "'d panic_state" +
  worker_a_count :: u64
  worker_b_count :: u64
  core_progress :: "u64 list"
  process_a_ok :: u64
  process_b_ok :: u64
  exec_wait_ok :: bool
  subdir_test_ok :: bool
  argv_test_ok :: bool
  stacktest_ok :: bool
  network_test_ok :: bool
  smp_test_ok :: bool
  gfxtest_ok :: bool
  crashtest_ok :: bool

subsection \<open>Ring 3 without a program file\<close>

abbreviation RING3_TEST_STACK_VADDR :: u64 where "RING3_TEST_STACK_VADDR \<equiv> PROCESS_PRIVATE_VADDR + PMM_PAGE_SIZE"
abbreviation RING3_TEST_STACK_PAGES :: u64 where "RING3_TEST_STACK_PAGES \<equiv> SCHEDULER_STACK_SIZE div PMM_PAGE_SIZE"

definition map_ring3_test_stack :: "'a vmm_state_scheme \<Rightarrow> (u64 \<times> 'a vmm_state_scheme) res" where
  "map_ring3_test_stack s =
     (let pml4_phys = vmm_current_cr3 s in
      rbind (rfold (\<lambda>i s. rbind (pmm_alloc_page s) (\<lambda>(phys, s).
          if phys = 0 then Inl (Panic ''map_ring3_test_stack: out of physical memory'')
          else
            let s = s\<lparr>mem := memset phys 0 PMM_PAGE_SIZE (mem s)\<rparr>
            in vmm_map_page pml4_phys (RING3_TEST_STACK_VADDR + of_nat i * PMM_PAGE_SIZE) phys VMM_MAP_WRITE s))
        [0..<unat RING3_TEST_STACK_PAGES] s) (\<lambda>s.
      Inr (RING3_TEST_STACK_VADDR + RING3_TEST_STACK_PAGES * PMM_PAGE_SIZE, s)))"

definition ring3_launcher :: "u64 \<Rightarrow> 'a vmm_state_scheme \<Rightarrow> (user_entry \<times> 'a vmm_state_scheme) res" where
  "ring3_launcher entry s =
     rbind (map_ring3_test_stack s) (\<lambda>(stack_top, s).
     Inr (\<lparr>ue_rip = entry, ue_rsp = stack_top, ue_cs = GDT_USER_CODE_SEL, ue_ds = GDT_USER_DATA_SEL,
           ue_argc = 0, ue_argv = 0\<rparr>, s))"

definition user_thread_launcher :: "link_map \<Rightarrow> 'a vmm_state_scheme \<Rightarrow> (user_entry \<times> 'a vmm_state_scheme) res" where
  "user_thread_launcher lk s = ring3_launcher (lk_function lk ''ring3_program'') s"

definition process_a_launcher :: "link_map \<Rightarrow> 'a vmm_state_scheme \<Rightarrow> (user_entry \<times> 'a vmm_state_scheme) res" where
  "process_a_launcher lk s = ring3_launcher (lk_function lk ''process_a_entry'') s"

definition process_b_launcher :: "link_map \<Rightarrow> 'a vmm_state_scheme \<Rightarrow> (user_entry \<times> 'a vmm_state_scheme) res" where
  "process_b_launcher lk s = ring3_launcher (lk_function lk ''process_b_entry'') s"

definition ring3_program :: "i64 \<times> u8 list list" where
  "ring3_program = (0, map (\<lambda>i. cstr ''hello from ring3'' @ [0x0A]) [0..<5])"

text \<open>The loop of \<open>process_body\<close>; \<open>priv\<close> is the physical address behind \<open>PROCESS_PRIVATE_VADDR\<close> in the
  address space of the process, and \<open>ok_counter\<close> increments the counter it was given.\<close>

primrec process_loop ::
  "(('d, 'a) test_state_scheme \<Rightarrow> ('d, 'a) test_state_scheme) \<Rightarrow> (('d, 'a) test_state_scheme \<Rightarrow> ('d, 'a) test_state_scheme) \<Rightarrow>
   u64 \<Rightarrow> u8 \<Rightarrow> nat \<Rightarrow> ('d, 'a) test_state_scheme \<Rightarrow> bool \<times> ('d, 'a) test_state_scheme" where
  "process_loop pause ok_counter priv pattern 0 s = (True, s)"
| "process_loop pause ok_counter priv pattern (Suc n) s =
     (let s = s\<lparr>mem := (mem s)(priv := pattern)\<rparr>;
          s = pause s
      in if mem s priv \<noteq> pattern then (False, s)
         else process_loop pause ok_counter priv pattern n (ok_counter s))"

definition process_body ::
  "(('d, 'a) test_state_scheme \<Rightarrow> ('d, 'a) test_state_scheme) \<Rightarrow> (('d, 'a) test_state_scheme \<Rightarrow> ('d, 'a) test_state_scheme) \<Rightarrow>
   u64 \<Rightarrow> u8 \<Rightarrow> u8 list \<Rightarrow> ('d, 'a) test_state_scheme \<Rightarrow> (i64 \<times> u8 list list) \<times> ('d, 'a) test_state_scheme" where
  "process_body pause ok_counter priv pattern finished_msg s =
     (case process_loop pause ok_counter priv pattern 200 s of (isolated, s) \<Rightarrow>
        (if isolated then (0, [finished_msg]) else (1, []), s))"

definition process_a_entry ::
  "(('d, 'a) test_state_scheme \<Rightarrow> ('d, 'a) test_state_scheme) \<Rightarrow> u64 \<Rightarrow> ('d, 'a) test_state_scheme \<Rightarrow>
   (i64 \<times> u8 list list) \<times> ('d, 'a) test_state_scheme" where
  "process_a_entry pause priv s =
     process_body pause (\<lambda>s. s\<lparr>process_a_ok := process_a_ok s + 1\<rparr>) priv 0xAA (cstr ''process A finished isolated'' @ [0x0A]) s"

definition process_b_entry ::
  "(('d, 'a) test_state_scheme \<Rightarrow> ('d, 'a) test_state_scheme) \<Rightarrow> u64 \<Rightarrow> ('d, 'a) test_state_scheme \<Rightarrow>
   (i64 \<times> u8 list list) \<times> ('d, 'a) test_state_scheme" where
  "process_b_entry pause priv s =
     process_body pause (\<lambda>s. s\<lparr>process_b_ok := process_b_ok s + 1\<rparr>) priv 0xBB (cstr ''process B finished isolated'' @ [0x0A]) s"

definition boot_shell :: "link_map \<Rightarrow> 'a sched_state_scheme \<Rightarrow> 'a sched_state_scheme res" where
  "boot_shell lk s =
     rbind (process_spawn (lk_thread_trampoline lk) (lk_elf_launch lk) (cstr ''SHELL.ELF'') (cstr ''shell'') s) (\<lambda>(tid, s).
     if tid < 0 then Inl (Panic ''kmain: SHELL.ELF not found on the ESP'') else Inr s)"

definition boot_desktop :: "link_map \<Rightarrow> 'a sched_state_scheme \<Rightarrow> 'a sched_state_scheme res" where
  "boot_desktop lk s =
     rbind (process_spawn (lk_thread_trampoline lk) (lk_elf_launch lk) (cstr ''DESKTOP.ELF'') (cstr ''desktop'') s) (\<lambda>(tid, s).
     if tid < 0 then Inl (Panic ''kmain: DESKTOP.ELF not found on the ESP'') else Inr s)"

subsection \<open>Test threads\<close>

text \<open>One round of the endless loops of the two workers.\<close>

definition count_core :: "('d, 'a) test_state_scheme \<Rightarrow> ('d, 'a) test_state_scheme" where
  "count_core s =
     (let core = unat (smp_current_cpu_index s)
      in s\<lparr>core_progress := (core_progress s)[core := core_progress s ! core + 1]\<rparr>)"

definition worker_a :: "('d, 'a) test_state_scheme \<Rightarrow> ('d, 'a) test_state_scheme" where
  "worker_a s = count_core (s\<lparr>worker_a_count := worker_a_count s + 1\<rparr>)"

definition worker_b :: "('d, 'a) test_state_scheme \<Rightarrow> ('d, 'a) test_state_scheme" where
  "worker_b s = count_core (s\<lparr>worker_b_count := worker_b_count s + 1\<rparr>)"

text \<open>The common form of the tests that run a program to its end: \<open>exit_ptr\<close> is the place of the exit
  code on the waiting thread's stack.\<close>

definition run_program ::
  "link_map \<Rightarrow> (('d, 'a) test_state_scheme \<Rightarrow> ('d, 'a) test_state_scheme) \<Rightarrow> u64 \<Rightarrow> string \<Rightarrow> string \<Rightarrow> u8 list list \<Rightarrow>
   ('d, 'a) test_state_scheme \<Rightarrow> (i32 \<times> ('d, 'a) test_state_scheme) res" where
  "run_program lk resume exit_ptr path thread_name argv s =
     process_spawn_args_and_wait (lk_thread_trampoline lk) (lk_elf_launch lk) resume exit_ptr (cstr path) (cstr thread_name) argv s"

definition exec_wait_test_thread ::
  "link_map \<Rightarrow> (('d, 'a) test_state_scheme \<Rightarrow> ('d, 'a) test_state_scheme) \<Rightarrow> u64 \<Rightarrow> ('d, 'a) test_state_scheme \<Rightarrow> ('d, 'a) test_state_scheme res" where
  "exec_wait_test_thread lk resume exit_ptr s =
     rbind (run_program lk resume exit_ptr ''INIT.ELF'' ''exec-test'' [] s) (\<lambda>(ret, s).
     if ret \<noteq> 0 then Inl (Panic ''exec/thread-exit self-test: INIT.ELF not found'')
     else thread_exit (s\<lparr>exec_wait_ok := True\<rparr>))"

definition subdir_test_thread ::
  "link_map \<Rightarrow> (('d, 'a) test_state_scheme \<Rightarrow> ('d, 'a) test_state_scheme) \<Rightarrow> u64 \<Rightarrow> ('d, 'a) test_state_scheme \<Rightarrow> ('d, 'a) test_state_scheme res" where
  "subdir_test_thread lk resume exit_ptr s =
     rbind (run_program lk resume exit_ptr ''DEMO/HELLO.ELF'' ''subdir-test'' [] s) (\<lambda>(ret, s).
     if ret \<noteq> 0 then Inl (Panic ''subdirectory self-test: DEMO/HELLO.ELF not found'')
     else thread_exit (s\<lparr>subdir_test_ok := True\<rparr>))"

definition argv_test_thread ::
  "link_map \<Rightarrow> (('d, 'a) test_state_scheme \<Rightarrow> ('d, 'a) test_state_scheme) \<Rightarrow> u64 \<Rightarrow> ('d, 'a) test_state_scheme \<Rightarrow> ('d, 'a) test_state_scheme res" where
  "argv_test_thread lk resume exit_ptr s =
     rbind (run_program lk resume exit_ptr ''ECHO.ELF'' ''argv-test'' [cstr ''ECHO.ELF'', cstr ''hello'', cstr ''world''] s) (\<lambda>(ret, s).
     if ret \<noteq> 0 then Inl (Panic ''argv self-test: ECHO.ELF not found'')
     else thread_exit (s\<lparr>argv_test_ok := True\<rparr>))"

definition stacktest_thread ::
  "link_map \<Rightarrow> (('d, 'a) test_state_scheme \<Rightarrow> ('d, 'a) test_state_scheme) \<Rightarrow> u64 \<Rightarrow> ('d, 'a) test_state_scheme \<Rightarrow> ('d, 'a) test_state_scheme res" where
  "stacktest_thread lk resume exit_ptr s =
     rbind (run_program lk resume exit_ptr ''STACKTST.ELF'' ''stack-test'' [] s) (\<lambda>(ret, s).
     if ret \<noteq> 0 then Inl (Panic ''stack growth self-test: STACKTST.ELF not found'')
     else thread_exit (s\<lparr>stacktest_ok := True\<rparr>))"

definition network_test_thread ::
  "'d hardware \<Rightarrow> (('d, 'a) test_state_scheme \<Rightarrow> ('d, 'a) test_state_scheme) \<Rightarrow> ('d, 'a) test_state_scheme \<Rightarrow> ('d, 'a) test_state_scheme res" where
  "network_test_thread hw resume s =
     rbind (net_arp_resolve hw resume NET_GATEWAY_IP s) (\<lambda>(reply, s).
     case reply of
       None \<Rightarrow> Inl (Panic ''network self-test: ARP request to the gateway (10.0.2.2) never got a reply'')
     | Some gateway_mac \<Rightarrow>
         rbind (net_ping hw resume NET_GATEWAY_IP gateway_mac 0x1234 1 s) (\<lambda>(ok, s).
         if \<not> ok then Inl (Panic ''network self-test: ICMP echo request to the gateway never got a reply'')
         else thread_exit (s\<lparr>network_test_ok := True\<rparr>)))"

definition progressed :: "u32 \<Rightarrow> ('d, 'a) test_state_scheme \<Rightarrow> nat" where
  "progressed total_cores s = length (filter (\<lambda>i. core_progress s ! i > 1000) [0..<unat total_cores])"

text \<open>The wait of the multi-core test, with the rounds left before it gives up.\<close>

primrec smp_wait ::
  "(('d, 'a) test_state_scheme \<Rightarrow> ('d, 'a) test_state_scheme) \<Rightarrow> u32 \<Rightarrow> nat \<Rightarrow> ('d, 'a) test_state_scheme \<Rightarrow> ('d, 'a) test_state_scheme res" where
  "smp_wait resume total_cores 0 s =
     (if progressed total_cores s \<ge> unat total_cores then Inr s
      else Inl (Panic ''smp self-test: not every core ran real scheduled thread code''))"
| "smp_wait resume total_cores (Suc n) s =
     (if progressed total_cores s \<ge> unat total_cores then Inr s
      else rbind (yield_cpu resume s) (smp_wait resume total_cores n))"

definition smp_test_thread ::
  "(('d, 'a) test_state_scheme \<Rightarrow> ('d, 'a) test_state_scheme) \<Rightarrow> ('d, 'a) test_state_scheme \<Rightarrow> ('d, 'a) test_state_scheme res" where
  "smp_test_thread resume s =
     (let total_cores = smp_cpu_count s in
      if total_cores \<le> 1 then Inl (Panic ''smp self-test: no additional CPU cores came up (ACPI/APIC startup failed)'')
      else rbind (smp_wait resume total_cores 4000000000 s) (\<lambda>s. thread_exit (s\<lparr>smp_test_ok := True\<rparr>)))"

definition gfxtest_thread ::
  "link_map \<Rightarrow> (('d, 'a) test_state_scheme \<Rightarrow> ('d, 'a) test_state_scheme) \<Rightarrow> u64 \<Rightarrow> ('d, 'a) test_state_scheme \<Rightarrow> ('d, 'a) test_state_scheme res" where
  "gfxtest_thread lk resume exit_ptr s =
     rbind (run_program lk resume exit_ptr ''GFXTEST.ELF'' ''gfx-test'' [] s) (\<lambda>(ret, s).
     if ret \<noteq> 0 then Inl (Panic ''graphics self-test: GFXTEST.ELF not found'')
     else if fb_read_pixel 10 10 s \<noteq> fb_pack_color 0xABCDEF s then Inl (Panic ''graphics self-test: wrong pixel (10,10)'')
     else thread_exit (s\<lparr>gfxtest_ok := True\<rparr>))"

definition crashtest_thread ::
  "link_map \<Rightarrow> (('d, 'a) test_state_scheme \<Rightarrow> ('d, 'a) test_state_scheme) \<Rightarrow> u64 \<Rightarrow> ('d, 'a) test_state_scheme \<Rightarrow> ('d, 'a) test_state_scheme res" where
  "crashtest_thread lk resume exit_ptr s =
     rbind (run_program lk resume exit_ptr ''CRASHTST.ELF'' ''crash-test'' [] s) (\<lambda>(ret, s).
     if ret = -1 then Inl (Panic ''fault-isolation self-test: CRASHTST.ELF not found'')
     else if -1 \<le>s ret then Inl (Panic ''fault-isolation self-test: the deliberate ud2 fault didn't kill it as a fault'')
     else thread_exit (s\<lparr>crashtest_ok := True\<rparr>))"

definition monitor_waits :: "('d, 'a) test_state_scheme \<Rightarrow> bool" where
  "monitor_waits s \<longleftrightarrow> worker_a_count s < 1000 \<or> worker_b_count s < 1000 \<or> syscall_write_count s < 6 \<or>
     process_a_ok s < 200 \<or> process_b_ok s < 200 \<or> \<not> exec_wait_ok s \<or>
     \<not> subdir_test_ok s \<or> \<not> argv_test_ok s \<or> \<not> stacktest_ok s \<or> \<not> network_test_ok s \<or>
     \<not> smp_test_ok s \<or> \<not> gfxtest_ok s \<or> \<not> crashtest_ok s"

primrec monitor_loop ::
  "(('d, 'a) test_state_scheme \<Rightarrow> ('d, 'a) test_state_scheme) \<Rightarrow> nat \<Rightarrow> ('d, 'a) test_state_scheme \<Rightarrow> ('d, 'a) test_state_scheme res" where
  "monitor_loop pause 0 s =
     (if monitor_waits s then Inl (Panic ''scheduler/syscall/isolation self-test: no progress'') else Inr s)"
| "monitor_loop pause (Suc n) s = (if monitor_waits s then monitor_loop pause n (pause s) else Inr s)"

definition scheduler_monitor ::
  "'d hardware \<Rightarrow> (('d, 'a) test_state_scheme \<Rightarrow> ('d, 'a) test_state_scheme) \<Rightarrow> ('d, 'a) test_state_scheme \<Rightarrow> ('d, 'a) test_state_scheme res" where
  "scheduler_monitor hw pause s =
     rbind (monitor_loop pause 4000000000 s) (\<lambda>s.
     rbind (kvprintf (cstr ''TEST MODE: scheduler+syscall+isolation self-test passed (a=%lu b=%lu syscalls=%lu proc_a=%lu proc_b=%lu)'' @ [0x0A])
       [KInt (worker_a_count s), KInt (worker_b_count s), KInt (syscall_write_count s), KInt (process_a_ok s), KInt (process_b_ok s)] s) (\<lambda>s.
     Inr (qemu_debug_exit hw QEMU_DEBUG_EXIT_SUCCESS s)))"

subsection \<open>The self-tests of test mode\<close>

definition pmm_self_test :: "('d, 'a) con_state_scheme \<Rightarrow> ('d, 'a) con_state_scheme res" where
  "pmm_self_test s =
     rbind (pmm_alloc_page s) (\<lambda>(p1, s).
     rbind (pmm_alloc_page s) (\<lambda>(p2, s).
     if p1 = 0 \<or> p2 = 0 \<or> p1 = p2 then Inl (Panic ''pmm self-test: alloc returned null or a duplicate page'')
     else
       let s = s\<lparr>mem := (mem s)(p1 := 0xAB)\<rparr>;
           s = s\<lparr>mem := (mem s)(p2 := 0xCD)\<rparr>
       in if mem s p1 \<noteq> 0xAB \<or> mem s p2 \<noteq> 0xCD
          then Inl (Panic ''pmm self-test: allocated pages are not independently writable'')
          else
            let free_before = pmm_free_page_count s in
            rbind (pmm_free_page p1 s) (\<lambda>s.
            rbind (pmm_free_page p2 s) (\<lambda>s.
            if pmm_free_page_count s \<noteq> free_before + 2
            then Inl (Panic ''pmm self-test: free count didn't increase after freeing pages'')
            else
              rbind (pmm_alloc_page s) (\<lambda>(p3, s).
              if p3 = 0 then Inl (Panic ''pmm self-test: re-alloc after free failed'')
              else kvprintf (cstr ''TEST MODE: pmm self-test passed'' @ [0x0A]) [] s)))))"

text \<open>The wait for a tick, with the rounds left before it gives up.\<close>

primrec tick_wait ::
  "(('d, 'a) con_state_scheme \<Rightarrow> ('d, 'a) con_state_scheme) \<Rightarrow> u64 \<Rightarrow> nat \<Rightarrow> ('d, 'a) con_state_scheme \<Rightarrow> ('d, 'a) con_state_scheme res" where
  "tick_wait pause start_ticks 0 s =
     (if timer_ticks s = start_ticks
      then Inl (Panic ''timer self-test: no tick observed -- IDT/PIC/PIT wiring is broken'') else Inr s)"
| "tick_wait pause start_ticks (Suc n) s =
     (if timer_ticks s = start_ticks then tick_wait pause start_ticks n (pause s) else Inr s)"

definition timer_self_test ::
  "(('d, 'a) con_state_scheme \<Rightarrow> ('d, 'a) con_state_scheme) \<Rightarrow> ('d, 'a) con_state_scheme \<Rightarrow> ('d, 'a) con_state_scheme res" where
  "timer_self_test pause s =
     (let start_ticks = timer_ticks s in
      rbind (tick_wait pause start_ticks 500000000 s) (\<lambda>s.
      kvprintf (cstr ''TEST MODE: timer self-test passed (%lu tick(s) observed)'' @ [0x0A]) [KInt (timer_ticks s)] s))"

definition fill_bytes :: "u64 \<Rightarrow> nat \<Rightarrow> u8 \<Rightarrow> mem \<Rightarrow> mem" where
  "fill_bytes a n v m = fold (\<lambda>i m. m(a + of_nat i := v)) [0..<n] m"

definition heap_self_test :: "('d, 'a) con_state_scheme \<Rightarrow> ('d, 'a) con_state_scheme res" where
  "heap_self_test s =
     rbind (heap_free_bytes s) (\<lambda>(heap_free_before, s).
     rbind (kmalloc 64 s) (\<lambda>(h1, s).
     rbind (kmalloc 128 s) (\<lambda>(h2, s).
     if h1 = 0 \<or> h2 = 0 \<or> h1 = h2 then Inl (Panic ''heap self-test: kmalloc returned null or overlapping blocks'')
     else
       let s = s\<lparr>mem := fill_bytes h1 64 0xAB (mem s)\<rparr>;
           s = s\<lparr>mem := fill_bytes h2 128 0xCD (mem s)\<rparr>
       in if \<exists>i\<in>set [0..<64]. mem s (h1 + of_nat i) \<noteq> 0xAB
          then Inl (Panic ''heap self-test: block 1 contents corrupted (overlap with block 2?)'')
          else if \<exists>i\<in>set [0..<128]. mem s (h2 + of_nat i) \<noteq> 0xCD
          then Inl (Panic ''heap self-test: block 2 contents corrupted'')
          else
            rbind (kfree h2 s) (\<lambda>s.
            rbind (kfree h1 s) (\<lambda>s.
            rbind (heap_free_bytes s) (\<lambda>(heap_free_after, s).
            if heap_free_after \<noteq> heap_free_before
            then Inl (Panic ''heap self-test: free byte count didn't return to baseline after freeing everything'')
            else
              rbind (kmalloc (1024 * 1024 * 1024) s) (\<lambda>(huge, s).
              if huge \<noteq> 0
              then Inl (Panic ''heap self-test: an allocation bigger than the entire heap should fail, not succeed'')
              else
                rbind (heap_free_bytes s) (\<lambda>(n, s).
                kvprintf (cstr ''TEST MODE: heap self-test passed (%lu bytes free)'' @ [0x0A]) [KInt n] s))))))))"

definition keyboard_self_test :: "('d, 'a) kbd_state_scheme \<Rightarrow> ('d, 'a) kbd_state_scheme res" where
  "keyboard_self_test s =
     (let s = keyboard_inject_char 0x68 s;
          s = keyboard_inject_char 0x69 s;
          s = keyboard_inject_char 0x0A s;
          mismatch = Inl (Panic ''keyboard self-test: characters didn't round-trip in order'');
          (c, s) = keyboard_read_char s
      in if c \<noteq> 0x68 then mismatch
         else let (c, s) = keyboard_read_char s in
           if c \<noteq> 0x69 then mismatch
           else let (c, s) = keyboard_read_char s in
             if c \<noteq> 0x0A then mismatch
             else let (c, s) = keyboard_read_char s in
               if c \<noteq> -1 then Inl (Panic ''keyboard self-test: buffer should be empty after reading everything back'')
               else kvprintf (cstr ''TEST MODE: keyboard self-test passed'' @ [0x0A]) [] s)"

text \<open>\<open>test_data\<close> is the address of the static text and \<open>readback\<close> that of the buffer on the stack.\<close>

definition write_self_test :: "u64 \<Rightarrow> u64 \<Rightarrow> ('d, 'a) con_state_scheme \<Rightarrow> ('d, 'a) con_state_scheme res" where
  "write_self_test test_data readback s =
     rbind (vfs_write_file (cstr ''TEST.TXT'') test_data 11 s) (\<lambda>(ok, s).
     if ok = 0 then Inl (Panic ''write self-test: vfs_write_file failed'')
     else
       rbind (vfs_read_file_into (cstr ''TEST.TXT'') readback 32 s) (\<lambda>(n, s).
       if n \<noteq> 11 then Inl (Panic ''write self-test: wrong number of bytes read back'')
       else if \<exists>i\<in>set [0..<11]. mem s (readback + of_nat i) \<noteq> mem s (test_data + of_nat i)
       then Inl (Panic ''write self-test: byte mismatch'')
       else kvprintf (cstr ''TEST MODE: write/read round-trip self-test passed'' @ [0x0A]) [] s))"

subsection \<open>\<open>kmain\<close>\<close>

text \<open>The part both builds share; a NULL pointer is \<open>None\<close>.\<close>

definition kmain_boot ::
  "'d hardware \<Rightarrow> link_map \<Rightarrow> (('d, 'a) test_state_scheme \<Rightarrow> ('d, 'a) test_state_scheme) \<Rightarrow> boot_info option \<Rightarrow>
   ('d, 'a) test_state_scheme \<Rightarrow> ('d, 'a) test_state_scheme res" where
  "kmain_boot hw lk pause info_ptr s =
     (let s = serial_init hw s in
      rbind (kvprintf (cstr ''RebornOS kernel: serial online'' @ [0x0A]) [] s) (\<lambda>s.
      case info_ptr of
        None \<Rightarrow> Inl (Panic ''invalid boot_info handoff (magic mismatch)'')
      | Some info \<Rightarrow>
          if magic info \<noteq> BOOT_INFO_MAGIC then Inl (Panic ''invalid boot_info handoff (magic mismatch)'')
          else
            rbind (kvprintf (cstr ''boot_info OK: framebuffer %ux%u @ 0x%lx (%lu bytes)'' @ [0x0A])
              [KInt (ucast (fb_width (framebuffer info))), KInt (ucast (fb_height (framebuffer info))),
               KInt (fb_base (framebuffer info)), KInt (fb_size (framebuffer info))] s) (\<lambda>s.
            rbind (kvprintf (cstr ''memory map: %lu bytes, descriptor size %lu, version %u'' @ [0x0A])
              [KInt (memory_map_size info), KInt (memory_map_descriptor_size info),
               KInt (ucast (memory_map_descriptor_version info))] s) (\<lambda>s.
            let s = fb_init (framebuffer info) s;
                s = fb_clear 0x00102030 s;
                s = fb_puts 8 8 (cstr ''REBORNOS -- MILESTONE 12: GRAPHICS PRIMITIVES'') 0xFFFFFFFF 0x00102030 s;
                s = fb_puts 8 24 (cstr ''SERIAL + FRAMEBUFFER ALIVE.'') 0xFFA0A0A0 0x00102030 s
            in rbind (kvprintf (cstr ''kmain: boot checks complete'' @ [0x0A]) [] s) (\<lambda>s.
               rbind (gdt_init (lk_tss lk) (lk_syscall_stack lk) (lk_gdt lk) s) (\<lambda>s.
               rbind (pmm_init info s) (\<lambda>s.
               rbind (vmm_init s) (\<lambda>s.
               let s = idt_init (lk_isr_stubs lk) (lk_isr_128 lk) (lk_cs lk) (lk_idt lk) s in
               rbind (timer_init hw 100 s) (\<lambda>s.
               let s = keyboard_init hw s;
                   s = mouse_init hw s;
                   s = heap_init s
               in rbind (vfs_init (blockdev_init hw) s) (\<lambda>s.
                  rbind (e1000_init hw s) (\<lambda>s.
                  let s = net_init s
                  in smp_init hw pause (lk_ap_entry lk) (lk_ap_trampoline lk) (acpi_rsdp_addr info) s)))))))))))"

text \<open>Both builds end by making the scheduler preemptive, releasing the other cores and starting.\<close>

definition kmain_start :: "('d, 'a) test_state_scheme \<Rightarrow> ('d, 'a) test_state_scheme res" where
  "kmain_start s =
     (let s = timer_set_tick_callback (Some Tick_Schedule) s;
          s = smp_signal_scheduler_ready s
      in scheduler_start s)"

definition kmain ::
  "'d hardware \<Rightarrow> link_map \<Rightarrow> (('d, 'a) test_state_scheme \<Rightarrow> ('d, 'a) test_state_scheme) \<Rightarrow> boot_info option \<Rightarrow>
   ('d, 'a) test_state_scheme \<Rightarrow> ('d, 'a) test_state_scheme res" where
  "kmain hw lk pause info_ptr s =
     rbind (kmain_boot hw lk pause info_ptr s) (\<lambda>s.
     let total_mib = (pmm_total_pages s * PMM_PAGE_SIZE) div (1024 * 1024);
         free_mib = (pmm_free_page_count s * PMM_PAGE_SIZE) div (1024 * 1024)
     in rbind (kvprintf (cstr ''pmm ready: %lu MiB total, %lu MiB free'' @ [0x0A]) [KInt total_mib, KInt free_mib] s) (\<lambda>s.
        rbind (kvprintf (cstr ''kmain: starting scheduler'' @ [0x0A]) [] s) (\<lambda>s.
        let s = scheduler_init s in
        rbind (scheduler_create_idle_threads (lk_thread_trampoline lk) (lk_idle_loop lk) (smp_cpu_count s) s) (\<lambda>s.
        rbind (boot_desktop lk s) kmain_start))))"

definition start_test_thread :: "link_map \<Rightarrow> string \<times> string \<Rightarrow> 'a sched_state_scheme \<Rightarrow> 'a sched_state_scheme res" where
  "start_test_thread lk t s =
     rbind (thread_create (lk_thread_trampoline lk) (cstr (fst t)) (lk_function lk (snd t)) s) (\<lambda>(tid, s). Inr s)"

definition start_test_process :: "link_map \<Rightarrow> string \<times> string \<Rightarrow> 'a sched_state_scheme \<Rightarrow> 'a sched_state_scheme res" where
  "start_test_process lk t s =
     rbind (vmm_create_address_space s) (\<lambda>(pml4, s).
     rbind (thread_create_process (lk_thread_trampoline lk) (cstr (fst t)) (lk_function lk (snd t)) pml4 s) (\<lambda>(tid, s). Inr s))"

definition kmain_test ::
  "'d hardware \<Rightarrow> link_map \<Rightarrow> (('d, 'a) test_state_scheme \<Rightarrow> ('d, 'a) test_state_scheme) \<Rightarrow> u64 \<Rightarrow> u64 \<Rightarrow> boot_info option \<Rightarrow>
   ('d, 'a) test_state_scheme \<Rightarrow> ('d, 'a) test_state_scheme res" where
  "kmain_test hw lk pause test_data readback info_ptr s =
     rbind (kmain_boot hw lk pause info_ptr s) (\<lambda>s.
     rbind (pmm_self_test s) (\<lambda>s.
     rbind (timer_self_test pause s) (\<lambda>s.
     rbind (heap_self_test s) (\<lambda>s.
     rbind (keyboard_self_test s) (\<lambda>s.
     rbind (write_self_test test_data readback s) (\<lambda>s.
     rbind (kvprintf (cstr ''TEST MODE: starting scheduler+syscall+isolation self-test'' @ [0x0A]) [] s) (\<lambda>s.
     let s = scheduler_init s in
     rbind (scheduler_create_idle_threads (lk_thread_trampoline lk) (lk_idle_loop lk) (smp_cpu_count s) s) (\<lambda>s.
     rbind (rfold (start_test_thread lk) [(''worker-a'', ''worker_a''), (''worker-b'', ''worker_b''),
       (''monitor'', ''scheduler_monitor''), (''user'', ''user_thread_launcher'')] s) (\<lambda>s.
     rbind (rfold (start_test_process lk) [(''process-a'', ''process_a_launcher''), (''process-b'', ''process_b_launcher'')] s) (\<lambda>s.
     rbind (rfold (start_test_thread lk) [(''exec-wait-test'', ''exec_wait_test_thread''), (''subdir-test'', ''subdir_test_thread''),
       (''argv-test'', ''argv_test_thread''), (''stack-test'', ''stacktest_thread''), (''network-test'', ''network_test_thread''),
       (''smp-test'', ''smp_test_thread''), (''gfx-test'', ''gfxtest_thread''), (''crash-test'', ''crashtest_thread'')] s) (\<lambda>s.
     rbind (boot_shell lk s) kmain_start)))))))))))"

end
