(* ===== verification/Keyboard_Spec.thy ===== *)
theory Keyboard_Spec
  imports Keyboard
begin

section \<open>The keyboard buffer is a bounded queue\<close>

text \<open>
  The ring of \<open>keyboard.c\<close> refines a first-in-first-out queue of at most 63 characters: an interface of
  a bounded queue, what its clients may conclude, and the ring as its implementation.
\<close>

subsection \<open>The interface\<close>

datatype 'c queue_op = Enter 'c | Leave

locale bounded_queue =
  fixes ok :: "'q \<Rightarrow> bool" and items :: "'q \<Rightarrow> 'c list" and capacity :: nat
    and push :: "'c \<Rightarrow> 'q \<Rightarrow> 'q" and pop :: "'q \<Rightarrow> 'r \<times> 'q" and some_item :: "'c \<Rightarrow> 'r" and no_item :: 'r
  assumes bounded: "ok q \<Longrightarrow> length (items q) \<le> capacity"
    and push_ok: "ok q \<Longrightarrow> ok (push c q)"
    and push_items: "ok q \<Longrightarrow> items (push c q) = (if length (items q) < capacity then items q @ [c] else items q)"
    and pop_ok: "ok q \<Longrightarrow> ok (snd (pop q))"
    and pop_empty: "ok q \<Longrightarrow> items q = [] \<Longrightarrow> pop q = (no_item, q)"
    and pop_items: "ok q \<Longrightarrow> items q = c # cs \<Longrightarrow> fst (pop q) = some_item c \<and> items (snd (pop q)) = cs"
begin

primrec apply_op :: "'c queue_op \<Rightarrow> 'q \<Rightarrow> 'r list \<times> 'q" where
  "apply_op (Enter c) q = ([], push c q)"
| "apply_op Leave q = ([fst (pop q)], snd (pop q))"

primrec spec_op :: "'c queue_op \<Rightarrow> 'c list \<Rightarrow> 'r list \<times> 'c list" where
  "spec_op (Enter c) cs = ([], if length cs < capacity then cs @ [c] else cs)"
| "spec_op Leave cs = (case cs of [] \<Rightarrow> ([no_item], []) | c # cs \<Rightarrow> ([some_item c], cs))"

lemma apply_op_refines:
  assumes "ok q"
  shows "ok (snd (apply_op p q))" "fst (apply_op p q) = fst (spec_op p (items q))"
    "items (snd (apply_op p q)) = snd (spec_op p (items q))"
proof -
  show "ok (snd (apply_op p q))" using assms by (cases p) (simp_all add: push_ok pop_ok)
  show "fst (apply_op p q) = fst (spec_op p (items q))" "items (snd (apply_op p q)) = snd (spec_op p (items q))"
    using assms by (cases p; cases "items q"; simp add: push_items pop_empty pop_items)+
qed

lemma drain:
  assumes "ok q" "items q = c # cs"
  shows "\<exists>q'. pop q = (some_item c, q') \<and> ok q' \<and> items q' = cs"
  using pop_ok[OF assms(1)] pop_items[OF assms] by (metis prod.collapse)

end

subsection \<open>The ring\<close>

definition ring_ok :: "ring \<Rightarrow> bool" where
  "ring_ok r \<longleftrightarrow> length (buffer r) = 64 \<and> unat (buf_head r) < 64 \<and> unat (buf_tail r) < 64"

definition ring_count :: "ring \<Rightarrow> nat" where
  "ring_count r = (unat (buf_head r) + 64 - unat (buf_tail r)) mod 64"

definition ring_items :: "ring \<Rightarrow> u8 list" where
  "ring_items r = map (\<lambda>i. buffer r ! ((unat (buf_tail r) + i) mod 64)) [0..<ring_count r]"

lemma length_ring_items [simp]: "length (ring_items r) = ring_count r"
  by (simp add: ring_items_def)

lemma ring_count_less: "ring_count r < 64"
  by (simp add: ring_count_def)

lemma next_index: "unat (i :: u32) < 64 \<Longrightarrow> unat ((i + 1) mod 64) = (unat i + 1) mod 64"
  by (simp add: unat_mod unat_add_no_wrap)

lemma wrap_index: "a < 64 \<Longrightarrow> i < 64 \<Longrightarrow> (a + i) mod 64 = (if a + i < 64 then a + i else a + i - 64)" for a i :: nat
  by (simp add: mod_if)

lemma ring_count_cases: "ring_ok r \<Longrightarrow> ring_count r = (if unat (buf_tail r) \<le> unat (buf_head r)
    then unat (buf_head r) - unat (buf_tail r) else unat (buf_head r) + 64 - unat (buf_tail r))"
  by (auto simp: ring_ok_def ring_count_def mod_if)

lemma head_position: "unat (buf_tail r) < 64 \<Longrightarrow> unat (buf_head r) < 64 \<Longrightarrow> (unat (buf_tail r) + ring_count r) mod 64 = unat (buf_head r)"
  using wrap_index[of "unat (buf_tail r)" "ring_count r"] ring_count_cases[of r] by (auto simp: ring_count_def mod_if)

lemma full_iff:
  assumes "ring_ok r"
  shows "(buf_head r + 1) mod 64 = buf_tail r \<longleftrightarrow> ring_count r = 63"
proof -
  have "(buf_head r + 1) mod 64 = buf_tail r \<longleftrightarrow> (unat (buf_head r) + 1) mod 64 = unat (buf_tail r)"
    using assms next_index[of "buf_head r"] by (simp add: ring_ok_def word_unat_eq_iff)
  also have "\<dots> \<longleftrightarrow> ring_count r = 63"
    using assms wrap_index[of "unat (buf_head r)" 1] unfolding ring_count_cases[OF assms] ring_ok_def by auto
  finally show ?thesis .
qed

lemma buffer_push_ok: "ring_ok r \<Longrightarrow> ring_ok (buffer_push c r)"
  by (auto simp: buffer_push_def ring_ok_def Let_def next_index)

lemma buffer_push_items:
  assumes ok: "ring_ok r"
  shows "ring_items (buffer_push c r) = (if length (ring_items r) < 63 then ring_items r @ [c] else ring_items r)"
proof (cases "ring_count r = 63")
  case True
  then show ?thesis using full_iff[OF ok] by (simp add: buffer_push_def)
next
  case False
  note b = ok[unfolded ring_ok_def]
  let ?h = "unat (buf_head r)" and ?t = "unat (buf_tail r)" and ?n = "ring_count r"
  let ?r = "r\<lparr>buffer := (buffer r)[?h := c], buf_head := (buf_head r + 1) mod 64\<rparr>"
  have p: "buffer_push c r = ?r" using full_iff[OF ok] False by (simp add: buffer_push_def Let_def)
  have n: "ring_count ?r = Suc ?n"
    using b False next_index[of "buf_head r"] wrap_index[of ?h 1] ring_count_cases[of ?r] ring_count_cases[OF ok] buffer_push_ok[OF ok, of c]
    unfolding p by (auto split: if_splits)
  have pos: "(?t + ?n) mod 64 = ?h" using b by (simp add: head_position)
  have old: "(?t + i) mod 64 \<noteq> ?h" if "i < ?n" for i
    using that b wrap_index[of ?t i] ring_count_cases[OF ok] by (auto split: if_splits)
  have "ring_items ?r = map (\<lambda>i. (buffer r)[?h := c] ! ((?t + i) mod 64)) [0..<?n] @ [c]"
    unfolding ring_items_def n using b pos by simp
  also have "map (\<lambda>i. (buffer r)[?h := c] ! ((?t + i) mod 64)) [0..<?n] = ring_items r"
    unfolding ring_items_def by (rule map_cong) (simp_all add: old nth_list_update_neq[OF not_sym])
  finally show ?thesis using False ring_count_less[of r] by (simp add: p)
qed

lemma buffer_pop_ok: "ring_ok r \<Longrightarrow> ring_ok (snd (buffer_pop r))"
  by (auto simp: buffer_pop_def ring_ok_def next_index)

lemma empty_iff: "ring_ok r \<Longrightarrow> buf_tail r = buf_head r \<longleftrightarrow> ring_count r = 0"
  using ring_count_cases[of r] by (auto simp: ring_ok_def word_unat_eq_iff split: if_splits)

lemma buffer_pop_items:
  assumes ok: "ring_ok r" and i: "ring_items r = c # cs"
  shows "fst (buffer_pop r) = uint c \<and> ring_items (snd (buffer_pop r)) = cs"
proof -
  note b = ok[unfolded ring_ok_def]
  let ?t = "unat (buf_tail r)" and ?r = "r\<lparr>buf_tail := (buf_tail r + 1) mod 64\<rparr>"
  have n: "ring_count r = Suc (length cs)" using arg_cong[OF i, of length] by simp
  then have p: "buffer_pop r = (uint (buffer r ! ?t), ?r)" using empty_iff[OF ok] by (simp add: buffer_pop_def)
  have m: "ring_count ?r = length cs"
  proof -
    have t: "unat (buf_tail ?r) = (if ?t = 63 then 0 else ?t + 1)" "ring_ok ?r"
      using b next_index[of "buf_tail r"] wrap_index[of ?t 1] buffer_pop_ok[OF ok] p by auto
    show ?thesis using ring_count_cases[OF t(2)] n b unfolding t(1) ring_count_cases[OF ok] by (simp split: if_splits)
  qed
  have at: "(c # cs) ! k = buffer r ! ((?t + k) mod 64)" if "k < Suc (length cs)" for k
    unfolding i[symmetric] using that by (simp add: ring_items_def n del: upt_Suc)
  have "ring_items ?r = cs"
  proof (rule nth_equalityI)
    fix k assume k: "k < length (ring_items ?r)"
    have "((?t + 1) mod 64 + k) mod 64 = (?t + Suc k) mod 64" by (simp add: mod_simps)
    then show "ring_items ?r ! k = cs ! k" using k b at[of "Suc k"] by (simp add: ring_items_def m next_index)
  qed (simp add: m)
  then show ?thesis using p at[of 0] b by simp
qed

interpretation kbd_queue: bounded_queue ring_ok ring_items 63 buffer_push buffer_pop uint "-1"
proof unfold_locales
  fix q :: ring and c :: u8 and cs
  show "length (ring_items q) \<le> 63" using ring_count_less[of q] by simp
  show "ring_ok q \<Longrightarrow> ring_items q = [] \<Longrightarrow> buffer_pop q = (-1, q)"
    using empty_iff[of q] by (auto simp: buffer_pop_def ring_items_def)
qed (simp_all add: buffer_push_ok buffer_push_items buffer_pop_ok buffer_pop_items)

subsection \<open>Properties\<close>

text \<open>A run of the driver: characters pushed by interrupts and read by the kernel, with what the reads
  return.\<close>

primrec kbd_run :: "u8 queue_op list \<Rightarrow> ring \<Rightarrow> int list \<times> ring" where
  "kbd_run [] r = ([], r)"
| "kbd_run (p # ps) r =
     (case p of
        Enter c \<Rightarrow> kbd_run ps (buffer_push c r)
      | Leave \<Rightarrow> (case buffer_pop r of (v, r) \<Rightarrow> (case kbd_run ps r of (vs, r) \<Rightarrow> (v # vs, r))))"

primrec queue_run :: "u8 queue_op list \<Rightarrow> u8 list \<Rightarrow> int list \<times> u8 list" where
  "queue_run [] q = ([], q)"
| "queue_run (p # ps) q =
     (case p of
        Enter c \<Rightarrow> queue_run ps (if length q < 63 then q @ [c] else q)
      | Leave \<Rightarrow> (case q of
          [] \<Rightarrow> (case queue_run ps [] of (vs, q) \<Rightarrow> (-1 # vs, q))
        | c # q \<Rightarrow> (case queue_run ps q of (vs, q) \<Rightarrow> (uint c # vs, q))))"

text \<open>C20. The ring of the keyboard driver implements a queue: every sequence of characters arriving and
  being read returns what a first-in-first-out queue of at most 63 characters returns, -1 when it is
  empty, a character that finds it full being dropped; the ring's indices stay inside the buffer.\<close>

theorem keyboard_ring_refines:
  assumes "ring_ok r"
  shows "fst (kbd_run ps r) = fst (queue_run ps (ring_items r)) \<and>
    ring_items (snd (kbd_run ps r)) = snd (queue_run ps (ring_items r)) \<and> ring_ok (snd (kbd_run ps r))"
  using assms
proof (induction ps arbitrary: r)
  case (Cons p ps)
  show ?case
  proof (cases p)
    case (Enter c)
    then show ?thesis using Cons.IH[OF kbd_queue.push_ok[OF Cons.prems]] by (simp add: kbd_queue.push_items[OF Cons.prems])
  next
    case Leave
    show ?thesis
    proof (cases "ring_items r")
      case Nil
      then show ?thesis using Leave Cons.IH[OF Cons.prems] kbd_queue.pop_empty[OF Cons.prems Nil] by (simp add: split_beta)
    next
      case it: (Cons c cs)
      from kbd_queue.drain[OF Cons.prems it] obtain r' where "buffer_pop r = (uint c, r')" "ring_ok r'" "ring_items r' = cs" by blast
      then show ?thesis using Leave it Cons.IH[of r'] by (simp add: split_beta)
    qed
  qed
qed simp

definition empty_ring :: ring where
  "empty_ring = \<lparr>buffer = replicate 64 0, buf_head = 62, buf_tail = 62\<rparr>"

theorem keyboard_ring_refines_witness:
  "fst (kbd_run [Leave, Enter 104, Enter 105, Leave, Enter 10, Leave, Leave, Leave] empty_ring) = [-1, 104, 105, 10, -1]"
proof -
  have r: "ring_ok empty_ring" "ring_items empty_ring = []" by (simp_all add: ring_ok_def ring_items_def ring_count_def empty_ring_def)
  show ?thesis using keyboard_ring_refines[OF r(1), of "[Leave, Enter 104, Enter 105, Leave, Enter 10, Leave, Leave, Leave]"]
    unfolding r(2) by simp
qed

end
