(* ===== verification/Sched_Spec.thy ===== *)
theory Sched_Spec
  imports Scheduler Buffers
begin

section \<open>Correctness of the context switch and the scheduler\<close>

text \<open>
  A context switch saves a thread in a way that any later switch to it, from any stack, restores. The
  tables of the scheduler satisfy an invariant whenever the lock is free, and every operation keeps it.
\<close>

subsection \<open>Words on a stack\<close>

lemma load64_store64_apart:
  assumes "8 \<le> unat (a - b)" "8 \<le> unat (b - a)"
  shows "load64 (store64 b v m) a = load64 m a"
proof (rule load64_frame)
  fix k :: u64 assume k: "unat k < 8"
  have "unat (b - a) = 2 ^ 64 - unat (a - b)"
    using assms by (cases "unat a \<le> unat b") (auto simp: unat_sub_if')
  then have "unat (a - b) + unat k < 2 ^ 64" using k assms(2) by simp
  then have "unat ((a - b) + k) = unat (a - b) + unat k" by (simp add: unat_add_no_wrap)
  then have "8 \<le> unat (a + k - b)" using assms(1) by (simp add: algebra_simps)
  then show "store64 b v m (a + k) = m (a + k)" by (simp add: mem_simps)
qed

text \<open>The memory after the registers have been pushed, and the registers after they have been popped.\<close>

definition pushed :: "regs \<Rightarrow> mem \<Rightarrow> mem" where
  "pushed r m = store64 (r_rsp r - 48) (r_r15 r) (store64 (r_rsp r - 40) (r_r14 r) (store64 (r_rsp r - 32) (r_r13 r)
     (store64 (r_rsp r - 24) (r_r12 r) (store64 (r_rsp r - 16) (r_rbx r) (store64 (r_rsp r - 8) (r_rbp r) m)))))"

definition popped :: "mem \<Rightarrow> regs \<Rightarrow> regs" where
  "popped m r = \<lparr>r_rsp = r_rsp r + 56, r_rbp = load64 m (r_rsp r + 40), r_rbx = load64 m (r_rsp r + 32),
     r_r12 = load64 m (r_rsp r + 24), r_r13 = load64 m (r_rsp r + 16), r_r14 = load64 m (r_rsp r + 8),
     r_r15 = load64 m (r_rsp r), r_rdi = r_rdi r, r_rip = load64 m (r_rsp r + 48)\<rparr>"

lemma push_callee_saved_eq:
  "push_callee_saved s = s\<lparr>mem := pushed (regs s) (mem s), regs := (regs s)\<lparr>r_rsp := r_rsp (regs s) - 48\<rparr>\<rparr>"
proof -
  have p: "push v (s\<lparr>mem := m, regs := r\<rparr>) = s\<lparr>mem := store64 (r_rsp r - 8) v m, regs := r\<lparr>r_rsp := r_rsp r - 8\<rparr>\<rparr>" for v m r
    by (simp add: push_def Let_def)
  have "push_callee_saved (s\<lparr>mem := mem s, regs := regs s\<rparr>) =
      s\<lparr>mem := pushed (regs s) (mem s), regs := (regs s)\<lparr>r_rsp := r_rsp (regs s) - 48\<rparr>\<rparr>"
    unfolding push_callee_saved_def Let_def p pushed_def by (simp add: p)
  then show ?thesis by simp
qed

lemma pop_callee_saved_eq: "pop_callee_saved s = s\<lparr>regs := popped (mem s) (regs s)\<rparr>"
  by (cases "regs s") (simp add: pop_callee_saved_def pop_def popped_def ac_simps)

text \<open>The seven words \<open>switch_context\<close> leaves on the stack it saves.\<close>

lemma pushed_frame:
  "load64 (pushed r m) (r_rsp r - 48) = r_r15 r" "load64 (pushed r m) (r_rsp r - 40) = r_r14 r"
  "load64 (pushed r m) (r_rsp r - 32) = r_r13 r" "load64 (pushed r m) (r_rsp r - 24) = r_r12 r"
  "load64 (pushed r m) (r_rsp r - 16) = r_rbx r" "load64 (pushed r m) (r_rsp r - 8) = r_rbp r"
  "load64 (pushed r m) (r_rsp r) = load64 m (r_rsp r)"
  unfolding pushed_def by (simp_all add: load64_store64_apart)

lemma pushed_other:
  assumes "\<forall>j<48. r_rsp r - 48 + of_nat j \<noteq> x"
  shows "pushed r m x = m x"
proof -
  have d: "\<not> unat (x - (r_rsp r - of_nat n)) < 8" if n: "n \<le> 48" "8 \<le> n" for n
  proof
    assume a: "unat (x - (r_rsp r - of_nat n)) < 8"
    define d where "d = unat (x - (r_rsp r - of_nat n))"
    have x: "x = r_rsp r - of_nat n + of_nat d" by (simp add: d_def)
    have "of_nat (48 - n + d) = (of_nat 48 - of_nat n + of_nat d :: u64)" using n by simp
    then have "r_rsp r - 48 + of_nat (48 - n + d) = x" unfolding x by simp
    moreover have "48 - n + d < 48" using a n by (simp add: d_def)
    ultimately show False using assms by blast
  qed
  show ?thesis unfolding pushed_def using d[of 48] d[of 40] d[of 32] d[of 24] d[of 16] d[of 8]
    by (simp add: mem_simps)
qed

lemma load64_window:
  assumes "\<forall>k<56. m (b + of_nat k) = m' (b + of_nat k)" "8 * i + 8 \<le> 56"
  shows "load64 m (b + of_nat (8 * i)) = load64 m' (b + of_nat (8 * i))"
proof (rule load64_frame)
  fix k :: u64 assume "unat k < 8"
  then have "8 * i + unat k < 56" using assms(2) by simp
  from assms(1)[rule_format, OF this]
  show "m (b + of_nat (8 * i) + k) = m' (b + of_nat (8 * i) + k)" by (simp add: add.assoc)
qed

text \<open>Whatever core picks the frame up, from whatever stack: it gets the registers back.\<close>

lemma popped_pushed:
  assumes "\<forall>k<56. m' (r_rsp r - 48 + of_nat k) = pushed r m (r_rsp r - 48 + of_nat k)" "r_rsp r' = r_rsp r - 48"
  shows "popped m' r' = r\<lparr>r_rsp := r_rsp r + 8, r_rip := load64 m (r_rsp r), r_rdi := r_rdi r'\<rparr>"
proof -
  note F = pushed_frame[of r m] and W = load64_window[OF assms(1)]
  have "r_rsp r - 48 + 8 = r_rsp r - 40" "r_rsp r - 48 + 16 = r_rsp r - 32" "r_rsp r - 48 + 24 = r_rsp r - 24"
    "r_rsp r - 48 + 32 = r_rsp r - 16" "r_rsp r - 48 + 40 = r_rsp r - 8" "r_rsp r - 48 + 48 = r_rsp r"
    "r_rsp r - 48 + 56 = r_rsp r + 8" by simp_all
  then show ?thesis unfolding popped_def assms(2)
    using W[of 0] W[of 1] W[of 2] W[of 3] W[of 4] W[of 5] W[of 6] F by (cases r) simp
qed

subsection \<open>What a switch changes\<close>

lemma switch_discard_fields:
  fixes s :: "'a sched_state_scheme" and core :: nat and new :: u64
  defines "s' \<equiv> switch_context (save_discard core) new s"
  shows "threads s' = threads s" "current_thread s' = current_thread s" "idle_tid s' = idle_tid s"
    "active_count s' = active_count s" "scheduler_lock s' = scheduler_lock s" "cpu_count s' = cpu_count s"
    "hdr s' = hdr s" "heap_head s' = heap_head s" "heap_lock s' = heap_lock s" "cr3 s' = cr3 s" "rflags_if s' = rflags_if s"
    "mem s' = pushed (regs s) (mem s)"
    "regs s' = popped (pushed (regs s) (mem s)) ((regs s)\<lparr>r_rsp := new\<rparr>)"
  unfolding s'_def switch_context_def Let_def push_callee_saved_eq pop_callee_saved_eq by (simp_all add: save_discard_def)

lemma switch_release_fields:
  fixes s :: "'a sched_state_scheme" and i :: nat and new :: u64
  defines "s' \<equiv> switch_context_release (save_thread i) new (release_thread i) s"
  assumes i: "i < length (threads s)"
  shows "threads s' = (threads s)[i := (threads s ! i)\<lparr>t_rsp := r_rsp (regs s) - 48, running_on_core := -1\<rparr>]"
    "current_thread s' = current_thread s" "idle_tid s' = idle_tid s"
    "active_count s' = active_count s" "scheduler_lock s' = scheduler_lock s" "cpu_count s' = cpu_count s"
    "hdr s' = hdr s" "heap_head s' = heap_head s" "heap_lock s' = heap_lock s" "cr3 s' = cr3 s" "rflags_if s' = rflags_if s"
    "mem s' = pushed (regs s) (mem s)"
    "regs s' = popped (pushed (regs s) (mem s)) ((regs s)\<lparr>r_rsp := new\<rparr>)"
  using i unfolding s'_def switch_context_release_def Let_def push_callee_saved_eq pop_callee_saved_eq
  by (simp_all add: save_thread_def release_thread_def)

subsection \<open>Picking a thread\<close>

lemma slot_after_mod:
  assumes "-1 \<le> start" "1 \<le> i"
  shows "slot_after start i = nat ((start + int i) mod 32)"
proof -
  have "0 \<le> start + int i" using assms by simp
  then have "(start + int i) smod 32 = (start + int i) mod 32"
    by (cases "start + int i = 0") (simp_all add: smod_int_alt_def sgn_if)
  then show ?thesis by (simp add: slot_after_def Let_def)
qed

lemma slot_after_range: "-1 \<le> start \<Longrightarrow> 1 \<le> i \<Longrightarrow> slot_after start i < 32"
  by (simp add: slot_after_mod nat_less_iff)

lemma slot_after_onto:
  assumes "-1 \<le> start" "start < 32" "k < 32"
  obtains i where "1 \<le> i" "i \<le> 32" "slot_after start i = k"
proof -
  define d where "d = (int k - start - 1) mod 32"
  have d: "0 \<le> d" "d < 32" by (simp_all add: d_def)
  have "(start + int (nat d + 1)) mod 32 = (start + 1 + d) mod 32" using d by (simp add: algebra_simps)
  also have "\<dots> = int k mod 32" unfolding d_def by (simp add: mod_add_right_eq)
  finally have "slot_after start (nat d + 1) = k" using assms by (simp add: slot_after_mod)
  then show ?thesis using d by (intro that[of "nat d + 1"]) auto
qed

lemma next_ready_cases:
  assumes st: "-1 \<le> start" "start < 32"
  obtains (none) "next_ready_after start s = -1" "\<forall>k<32. \<not> thread_ready (threads s ! k)"
  | (found) i where "1 \<le> i" "i \<le> 32" "next_ready_after start s = int (slot_after start i)" "slot_after start i < 32"
    "thread_ready (threads s ! slot_after start i)" "\<forall>j. 1 \<le> j \<longrightarrow> j < i \<longrightarrow> \<not> thread_ready (threads s ! slot_after start j)"
proof (cases "find (\<lambda>i. thread_ready (threads s ! slot_after start i)) [1..<Suc 32]")
  case None
  then have n: "\<not> thread_ready (threads s ! slot_after start i)" if "1 \<le> i" "i \<le> 32" for i
    using that by (auto simp: find_None_iff)
  have "\<not> thread_ready (threads s ! k)" if "k < 32" for k
    using slot_after_onto[OF st that] n by metis
  then show ?thesis using None by (intro none) (simp_all add: next_ready_after_def)
next
  case (Some i)
  then obtain n where n: "n < length [1..<Suc 32]" "thread_ready (threads s ! slot_after start ([1..<Suc 32] ! n))"
    "i = [1..<Suc 32] ! n" "\<forall>j<n. \<not> thread_ready (threads s ! slot_after start ([1..<Suc 32] ! j))"
    unfolding find_Some_iff by blast
  have i: "i = Suc n" "n < 32" using n(1,3) by (auto simp del: upt_Suc)
  have "\<not> thread_ready (threads s ! slot_after start j)" if "1 \<le> j" "j < i" for j
    using n(4)[rule_format, of "j - 1"] that i by (simp del: upt_Suc)
  then show ?thesis using Some n i st by (intro found[of i]) (auto simp: next_ready_after_def slot_after_range simp del: upt_Suc)
qed

subsection \<open>The tables\<close>

text \<open>
  What holds of the thread table, the current thread of every core and the idle threads whenever the
  lock is free: the current thread of a core is marked as running on it and on no other, a thread
  marked as running is the current one there, a zombie still runs, and the idle thread of a core runs
  on that core only.
\<close>

definition tables_ok :: "thread list \<Rightarrow> int list \<Rightarrow> int list \<Rightarrow> bool" where
  "tables_ok ts cur idle \<longleftrightarrow> length ts = 32 \<and> length cur = 16 \<and> length idle = 16 \<and>
     (\<forall>c<16. 0 \<le> cur ! c \<longrightarrow> cur ! c < 32 \<and> t_state (ts ! nat (cur ! c)) \<noteq> THREAD_UNUSED \<and>
       running_on_core (ts ! nat (cur ! c)) = int c) \<and>
     (\<forall>i<32. 0 \<le> running_on_core (ts ! i) \<longrightarrow> running_on_core (ts ! i) < 16 \<and> cur ! nat (running_on_core (ts ! i)) = int i) \<and>
     (\<forall>i<32. t_state (ts ! i) = THREAD_ZOMBIE \<longrightarrow> 0 \<le> running_on_core (ts ! i)) \<and>
     (\<forall>c<16. 0 \<le> idle ! c \<longrightarrow> idle ! c < 32 \<and> t_state (ts ! nat (idle ! c)) = THREAD_ACTIVE \<and>
       is_idle (ts ! nat (idle ! c)) \<and> (0 \<le> running_on_core (ts ! nat (idle ! c)) \<longrightarrow> running_on_core (ts ! nat (idle ! c)) = int c)) \<and>
     (\<forall>c<16. \<forall>d<16. 0 \<le> idle ! c \<longrightarrow> idle ! c = idle ! d \<longrightarrow> c = d) \<and>
     (\<forall>c<16. -1 \<le> cur ! c)"

lemma tables_okD:
  assumes "tables_ok ts cur idle"
  shows "length ts = 32" "length cur = 16" "length idle = 16"
    "\<And>c. c < 16 \<Longrightarrow> 0 \<le> cur ! c \<Longrightarrow> cur ! c < 32 \<and> t_state (ts ! nat (cur ! c)) \<noteq> THREAD_UNUSED \<and>
       running_on_core (ts ! nat (cur ! c)) = int c"
    "\<And>i. i < 32 \<Longrightarrow> 0 \<le> running_on_core (ts ! i) \<Longrightarrow> running_on_core (ts ! i) < 16 \<and> cur ! nat (running_on_core (ts ! i)) = int i"
    "\<And>i. i < 32 \<Longrightarrow> t_state (ts ! i) = THREAD_ZOMBIE \<Longrightarrow> 0 \<le> running_on_core (ts ! i)"
    "\<And>c. c < 16 \<Longrightarrow> 0 \<le> idle ! c \<Longrightarrow> idle ! c < 32 \<and> t_state (ts ! nat (idle ! c)) = THREAD_ACTIVE \<and>
       is_idle (ts ! nat (idle ! c)) \<and> (0 \<le> running_on_core (ts ! nat (idle ! c)) \<longrightarrow> running_on_core (ts ! nat (idle ! c)) = int c)"
    "\<And>c d. c < 16 \<Longrightarrow> d < 16 \<Longrightarrow> 0 \<le> idle ! c \<Longrightarrow> idle ! c = idle ! d \<Longrightarrow> c = d"
    "\<And>c. c < 16 \<Longrightarrow> -1 \<le> cur ! c"
  using assms unfolding tables_ok_def by blast+

lemma tables_okI:
  assumes "length ts = 32" "length cur = 16" "length idle = 16"
    "\<And>c. c < 16 \<Longrightarrow> 0 \<le> cur ! c \<Longrightarrow> cur ! c < 32 \<and> t_state (ts ! nat (cur ! c)) \<noteq> THREAD_UNUSED \<and>
       running_on_core (ts ! nat (cur ! c)) = int c"
    "\<And>i. i < 32 \<Longrightarrow> 0 \<le> running_on_core (ts ! i) \<Longrightarrow> running_on_core (ts ! i) < 16 \<and> cur ! nat (running_on_core (ts ! i)) = int i"
    "\<And>i. i < 32 \<Longrightarrow> t_state (ts ! i) = THREAD_ZOMBIE \<Longrightarrow> 0 \<le> running_on_core (ts ! i)"
    "\<And>c. c < 16 \<Longrightarrow> 0 \<le> idle ! c \<Longrightarrow> idle ! c < 32 \<and> t_state (ts ! nat (idle ! c)) = THREAD_ACTIVE \<and>
       is_idle (ts ! nat (idle ! c)) \<and> (0 \<le> running_on_core (ts ! nat (idle ! c)) \<longrightarrow> running_on_core (ts ! nat (idle ! c)) = int c)"
    "\<And>c d. c < 16 \<Longrightarrow> d < 16 \<Longrightarrow> 0 \<le> idle ! c \<Longrightarrow> idle ! c = idle ! d \<Longrightarrow> c = d"
    "\<And>c. c < 16 \<Longrightarrow> -1 \<le> cur ! c"
  shows "tables_ok ts cur idle"
  unfolding tables_ok_def by (intro conjI allI impI; rule assms | use assms in blast)

lemma tables_switch:
  assumes ok: "tables_ok ts cur idle" and core: "core < 16" and nx: "next < 32" "t_state (ts ! next) = THREAD_ACTIVE"
    "running_on_core (ts ! next) < 0" "is_idle (ts ! next) \<longrightarrow> idle ! core = int next"
    and p: "0 \<le> cur ! core \<longrightarrow> running_on_core p < 0 \<and> t_state p \<noteq> THREAD_ZOMBIE \<and> is_idle p = is_idle (ts ! nat (cur ! core)) \<and>
      (t_state (ts ! nat (cur ! core)) = THREAD_ACTIVE \<longrightarrow> t_state p = THREAD_ACTIVE)"
    and ts1: "ts1 = ts[next := (ts ! next)\<lparr>running_on_core := int core\<rparr>]"
    and ts2: "ts2 = (if cur ! core < 0 then ts1 else ts1[nat (cur ! core) := p])"
  shows "tables_ok ts2 (cur[core := int next]) idle"
proof -
  note D = tables_okD[OF ok]
  let ?prev = "nat (cur ! core)"
  have ne: "next \<noteq> ?prev" if "0 \<le> cur ! core" using D(4)[OF core that] nx(3) by auto
  have pr: "?prev < 32" if "0 \<le> cur ! core" using D(4)[OF core that] by auto
  have at: "ts2 ! i = (if 0 \<le> cur ! core \<and> i = ?prev then p else if i = next then (ts ! next)\<lparr>running_on_core := int core\<rparr> else ts ! i)"
    if "i < 32" for i unfolding ts2 ts1 using that D(1) ne pr by (auto simp: nth_list_update)
  have len: "length ts2 = 32" unfolding ts2 ts1 using D(1) by simp
  show ?thesis
  proof (rule tables_okI[OF len _ D(3)])
    show "length (cur[core := int next]) = 16" by (simp add: D(2))
  next
    fix c assume c: "c < 16" "0 \<le> cur[core := int next] ! c"
    show "cur[core := int next] ! c < 32 \<and> t_state (ts2 ! nat (cur[core := int next] ! c)) \<noteq> THREAD_UNUSED \<and>
      running_on_core (ts2 ! nat (cur[core := int next] ! c)) = int c"
    proof (cases "c = core")
      case True
      then show ?thesis using nx ne D(2) core at[OF nx(1)] by auto
    next
      case False
      then have e: "0 \<le> cur ! c" "cur[core := int next] ! c = cur ! c" using c by simp_all
      note C = D(4)[OF c(1) e(1)]
      have "nat (cur ! c) \<noteq> next" using C nx(3) by auto
      moreover have "\<not> (0 \<le> cur ! core \<and> nat (cur ! c) = ?prev)" using C D(4)[OF core] False by auto
      moreover have "nat (cur ! c) < 32" using C e(1) by auto
      ultimately have "ts2 ! nat (cur ! c) = ts ! nat (cur ! c)" using at by auto
      then show ?thesis using C e(2) by simp
    qed
  next
    fix i assume i: "i < 32" "0 \<le> running_on_core (ts2 ! i)"
    have np: "\<not> (0 \<le> cur ! core \<and> i = ?prev)" using i p at by auto
    show "running_on_core (ts2 ! i) < 16 \<and> cur[core := int next] ! nat (running_on_core (ts2 ! i)) = int i"
    proof (cases "i = next")
      case True then show ?thesis using np at[OF i(1)] core D(2) by auto
    next
      case False
      then have e: "ts2 ! i = ts ! i" using np at[OF i(1)] by auto
      note C = D(5)[OF i(1)] 
      have "nat (running_on_core (ts ! i)) \<noteq> core" using C i(2) np unfolding e by auto
      then show ?thesis using C i(2) unfolding e by simp
    qed
  next
    fix i assume i: "i < 32" "t_state (ts2 ! i) = THREAD_ZOMBIE"
    then show "0 \<le> running_on_core (ts2 ! i)" using p at[OF i(1)] nx(2) D(6)[OF i(1)] by (auto split: if_splits)
  next
    fix c assume c: "c < 16" "0 \<le> idle ! c"
    note C = D(7)[OF c]
    have r: "nat (idle ! c) < 32" using C c by auto
    show "idle ! c < 32 \<and> t_state (ts2 ! nat (idle ! c)) = THREAD_ACTIVE \<and> is_idle (ts2 ! nat (idle ! c)) \<and>
      (0 \<le> running_on_core (ts2 ! nat (idle ! c)) \<longrightarrow> running_on_core (ts2 ! nat (idle ! c)) = int c)"
    proof (cases "0 \<le> cur ! core \<and> nat (idle ! c) = ?prev")
      case True then show ?thesis using C p at[OF r] by auto
    next
      case np: False
      show ?thesis
      proof (cases "nat (idle ! c) = next")
        case True
        then have "idle ! core = idle ! c" using nx(4) C c by auto
        then have "core = c" using D(8)[OF c(1) core c(2)] by auto
        then show ?thesis using True np at[OF r] C nx by auto
      next
        case False then show ?thesis using C np at[OF r] by auto
      qed
    qed
  next
    fix c d show "c < 16 \<Longrightarrow> d < 16 \<Longrightarrow> 0 \<le> idle ! c \<Longrightarrow> idle ! c = idle ! d \<Longrightarrow> c = d" by (rule D(8))
  next
    fix c :: nat assume c: "c < 16"
    then show "-1 \<le> cur[core := int next] ! c" using D(9)[OF c] by (cases "c = core") (simp_all add: D(2))
  qed
qed

subsection \<open>The invariant\<close>

definition live :: "thread list \<Rightarrow> nat set" where
  "live ts = {i. i < 32 \<and> t_state (ts ! i) \<noteq> THREAD_UNUSED}"

definition stacks_ok :: "thread list \<Rightarrow> (u64 \<times> u64) set \<Rightarrow> bool" where
  "stacks_ok ts A \<longleftrightarrow> (\<forall>i\<in>live ts. \<exists>k. (stack_base (ts ! i), k) \<in> A) \<and> inj_on (\<lambda>i. stack_base (ts ! i)) (live ts)"

definition sched_core :: "'a sched_state_scheme \<Rightarrow> bool" where
  "sched_core s \<longleftrightarrow> unat (cpu_count s) \<le> 16 \<and> heap_inv s \<and>
     tables_ok (threads s) (current_thread s) (idle_tid s) \<and> unat (active_count s) = card (live (threads s)) \<and>
     stacks_ok (threads s) (allocs s)"

definition sched_inv :: "'a sched_state_scheme \<Rightarrow> bool" where
  "sched_inv s \<longleftrightarrow> scheduler_lock s = 0 \<and> sched_core s"

lemma sched_coreD:
  assumes "sched_core s"
  shows "unat (cpu_count s) \<le> 16" "heap_inv s"
    "tables_ok (threads s) (current_thread s) (idle_tid s)" "unat (active_count s) = card (live (threads s))"
    "stacks_ok (threads s) (allocs s)"
  using assms by (simp_all add: sched_core_def)

lemma sched_core_cong:
  "cpu_count t = cpu_count s \<Longrightarrow> hdr t = hdr s \<Longrightarrow> heap_head t = heap_head s \<Longrightarrow> heap_lock t = heap_lock s \<Longrightarrow>
   threads t = threads s \<Longrightarrow> current_thread t = current_thread s \<Longrightarrow> idle_tid t = idle_tid s \<Longrightarrow>
   active_count t = active_count s \<Longrightarrow> sched_core t = sched_core s"
  by (simp add: sched_core_def heap_inv_def allocs_def)

lemma cpu_index_range:
  assumes "unat (cpu_count s) \<le> 16"
  shows "unat (smp_current_cpu_index s) < 16"
proof (cases "find (\<lambda>i. core_apic_ids s ! i = apic_id s) [0..<unat (cpu_count s)]")
  case (Some i)
  then have "i < unat (cpu_count s)" by (auto simp: find_Some_iff)
  then show ?thesis using assms Some by (simp add: smp_current_cpu_index_def unat_of_nat_less)
qed (simp add: smp_current_cpu_index_def)

lemma finite_live [simp]: "finite (live ts)"
  by (simp add: live_def)

lemma live_cong: "(\<And>i. i < 32 \<Longrightarrow> (t_state (ts ! i) = THREAD_UNUSED) = (t_state (us ! i) = THREAD_UNUSED)) \<Longrightarrow> live ts = live us"
  by (auto simp: live_def)

lemma stacks_ok_mono:
  assumes "stacks_ok ts A" "live us \<subseteq> live ts" "\<And>i. i \<in> live us \<Longrightarrow> stack_base (us ! i) = stack_base (ts ! i)"
    "\<And>i k. i \<in> live us \<Longrightarrow> (stack_base (us ! i), k) \<in> A \<Longrightarrow> (stack_base (us ! i), k) \<in> B"
  shows "stacks_ok us B"
proof -
  have "inj_on (\<lambda>i. stack_base (us ! i)) (live us)"
    using inj_on_subset[of "\<lambda>i. stack_base (ts ! i)" "live ts" "live us"] assms(1,2,3) inj_on_cong[of "live us"]
    by (simp add: stacks_ok_def inj_on_def)
  then show ?thesis using assms unfolding stacks_ok_def by (metis subsetD)
qed

text \<open>The thread \<open>schedule\<close> may switch to: a ready one, or the idle thread of the core.\<close>

definition can_pick :: "nat \<Rightarrow> nat \<Rightarrow> 'a sched_state_scheme \<Rightarrow> bool" where
  "can_pick core next s \<longleftrightarrow> next < 32 \<and> t_state (threads s ! next) = THREAD_ACTIVE \<and>
     running_on_core (threads s ! next) < 0 \<and> (is_idle (threads s ! next) \<longrightarrow> idle_tid s ! core = int next)"

lemma ready_can_pick: "thread_ready (threads s ! next) \<Longrightarrow> next < 32 \<Longrightarrow> can_pick core next s"
  by (simp add: can_pick_def thread_ready_def)

lemma idle_can_pick:
  assumes ok: "tables_ok (threads s) (current_thread s) (idle_tid s)" and c: "core < 16" "0 \<le> idle_tid s ! core"
    and z: "0 \<le> current_thread s ! core" "t_state (threads s ! nat (current_thread s ! core)) = THREAD_ZOMBIE"
  shows "can_pick core (nat (idle_tid s ! core)) s"
proof -
  note C = tables_okD(7)[OF ok c]
  have "running_on_core (threads s ! nat (idle_tid s ! core)) < 0"
  proof (rule ccontr)
    assume "\<not> ?thesis"
    then have r: "running_on_core (threads s ! nat (idle_tid s ! core)) = int core" using C by auto
    have "nat (idle_tid s ! core) < 32" using C c by auto
    from tables_okD(5)[OF ok this] r have "current_thread s ! core = int (nat (idle_tid s ! core))" by auto
    then show False using C z c by simp
  qed
  then show ?thesis using C c by (auto simp: can_pick_def)
qed

lemma claim_next_zombie:
  "prev < 32 \<Longrightarrow> next < 32 \<Longrightarrow> prev \<noteq> next \<Longrightarrow> length (threads s) = 32 \<Longrightarrow>
   claim_next core (int prev) True next s = (stack_base (threads s ! prev),
     s\<lparr>current_thread := (current_thread s)[core := int next],
       threads := (threads s)[next := (threads s ! next)\<lparr>running_on_core := int core\<rparr>,
         prev := (threads s ! prev)\<lparr>t_state := THREAD_UNUSED, running_on_core := -1\<rparr>],
       active_count := active_count s - 1\<rparr>)"
  by (simp add: claim_next_def Let_def)

lemma claim_next_live:
  "claim_next core prev False next s = (0,
     s\<lparr>current_thread := (current_thread s)[core := int next],
       threads := (threads s)[next := (threads s ! next)\<lparr>running_on_core := int core\<rparr>]\<rparr>)"
  by (simp add: claim_next_def Let_def)

subsection \<open>\<open>schedule\<close> keeps the invariant\<close>

text \<open>What is left of the tables after a switch of \<open>core\<close> to \<open>next\<close>: the thread it left is saved, or
  gone if it was a zombie.\<close>

definition left_thread :: "u64 \<Rightarrow> thread \<Rightarrow> thread" where
  "left_thread sp t = (if t_state t = THREAD_ZOMBIE then t\<lparr>t_state := THREAD_UNUSED, running_on_core := -1\<rparr>
     else t\<lparr>t_rsp := sp - 48, running_on_core := -1\<rparr>)"

definition switched :: "nat \<Rightarrow> nat \<Rightarrow> 'a sched_state_scheme \<Rightarrow> 'a sched_state_scheme \<Rightarrow> bool" where
  "switched core next s s' \<longleftrightarrow> current_thread s' = (current_thread s)[core := int next] \<and> idle_tid s' = idle_tid s \<and>
     threads s' = (let ts = (threads s)[next := (threads s ! next)\<lparr>running_on_core := int core\<rparr>]; prev = current_thread s ! core
       in if prev < 0 then ts else ts[nat prev := left_thread (r_rsp (regs s)) (threads s ! nat prev)]) \<and>
     cr3 s' = t_cr3 (threads s ! next) \<and> cpu_count s' = cpu_count s \<and> rflags_if s' = rflags_if s \<and>
     mem s' = pushed (regs s) (mem s) \<and>
     regs s' = popped (pushed (regs s) (mem s)) ((regs s)\<lparr>r_rsp := t_rsp (threads s ! next)\<rparr>)"

text \<open>The state in which \<open>schedule\<close> has claimed the thread and is about to switch.\<close>

definition claimed :: "nat \<Rightarrow> nat \<Rightarrow> 'a sched_state_scheme \<Rightarrow> 'a sched_state_scheme" where
  "claimed core next s = s\<lparr>current_thread := (current_thread s)[core := int next],
    threads := (threads s)[next := (threads s ! next)\<lparr>running_on_core := int core\<rparr>], cr3 := t_cr3 (threads s ! next),
    tss_tab := (tss_tab s)[core := (tss_tab s ! core)\<lparr>rsp0 := kernel_stack_top (threads s ! next)\<rparr>], scheduler_lock := 0\<rparr>"

definition heap_same :: "'a sched_state_scheme \<Rightarrow> 'a sched_state_scheme \<Rightarrow> bool" where
  "heap_same s s' \<longleftrightarrow> hdr s' = hdr s \<and> heap_head s' = heap_head s \<and> heap_lock s' = heap_lock s"

lemma heap_same_views: "heap_same s s' \<Longrightarrow> heap_inv s' = heap_inv s" "heap_same s s' \<Longrightarrow> allocs s' = allocs s"
  by (simp_all add: heap_same_def heap_inv_def allocs_def)

lemma switch_to_fresh:
  assumes "length (threads s) = 32" "core < 16" "current_thread s ! core < 0" "next < 32"
  obtains s' where "switch_to core (current_thread s ! core) False next s = Inr s'" "switched core next s s'"
    "active_count s' = active_count s" "scheduler_lock s' = 0" "heap_same s s'"
proof -
  let ?t = "claimed core next s"
  let ?s' = "switch_context (save_discard core) (t_rsp (threads s ! next)) ?t"
  note F = switch_discard_fields[of core "t_rsp (threads s ! next)" ?t]
  have "switch_to core (current_thread s ! core) False next s = Inr ?s'" using assms
    by (simp add: switch_to_def claim_next_live vmm_load_cr3_def tss_set_kernel_stack_def unat_of_nat_less Let_def claimed_def)
  moreover have "switched core next s ?s'"
    unfolding switched_def F using assms by (simp add: Let_def claimed_def)
  ultimately show ?thesis by (rule that) (unfold heap_same_def F, simp_all add: claimed_def)
qed

lemma switch_to_live:
  assumes "length (threads s) = 32" "core < 16" "current_thread s ! core = int prev" "prev < 32" "next < 32" "prev \<noteq> next"
    "t_state (threads s ! prev) \<noteq> THREAD_ZOMBIE"
  obtains s' where "switch_to core (current_thread s ! core) False next s = Inr s'" "switched core next s s'"
    "active_count s' = active_count s" "scheduler_lock s' = 0" "heap_same s s'"
proof -
  let ?t = "claimed core next s"
  let ?s' = "switch_context_release (save_thread prev) (t_rsp (threads s ! next)) (release_thread prev) ?t"
  have "prev < length (threads ?t)" using assms by (simp add: claimed_def)
  note F = switch_release_fields[OF this, of "t_rsp (threads s ! next)"]
  have "switch_to core (current_thread s ! core) False next s = Inr ?s'" using assms
    by (simp add: switch_to_def claim_next_live vmm_load_cr3_def tss_set_kernel_stack_def unat_of_nat_less Let_def claimed_def)
  moreover have "switched core next s ?s'"
    unfolding switched_def F using assms by (simp add: Let_def claimed_def left_thread_def)
  ultimately show ?thesis by (rule that) (unfold heap_same_def F, simp_all add: claimed_def)
qed

lemma switch_to_zombie:
  assumes "length (threads s) = 32" "core < 16" "current_thread s ! core = int prev" "prev < 32" "next < 32" "prev \<noteq> next"
    "t_state (threads s ! prev) = THREAD_ZOMBIE" and h: "heap_inv s" "(stack_base (threads s ! prev), k) \<in> allocs s"
  obtains s' where "switch_to core (current_thread s ! core) True next s = Inr s'" "switched core next s s'"
    "active_count s' = active_count s - 1" "scheduler_lock s' = 0" "heap_inv s'" "allocs s' = allocs s - {(stack_base (threads s ! prev), k)}"
proof -
  let ?z = "stack_base (threads s ! prev)"
  let ?t = "s\<lparr>current_thread := (current_thread s)[core := int next],
    threads := (threads s)[next := (threads s ! next)\<lparr>running_on_core := int core\<rparr>,
      prev := (threads s ! prev)\<lparr>t_state := THREAD_UNUSED, running_on_core := -1\<rparr>],
    active_count := active_count s - 1, cr3 := t_cr3 (threads s ! next),
    tss_tab := (tss_tab s)[core := (tss_tab s ! core)\<lparr>rsp0 := kernel_stack_top (threads s ! next)\<rparr>], scheduler_lock := 0\<rparr>"
  let ?u = "?t\<lparr>hdr := drop_block (?z - HEADER) (hdr ?t)\<rparr>"
  let ?s' = "switch_context (save_discard core) (t_rsp (threads s ! next)) ?u"
  have ht: "heap_inv ?t" "(?z, k) \<in> allocs ?t" using h by (simp_all add: claimed_def heap_inv_def allocs_def)
  note K = kfree_released[OF ht] and z0 = alloc_bounds(1)[OF h]
  have z: "?z \<noteq> 0" using z0 by auto
  note F = switch_discard_fields[of core "t_rsp (threads s ! next)" ?u]
  have e: "claim_next core (current_thread s ! core) True next s = (?z, s\<lparr>current_thread := (current_thread s)[core := int next],
       threads := (threads s)[next := (threads s ! next)\<lparr>running_on_core := int core\<rparr>,
         prev := (threads s ! prev)\<lparr>t_state := THREAD_UNUSED, running_on_core := -1\<rparr>], active_count := active_count s - 1\<rparr>)"
    unfolding assms(3) by (rule claim_next_zombie[OF assms(4-6,1)])
  have "switch_to core (current_thread s ! core) True next s = rbind (kfree ?z ?t) (\<lambda>u.
      Inr (switch_context (save_discard core) (t_rsp (threads u ! next)) u))"
    unfolding switch_to_def e using assms(1-6) z
    by (simp add: vmm_load_cr3_def tss_set_kernel_stack_def unat_of_nat_less Let_def claimed_def)
  then have "switch_to core (current_thread s ! core) True next s = Inr ?s'" unfolding K(1) using assms(1,4,5,6) by simp
  moreover have "switched core next s ?s'"
    unfolding switched_def F using assms by (simp add: Let_def claimed_def left_thread_def)
  moreover have "heap_same ?u ?s'" unfolding heap_same_def F by simp
  from heap_same_views[OF this] have "heap_inv ?s'" "allocs ?s' = allocs ?u" using K(2) by simp_all
  moreover have "allocs ?t = allocs s" by (simp add: allocs_def claimed_def)
  ultimately show ?thesis using K(3) by (intro that[of ?s']) (simp_all only: F, simp_all add: claimed_def)
qed

lemma left_thread_simps [simp]:
  "running_on_core (left_thread sp t) = -1" "is_idle (left_thread sp t) = is_idle t" "stack_base (left_thread sp t) = stack_base t"
  "t_state (left_thread sp t) = (if t_state t = THREAD_ZOMBIE then THREAD_UNUSED else t_state t)"
  by (simp_all add: left_thread_def)

definition runs_zombie :: "nat \<Rightarrow> 'a sched_state_scheme \<Rightarrow> bool" where
  "runs_zombie core s \<longleftrightarrow> 0 \<le> current_thread s ! core \<and> t_state (threads s ! nat (current_thread s ! core)) = THREAD_ZOMBIE"

lemma switched_tables:
  assumes ok: "tables_ok (threads s) (current_thread s) (idle_tid s)" and core: "core < 16" and pick: "can_pick core next s"
    and sw: "switched core next s s'"
  shows "tables_ok (threads s') (current_thread s') (idle_tid s')"
    "live (threads s') = live (threads s) - (if runs_zombie core s then {nat (current_thread s ! core)} else {})"
    "\<And>i. i < 32 \<Longrightarrow> stack_base (threads s' ! i) = stack_base (threads s ! i)"
proof -
  let ?p = "nat (current_thread s ! core)"
  let ?ts1 = "(threads s)[next := (threads s ! next)\<lparr>running_on_core := int core\<rparr>]"
  let ?ts2 = "if current_thread s ! core < 0 then ?ts1 else ?ts1[?p := left_thread (r_rsp (regs s)) (threads s ! ?p)]"
  have P: "next < 32" "t_state (threads s ! next) = THREAD_ACTIVE" "running_on_core (threads s ! next) < 0"
    "is_idle (threads s ! next) \<longrightarrow> idle_tid s ! core = int next" using pick by (auto simp: can_pick_def)
  have S: "threads s' = ?ts2" "current_thread s' = (current_thread s)[core := int next]" "idle_tid s' = idle_tid s"
    using sw by (simp_all add: switched_def Let_def)
  show "tables_ok (threads s') (current_thread s') (idle_tid s')"
    unfolding S by (rule tables_switch[OF ok core P _ refl refl]) auto
  note D = tables_okD[OF ok]
  have ne: "next \<noteq> ?p" "?p < 32" if "0 \<le> current_thread s ! core" using D(4)[OF core that] P(3) that by auto
  have at: "threads s' ! i = (if 0 \<le> current_thread s ! core \<and> i = ?p then left_thread (r_rsp (regs s)) (threads s ! ?p)
      else if i = next then (threads s ! next)\<lparr>running_on_core := int core\<rparr> else threads s ! i)" if "i < 32" for i
    unfolding S using that ne D(1) by (auto simp: nth_list_update)
  show "stack_base (threads s' ! i) = stack_base (threads s ! i)" if "i < 32" for i using at[OF that] by auto
  have "i \<in> live (threads s') \<longleftrightarrow> i \<in> live (threads s) \<and> \<not> (runs_zombie core s \<and> i = ?p)" for i
  proof (cases "i < 32")
    case True
    show ?thesis using True at[OF True] P(2) D(4)[OF core] by (auto simp: live_def runs_zombie_def)
  qed (simp add: live_def)
  then show "live (threads s') = live (threads s) - (if runs_zombie core s then {?p} else {})" by auto
qed

lemma switched_inv:
  assumes inv: "sched_core s" and core: "core < 16" and pick: "can_pick core next s" and sw: "switched core next s s'"
    and z: "\<not> runs_zombie core s" and a: "active_count s' = active_count s" "scheduler_lock s' = 0" and h: "heap_same s s'"
  shows "sched_inv s'"
proof -
  note I = sched_coreD[OF inv] and T = switched_tables[OF sched_coreD(3)[OF inv] core pick sw]
  have L: "live (threads s') = live (threads s)" using T(2) z by simp
  have "stacks_ok (threads s') (allocs s')" using I(5)
    by (rule stacks_ok_mono) (use L T(3) in \<open>auto simp: heap_same_views(2)[OF h] live_def\<close>)
  moreover have "cpu_count s' = cpu_count s" using sw by (simp add: switched_def)
  ultimately show ?thesis using I T(1) a heap_same_views(1)[OF h] L by (simp add: sched_inv_def sched_core_def)
qed

lemma switched_inv_zombie:
  assumes inv: "sched_core s" and core: "core < 16" and pick: "can_pick core next s" and sw: "switched core next s s'"
    and z: "runs_zombie core s" and a: "active_count s' = active_count s - 1" "scheduler_lock s' = 0" and h: "heap_inv s'"
    "allocs s' = allocs s - {(stack_base (threads s ! nat (current_thread s ! core)), k)}"
  shows "sched_inv s'"
proof -
  let ?p = "nat (current_thread s ! core)"
  note I = sched_coreD[OF inv] and T = switched_tables[OF sched_coreD(3)[OF inv] core pick sw]
  have p: "?p \<in> live (threads s)" using tables_okD(4)[OF I(3) core] z by (auto simp: live_def runs_zombie_def)
  have L: "live (threads s') = live (threads s) - {?p}" using T(2) z by simp
  have "1 \<le> unat (active_count s)" unfolding I(4) using p card_gt_0_iff[of "live (threads s)"] by (auto simp: Suc_le_eq)
  then have c: "unat (active_count s - 1) = unat (active_count s) - 1" by (subst unat_sub_le) (auto simp: word_le_nat_alt)
  have "stacks_ok (threads s') (allocs s')" using I(5)
  proof (rule stacks_ok_mono)
    show "live (threads s') \<subseteq> live (threads s)" using L by blast
    show "stack_base (threads s' ! i) = stack_base (threads s ! i)" if "i \<in> live (threads s')" for i
      using T(3)[of i] that by (simp add: live_def)
    show "(stack_base (threads s' ! i), j) \<in> allocs s'" if i: "i \<in> live (threads s')" "(stack_base (threads s' ! i), j) \<in> allocs s" for i j
    proof -
      have "i \<in> live (threads s)" "i \<noteq> ?p" using i(1) L by auto
      then have "stack_base (threads s ! i) \<noteq> stack_base (threads s ! ?p)" using I(5) p by (auto simp: stacks_ok_def inj_on_def)
      then show ?thesis using i T(3)[of i] unfolding h(2) by (simp add: live_def)
    qed
  qed
  moreover have "cpu_count s' = cpu_count s" using sw by (simp add: switched_def)
  moreover have "card (live (threads s')) = card (live (threads s)) - 1" unfolding L using p by simp
  ultimately show ?thesis using I T(1) a h(1) c by (simp add: sched_inv_def sched_core_def)
qed

lemma schedule_eq:
  assumes "scheduler_lock s = 0"
  shows "schedule s = (let core = unat (smp_current_cpu_index s); s = s\<lparr>rflags_if := False, scheduler_lock := 1\<rparr>;
     prev = current_thread s ! core; z = runs_zombie core s; next = next_ready_after prev s
   in if \<not> z \<and> (active_count s \<le> 1 \<or> next < 0) then Inr (False, s\<lparr>scheduler_lock := 0\<rparr>)
      else let next = (if next < 0 then idle_tid s ! core else next) in
        if next < 0 then Inl (Undefined ''threads index out of bounds'')
        else rbind (switch_to core prev z (nat next) s) (\<lambda>s. Inr (True, s)))"
proof -
  have ci: "smp_current_cpu_index (s\<lparr>rflags_if := False\<rparr>) = smp_current_cpu_index s" by (simp add: smp_current_cpu_index_def)
  show ?thesis unfolding schedule_def Let_def ci using assms
    by (auto simp: runs_zombie_def)
qed

lemma schedule_outcome:
  assumes inv: "sched_inv s" and idle: "0 \<le> idle_tid s ! core" and cd: "core = unat (smp_current_cpu_index s)"
  obtains (stays) "schedule s = Inr (False, s\<lparr>rflags_if := False\<rparr>)" "\<not> runs_zombie core s"
      "active_count s \<le> 1 \<or> (\<forall>k<32. \<not> thread_ready (threads s ! k))"
  | (switches) nx s' where "schedule s = Inr (True, s')" "can_pick core nx s" "sched_inv s'"
      "switched core nx (s\<lparr>rflags_if := False\<rparr>) s'"
      "thread_ready (threads s ! nx) \<or> ((\<forall>k<32. \<not> thread_ready (threads s ! k)) \<and> runs_zombie core s \<and> int nx = idle_tid s ! core)"
      "if runs_zombie core s then \<exists>k. (stack_base (threads s ! nat (current_thread s ! core)), k) \<in> allocs s \<and>
         allocs s' = allocs s - {(stack_base (threads s ! nat (current_thread s ! core)), k)} else allocs s' = allocs s"
proof -
  let ?s = "s\<lparr>rflags_if := False, scheduler_lock := 1\<rparr>"
  let ?prev = "current_thread s ! core"
  have l: "scheduler_lock s = 0" and sc: "sched_core s" using inv by (simp_all add: sched_inv_def)
  have sc1: "sched_core ?s" using sc sched_core_cong[of ?s s] by simp
  note C = sched_coreD[OF sc]
  note D = tables_okD[OF C(3)]
  have core: "core < 16" using cpu_index_range[OF C(1)] by (simp add: cd)
  have pr: "-1 \<le> ?prev" "?prev < 32" using D(9)[OF core] D(4)[OF core] by (cases "0 \<le> ?prev"; simp)+
  have hs: "heap_inv ?s" "allocs ?s = allocs s" using C(2) by (simp_all add: heap_inv_def allocs_def)
  have rz: "runs_zombie core ?s = runs_zombie core s" by (simp add: runs_zombie_def)
  have nr: "next_ready_after ?prev ?s = next_ready_after ?prev s" by (simp add: next_ready_after_def)
  note E = schedule_eq[OF l, folded cd, unfolded Let_def rz]
  have go: thesis if pick: "can_pick core nx s" and nx: "(if next_ready_after ?prev s < 0 then idle_tid s ! core else next_ready_after ?prev s) = int nx"
    and z: "runs_zombie core s \<or> \<not> (active_count s \<le> 1 \<or> next_ready_after ?prev s < 0)"
    and why: "thread_ready (threads s ! nx) \<or> ((\<forall>k<32. \<not> thread_ready (threads s ! k)) \<and> runs_zombie core s \<and> int nx = idle_tid s ! core)" for nx
  proof -
    have pick1: "can_pick core nx ?s" using pick by (simp add: can_pick_def)
    have eq: "schedule s = rbind (switch_to core ?prev (runs_zombie core s) nx ?s) (\<lambda>s. Inr (True, s))"
      unfolding E using z nx by (auto simp: nr)
    have sw: "switched core nx (s\<lparr>rflags_if := False\<rparr>) s' = switched core nx ?s s'" for s' by (simp add: switched_def Let_def)
    have nx32: "nx < 32" "running_on_core (threads s ! nx) < 0" using pick by (auto simp: can_pick_def)
    have ne: "nat ?prev < 32" "nat ?prev \<noteq> nx" if "0 \<le> ?prev" using D(4)[OF core that] nx32(2) that by auto
    consider (fresh) "?prev < 0" | (live) "0 \<le> ?prev" "\<not> runs_zombie core s" | (dead) "runs_zombie core s" by linarith
    then show thesis
    proof cases
      case fresh
      then have nz: "\<not> runs_zombie core s" by (simp add: runs_zombie_def)
      obtain s' where s': "switch_to core ?prev False nx ?s = Inr s'" "switched core nx ?s s'"
        "active_count s' = active_count ?s" "scheduler_lock s' = 0" "heap_same ?s s'"
        using switch_to_fresh[of ?s core nx] fresh core nx32(1) D(1) by auto
      show ?thesis by (rule switches[of s' nx]) (use eq s' nz pick why sw switched_inv[OF sc1 core pick1 s'(2) _ s'(3-5)] rz hs(2) heap_same_views(2)[OF s'(5)] in auto)
    next
      case live
      obtain s' where s': "switch_to core ?prev False nx ?s = Inr s'" "switched core nx ?s s'"
        "active_count s' = active_count ?s" "scheduler_lock s' = 0" "heap_same ?s s'"
        using switch_to_live[of ?s core "nat ?prev" nx] live core nx32(1) D(1) ne by (auto simp: runs_zombie_def)
      show ?thesis by (rule switches[of s' nx]) (use eq s' live(2) pick why sw switched_inv[OF sc1 core pick1 s'(2) _ s'(3-5)] rz hs(2) heap_same_views(2)[OF s'(5)] in auto)
    next
      case dead
      then have p: "0 \<le> ?prev" "t_state (threads s ! nat ?prev) = THREAD_ZOMBIE" by (simp_all add: runs_zombie_def)
      have "nat ?prev \<in> live (threads s)" using ne(1)[OF p(1)] p(2) by (simp add: live_def)
      then obtain k where k: "(stack_base (threads s ! nat ?prev), k) \<in> allocs s" using C(5) by (auto simp: stacks_ok_def)
      obtain s' where s': "switch_to core ?prev True nx ?s = Inr s'" "switched core nx ?s s'"
        "active_count s' = active_count ?s - 1" "scheduler_lock s' = 0" "heap_inv s'"
        "allocs s' = allocs ?s - {(stack_base (threads ?s ! nat (current_thread ?s ! core)), k)}"
        using switch_to_zombie[of ?s core "nat ?prev" nx k] p core nx32(1) D(1) ne hs k by auto
      show ?thesis by (rule switches[of s' nx]) (use eq s' dead pick why sw switched_inv_zombie[OF sc1 core pick1 s'(2) _ s'(3-6)] rz hs(2) k in auto)
    qed
  qed
  from pr show thesis
  proof (cases rule: next_ready_cases[where s = s])
    case none
    show ?thesis
    proof (cases "runs_zombie core s")
      case True
      then have p: "0 \<le> ?prev" "t_state (threads s ! nat ?prev) = THREAD_ZOMBIE" by (simp_all add: runs_zombie_def)
      show ?thesis by (rule go[of "nat (idle_tid s ! core)"]) (use idle_can_pick[OF C(3) core idle p] none idle True in auto)
    next
      case False
      then have "schedule s = Inr (False, s\<lparr>rflags_if := False\<rparr>)" unfolding E using none l by (simp add: nr)
      then show ?thesis using stays False none by blast
    qed
  next
    case (found i)
    show ?thesis
    proof (cases "\<not> runs_zombie core s \<and> active_count s \<le> 1")
      case True
      then have "schedule s = Inr (False, s\<lparr>rflags_if := False\<rparr>)" unfolding E using l by simp
      then show ?thesis using stays True by blast
    next
      case False
      show ?thesis by (rule go[of "slot_after ?prev i"]) (use found ready_can_pick[OF found(5,4)] False in auto)
    qed
  qed
qed

subsection \<open>New threads\<close>

lemma tables_new:
  assumes ok: "tables_ok ts cur idle" and i: "i < 32" "t_state (ts ! i) = THREAD_UNUSED"
    and t: "t_state t = THREAD_ACTIVE" "running_on_core t = -1"
  shows "tables_ok (ts[i := t]) cur idle"
proof -
  note D = tables_okD[OF ok]
  have nc: "nat (cur ! c) \<noteq> i" if "c < 16" "0 \<le> cur ! c" for c using D(4)[OF that] i by auto
  have ni: "nat (idle ! c) \<noteq> i" if "c < 16" "0 \<le> idle ! c" for c using D(7)[OF that] i by auto
  show ?thesis
  proof (rule tables_okI)
    fix c assume c: "c < 16" "0 \<le> cur ! c"
    show "cur ! c < 32 \<and> t_state (ts[i := t] ! nat (cur ! c)) \<noteq> THREAD_UNUSED \<and> running_on_core (ts[i := t] ! nat (cur ! c)) = int c"
      using D(4)[OF c] nc[OF c] by simp
  next
    fix j :: nat assume j: "j < 32" "0 \<le> running_on_core (ts[i := t] ! j)"
    have "j \<noteq> i" using j(2) t(2) D(1) i(1) by auto
    then show "running_on_core (ts[i := t] ! j) < 16 \<and> cur ! nat (running_on_core (ts[i := t] ! j)) = int j"
      using D(5)[OF j(1)] j(2) by simp
  next
    fix j assume j: "j < 32" "t_state (ts[i := t] ! j) = THREAD_ZOMBIE"
    then have "j \<noteq> i" using t(1) D(1) by auto
    then show "0 \<le> running_on_core (ts[i := t] ! j)" using D(6)[OF j(1)] j(2) by simp
  next
    fix c assume c: "c < 16" "0 \<le> idle ! c"
    show "idle ! c < 32 \<and> t_state (ts[i := t] ! nat (idle ! c)) = THREAD_ACTIVE \<and> is_idle (ts[i := t] ! nat (idle ! c)) \<and>
      (0 \<le> running_on_core (ts[i := t] ! nat (idle ! c)) \<longrightarrow> running_on_core (ts[i := t] ! nat (idle ! c)) = int c)"
      using D(7)[OF c] ni[OF c] by simp
  qed (use D in auto)
qed

lemma live_new: "i < 32 \<Longrightarrow> length ts = 32 \<Longrightarrow> t_state t \<noteq> THREAD_UNUSED \<Longrightarrow> live (ts[i := t]) = insert i (live ts)"
  by (auto simp: live_def nth_list_update)

lemma card_live: "card (live ts) \<le> 32"
  using card_mono[of "{..<32}" "live ts"] by (auto simp: live_def)

definition new_thread :: "u8 list \<Rightarrow> u64 \<Rightarrow> u64 \<Rightarrow> u64 \<Rightarrow> thread \<Rightarrow> thread" where
  "new_thread name stack pml4 code_out t = t\<lparr>t_rsp := stack + SCHEDULER_STACK_SIZE - 56, t_cr3 := pml4, stack_base := stack,
     kernel_stack_top := stack + SCHEDULER_STACK_SIZE, t_state := THREAD_ACTIVE, running_on_core := -1,
     heap_brk := USER_HEAP_VADDR_START, exit_code_out := code_out, is_idle := False, t_name := take 15 name\<rparr>"

lemma new_thread_simps [simp]:
  "t_state (new_thread name stack pml4 code_out t) = THREAD_ACTIVE" "running_on_core (new_thread name stack pml4 code_out t) = -1"
  "is_idle (new_thread name stack pml4 code_out t) = False" "stack_base (new_thread name stack pml4 code_out t) = stack"
  "t_rsp (new_thread name stack pml4 code_out t) = stack + SCHEDULER_STACK_SIZE - 56"
  "t_cr3 (new_thread name stack pml4 code_out t) = pml4"
  by (simp_all add: new_thread_def)

definition created :: "u64 \<Rightarrow> u8 list \<Rightarrow> u64 \<Rightarrow> u64 \<Rightarrow> u64 \<Rightarrow> u64 \<Rightarrow> nat \<Rightarrow> u64 \<Rightarrow> 'a sched_state_scheme \<Rightarrow> 'a sched_state_scheme \<Rightarrow> bool" where
  "created trampoline name entry arg pml4 code_out i stack s s' \<longleftrightarrow> i < 32 \<and> t_state (threads s ! i) = THREAD_UNUSED \<and>
     threads s' = (threads s)[i := new_thread name stack pml4 code_out (threads s ! i)] \<and>
     mem s' = initial_frame (stack + SCHEDULER_STACK_SIZE) trampoline entry arg (mem s) \<and>
     current_thread s' = current_thread s \<and> idle_tid s' = idle_tid s \<and> rflags_if s' = rflags_if s \<and> regs s' = regs s \<and>
     cpu_count s' = cpu_count s \<and> active_count s' = active_count s + 1 \<and> scheduler_lock s' = 0 \<and>
     (\<exists>k. allocs s' = insert (stack, k) (allocs s) \<and> SCHEDULER_STACK_SIZE \<le> k)"

lemma created_inv:
  assumes inv: "sched_inv s" and c: "created tramp name entry arg pml4 co i stack s s'" and h: "heap_inv s'" "\<forall>j. (stack, j) \<notin> allocs s"
  shows "sched_inv s'"
proof -
  have sc: "sched_core s" using inv by (simp add: sched_inv_def)
  note C = sched_coreD[OF sc] and c' = c[unfolded created_def]
  let ?t = "new_thread name stack pml4 co (threads s ! i)"
  have i: "i < 32" "t_state (threads s ! i) = THREAD_UNUSED" and ts: "threads s' = (threads s)[i := ?t]" using c' by auto
  have len: "length (threads s) = 32" by (rule tables_okD(1)[OF C(3)])
  have L: "live (threads s') = insert i (live (threads s))" unfolding ts using live_new[OF i(1) len] by simp
  have il: "i \<notin> live (threads s)" using i(2) by (simp add: live_def)
  have tab: "tables_ok (threads s') (current_thread s') (idle_tid s')" using c' tables_new[OF C(3) i] unfolding ts by simp
  have cl: "card (live (threads s)) + 1 \<le> 32" using card_live[of "threads s'"] il unfolding L by simp
  have cnt: "unat (active_count s') = card (live (threads s'))"
    using c' C(4) cl il unfolding L by (simp add: unat_add_no_wrap)
  obtain k where k: "allocs s' = insert (stack, k) (allocs s)" using c' by blast
  have sb: "stack_base (threads s' ! j) = (if j = i then stack else stack_base (threads s ! j))" if "j < 32" for j
    unfolding ts using that len by (simp add: nth_list_update)
  have "stacks_ok (threads s') (allocs s')" unfolding stacks_ok_def
  proof
    show "\<forall>j\<in>live (threads s'). \<exists>k. (stack_base (threads s' ! j), k) \<in> allocs s'"
      using C(5) L sb i(1) unfolding k stacks_ok_def by (auto simp: live_def)
    have ne: "stack_base (threads s ! j) \<noteq> stack" if "j \<in> live (threads s)" for j using C(5) h(2) that unfolding stacks_ok_def by metis
    show "inj_on (\<lambda>j. stack_base (threads s' ! j)) (live (threads s'))"
    proof (rule inj_onI)
      fix x y assume a: "x \<in> live (threads s')" "y \<in> live (threads s')" "stack_base (threads s' ! x) = stack_base (threads s' ! y)"
      have r: "x < 32" "y < 32" using a by (simp_all add: live_def)
      show "x = y" using a(3) ne[of x] ne[of y] a(1,2) C(5) il unfolding sb[OF r(1)] sb[OF r(2)] L stacks_ok_def
        by (auto split: if_splits dest: inj_onD)
    qed
  qed
  then show ?thesis using c' C(1) h(1) tab cnt by (simp add: sched_inv_def sched_core_def)
qed

lemma create_outcome:
  assumes inv: "sched_inv s"
  obtains (fails) m where "thread_create_ex tramp name entry arg pml4 co s = Inl (Panic m)"
  | (new) i stack s' where "thread_create_ex tramp name entry arg pml4 co s = Inr (i, s')"
      "created tramp name entry arg pml4 co i stack s s'" "sched_inv s'" "stack \<noteq> 0"
proof -
  let ?s = "s\<lparr>rflags_if := False, scheduler_lock := 1\<rparr>"
  have l: "scheduler_lock s = 0" and sc: "sched_core s" using inv by (simp_all add: sched_inv_def)
  note C = sched_coreD[OF sc]
  have len: "length (threads s) = 32" by (rule tables_okD(1)[OF C(3)])
  have hs: "heap_inv ?s" "allocs ?s = allocs s" using C(2) by (simp_all add: heap_inv_def allocs_def)
  show thesis
  proof (cases "find (\<lambda>i. t_state (threads s ! i) = THREAD_UNUSED) [0..<32]")
    case None
    then show ?thesis using l by (intro fails) (simp add: thread_create_ex_def irq_save_disable_def)
  next
    case (Some i)
    then have i: "i < 32" "t_state (threads s ! i) = THREAD_UNUSED" by (auto simp: find_Some_iff)
    obtain p s1 where k: "kmalloc SCHEDULER_STACK_SIZE ?s = Inr (p, s1)" using kmalloc_total[OF hs(1)] by blast
    from hs(1) k show ?thesis
    proof (cases rule: kmalloc_result)
      case null
      then show ?thesis using l Some k by (intro fails) (simp add: thread_create_ex_def irq_save_disable_def)
    next
      case (block b)
      define h where "h = hdr s1"
      have s1: "s1 = ?s\<lparr>hdr := h\<rparr>" using block(5) by (simp only: h_def)
      note k' = k[unfolded s1]
      let ?s' = "s\<lparr>hdr := h, mem := initial_frame (p + SCHEDULER_STACK_SIZE) tramp entry arg (mem s),
        threads := (threads s)[i := new_thread name p pml4 co (threads s ! i)], active_count := active_count s + 1\<rparr>"
      have eq: "thread_create_ex tramp name entry arg pml4 co s = Inr (i, ?s')"
        using l Some k' block(3) i(1) len
        by (simp add: thread_create_ex_def irq_save_disable_def irq_restore_def new_thread_def Let_def)
      have av: "allocs ?s' = allocs s1" "heap_inv ?s' = heap_inv s1" using l by (simp_all add: s1 allocs_def heap_inv_def)
      have al: "allocs s1 = insert (p, hb_size (h b)) (allocs s)" using block(8) unfolding hs(2) h_def .
      have sz: "SCHEDULER_STACK_SIZE \<le> hb_size (h b)" using block(10) by (simp add: h_def round_size_def)
      have c: "created tramp name entry arg pml4 co i p s ?s'"
        unfolding created_def av al using i l sz by auto
      have fresh: "\<forall>j. (p, j) \<notin> allocs s" using block(9) unfolding hs(2) .
      from created_inv[OF inv c _ fresh] av(2) block(4) show ?thesis by (intro new[OF eq c _ block(3)]) simp
    qed
  qed
qed

subsection \<open>The start: empty tables and the idle threads\<close>

lemma scheduler_init_inv:
  assumes "scheduler_lock s = 0" "unat (cpu_count s) \<le> 16" "heap_inv s" "length (threads s) = 32"
  shows "sched_inv (scheduler_init s)"
proof -
  let ?s = "scheduler_init s"
  have at: "threads ?s ! i = (threads s ! i)\<lparr>t_state := THREAD_UNUSED, running_on_core := -1\<rparr>" if "i < 32" for i
    using that assms(4) by (simp add: scheduler_init_def Let_def)
  have L: "live (threads ?s) = {}" using at by (auto simp: live_def)
  have "tables_ok (threads ?s) (current_thread ?s) (idle_tid ?s)"
  proof (rule tables_okI)
    show "length (threads ?s) = 32" using assms(4) by (simp add: scheduler_init_def Let_def)
  qed (use at in \<open>auto simp: scheduler_init_def Let_def\<close>)
  moreover have "unat (active_count ?s) = card (live (threads ?s))" unfolding L by (simp add: scheduler_init_def Let_def)
  moreover have "stacks_ok (threads ?s) (allocs ?s)" unfolding stacks_ok_def L by simp
  ultimately show ?thesis using assms
    by (simp add: sched_inv_def sched_core_def) (simp add: scheduler_init_def Let_def heap_inv_def)
qed

lemma tables_idle:
  assumes ok: "tables_ok ts cur idle" and i: "i < 32" "t_state (ts ! i) = THREAD_ACTIVE" "running_on_core (ts ! i) < 0"
    and new: "\<forall>c<16. idle ! c \<noteq> int i" and core: "core < 16"
  shows "tables_ok (ts[i := (ts ! i)\<lparr>is_idle := True\<rparr>]) cur (idle[core := int i])"
proof -
  note D = tables_okD[OF ok]
  let ?ts = "ts[i := (ts ! i)\<lparr>is_idle := True\<rparr>]"
  have at: "t_state (?ts ! j) = t_state (ts ! j)" "running_on_core (?ts ! j) = running_on_core (ts ! j)"
    "is_idle (?ts ! j) = (j = i \<or> is_idle (ts ! j))" if "j < 32" for j
    using that D(1) i(1) by (auto simp: nth_list_update)
  show ?thesis
  proof (rule tables_okI)
    fix c assume c: "c < 16" "0 \<le> cur ! c"
    have "nat (cur ! c) < 32" using D(4)[OF c] c by auto
    then show "cur ! c < 32 \<and> t_state (?ts ! nat (cur ! c)) \<noteq> THREAD_UNUSED \<and> running_on_core (?ts ! nat (cur ! c)) = int c"
      using D(4)[OF c] at by simp
  next
    fix j :: nat assume j: "j < 32" "0 \<le> running_on_core (?ts ! j)"
    then show "running_on_core (?ts ! j) < 16 \<and> cur ! nat (running_on_core (?ts ! j)) = int j" using D(5)[OF j(1)] at[OF j(1)] by simp
  next
    fix j assume j: "j < 32" "t_state (?ts ! j) = THREAD_ZOMBIE"
    then show "0 \<le> running_on_core (?ts ! j)" using D(6)[OF j(1)] at[OF j(1)] by simp
  next
    fix c assume c: "c < 16" "0 \<le> idle[core := int i] ! c"
    show "idle[core := int i] ! c < 32 \<and> t_state (?ts ! nat (idle[core := int i] ! c)) = THREAD_ACTIVE \<and>
      is_idle (?ts ! nat (idle[core := int i] ! c)) \<and> (0 \<le> running_on_core (?ts ! nat (idle[core := int i] ! c)) \<longrightarrow>
      running_on_core (?ts ! nat (idle[core := int i] ! c)) = int c)"
    proof (cases "c = core")
      case True then show ?thesis using i at[OF i(1)] D(3) core by simp
    next
      case False
      then have e: "idle[core := int i] ! c = idle ! c" "0 \<le> idle ! c" using c(2) by simp_all
      have "nat (idle ! c) < 32" using D(7)[OF c(1) e(2)] e(2) by auto
      then show ?thesis using D(7)[OF c(1) e(2)] at unfolding e(1) by simp
    qed
  next
    fix c d assume a: "c < 16" "d < 16" "0 \<le> idle[core := int i] ! c" "idle[core := int i] ! c = idle[core := int i] ! d"
    then show "c = d" using new D(3) D(8)[of c d] by (cases "c = core"; cases "d = core") auto
  qed (use D in auto)
qed

lemma idle_outcome:
  assumes inv: "sched_inv s" and core: "core < 16"
  obtains (fails) m where "create_idle_thread tramp loop core s = Inl (Panic m)"
  | (new) s' i where "create_idle_thread tramp loop core s = Inr s'" "sched_inv s'" "idle_tid s' = (idle_tid s)[core := int i]"
      "cpu_count s' = cpu_count s"
  using inv
proof (cases rule: create_outcome[where tramp = tramp and name = "cstr ''idle''" and entry = loop and arg = 0
      and ?pml4.0 = "vmm_kernel_cr3 s" and co = 0])
  case (fails m)
  then show ?thesis by (intro that(1)) (simp add: create_idle_thread_def)
next
  case (new i stack s1)
  let ?s = "s1\<lparr>threads := (threads s1)[i := (threads s1 ! i)\<lparr>is_idle := True\<rparr>], idle_tid := (idle_tid s1)[core := int i]\<rparr>"
  have C: "sched_core s1" using new(3) by (simp add: sched_inv_def)
  note c = new(2)[unfolded created_def] and S = sched_coreD[OF C]
  have sc: "sched_core s" using inv by (simp add: sched_inv_def)
  have D: "length (threads s) = 32" by (rule tables_okD(1)[OF sched_coreD(3)[OF sc]])
  have i: "i < 32" "t_state (threads s ! i) = THREAD_UNUSED" and it: "idle_tid s1 = idle_tid s" using c by auto
  have ti: "t_state (threads s1 ! i) = THREAD_ACTIVE" "running_on_core (threads s1 ! i) < 0" using c D by auto
  have ni: "\<forall>c<16. idle_tid s1 ! c \<noteq> int i"
    using tables_okD(7)[OF sched_coreD(3)[OF sc]] i(2) unfolding it by (metis nat_int of_nat_0_le_iff thread_state.distinct(1))
  have "tables_ok (threads ?s) (current_thread ?s) (idle_tid ?s)" using tables_idle[OF S(3) i(1) ti ni core] by simp
  moreover have L: "live (threads ?s) = live (threads s1)" using tables_okD(1)[OF S(3)] i(1) by (auto simp: live_def nth_list_update)
  moreover have "stacks_ok (threads ?s) (allocs ?s)" using S(5)
    by (rule stacks_ok_mono) (use L tables_okD(1)[OF S(3)] i(1) in \<open>auto simp: allocs_def nth_list_update\<close>)
  ultimately have "sched_inv ?s" using new(3) S(2) by (simp add: sched_inv_def sched_core_def) (simp add: heap_inv_def)
  then show ?thesis using new(1) core c by (intro that(2)[of ?s i]) (simp_all add: create_idle_thread_def Let_def)
qed

subsection \<open>Exit\<close>

lemma tables_zombie:
  assumes ok: "tables_ok ts cur idle" and core: "core < 16" "cur ! core = int tid" and ni: "\<not> is_idle (ts ! tid)"
  shows "tables_ok (ts[tid := (ts ! tid)\<lparr>t_state := THREAD_ZOMBIE\<rparr>]) cur idle"
proof -
  note D = tables_okD[OF ok]
  let ?ts = "ts[tid := (ts ! tid)\<lparr>t_state := THREAD_ZOMBIE\<rparr>]"
  have tid: "tid < 32" "running_on_core (ts ! tid) = int core" using D(4)[OF core(1)] core(2) by auto
  have at: "running_on_core (?ts ! j) = running_on_core (ts ! j)" "is_idle (?ts ! j) = is_idle (ts ! j)"
    "t_state (?ts ! j) = (if j = tid then THREAD_ZOMBIE else t_state (ts ! j))" if "j < 32" for j
    using that tid(1) D(1) by (auto simp: nth_list_update)
  show ?thesis
  proof (rule tables_okI)
    fix c assume c: "c < 16" "0 \<le> cur ! c"
    have "nat (cur ! c) < 32" using D(4)[OF c] c by auto
    then show "cur ! c < 32 \<and> t_state (?ts ! nat (cur ! c)) \<noteq> THREAD_UNUSED \<and> running_on_core (?ts ! nat (cur ! c)) = int c"
      using D(4)[OF c] at by simp
  next
    fix j :: nat assume j: "j < 32" "0 \<le> running_on_core (?ts ! j)"
    then show "running_on_core (?ts ! j) < 16 \<and> cur ! nat (running_on_core (?ts ! j)) = int j" using D(5)[OF j(1)] at[OF j(1)] by simp
  next
    fix j assume j: "j < 32" "t_state (?ts ! j) = THREAD_ZOMBIE"
    then show "0 \<le> running_on_core (?ts ! j)" using D(6)[OF j(1)] at[OF j(1)] tid by (cases "j = tid") auto
  next
    fix c assume c: "c < 16" "0 \<le> idle ! c"
    have r: "nat (idle ! c) < 32" using D(7)[OF c] c by auto
    have "nat (idle ! c) \<noteq> tid" using D(7)[OF c] ni by auto
    then show "idle ! c < 32 \<and> t_state (?ts ! nat (idle ! c)) = THREAD_ACTIVE \<and> is_idle (?ts ! nat (idle ! c)) \<and>
      (0 \<le> running_on_core (?ts ! nat (idle ! c)) \<longrightarrow> running_on_core (?ts ! nat (idle ! c)) = int c)"
      using D(7)[OF c] at[OF r] by simp
  qed (use D in auto)
qed

text \<open>The state in which \<open>thread_exit_code\<close> first calls \<open>schedule\<close>.\<close>

definition dying :: "nat \<Rightarrow> i64 \<Rightarrow> 'a sched_state_scheme \<Rightarrow> 'a sched_state_scheme" where
  "dying tid code s = s\<lparr>mem := (if exit_code_out (threads s ! tid) \<noteq> 0 then store64 (exit_code_out (threads s ! tid)) code (mem s) else mem s),
     rflags_if := False, threads := (threads s)[tid := (threads s ! tid)\<lparr>t_state := THREAD_ZOMBIE\<rparr>], scheduler_lock := 0\<rparr>"

lemma dying_inv:
  assumes inv: "sched_inv s" and core: "core < 16" "current_thread s ! core = int tid" and ni: "\<not> is_idle (threads s ! tid)"
  shows "sched_inv (dying tid code s)" "runs_zombie core (dying tid code s)"
proof -
  have sc: "sched_core s" using inv by (simp add: sched_inv_def)
  note C = sched_coreD[OF sc]
  note D = tables_okD[OF C(3)]
  have tid: "tid < 32" "t_state (threads s ! tid) \<noteq> THREAD_UNUSED" using D(4)[OF core(1)] core(2) by auto
  let ?ts = "threads (dying tid code s)"
  have at: "(t_state (?ts ! j) = THREAD_UNUSED) = (t_state (threads s ! j) = THREAD_UNUSED)"
    "stack_base (?ts ! j) = stack_base (threads s ! j)" if "j < 32" for j
    using that tid D(1) by (auto simp: dying_def nth_list_update)
  have L: "live ?ts = live (threads s)" by (rule live_cong) (rule at(1))
  have "tables_ok ?ts (current_thread (dying tid code s)) (idle_tid (dying tid code s))"
    using tables_zombie[OF C(3) core ni] by (simp add: dying_def)
  moreover have "stacks_ok ?ts (allocs (dying tid code s))" using C(5)
    by (rule stacks_ok_mono) (use L at(2) in \<open>auto simp: live_def dying_def allocs_def\<close>)
  ultimately show "sched_inv (dying tid code s)" using inv C(2,4) L
    by (simp add: sched_inv_def sched_core_def) (simp add: dying_def heap_inv_def)
  show "runs_zombie core (dying tid code s)" using core(2) tid(1) D(1) by (simp add: runs_zombie_def dying_def)
qed

lemma exit_outcome:
  assumes inv: "sched_inv s" and cd: "core = unat (smp_current_cpu_index s)" and idle: "0 \<le> idle_tid s ! core"
    and cur: "current_thread s ! core = int tid" and ni: "\<not> is_idle (threads s ! tid)"
  obtains nx s' where "thread_exit_code code s = Inr s'" "sched_inv s'" "can_pick core nx (dying tid code s)"
    "switched core nx (dying tid code s) s'" "live (threads s') = live (threads s) - {tid}"
    "\<exists>k. (stack_base (threads s ! tid), k) \<in> allocs s \<and> allocs s' = allocs s - {(stack_base (threads s ! tid), k)}"
proof -
  let ?d = "dying tid code s"
  have l: "scheduler_lock s = 0" and sc: "sched_core s" using inv by (simp_all add: sched_inv_def)
  have core: "core < 16" using cpu_index_range[OF sched_coreD(1)[OF sc]] by (simp add: cd)
  note Z = dying_inv[OF inv core cur ni, of code]
  have tid: "tid < 32" using tables_okD(4)[OF sched_coreD(3)[OF sc] core] cur by auto
  have len: "length (threads s) = 32" by (rule tables_okD(1)[OF sched_coreD(3)[OF sc]])
  have cd1: "core = unat (smp_current_cpu_index ?d)" by (simp add: cd dying_def smp_current_cpu_index_def)
  have eq: "thread_exit_code code s = ends (exit_loop ?d)"
    using l cur unfolding thread_exit_code_def cd[symmetric]
    by (simp add: Let_def irq_save_disable_def dying_def)
  have i1: "0 \<le> idle_tid ?d ! core" using idle by (simp add: dying_def)
  from Z(1) i1 cd1 show thesis
  proof (cases rule: schedule_outcome)
    case stays
    then show ?thesis using Z(2) by simp
  next
    case (switches nx s')
    have "?d\<lparr>rflags_if := rflags_if ?d\<rparr> = ?d" by simp
    moreover have "rflags_if ?d = False" by (simp add: dying_def)
    ultimately have "?d\<lparr>rflags_if := False\<rparr> = ?d" by metis
    then have sw: "switched core nx ?d s'" using switches(4) by metis
    have "exit_loop ?d = Some (Inr s')" by (subst exit_loop.simps) (simp add: switches(1))
    then have r: "thread_exit_code code s = Inr s'" by (simp add: eq ends_def)
    have L: "live (threads s') = live (threads ?d) - {tid}"
      using switched_tables(2)[OF sched_coreD(3) core switches(2) sw] Z cur by (simp add: sched_inv_def dying_def)
    have Ld: "live (threads ?d) = live (threads s)"
      by (rule live_cong) (use tid len tables_okD(4)[OF sched_coreD(3)[OF sc] core] cur in \<open>auto simp: dying_def nth_list_update\<close>)
    have "stack_base (threads ?d ! tid) = stack_base (threads s ! tid)" "allocs ?d = allocs s" "nat (current_thread ?d ! core) = tid"
      using tid len cur by (simp_all add: dying_def allocs_def)
    then show ?thesis using switches(6) Z(2) L Ld by (intro that[OF r switches(3,2) sw]) simp_all
  qed
qed

subsection \<open>The first thread of a core\<close>

lemma start_outcome:
  assumes inv: "sched_inv s" and cd: "core = unat (smp_current_cpu_index s)" and idle: "0 \<le> idle_tid s ! core"
    and cur: "current_thread s ! core < 0" and act: "active_count s \<noteq> 0" and fr: "running_on_core (threads s ! nat (idle_tid s ! core)) < 0"
  obtains nx s' where "scheduler_start s = Inr s'" "can_pick core nx s" "switched core nx (s\<lparr>rflags_if := False\<rparr>) s'" "sched_inv s'"
proof -
  let ?s = "s\<lparr>rflags_if := False, scheduler_lock := 1\<rparr>"
  have l: "scheduler_lock s = 0" and sc: "sched_core s" using inv by (simp_all add: sched_inv_def)
  have sc1: "sched_core ?s" using sc sched_core_cong[of ?s s] by simp
  note C = sched_coreD[OF sc]
  note D = tables_okD[OF C(3)]
  have core: "core < 16" using cpu_index_range[OF C(1)] by (simp add: cd)
  have ci: "smp_current_cpu_index (s\<lparr>rflags_if := False\<rparr>) = smp_current_cpu_index s" by (simp add: smp_current_cpu_index_def)
  have nr: "next_ready_after (-1) ?s = next_ready_after (-1) s" by (simp add: next_ready_after_def)
  have ip: "can_pick core (nat (idle_tid s ! core)) s" using D(7)[OF core idle] idle fr by (auto simp: can_pick_def)
  have "\<exists>nx. can_pick core nx s \<and> (if next_ready_after (-1) s < 0 then idle_tid s ! core else next_ready_after (-1) s) = int nx"
    by (cases rule: next_ready_cases[of "-1" s]) (use ip idle ready_can_pick in \<open>auto intro: exI[of _ "nat (idle_tid s ! core)"]\<close>)
  then obtain nx where nx: "can_pick core nx s" "(if next_ready_after (-1) s < 0 then idle_tid s ! core else next_ready_after (-1) s) = int nx" by blast
  have nx32: "nx < 32" using nx(1) by (simp add: can_pick_def)
  have pick1: "can_pick core nx ?s" using nx(1) by (simp add: can_pick_def)
  let ?t = "claimed core nx ?s"
  let ?s' = "switch_context (save_discard core) (t_rsp (threads s ! nx)) ?t"
  note F = switch_discard_fields[of core "t_rsp (threads s ! nx)" ?t]
  have "scheduler_start s = (let first = (if next_ready_after (-1) s < 0 then idle_tid s ! core else next_ready_after (-1) s)
    in if first < 0 then Inl (Undefined ''threads index out of bounds'') else
      let s = ?s\<lparr>current_thread := (current_thread s)[core := first],
        threads := (threads s)[nat first := (threads s ! nat first)\<lparr>running_on_core := int core\<rparr>]\<rparr>;
          s = vmm_load_cr3 (t_cr3 (threads s ! nat first)) s
      in rbind (tss_set_kernel_stack (of_nat core) (kernel_stack_top (threads s ! nat first)) s) (\<lambda>s.
         let s = s\<lparr>scheduler_lock := 0\<rparr> in Inr (switch_context (save_discard core) (t_rsp (threads s ! nat first)) s)))"
    using l act unfolding scheduler_start_def Let_def ci cd[symmetric] by (simp add: nr cong: if_cong)
  then have run: "scheduler_start s = Inr ?s'" unfolding nx(2)
    using core nx32 D(1) by (simp add: vmm_load_cr3_def tss_set_kernel_stack_def unat_of_nat_less claimed_def)
  have sw: "switched core nx ?s ?s'" unfolding switched_def F using cur by (simp add: Let_def claimed_def)
  have hs: "heap_same ?s ?s'" unfolding heap_same_def F by (simp add: claimed_def)
  have "\<not> runs_zombie core ?s" using cur by (simp add: runs_zombie_def)
  from switched_inv[OF sc1 core pick1 sw this _ _ hs] have "sched_inv ?s'" by (simp only: F) (simp add: claimed_def)
  moreover have "switched core nx (s\<lparr>rflags_if := False\<rparr>) ?s'" using sw by (simp add: switched_def Let_def)
  ultimately show thesis using run nx(1) that by blast
qed

subsection \<open>The first switch to a new thread\<close>

lemma initial_frame_words:
  "load64 (initial_frame sp tramp entry arg m) (sp - 8) = tramp"
  "load64 (initial_frame sp tramp entry arg m) (sp - 24) = entry"
  "load64 (initial_frame sp tramp entry arg m) (sp - 32) = arg"
  unfolding initial_frame_def Let_def by (simp_all add: load64_store64_apart)

lemma first_switch:
  assumes kept: "\<forall>k<56. m (sp - 56 + of_nat k) = initial_frame sp tramp entry arg m0 (sp - 56 + of_nat k)" and r: "r_rsp r = sp - 56"
  shows "r_rip (popped m r) = tramp" "r_rbx (popped m r) = entry" "r_r12 (popped m r) = arg" "r_rsp (popped m r) = sp"
proof -
  note W = load64_window[OF kept] and I = initial_frame_words[of sp tramp entry arg m0]
  have "sp - 56 + 24 = sp - 32" "sp - 56 + 32 = sp - 24" "sp - 56 + 48 = sp - 8" "sp - 56 + 56 = sp" by simp_all
  then show "r_rip (popped m r) = tramp" "r_rbx (popped m r) = entry" "r_r12 (popped m r) = arg" "r_rsp (popped m r) = sp"
    unfolding popped_def r using W[of 3] W[of 4] W[of 6] I by simp_all
qed

subsection \<open>All cores\<close>

text \<open>
  The steps of the machine as the scheduler sees them. Between two scheduler calls any core may run
  any code, which changes memory, registers and the interrupt flag but not the tables; a step of
  another core is one with another \<open>apic_id\<close>. Heap blocks that are not stacks come and go. A thread
  that exits is not an idle thread, whose loop never ends.
\<close>

abbreviation this_core :: "'a cpu_state_scheme \<Rightarrow> nat" where
  "this_core s \<equiv> unat (smp_current_cpu_index s)"

inductive sched_step :: "'a sched_state_scheme \<Rightarrow> 'a sched_state_scheme \<Rightarrow> bool" where
  code: "sched_step s (s\<lparr>mem := m, regs := r, rflags_if := f, apic_id := a, cr3 := p\<rparr>)"
| preempt: "schedule s = Inr (sw, s') \<Longrightarrow> sched_step s s'"
| create: "thread_create_ex tramp name entry arg pml4 co s = Inr (i, s') \<Longrightarrow> sched_step s s'"
| exit: "0 \<le> current_thread s ! this_core s \<Longrightarrow> \<not> is_idle (threads s ! nat (current_thread s ! this_core s)) \<Longrightarrow>
    thread_exit_code c s = Inr s' \<Longrightarrow> sched_step s s'"
| alloc: "kmalloc n s = Inr (p, s') \<Longrightarrow> sched_step s s'"
| free: "(p, k) \<in> allocs s \<Longrightarrow> p \<notin> (\<lambda>i. stack_base (threads s ! i)) ` live (threads s) \<Longrightarrow> kfree p s = Inr s' \<Longrightarrow> sched_step s s'"

inductive_cases sched_stepE: "sched_step s s'"

definition sys_inv :: "'a sched_state_scheme \<Rightarrow> bool" where
  "sys_inv s \<longleftrightarrow> sched_inv s \<and> 0 < cpu_count s \<and> (\<forall>c<unat (cpu_count s). 0 \<le> idle_tid s ! c)"

lemma sys_inv_idle:
  assumes "sys_inv s"
  shows "0 \<le> idle_tid s ! this_core s"
proof -
  have "this_core s < unat (cpu_count s)"
  proof (cases "find (\<lambda>i. core_apic_ids s ! i = apic_id s) [0..<unat (cpu_count s)]")
    case None
    then show ?thesis using assms by (simp add: smp_current_cpu_index_def sys_inv_def word_less_nat_alt)
  next
    case (Some i)
    then have "i < unat (cpu_count s)" by (auto simp: find_Some_iff)
    moreover from this have "i < 2 ^ 32" using unsigned_less[of "cpu_count s", where ?'a = nat] by simp
    ultimately show ?thesis using Some by (simp add: smp_current_cpu_index_def unat_of_nat_less)
  qed
  then show ?thesis using assms by (simp add: sys_inv_def)
qed

lemma sched_step_inv:
  assumes step: "sched_step s s'" and inv: "sys_inv s"
  shows "sys_inv s'"
  using step
proof cases
  case (code m r f a p)
  have "sched_core s' = sched_core s" unfolding code by (rule sched_core_cong) simp_all
  then show ?thesis using inv unfolding code by (simp add: sys_inv_def sched_inv_def)
next
  case (preempt sw)
  have si: "sched_inv s" using inv by (simp add: sys_inv_def)
  from si sys_inv_idle[OF inv] refl show ?thesis
  proof (cases rule: schedule_outcome)
    case stays
    then have e: "s' = s\<lparr>rflags_if := False\<rparr>" using preempt by simp
    have "sched_core s' = sched_core s" unfolding e by (rule sched_core_cong) simp_all
    then show ?thesis using inv unfolding e by (simp add: sys_inv_def sched_inv_def)
  next
    case (switches nx t)
    then show ?thesis using preempt inv by (simp add: sys_inv_def switched_def)
  qed
next
  case (create tramp name entry arg p co i)
  have si: "sched_inv s" using inv by (simp add: sys_inv_def)
  then show ?thesis
    by (cases rule: create_outcome[where tramp = tramp and name = name and entry = entry and arg = arg and ?pml4.0 = p and co = co])
      (use create inv in \<open>auto simp: sys_inv_def created_def\<close>)
next
  case (exit c)
  have si: "sched_inv s" using inv by (simp add: sys_inv_def)
  have cur: "current_thread s ! this_core s = int (nat (current_thread s ! this_core s))" using exit(1) by simp
  show ?thesis
    by (rule exit_outcome[OF si refl sys_inv_idle[OF inv] cur exit(2), of c])
      (use exit(3) inv in \<open>auto simp: sys_inv_def switched_def dying_def\<close>)
next
  case (alloc n p)
  have si: "sched_inv s" using inv by (simp add: sys_inv_def)
  then have sc: "sched_core s" by (simp add: sched_inv_def)
  note C = sched_coreD[OF sc]
  from C(2) alloc show ?thesis
  proof (cases rule: kmalloc_result)
    case null then show ?thesis using inv by simp
  next
    case (block b)
    define h where "h = hdr s'"
    have e: "s' = s\<lparr>hdr := h\<rparr>" using block(5) by (simp only: h_def)
    have "stacks_ok (threads s) (allocs s')" using C(5) by (rule stacks_ok_mono) (use block(8) in auto)
    then show ?thesis using inv block(4) by (simp add: sys_inv_def sched_inv_def sched_core_def) (simp add: e)
  qed
next
  case (free p k)
  have si: "sched_inv s" using inv by (simp add: sys_inv_def)
  then have sc: "sched_core s" by (simp add: sched_inv_def)
  note C = sched_coreD[OF sc] and K = kfree_released[OF sched_coreD(2)[OF sc] free(1)]
  have e: "s' = s\<lparr>hdr := drop_block (p - HEADER) (hdr s)\<rparr>" using K(1) free(3) by simp
  have "stacks_ok (threads s) (allocs s')" using C(5) unfolding e K(3)
    by (rule stacks_ok_mono) (use free(2) in auto)
  then show ?thesis using inv K(2) by (simp add: sys_inv_def sched_inv_def sched_core_def e)
qed

lemma sched_steps_inv: "sched_step\<^sup>*\<^sup>* s s' \<Longrightarrow> sys_inv s \<Longrightarrow> sys_inv s'"
  by (induction rule: rtranclp_induct) (auto intro: sched_step_inv)

subsection \<open>An example\<close>

text \<open>One core with its idle thread in slot 0, thread 1 running and thread 2 ready, their stacks in the
  first three heap blocks.\<close>

definition example_thread :: "u64 \<Rightarrow> int \<Rightarrow> bool \<Rightarrow> thread" where
  "example_thread stack core idle = \<lparr>t_rsp = stack + 0x3FC8, t_cr3 = 0x2000, kernel_stack_top = stack + 0x4000, stack_base = stack,
     t_state = THREAD_ACTIVE, running_on_core = core, heap_brk = USER_HEAP_VADDR_START, exit_code_out = 0, is_idle = idle, t_name = []\<rparr>"

definition unused_thread :: thread where
  "unused_thread = \<lparr>t_rsp = 0, t_cr3 = 0, kernel_stack_top = 0, stack_base = 0, t_state = THREAD_UNUSED, running_on_core = -1,
     heap_brk = 0, exit_code_out = 0, is_idle = False, t_name = []\<rparr>"

definition example_threads :: "thread list" where
  "example_threads = [example_thread 0x1000018 (-1) True, example_thread 0x1004030 0 False, example_thread 0x1008048 (-1) False] @
     replicate 29 unused_thread"

definition sched_example :: sched_state where
  "sched_example = \<lparr>mem = (\<lambda>_. 0), rflags_if = True, bitmap = 0x1000, bitmap_bits = 4, free_pages = 2, search_hint = 1, pmm_lock = 0,
     kernel_pml4 = 0x2000, cr3 = 0x2000, efer = 0,
     hdr = (\<lambda>_. \<lparr>hb_size = 0, hb_free = 0, hb_next = 0\<rparr>)
       (0x1000000 := \<lparr>hb_size = 0x4000, hb_free = 0, hb_next = 0x1004018\<rparr>, 0x1004018 := \<lparr>hb_size = 0x4000, hb_free = 0, hb_next = 0x1008030\<rparr>,
        0x1008030 := \<lparr>hb_size = 0x4000, hb_free = 0, hb_next = 0x100C048\<rparr>, 0x100C048 := \<lparr>hb_size = 0xFF3FA0, hb_free = 1, hb_next = 0\<rparr>),
     heap_head = HEAP_BASE, heap_lock = 0, disk = \<lambda>_. 0, disk_sectors = 0,
     fs = \<lparr>partition_lba = 0, bytes_per_sector = 512, sectors_per_cluster = 1, cluster_size_bytes = 512,
       fat_start_sector = 1, root_dir_start_sector = 2, root_dir_sectors = 1, root_dir_entry_count = 16,
       first_data_sector = 3, fat_cache = 0, fat_cache_entries = 0\<rparr>, fat16_vfs_lock = 0,
     gdt_table = \<lparr>entries = [], tss_desc = []\<rparr>, tss_tab = replicate 16 \<lparr>reserved0 = 0, rsp0 = 0, rsp1 = 0, rsp2 = 0, reserved1 = 0,
       ist = replicate 7 0, reserved2 = 0, reserved3 = 0, iomap_base = 104\<rparr>, gdtr = \<lparr>gp_limit = 0, gp_base = 0\<rparr>, tr = 0x28,
     regs = \<lparr>r_rsp = 0x1007000, r_rbp = 1, r_rbx = 2, r_r12 = 3, r_r13 = 4, r_r14 = 5, r_r15 = 6, r_rdi = 7, r_rip = 8\<rparr>,
     apic_id = 0, cpu_count = 1, core_apic_ids = replicate 16 0, scheduler_lock = 0, threads = example_threads, active_count = 3,
     current_thread = 1 # replicate 15 (-1), discard_rsp = replicate 16 0, idle_tid = 0 # replicate 15 (-1)\<rparr>"

lemma example_at:
  "i < 32 \<Longrightarrow> example_threads ! i = (if i = 0 then example_thread 0x1000018 (-1) True else if i = 1 then example_thread 0x1004030 0 False
     else if i = 2 then example_thread 0x1008048 (-1) False else unused_thread)"
  by (auto simp: example_threads_def nth_append nth_Cons split: nat.split)

lemma first_of_16: "c < 16 \<Longrightarrow> (x # replicate 15 y) ! c = (if c = 0 then x else y)"
  by (cases c) auto

lemma example_thread_simps [simp]:
  "t_state (example_thread stack core idle) = THREAD_ACTIVE" "running_on_core (example_thread stack core idle) = core"
  "is_idle (example_thread stack core idle) = idle" "stack_base (example_thread stack core idle) = stack"
  "t_state unused_thread = THREAD_UNUSED" "running_on_core unused_thread = -1" "is_idle unused_thread = False"
  by (simp_all add: example_thread_def unused_thread_def)

lemma example_tables: "tables_ok example_threads (1 # replicate 15 (-1)) (0 # replicate 15 (-1))"
proof (rule tables_okI)
  show "length example_threads = 32" by (simp add: example_threads_def)
qed (auto simp: example_at first_of_16 split: if_splits)

lemma example_live: "live example_threads = {0, 1, 2}"
  by (auto simp: live_def example_at split: if_splits)
lemma example_fields:
  "threads sched_example = example_threads" "current_thread sched_example = 1 # replicate 15 (-1)" "idle_tid sched_example = 0 # replicate 15 (-1)"
  "cpu_count sched_example = 1" "active_count sched_example = 3" "scheduler_lock sched_example = 0" "heap_head sched_example = HEAP_BASE"
  "heap_lock sched_example = 0" "this_core sched_example = 0" "r_rsp (regs sched_example) = 0x1007000"
  by (simp_all add: sched_example_def smp_current_cpu_index_def)

lemma example_chain: "chain (hdr sched_example) HEAP_BASE HEAP_END [0x1000000, 0x1004018, 0x1008030, 0x100C048]"
  by (simp add: sched_example_def blk_ok_def blk_end_def)

lemma example_allocs: "allocs sched_example = {(0x1000018, 0x4000), (0x1004030, 0x4000), (0x1008048, 0x4000)}"
  unfolding allocs_chain[OF example_chain example_fields(7)] by (auto simp: sched_example_def)

lemma example_inv: "sys_inv sched_example"
proof -
  have "heap_inv sched_example" unfolding heap_inv_def example_fields using example_chain by blast
  moreover have "stacks_ok example_threads (allocs sched_example)"
    unfolding stacks_ok_def example_live example_allocs by (simp add: example_at)
  ultimately show ?thesis
    unfolding sys_inv_def sched_inv_def sched_core_def example_fields example_live using example_tables by simp
qed

subsection \<open>Properties\<close>


text \<open>C11. The first switch to a thread made by \<open>thread_create_ex\<close>, from any stack and with its initial
  frame intact, lands in the trampoline, which calls the entry point with the argument in \<open>rdi\<close>,
  interrupts on and the new stack empty but for the return address.\<close>

theorem new_thread_first_switch:
  assumes "sched_inv s" "thread_create_ex tramp name entry arg pml4 co s = Inr (i, s1)" "entry \<noteq> 0"
    and "\<forall>k<56. mem t (t_rsp (threads s1 ! i) + of_nat k) = mem s1 (t_rsp (threads s1 ! i) + of_nat k)"
    and "\<forall>j<48. \<forall>k<56. r_rsp (regs t) - 48 + of_nat j \<noteq> t_rsp (threads s1 ! i) + of_nat k"
  shows "\<exists>t'. thread_trampoline_call ret (switch_context (save_discard core) (t_rsp (threads s1 ! i)) t) = Inr t' \<and>
    r_rip (regs (switch_context (save_discard core) (t_rsp (threads s1 ! i)) t)) = tramp \<and>
    r_rip (regs t') = entry \<and> r_rdi (regs t') = arg \<and> rflags_if t' \<and> r_rsp (regs t') = kernel_stack_top (threads s1 ! i) - 8 \<and>
    load64 (mem t') (r_rsp (regs t')) = ret"
  using assms(1)
proof (cases rule: create_outcome[where tramp = tramp and name = name and entry = entry and arg = arg and ?pml4.0 = pml4 and co = co])
  case (fails m) then show ?thesis using assms(2) by simp
next
  case (new j stack s')
  then have e: "j = i" "s' = s1" using assms(2) by simp_all
  note c = new(2)[unfolded e created_def]
  have "length (threads s) = 32" using assms(1) by (simp add: sched_inv_def sched_core_def tables_ok_def)
  then have T: "threads s1 ! i = new_thread name stack pml4 co (threads s ! i)" using c by auto
  let ?sp = "stack + SCHEDULER_STACK_SIZE"
  have sp: "t_rsp (threads s1 ! i) = ?sp - 56" "kernel_stack_top (threads s1 ! i) = ?sp" unfolding T by (simp_all add: new_thread_def)
  note G = switch_discard_fields[of core "?sp - 56" t]
  have "\<forall>k<56. pushed (regs t) (mem t) (?sp - 56 + of_nat k) = initial_frame ?sp tramp entry arg (mem s) (?sp - 56 + of_nat k)"
    using pushed_other[of "regs t" _ "mem t"] assms(4,5) c unfolding sp by simp
  note P = first_switch[OF this, where r = "(regs t)\<lparr>r_rsp := ?sp - 56\<rparr>"]
  define u where "u = switch_context (save_discard core) (?sp - 56) t"
  have "r_rip (regs u) = tramp" "r_rbx (regs u) = entry" "r_r12 (regs u) = arg" "r_rsp (regs u) = ?sp"
    unfolding u_def G by (rule P, simp)+
  then show ?thesis unfolding sp u_def[symmetric] thread_trampoline_call_def Let_def push_def using assms(3) by simp
qed

lemma example_create:
  obtains s1 where "thread_create_ex 0x100000 [] 0x200000 9 0x2000 0 sched_example = Inr (3, s1)" "t_rsp (threads s1 ! 3) = 0x1010028"
    "r_rsp (regs s1) = 0x1007000"
proof -
  have si: "sched_inv sched_example" using example_inv by (simp add: sys_inv_def)
  let ?s = "sched_example\<lparr>rflags_if := False, scheduler_lock := 1\<rparr>"
  have hi: "heap_inv ?s" using si by (simp add: sched_inv_def sched_core_def heap_inv_def)
  have ch: "chain (hdr ?s) HEAP_BASE HEAP_END [0x1000000, 0x1004018, 0x1008030, 0x100C048]"
    using example_chain by (simp del: chain.simps)
  have "find (fits (hdr ?s) (round_size SCHEDULER_STACK_SIZE)) [0x1000000, 0x1004018, 0x1008030, 0x100C048] = Some 0x100C048"
    by (simp add: sched_example_def round_size_def)
  then have k: "kmalloc SCHEDULER_STACK_SIZE ?s = Inr (0x100C060, ?s\<lparr>hdr := take_block 0x100C048 (round_size SCHEDULER_STACK_SIZE) (hdr ?s)\<rparr>)"
    using kmalloc_run[OF hi ch, of SCHEDULER_STACK_SIZE] by simp
  have f: "find (\<lambda>i. t_state (threads ?s ! i) = THREAD_UNUSED) [0..<32] = Some 3"
    by (simp add: example_fields find_Some_iff, rule exI[of _ 3]) (auto simp: example_at)
  have "length (threads ?s) = 32" by (simp add: example_fields example_threads_def)
  then show ?thesis using that k f
    by (simp add: thread_create_ex_def irq_save_disable_def irq_restore_def Let_def example_fields)
qed

theorem new_thread_first_switch_witness:
  "\<exists>s1 t'. thread_create_ex 0x100000 [] 0x200000 9 0x2000 0 sched_example = Inr (3, s1) \<and>
     thread_trampoline_call 0x100020 (switch_context (save_discard 0) 0x1010028 s1) = Inr t' \<and> r_rip (regs t') = 0x200000 \<and> r_rdi (regs t') = 9"
proof -
  obtain s1 where s1: "thread_create_ex 0x100000 [] 0x200000 9 0x2000 0 sched_example = Inr (3, s1)" "t_rsp (threads s1 ! 3) = 0x1010028"
    "r_rsp (regs s1) = 0x1007000" by (rule example_create)
  have "\<forall>j<48. \<forall>k<56. r_rsp (regs s1) - 48 + of_nat j \<noteq> t_rsp (threads s1 ! 3) + of_nat k"
  proof (intro allI impI notI)
    fix j k :: nat assume a: "j < 48" "k < 56" "r_rsp (regs s1) - 48 + of_nat j = t_rsp (threads s1 ! 3) + of_nat k"
    then have "(of_nat j :: u64) = 0x9058 + of_nat k" by (simp add: s1(2,3) algebra_simps)
    then have "unat (of_nat j :: u64) = unat (0x9058 + of_nat k :: u64)" by simp
    moreover have "unat (0x9058 + of_nat k :: u64) = 0x9058 + k" "unat (of_nat j :: u64) = j"
      using a(1,2) by (subst unat_add_no_wrap, simp_all add: unat_of_nat_less)
    ultimately show False using a(1,2) by simp
  qed
  moreover have "sched_inv sched_example" using example_inv by (simp add: sys_inv_def)
  ultimately show ?thesis
    using new_thread_first_switch[OF _ s1(1), of s1 "0x100020" 0] s1 by (auto simp: s1(2))
qed





text \<open>C9. \<open>thread_exit_code\<close> of a thread that is no idle thread terminates: another thread gets the core,
  the exit code is where the creator asked for it before that thread's registers are restored, the slot
  is free again, and of the heap exactly the dead thread's stack has been given back.\<close>

theorem thread_exit_spec:
  fixes s :: "'a sched_state_scheme"
  assumes "sys_inv s" "current_thread s ! this_core s = int tid" "\<not> is_idle (threads s ! tid)"
  shows "\<exists>nx s' n. thread_exit_code code s = Inr s' \<and> sys_inv s' \<and> current_thread s' ! this_core s = int nx \<and> nx \<noteq> tid \<and>
    running_on_core (threads s ! nx) < 0 \<and> t_state (threads s' ! tid) = THREAD_UNUSED \<and> \<not> thread_is_alive (int tid) s' \<and>
    (stack_base (threads s ! tid), n) \<in> allocs s \<and> allocs s' = allocs s - {(stack_base (threads s ! tid), n)} \<and>
    mem s' = pushed (regs s) (if exit_code_out (threads s ! tid) \<noteq> 0 then store64 (exit_code_out (threads s ! tid)) code (mem s) else mem s)"
proof -
  have i: "sched_inv s" using assms(1) by (simp add: sys_inv_def)
  note C = sched_coreD[of s] and D = tables_okD[of "threads s" "current_thread s" "idle_tid s"]
  have sc: "sched_core s" using i by (simp add: sched_inv_def)
  have core: "this_core s < 16" using cpu_index_range[OF C(1)[OF sc]] .
  have tid: "tid < 32" "running_on_core (threads s ! tid) = int (this_core s)" using D(4)[OF C(3)[OF sc] core] assms(2) by auto
  have len: "length (threads s) = 32" "length (current_thread s) = 16" using D(1,2)[OF C(3)[OF sc]] by auto
  from i refl sys_inv_idle[OF assms(1)] assms(2,3) show ?thesis
  proof (cases rule: exit_outcome[where code = code])
    case (1 nx s')
    have ne: "nx \<noteq> tid" "running_on_core (threads s ! nx) < 0"
      using 1(3) tid len by (auto simp: can_pick_def dying_def nth_list_update split: if_splits)
    have st: "sys_inv s'" using sched_step.exit[of s code s'] assms 1(1) sched_step_inv[of s s'] by auto
    have "t_state (threads s' ! tid) = THREAD_UNUSED" using 1(4) assms(2) tid len ne(1)
      by (simp add: switched_def dying_def left_thread_def Let_def nth_list_update)
    then show ?thesis using 1 ne st tid len core by (auto simp: switched_def thread_is_alive_def dying_def)
  qed
qed

theorem thread_exit_spec_witness:
  "\<exists>s'. thread_exit_code 7 sched_example = Inr s' \<and> sys_inv s' \<and> allocs s' = {(0x1000018, 0x4000), (0x1008048, 0x4000)}"
proof -
  have "current_thread sched_example ! this_core sched_example = int 1" "\<not> is_idle (threads sched_example ! 1)"
    unfolding example_fields example_threads_def by (simp, simp add: example_thread_def)
  from thread_exit_spec[OF example_inv this, of 7]
  obtain s' n where s': "thread_exit_code 7 sched_example = Inr s'" "sys_inv s'" "(stack_base (threads sched_example ! 1), n) \<in> allocs sched_example"
    "allocs s' = allocs sched_example - {(stack_base (threads sched_example ! 1), n)}" by (elim exE conjE) (rule that)
  have "stack_base (threads sched_example ! 1) = 0x1004030" unfolding example_fields example_threads_def by (simp add: example_thread_def)
  note A = s'(3,4)[unfolded this example_allocs]
  have n: "n = 0x4000" using A(1) by simp
  have "allocs s' = {(0x1000018, 0x4000), (0x1008048, 0x4000)}" unfolding A(2) n by (simp add: insert_Diff_if)
  then show ?thesis using s'(1,2) by (intro exI[of _ s'] conjI)
qed



end
