(* ===== verification/Idt_Spec.thy ===== *)
theory Idt_Spec
  imports Idt Sched_Spec
begin

section \<open>The interrupt table and exceptions of user programs\<close>

text \<open>
  The gates as the processor reads them and what \<open>idt_init\<close> makes of the table.
\<close>

subsection \<open>Gates\<close>

text \<open>What the processor reads from a gate: whether it is present, the ring it may be entered from by an
  \<open>int\<close> instruction, and the address of the handler.\<close>

definition gate_present :: "idt_entry \<Rightarrow> bool" where
  "gate_present e \<longleftrightarrow> bit (type_attr e) 7"

definition gate_dpl :: "idt_entry \<Rightarrow> nat" where
  "gate_dpl e = unat (drop_bit 5 (type_attr e) AND 3)"

definition gate_kind :: "idt_entry \<Rightarrow> nat" where
  "gate_kind e = unat (type_attr e AND 0x1F)"

definition gate_offset :: "idt_entry \<Rightarrow> u64" where
  "gate_offset e = ucast (offset_low e) OR push_bit 16 (ucast (offset_mid e)) OR push_bit 32 (ucast (offset_high e))"

lemma gate_offset_split:
  "(ucast (ucast (h AND 0xFFFF) :: 16 word) :: u64) OR push_bit 16 (ucast (ucast (drop_bit 16 h AND 0xFFFF) :: 16 word)) OR
     push_bit 32 (ucast (ucast (drop_bit 32 h) :: 32 word)) = h" for h :: u64
proof (rule bit_word_eqI)
  fix n assume n: "n < LENGTH(64)"
  have m: "(0xFFFF :: u64) = mask 16" by (simp add: mask_numeral)
  consider "n < 16" | "16 \<le> n" "n < 32" | "32 \<le> n" by linarith
  then show "bit ((ucast (ucast (h AND 0xFFFF) :: 16 word) :: u64) OR push_bit 16 (ucast (ucast (drop_bit 16 h AND 0xFFFF) :: 16 word)) OR
     push_bit 32 (ucast (ucast (drop_bit 32 h) :: 32 word))) n = bit h n"
    using n by cases (auto simp: bit_simps m)
qed

lemma idt_set_fold:
  assumes "n \<le> length (idt s)"
  shows "length (idt (fold (\<lambda>i. idt_set_entry i (h i) cs attr) [0..<n] s)) = length (idt s)"
    "v < length (idt s) \<Longrightarrow> idt (fold (\<lambda>i. idt_set_entry i (h i) cs attr) [0..<n] s) ! v =
       (if v < n then idt (idt_set_entry v (h v) cs attr s) ! v else idt s ! v)"
proof -
  have "length (idt (fold (\<lambda>i. idt_set_entry i (h i) cs attr) [0..<n] s)) = length (idt s) \<and>
    (\<forall>v<length (idt s). idt (fold (\<lambda>i. idt_set_entry i (h i) cs attr) [0..<n] s) ! v =
       (if v < n then idt (idt_set_entry v (h v) cs attr s) ! v else idt s ! v))"
    using assms by (induction n) (auto simp: idt_set_entry_def nth_list_update)
  then show "length (idt (fold (\<lambda>i. idt_set_entry i (h i) cs attr) [0..<n] s)) = length (idt s)"
    "v < length (idt s) \<Longrightarrow> idt (fold (\<lambda>i. idt_set_entry i (h i) cs attr) [0..<n] s) ! v =
       (if v < n then idt (idt_set_entry v (h v) cs attr s) ! v else idt s ! v)" by blast+
qed

lemma idt_init_at:
  assumes "length (idt s) = 256"
  shows "length (idt (idt_init stubs stub128 cs addr s)) = 256"
    "v < 256 \<Longrightarrow> idt (idt_init stubs stub128 cs addr s) ! v =
      (if v = 128 then idt (idt_set_entry 128 stub128 cs IDT_TYPE_INTERRUPT_GATE_DPL3 s) ! 128
       else if v < 49 then idt (idt_set_entry v (stubs v) cs IDT_TYPE_INTERRUPT_GATE s) ! v else idt s ! v)"
proof -
  define t where "t = fold (\<lambda>i. idt_set_entry i (stubs i) cs IDT_TYPE_INTERRUPT_GATE) [0..<49] s"
  have i: "idt_init stubs stub128 cs addr s = idt_load_on_this_cpu addr (idt_set_entry 128 stub128 cs IDT_TYPE_INTERRUPT_GATE_DPL3 t)"
    unfolding idt_init_def Let_def t_def ..
  have t: "length (idt t) = 256" "v < 256 \<Longrightarrow> idt t ! v = (if v < 49 then idt (idt_set_entry v (stubs v) cs IDT_TYPE_INTERRUPT_GATE s) ! v else idt s ! v)"
    unfolding t_def using idt_set_fold[where n = 49 and s = s and h = stubs and cs = cs and attr = IDT_TYPE_INTERRUPT_GATE] assms by simp_all
  show "length (idt (idt_init stubs stub128 cs addr s)) = 256" using t by (simp add: i idt_load_on_this_cpu_def idt_set_entry_def)
  show "v < 256 \<Longrightarrow> idt (idt_init stubs stub128 cs addr s) ! v =
      (if v = 128 then idt (idt_set_entry 128 stub128 cs IDT_TYPE_INTERRUPT_GATE_DPL3 s) ! 128
       else if v < 49 then idt (idt_set_entry v (stubs v) cs IDT_TYPE_INTERRUPT_GATE s) ! v else idt s ! v)"
    using t assms by (simp add: i idt_load_on_this_cpu_def) (simp add: idt_set_entry_def)
qed

text \<open>C23. The interrupt table is well formed: after \<open>idt_init\<close> on the zeroed table all 256 entries are
  there; vectors 0 to 48 are present interrupt gates that only the kernel and the hardware may enter,
  vector 0x80 is the only one that ring 3 may enter by an instruction, each leads to exactly the address of
  its stub in the kernel code segment, and every other vector is absent.\<close>

theorem idt_init_gates:
  fixes s :: "('d, 'a) idt_state_scheme"
  assumes "length (idt s) = 256" "\<forall>v<256. type_attr (idt s ! v) = 0"
  shows "length (idt (idt_init stubs stub128 cs addr s)) = 256 \<and>
    idtr (idt_init stubs stub128 cs addr s) = \<lparr>ip_limit = 0xFFF, ip_base = addr\<rparr> \<and>
    (\<forall>v<256. let e = idt (idt_init stubs stub128 cs addr s) ! v in
       if v < 49 then gate_present e \<and> gate_kind e = 14 \<and> gate_dpl e = 0 \<and> selector e = cs \<and> gate_offset e = stubs v
       else if v = 128 then gate_present e \<and> gate_kind e = 14 \<and> gate_dpl e = 3 \<and> selector e = cs \<and> gate_offset e = stub128
       else \<not> gate_present e)"
proof -
  let ?t = "idt_init stubs stub128 cs addr s"
  note I = idt_init_at[OF assms(1)]
  have a: "gate_present e" "gate_kind e = 14" "gate_dpl e = 0" if "type_attr e = IDT_TYPE_INTERRUPT_GATE" for e
    using that by (simp_all add: gate_present_def gate_kind_def gate_dpl_def)
  have b: "gate_present e" "gate_kind e = 14" "gate_dpl e = 3" if "type_attr e = IDT_TYPE_INTERRUPT_GATE_DPL3" for e
    using that by (simp_all add: gate_present_def gate_kind_def gate_dpl_def)
  have R: "idtr ?t = \<lparr>ip_limit = 0xFFF, ip_base = addr\<rparr>"
  proof -
    have "idtr (idt_load_on_this_cpu addr t) = \<lparr>ip_limit = 0xFFF, ip_base = addr\<rparr>" for t :: "('d, 'a) idt_state_scheme"
      by (simp add: idt_load_on_this_cpu_def)
    then show ?thesis unfolding idt_init_def Let_def .
  qed
  have X: "gate_present e \<and> gate_kind e = 14 \<and> gate_dpl e = 0 \<and> selector e = cs \<and> gate_offset e = stubs v"
    if "v < 49" "e = idt ?t ! v" for v e
  proof -
    have e: "e = idt (idt_set_entry v (stubs v) cs IDT_TYPE_INTERRUPT_GATE s) ! v"
      using that by (simp add: I(2))
    have "type_attr e = IDT_TYPE_INTERRUPT_GATE" "selector e = cs" using that(1) assms(1) by (simp_all add: e idt_set_entry_def)
    then show ?thesis using a[of e] that(1) assms(1) gate_offset_split[of "stubs v"] by (simp add: e idt_set_entry_def gate_offset_def)
  qed
  have Y: "gate_present e \<and> gate_kind e = 14 \<and> gate_dpl e = 3 \<and> selector e = cs \<and> gate_offset e = stub128" if "e = idt ?t ! 128" for e
    using that assms(1) b[of e] gate_offset_split[of stub128] by (simp add: I(2) idt_set_entry_def gate_offset_def)
  have Z: "\<not> gate_present e" if "\<not> v < 49" "v \<noteq> 128" "v < 256" "e = idt ?t ! v" for v e
    using that assms by (simp add: I(2) gate_present_def)
  show ?thesis
  proof (intro conjI allI impI I(1) R)
    fix v :: nat assume v: "v < 256"
    show "let e = idt ?t ! v in
       if v < 49 then gate_present e \<and> gate_kind e = 14 \<and> gate_dpl e = 0 \<and> selector e = cs \<and> gate_offset e = stubs v
       else if v = 128 then gate_present e \<and> gate_kind e = 14 \<and> gate_dpl e = 3 \<and> selector e = cs \<and> gate_offset e = stub128
       else \<not> gate_present e"
      unfolding Let_def using X[OF _ refl, of v] Y[OF refl] Z[OF _ _ v refl] by (cases "v < 49"; cases "v = 128") simp_all
  qed
qed

text \<open>A state with the scheduler's example and every device at rest.\<close>

definition idle_devices :: "unit sys_state" where
  "idle_devices = lapic_state.extend (mouse_state.extend (kbd_state.extend (fb_state.extend (con_state.extend (timer_state.extend
     (io_state.extend (sched_state.extend sched_example (io_state.fields () (replicate 16 None)))
       (timer_state.fields 0 None)) (con_state.fields [] 0))
       (fb_state.fields \<lparr>fb_base = 0x80000000, fb_size = 0x300000, fb_width = 1024, fb_height = 768, pixels_per_scanline = 1024,
         bytes_per_pixel = 4, red_shift = 16, green_shift = 8, blue_shift = 0\<rparr>))
       (kbd_state.fields \<lparr>buffer = replicate 64 0, buf_head = 62, buf_tail = 62\<rparr>))
       (mouse_state.fields \<lparr>mouse_x = 0, mouse_y = 0, mouse_buttons = 0, packet = [0, 0, 0], packet_index = 0\<rparr>))
       (lapic_state.fields 0xFEE00000 0)) (sys_state.fields 0)"

definition zero_gate :: idt_entry where
  "zero_gate = \<lparr>offset_low = 0, selector = 0, ie_ist = 0, type_attr = 0, offset_mid = 0, offset_high = 0, ie_reserved = 0\<rparr>"

definition idt_example :: "unit idt_state" where
  "idt_example = sys_state.extend idle_devices (idt_state.fields (replicate 256 zero_gate) \<lparr>ip_limit = 0, ip_base = 0\<rparr>)"

theorem idt_init_gates_witness:
  "gate_dpl (idt (idt_init (\<lambda>v. 0x100000 + 16 * of_nat v) 0x101000 8 0x108000 idt_example) ! 128) = 3 \<and>
   gate_offset (idt (idt_init (\<lambda>v. 0x100000 + 16 * of_nat v) 0x101000 8 0x108000 idt_example) ! 14) = 0x1000E0 \<and>
   \<not> gate_present (idt (idt_init (\<lambda>v. 0x100000 + 16 * of_nat v) 0x101000 8 0x108000 idt_example) ! 200)"
proof -
  have i: "idt idt_example = replicate 256 zero_gate" by (simp add: idt_example_def sys_state.defs idt_state.defs)
  have "length (idt idt_example) = 256" "\<forall>v<256. type_attr (idt idt_example ! v) = 0"
    unfolding i length_replicate by (rule refl, intro allI impI, simp only: nth_replicate zero_gate_def idt_entry.select_convs)
  note G = idt_init_gates[OF this, of "\<lambda>v. 0x100000 + 16 * of_nat v" "0x101000" 8 "0x108000", THEN conjunct2, THEN conjunct2, rule_format, unfolded Let_def]
  show ?thesis using G[of 128] G[of 14] G[of 200] by simp
qed

subsection \<open>Exceptions of user programs\<close>

lemma fault_messages:
  "\<exists>out. kv_format (cstr (''fault: process killed by page fault at rip=0x%lx, error_code=0x%lx, '' @
       ''fault address (cr2)=0x%lx, core=%u, thread='') @ [0x22] @ cstr ''%s'' @ [0x22, 0x0A])
     [KInt a, KInt b, KInt c, KInt d, KStr (Some n)] = Inr out"
  "\<exists>out. kv_format (cstr (''fault: process killed by CPU exception %lu (%s) at rip=0x%lx, error_code=0x%lx, '' @
       ''core=%u, thread='') @ [0x22] @ cstr ''%s'' @ [0x22, 0x0A])
     [KInt a, KStr (Some m), KInt b, KInt c, KInt d, KStr (Some n)] = Inr out"
  by (simp_all add: cstr_def kv_conv_def)

lemma kvprintf_free:
  assumes "serial_lock s = 0" "kv_format fmt args = Inr out"
  shows "kvprintf fmt args s = Inr (s\<lparr>serial_lock := 1, con_out := con_out s @ out, serial_lock := 0\<rparr>)"
  using assms by (simp add: kvprintf_def Let_def)

lemma sys_inv_cong:
  assumes "scheduler_lock t = scheduler_lock s" "cpu_count t = cpu_count s" "hdr t = hdr s" "heap_head t = heap_head s" "heap_lock t = heap_lock s"
    "threads t = threads s" "current_thread t = current_thread s" "idle_tid t = idle_tid s" "active_count t = active_count s"
  shows "sys_inv t = sys_inv s"
  using sched_core_cong[of t s] assms by (simp add: sys_inv_def sched_inv_def)

lemma exit_of_current:
  fixes s :: "'a sched_state_scheme"
  assumes "sys_inv s" "current_thread s ! this_core s = int tid" "\<not> is_idle (threads s ! tid)"
  obtains s' where "thread_exit_code code s = Inr s'" "sys_inv s'" "t_state (threads s' ! tid) = THREAD_UNUSED"
    "\<And>i. i < 32 \<Longrightarrow> i \<noteq> tid \<Longrightarrow> t_state (threads s' ! i) = t_state (threads s ! i)"
    "mem s' = pushed (regs s) (if exit_code_out (threads s ! tid) \<noteq> 0 then store64 (exit_code_out (threads s ! tid)) code (mem s) else mem s)"
proof -
  have i: "sched_inv s" using assms(1) by (simp add: sys_inv_def)
  then have sc: "sched_core s" by (simp add: sched_inv_def)
  note C = sched_coreD[OF sc]
  note D = tables_okD[OF C(3)]
  have core: "this_core s < 16" using cpu_index_range[OF C(1)] .
  have tid: "tid < 32" "running_on_core (threads s ! tid) = int (this_core s)" using D(4)[OF core] assms(2) by auto
  have len: "length (threads s) = 32" by (rule D(1))
  from i refl sys_inv_idle[OF assms(1)] assms(2,3) show ?thesis
  proof (cases rule: exit_outcome[where code = code])
    case (1 nx s')
    have ne: "nx \<noteq> tid" "nx < 32" using 1(3) tid len by (auto simp: can_pick_def dying_def split: if_splits)
    have st: "sys_inv s'" using sched_step.exit[of s code s'] assms 1(1) sched_step_inv[of s s'] by auto
    have "threads s' = (threads (dying tid code s))[nx := (threads (dying tid code s) ! nx)\<lparr>running_on_core := int (this_core s)\<rparr>,
        tid := left_thread (r_rsp (regs s)) (threads (dying tid code s) ! tid)]"
      using 1(4) assms(2) by (simp add: switched_def Let_def dying_def)
    then have "t_state (threads s' ! tid) = THREAD_UNUSED" "\<And>i. i < 32 \<Longrightarrow> i \<noteq> tid \<Longrightarrow> t_state (threads s' ! i) = t_state (threads s ! i)"
      using ne tid len by (auto simp: dying_def left_thread_def nth_list_update)
    moreover have "mem s' = pushed (regs s) (if exit_code_out (threads s ! tid) \<noteq> 0 then store64 (exit_code_out (threads s ! tid)) code (mem s) else mem s)"
      using 1(4) by (simp add: switched_def dying_def)
    ultimately show ?thesis using 1(1) st that by blast
  qed
qed

text \<open>C13. A fault of a user program costs that program only. An exception taken in ring 3, a page fault being
  a protection violation, never panics the kernel: the faulting thread is ended with exit code -1000 minus
  the vector where its creator asked for it, every other thread keeps its state, and the scheduler's
  tables stay in agreement.\<close>

theorem user_fault_contained:
  fixes s :: "('d, 'a) sys_state_scheme"
  assumes "sys_inv s" "serial_lock s = 0" "current_thread s ! this_core s = int tid" "\<not> is_idle (threads s ! tid)"
    and "f_cs frame AND 3 = 3" "f_vector frame < 32" "f_vector frame = 14 \<Longrightarrow> f_error_code frame AND 1 \<noteq> 0"
  shows "\<exists>s'. interrupt_dispatch hw e cr2 frame s = Inr (None, s') \<and> sys_inv s' \<and> t_state (threads s' ! tid) = THREAD_UNUSED \<and>
    (\<forall>i<32. i \<noteq> tid \<longrightarrow> t_state (threads s' ! i) = t_state (threads s ! i)) \<and>
    mem s' = pushed (regs s) (if exit_code_out (threads s ! tid) \<noteq> 0
      then store64 (exit_code_out (threads s ! tid)) (-1000 - f_vector frame) (mem s) else mem s)"
proof -
  let ?p = "\<lambda>out. s\<lparr>serial_lock := 1, con_out := con_out s @ out, serial_lock := 0\<rparr>"
  have d: "\<exists>out. interrupt_dispatch hw e cr2 frame s =
      rbind (thread_exit_code (FAULT_EXIT_CODE (f_vector frame)) (?p out)) (\<lambda>s. Inr (None, s))"
  proof (cases "f_vector frame = 14")
    case True
    obtain out where o: "kv_format (cstr (''fault: process killed by page fault at rip=0x%lx, error_code=0x%lx, '' @
       ''fault address (cr2)=0x%lx, core=%u, thread='') @ [0x22] @ cstr ''%s'' @ [0x22, 0x0A])
       [KInt (f_rip frame), KInt (f_error_code frame), KInt cr2, KInt (ucast (smp_current_cpu_index s)), KStr (Some (thread_current_name s))] = Inr out"
      using fault_messages(1) by blast
    have "elf_handle_stack_fault cr2 (f_error_code frame) True s = Inr (False, s)" using assms(7)[OF True] by (simp add: elf_handle_stack_fault_def)
    then show ?thesis using True assms(5) kvprintf_free[OF assms(2) o]
      by (intro exI[of _ out]) (simp add: interrupt_dispatch_def exception_handler_def Let_def del: append_assoc)
  next
    case False
    obtain out where o: "kv_format (cstr (''fault: process killed by CPU exception %lu (%s) at rip=0x%lx, error_code=0x%lx, '' @
       ''core=%u, thread='') @ [0x22] @ cstr ''%s'' @ [0x22, 0x0A])
       [KInt (f_vector frame), kstr (exception_name (f_vector frame)), KInt (f_rip frame), KInt (f_error_code frame),
        KInt (ucast (smp_current_cpu_index s)), KStr (Some (thread_current_name s))] = Inr out"
      using fault_messages(2) by blast
    show ?thesis using False assms(5,6) kvprintf_free[OF assms(2) o]
      by (intro exI[of _ out]) (simp add: interrupt_dispatch_def exception_handler_def Let_def del: append_assoc)
  qed
  then obtain out where d: "interrupt_dispatch hw e cr2 frame s =
      rbind (thread_exit_code (FAULT_EXIT_CODE (f_vector frame)) (?p out)) (\<lambda>s. Inr (None, s))" by blast
  have "sys_inv (?p out)" using assms(1) sys_inv_cong[of "?p out" s] by simp
  then show ?thesis
  proof (rule exit_of_current[where tid = tid and code = "FAULT_EXIT_CODE (f_vector frame)"])
    show "current_thread (?p out) ! this_core (?p out) = int tid" "\<not> is_idle (threads (?p out) ! tid)"
      using assms(3,4) by (simp_all add: smp_current_cpu_index_def)
  qed (use d in \<open>simp add: FAULT_EXIT_CODE_def\<close>)
qed

lemma idle_devices_inv: "sys_inv idle_devices"
proof -
  have "sys_inv idle_devices = sys_inv sched_example" by (rule sys_inv_cong) (simp_all add: idle_devices_def lapic_state.defs mouse_state.defs
    kbd_state.defs fb_state.defs con_state.defs timer_state.defs io_state.defs sched_state.defs sys_state.defs)
  then show ?thesis using example_inv by simp
qed

text \<open>An undefined instruction in ring 3, as \<open>CRASHTST.ELF\<close> executes it.\<close>

definition ud2_frame :: interrupt_frame where
  "ud2_frame = \<lparr>f_r15 = 0, f_r14 = 0, f_r13 = 0, f_r12 = 0, f_r11 = 0, f_r10 = 0, f_r9 = 0, f_r8 = 0, f_rbp = 0, f_rdi = 0, f_rsi = 0,
     f_rdx = 0, f_rcx = 0, f_rbx = 0, f_rax = 0, f_vector = 6, f_error_code = 0, f_rip = 0x400000, f_cs = 0x23, f_rflags = 0x202\<rparr>"

theorem user_fault_contained_witness:
  "\<exists>s'. interrupt_dispatch \<lparr>hw_in8 = (\<lambda>_ d. (0, d)), hw_out8 = (\<lambda>_ _ d. d), hw_in32 = (\<lambda>_ d. (0, d)), hw_out32 = (\<lambda>_ _ d. d),
       hw_load32 = (\<lambda>_ d. (0, d)), hw_store32 = (\<lambda>_ _ d. d), hw_tick = id, hw_rdmsr = (\<lambda>_ _. 0), hw_wrmsr = (\<lambda>_ _ d. d)\<rparr>
       \<lparr>env_trampoline = 0x100000, env_launch = 0x100100, env_exit_ptr = 0, env_resume = id\<rparr> 0 ud2_frame idle_devices = Inr (None, s') \<and>
     sys_inv s' \<and> t_state (threads s' ! 1) = THREAD_UNUSED"
proof -
  have f: "serial_lock idle_devices = 0" "current_thread idle_devices = current_thread sched_example" "threads idle_devices = threads sched_example"
    "this_core idle_devices = this_core sched_example"
    by (simp_all add: idle_devices_def smp_current_cpu_index_def lapic_state.defs mouse_state.defs
    kbd_state.defs fb_state.defs con_state.defs timer_state.defs io_state.defs sched_state.defs sys_state.defs)
  have "current_thread idle_devices ! this_core idle_devices = int 1" "\<not> is_idle (threads idle_devices ! 1)"
    unfolding f example_fields example_threads_def by (simp, simp add: example_thread_def)
  from user_fault_contained[OF idle_devices_inv f(1) this, of ud2_frame] show ?thesis
    by (simp add: ud2_frame_def) blast
qed

end
