(* ===== verification/Vmm_Spec.thy ===== *)
theory Vmm_Spec
  imports Vmm
begin

section \<open>What virtual memory promises\<close>

text \<open>
  The contract of \<open>vmm.c\<close> stated over the result of the page walk: mapping a page is an update of
  one address space at one page, a new address space starts with one private page, the boot
  mapping is the identity, and the check of user pointers accepts exactly the mapped ranges. The
  predicate \<open>vm_wf s R K\<close> says that the tables of the address spaces \<open>R\<close> are well-formed and that
  the pages \<open>K\<close> are in use by something else.
\<close>

definition vm_wf :: "'a vmm_state_scheme \<Rightarrow> u64 set \<Rightarrow> u64 set \<Rightarrow> bool" where
  "vm_wf s R K \<longleftrightarrow> (\<exists>lvl par. vm_tree s lvl par \<and> R = {r. lvl r = 4} \<and> (\<forall>k\<in>K. used_page s k \<and> lvl k = 0))"

lemma vm_wfI:
  "vm_tree s lvl par \<Longrightarrow> R = {r. lvl r = 4} \<Longrightarrow> (\<And>k. k \<in> K \<Longrightarrow> used_page s k \<and> lvl k = 0) \<Longrightarrow> vm_wf s R K"
  unfolding vm_wf_def by blast

lemma vm_wfE:
  assumes "vm_wf s R K"
  obtains lvl par where "vm_tree s lvl par" "R = {r. lvl r = 4}" "\<forall>k\<in>K. used_page s k \<and> lvl k = 0"
  using assms unfolding vm_wf_def by blast

subsection \<open>Mapping is an update\<close>

text \<open>The last step: a leaf written into a table of leaves.\<close>

lemma set_leaf_wf:
  assumes T: "vm_tree s lvl par" and pt: "lvl pt = 1" and K: "used_page s k" "lvl k = 0"
  shows "vm_tree (set_entry pt (pt_idx va) e s) lvl par"
    "used_page (set_entry pt (pt_idx va) e s) k"
    "page_of a = k \<Longrightarrow> mem (set_entry pt (pt_idx va) e s) a = mem s a"
proof -
  have u: "used_page s pt" using vm_treeD(2)[OF T, of pt] pt by simp
  note f = set_entry_frame[OF vm_treeD(1)[OF T] u idx_less(4)]
  show "vm_tree (set_entry pt (pt_idx va) e s) lvl par"
    by (rule tree_set_entry[OF T u idx_less(4)]) (use pt in \<open>simp add: user_slot_def\<close>)
  show "used_page (set_entry pt (pt_idx va) e s) k" using K(1) by (simp add: f(4))
  show "mem (set_entry pt (pt_idx va) e s) a = mem s a" if "page_of a = k"
    by (rule f(5)) (use that K(2) pt in auto)
qed

lemma set_leaf_root_entry:
  assumes T: "vm_tree s lvl par" and "lvl pt = 1" "lvl r = 4"
  shows "get_entry (mem (set_entry pt (pt_idx va) e s)) r 0 = get_entry (mem s) r 0"
proof -
  have u: "used_page s pt" "used_page s r" "r \<noteq> pt"
    using vm_treeD(2)[OF T, of pt] vm_treeD(2)[OF T, of r] assms(2,3) by auto
  then show ?thesis using get_set_entry[OF u(1) idx_less(4) u(2), of 0] by simp
qed

lemma set_leaf_lookup:
  assumes T: "vm_tree s lvl par" and pt: "lvl pt = 1" "descend (mem s) r (page_path va) = Some pt"
    and r: "lvl r = 4" "pml4_idx va \<noteq> 0" and r': "lvl r' = 4" "pml4_idx va' \<noteq> 0" and e: "present e"
  shows "leaf_of (mem (set_entry pt (pt_idx va) e s)) r' va' =
    (if r' = r \<and> same_page va' va then Some e else leaf_of (mem s) r' va')"
proof -
  let ?s = "set_entry pt (pt_idx va) e s"
  have u: "used_page s pt" using vm_treeD(2)[OF T, of pt] pt by simp
  have T': "vm_tree ?s lvl par"
    by (rule tree_set_entry[OF T u idx_less(4)]) (use pt in \<open>simp add: user_slot_def\<close>)
  have P: "path_ok lvl r (page_path va)" "path_ok lvl r' (page_path va')"
    by (rule page_path_ok, (rule r r')+)+
  have len: "length (page_path x) = 3" for x by (simp add: page_path_def)
  have "leaf_of (mem ?s) r' va' = lookup (mem ?s) r' (page_path va') (pt_idx va')" by (rule leaf_lookup[OF T' r'])
  also have "\<dots> = (if descend (mem s) r' (page_path va') = Some pt \<and> pt_idx va' = pt_idx va then Some e
      else lookup (mem s) r' (page_path va') (pt_idx va'))"
    using lookup_set_leaf[OF T pt(1) idx_less(4) e P(2)] by (simp add: len)
  also have "descend (mem s) r' (page_path va') = Some pt \<longleftrightarrow> r' = r \<and> page_path va' = page_path va"
    using descend_inj[OF T P _ _ pt(2)] pt(2) by (auto simp: len)
  also have "lookup (mem s) r' (page_path va') (pt_idx va') = leaf_of (mem s) r' va'"
    by (rule leaf_lookup[OF T r', symmetric])
  finally show ?thesis by (simp add: same_page_def)
qed

lemma vm_ext_roots: "vm_ext s lvl s' lvl' \<Longrightarrow> {r. lvl' r = 4} = {r. lvl r = 4}"
  using vm_extD(1,2) by fastforce

lemma vm_ext_leaf:
  assumes T: "vm_tree s lvl par" "vm_tree s' lvl' par'" and X: "vm_ext s lvl s' lvl'"
    and r: "lvl r = 4" "pml4_idx va \<noteq> 0"
  shows "leaf_of (mem s') r va = leaf_of (mem s) r va"
proof -
  have r': "lvl' r = 4" using vm_extD(1)[OF X, of r] r(1) by simp
  have "lookup (mem s') r (page_path va) (pt_idx va) = lookup (mem s) r (page_path va) (pt_idx va)"
    by (rule vm_extD(3)[OF X page_path_ok[of lvl, OF r]]) (simp_all add: page_path_def)
  then show ?thesis unfolding leaf_lookup[OF T(1) r] leaf_lookup[OF T(2) r' r(2)] .
qed

lemma vmm_map_page_cases:
  assumes wf: "vm_wf s R K" and r: "r \<in> R" "pml4_idx va \<noteq> 0"
  obtains (oom) "card (free_set s) < 3"
      "vmm_map_page r va paddr flags s = Inl (Panic ''vmm: out of physical memory while building page tables'')"
  | (ok) s' where "vmm_map_page r va paddr flags s = Inr s'" "vm_wf s' R K"
      "\<And>r' va'. r' \<in> R \<Longrightarrow> pml4_idx va' \<noteq> 0 \<Longrightarrow> leaf_of (mem s') r' va' =
        (if r' = r \<and> same_page va' va then Some (leaf_pte paddr flags) else leaf_of (mem s) r' va')"
      "\<And>r'. r' \<in> R \<Longrightarrow> get_entry (mem s') r' 0 = get_entry (mem s) r' 0"
      "\<And>a. page_of a \<in> K \<Longrightarrow> mem s' a = mem s a"
proof -
  obtain lvl par where w: "vm_tree s lvl par" "R = {r. lvl r = 4}" "\<forall>k\<in>K. used_page s k \<and> lvl k = 0"
    by (rule vm_wfE[OF wf])
  have lr: "lvl r = 4" using r(1) w(2) by simp
  have P: "path_ok lvl r (page_path va)" by (rule page_path_ok[of lvl, OF lr r(2)])
  have len: "length (page_path va) = 3" by (simp add: page_path_def)
  have le: "length (page_path va) \<le> 3" by (simp add: page_path_def)
  note run = vmm_map_page_path[OF r(2), of r paddr flags s]
  from ensure_path_result[OF w(1) P le] consider
      (none) "card (free_set s) < 3"
        "ensure_path r (page_path va) s = Inl (Panic ''vmm: out of physical memory while building page tables'')"
    | (some) pt s1 lvl1 par1 where "ensure_path r (page_path va) s = Inr (pt, s1)" "vm_tree s1 lvl1 par1"
        "vm_ext s lvl s1 lvl1" "lvl1 pt = 1" "descend (mem s1) r (page_path va) = Some pt"
    unfolding len by (elim disjE conjE exE)
  then show ?thesis
  proof cases
    case none
    then show ?thesis using run by (intro oom) simp_all
  next
    case some
    let ?s = "set_entry pt (pt_idx va) (leaf_pte paddr flags) s1"
    note X = vm_extD[OF some(3)] and R1 = vm_ext_roots[OF some(3)]
    have l1: "lvl1 r' = 4" if "r' \<in> R" for r' using that R1 w(2) by auto
    have k1: "used_page s1 k" "lvl1 k = 0" if "k \<in> K" for k using X(4,5)[of k] bspec[OF w(3) that] by auto
    have T': "vm_tree ?s lvl1 par1"
      by (rule tree_set_entry[OF some(2) vm_treeD(2)[OF some(2)] idx_less(4)]) (use some(4) in \<open>simp_all add: user_slot_def\<close>)
    show ?thesis
    proof (rule ok)
      show "vmm_map_page r va paddr flags s = Inr ?s" using run some(1) by simp
      show "vm_wf ?s R K"
        by (rule vm_wfI[OF T']) (use R1 w(2) k1 set_leaf_wf(2)[OF some(2,4) k1] in auto)
      show "leaf_of (mem ?s) r' va' = (if r' = r \<and> same_page va' va then Some (leaf_pte paddr flags)
          else leaf_of (mem s) r' va')" if "r' \<in> R" "pml4_idx va' \<noteq> 0" for r' va'
        using set_leaf_lookup[OF some(2,4,5) l1[OF r(1)] r(2) l1[OF that(1)] that(2) present_leaf]
          vm_ext_leaf[OF w(1) some(2,3) _ that(2)] that(1) w(2) by auto
      show "get_entry (mem ?s) r' 0 = get_entry (mem s) r' 0" if "r' \<in> R" for r'
        using set_leaf_root_entry[OF some(2,4) l1[OF that]] X(7)[of r'] that w(2) by auto
      show "mem ?s a = mem s a" if "page_of a \<in> K" for a
        using set_leaf_wf(3)[OF some(2,4) k1[OF that] refl] X(6)[of "page_of a" a] bspec[OF w(3) that] by auto
    qed
  qed
qed

subsection \<open>A new address space\<close>

text \<open>\<open>kept s s'\<close>: the pages in use in \<open>s\<close> are in use in \<open>s'\<close> with the same contents.\<close>

definition kept :: "'a vmm_state_scheme \<Rightarrow> 'a vmm_state_scheme \<Rightarrow> bool" where
  "kept s s' \<longleftrightarrow> (\<forall>t. used_page s t \<longrightarrow> used_page s' t \<and> (\<forall>a. page_of a = t \<longrightarrow> mem s' a = mem s a))"

lemma keptD:
  assumes "kept s s'" "used_page s t"
  shows "used_page s' t" "page_of a = t \<Longrightarrow> mem s' a = mem s a"
    "unat i < 512 \<Longrightarrow> get_entry (mem s') t i = get_entry (mem s) t i"
  using assms get_entry_page_cong[OF used_pageD(1)[OF assms(2)], of i "mem s'" "mem s"]
  by (auto simp: kept_def)

lemma kept_refl: "kept s s"
  by (simp add: kept_def)

lemma kept_fresh:
  assumes "kept s s'" "fresh_page s' p s''"
  shows "kept s s''" "\<not> used_page s p" "used_page s'' p"
proof -
  note f = fresh_pageD[OF assms(2)]
  show "\<not> used_page s p" using keptD(1)[OF assms(1), of p] f(4)[of p] by blast
  show "used_page s'' p" by (rule f(2))
  have "used_page s'' t \<and> mem s'' a = mem s a" if "used_page s t" "page_of a = t" for t a
    using keptD(1,2)[OF assms(1) that(1)] that(2) f(4,5)[of t] f(4)[of t] f(5)[of a] used_pageD(3)[of s' t a] by simp
  moreover have "used_page s'' t" if "used_page s t" for t using keptD(1)[OF assms(1) that] f(4) by blast
  ultimately show "kept s s''" unfolding kept_def by blast
qed

lemma kept_set:
  assumes "kept s s'" "pmm_inv s'" "used_page s' t" "\<not> used_page s t" "unat i < 512"
  shows "kept s (set_entry t i v s')"
proof -
  note f = set_entry_frame[OF assms(2,3,5), where v = v]
  have "mem (set_entry t i v s') a = mem s a" if "used_page s (page_of a)" for a
    using f(5)[of a] keptD(2)[OF assms(1) that refl] that assms(4) by metis
  then show ?thesis unfolding kept_def f(4) using keptD(1)[OF assms(1)] by auto
qed

text \<open>The tables of a new address space, all of them empty, below a root with the kernel's entry.\<close>

record space_tables =
  sp_root :: u64
  sp_pdpt :: u64
  sp_pd :: u64
  sp_pt :: u64
  sp_page :: u64

definition new_space :: "'a vmm_state_scheme \<Rightarrow> space_tables \<Rightarrow> 'a vmm_state_scheme \<Rightarrow> bool" where
  "new_space s n s' \<longleftrightarrow>
     (\<exists>s1 s2 s3 s4. fresh_page s (sp_root n) s1 \<and>
        fresh_page (set_entry (sp_root n) 0 (get_entry (mem s1) (kernel_pml4 s1) 0) s1) (sp_pdpt n) s2 \<and>
        fresh_page s2 (sp_pd n) s3 \<and> fresh_page s3 (sp_pt n) s4 \<and> fresh_page s4 (sp_page n) s')"

abbreviation table_flags :: u64 where "table_flags \<equiv> PAGE_PRESENT OR PAGE_WRITABLE OR PAGE_USER"

definition link_space :: "space_tables \<Rightarrow> 'a vmm_state_scheme \<Rightarrow> 'a vmm_state_scheme" where
  "link_space n s =
     set_entry (sp_root n) 1 (sp_pdpt n OR table_flags)
       (set_entry (sp_pdpt n) 0 (sp_pd n OR table_flags)
         (set_entry (sp_pd n) 0 (sp_pt n OR table_flags)
           (set_entry (sp_pt n) 0 (sp_page n OR table_flags) s)))"

text \<open>Running out of memory is only possible with too few free pages; otherwise \<open>P\<close> holds of the result.\<close>

definition outcome :: "nat \<Rightarrow> nat \<Rightarrow> 'b res \<Rightarrow> ('b \<Rightarrow> bool) \<Rightarrow> bool" where
  "outcome need have x P \<longleftrightarrow> (have < need \<and> (\<exists>m. x = Inl (Panic m))) \<or> (\<exists>v. x = Inr v \<and> P v)"

lemma outcome_Inr: "P v \<Longrightarrow> outcome k c (Inr v) P"
  by (simp add: outcome_def)

lemma outcome_alloc_table:
  assumes inv: "pmm_inv s"
    and step: "\<And>p s'. fresh_page s p s' \<Longrightarrow> outcome k (card (free_set s')) (f (p, s')) P"
  shows "outcome (Suc k) (card (free_set s)) (rbind (alloc_table s) f) P"
  using inv
proof (cases rule: alloc_table_cases)
  case (table p s')
  then show ?thesis using step[OF table(2)] fresh_card[OF table(2)] by (auto simp: outcome_def)
qed (simp add: outcome_def)

lemma outcome_alloc_page:
  assumes inv: "pmm_inv s"
    and fail: "\<And>s'. \<exists>m. f (0, s') = Inl (Panic m)"
    and step: "\<And>p s'. p \<noteq> 0 \<Longrightarrow> fresh_page s p (s'\<lparr>mem := memset p 0 PMM_PAGE_SIZE (mem s')\<rparr>) \<Longrightarrow>
      outcome k (card (free_set (s'\<lparr>mem := memset p 0 PMM_PAGE_SIZE (mem s')\<rparr>))) (f (p, s')) P"
  shows "outcome (Suc k) (card (free_set s)) (rbind (pmm_alloc_page s) f) P"
  using inv
proof (cases rule: pmm_alloc_page_cases)
  case full
  then show ?thesis using fail[of s] by (simp add: outcome_def)
next
  case (page b)
  have nz: "b * PMM_PAGE_SIZE \<noteq> 0" using free_set_bound[OF inv page(1)] by (simp add: page_addr_nonzero)
  note f = clear_fresh_page[OF inv page(1) refl]
  show ?thesis using step[OF nz f] fresh_card[OF f] page(2) by (auto simp: outcome_def)
qed

text \<open>\<open>vmm_create_address_space\<close> takes five pages and then links them from the bottom up.\<close>

lemma create_address_space_outcome:
  assumes inv: "pmm_inv s"
  shows "outcome 5 (card (free_set s)) (vmm_create_address_space s)
    (\<lambda>(r, s'). \<exists>n s1. new_space s n s1 \<and> r = sp_root n \<and> s' = link_space n s1)"
proof -
  have five: "(5 :: nat) = Suc (Suc (Suc (Suc (Suc 0))))" by simp
  show ?thesis
    unfolding vmm_create_address_space_def five
  proof (rule outcome_alloc_table[OF inv], goal_cases)
    case f1: (1 r s1)
    let ?s1 = "set_entry r 0 (get_entry (mem s1) (kernel_pml4 s1) 0) s1"
    note g = set_entry_frame[OF fresh_pageD(1,2)[OF f1], where i = 0 and v = "get_entry (mem s1) (kernel_pml4 s1) 0"]
    have i1: "pmm_inv ?s1" "free_set s1 = free_set ?s1" using g(1,2) by simp_all
    show ?case unfolding prod.case Let_def i1(2)
    proof (rule outcome_alloc_table[OF i1(1)], goal_cases)
      case f2: (1 d3 s2)
      show ?case unfolding prod.case
      proof (rule outcome_alloc_table[OF fresh_pageD(1)[OF f2]], goal_cases)
        case f3: (1 d2 s3)
        show ?case unfolding prod.case
        proof (rule outcome_alloc_table[OF fresh_pageD(1)[OF f3]], goal_cases)
          case f4: (1 d1 s4)
          show ?case unfolding prod.case
          proof (rule outcome_alloc_page[OF fresh_pageD(1)[OF f4]], goal_cases)
            case (2 p s5)
            let ?n = "\<lparr>sp_root = r, sp_pdpt = d3, sp_pd = d2, sp_pt = d1, sp_page = p\<rparr>"
            have "new_space s ?n (s5\<lparr>mem := memset p 0 PMM_PAGE_SIZE (mem s5)\<rparr>)"
              unfolding new_space_def using f1 f2 f3 f4 2(2) by auto
            then show ?case using 2(1) by (auto simp: link_space_def intro!: outcome_Inr exI[of _ ?n])
          qed simp
        qed
      qed
    qed
  qed
qed

definition space_lvl :: "space_tables \<Rightarrow> (u64 \<Rightarrow> nat) \<Rightarrow> u64 \<Rightarrow> nat" where
  "space_lvl n lvl = lvl(sp_root n := 4, sp_pdpt n := 3, sp_pd n := 2, sp_pt n := 1, sp_page n := 0)"

definition space_par :: "space_tables \<Rightarrow> (u64 \<Rightarrow> u64 \<times> u64) \<Rightarrow> u64 \<Rightarrow> u64 \<times> u64" where
  "space_par n par = par(sp_root n := (0, 0), sp_pdpt n := (sp_root n, 1), sp_pd n := (sp_pdpt n, 0),
     sp_pt n := (sp_pd n, 0), sp_page n := (0, 0))"

abbreviation space_pages :: "space_tables \<Rightarrow> u64 list" where
  "space_pages n \<equiv> [sp_root n, sp_pdpt n, sp_pd n, sp_pt n, sp_page n]"

lemma new_space_facts:
  assumes T: "vm_tree s lvl par" and k: "used_page s (kernel_pml4 s)" and N: "new_space s n s'"
  shows "kept s s'" "distinct (space_pages n)" "\<forall>p\<in>set (space_pages n). used_page s' p \<and> \<not> used_page s p"
    "vm_tree s' (space_lvl n lvl) (space_par n par)"
    "\<And>i. unat i < 512 \<Longrightarrow> get_entry (mem s') (sp_root n) i = (if i = 0 then get_entry (mem s) (kernel_pml4 s) 0 else 0)"
    "\<And>i. unat i < 512 \<Longrightarrow> get_entry (mem s') (sp_pdpt n) i = 0"
    "\<And>i. unat i < 512 \<Longrightarrow> get_entry (mem s') (sp_pd n) i = 0"
    "\<And>i. unat i < 512 \<Longrightarrow> get_entry (mem s') (sp_pt n) i = 0"
    "kernel_pml4 s' = kernel_pml4 s" "\<And>a. page_of a = sp_page n \<Longrightarrow> mem s' a = 0"
proof -
  let ?k = "get_entry (mem s) (kernel_pml4 s) 0"
  obtain s1 s2 s3 s4 where
    f1: "fresh_page s (sp_root n) s1" and f2': "fresh_page (set_entry (sp_root n) 0 (get_entry (mem s1) (kernel_pml4 s1) 0) s1) (sp_pdpt n) s2"
    and f3: "fresh_page s2 (sp_pd n) s3" and f4: "fresh_page s3 (sp_pt n) s4" and f5: "fresh_page s4 (sp_page n) s'"
    using N unfolding new_space_def by blast
  note F1 = fresh_pageD[OF f1]
  have e1: "get_entry (mem s1) (kernel_pml4 s1) 0 = ?k"
    using fresh_page_entries(2)[OF f1 k, of 0] f1 by (simp add: fresh_page_def)
  define s1' where "s1' = set_entry (sp_root n) 0 ?k s1"
  have f2: "fresh_page s1' (sp_pdpt n) s2" using f2' unfolding e1 s1'_def .
  note G = set_entry_frame[OF F1(1,2), where i = 0 and v = ?k, folded s1'_def]
  have k1: "kept s s1" "\<not> used_page s (sp_root n)" using kept_fresh[OF kept_refl f1] by auto
  have k1': "kept s s1'" unfolding s1'_def by (rule kept_set[OF k1(1) F1(1,2) k1(2)]) simp
  note k2 = kept_fresh[OF k1' f2] note k3 = kept_fresh[OF k2(1) f3] note k4 = kept_fresh[OF k3(1) f4]
  note k5 = kept_fresh[OF k4(1) f5]
  show "kept s s'" by (rule k5(1))
  have u1: "used_page s1' (sp_root n)" using F1(2) G(4) by simp
  note v = fresh_pageD(4)[OF f2] fresh_pageD(4)[OF f3] fresh_pageD(4)[OF f4] fresh_pageD(4)[OF f5]
  have U: "used_page s2 (sp_root n)" "used_page s3 (sp_root n)" "used_page s4 (sp_root n)" "used_page s' (sp_root n)"
    "used_page s3 (sp_pdpt n)" "used_page s4 (sp_pdpt n)" "used_page s' (sp_pdpt n)"
    "used_page s4 (sp_pd n)" "used_page s' (sp_pd n)" "used_page s' (sp_pt n)" "used_page s' (sp_page n)"
    using u1 v k2(3) k3(3) k4(3) k5(3) by blast+
  show "distinct (space_pages n)" using v(1)[OF u1] v(2)[OF U(1)] v(2)[OF k2(3)] v(3)[OF U(2)] v(3)[OF U(5)] v(3)[OF k3(3)]
    v(4)[OF U(3)] v(4)[OF U(6)] v(4)[OF U(8)] v(4)[OF k4(3)] by auto
  show "\<forall>p\<in>set (space_pages n). used_page s' p \<and> \<not> used_page s p"
    using U k1(2) k2(2) k3(2) k4(2) k5(2) by simp
  note z = fresh_page_entries[OF f2] fresh_page_entries[OF f3] fresh_page_entries[OF f4] fresh_page_entries[OF f5]
  have "get_entry (mem s1') (sp_root n) i = (if i = 0 then ?k else 0)" if "unat i < 512" for i
    using get_set_entry[OF F1(2) _ F1(2) that, of 0 ?k] fresh_page_entries(1)[OF f1 that] unfolding s1'_def by simp
  then show "get_entry (mem s') (sp_root n) i = (if i = 0 then ?k else 0)" if "unat i < 512" for i
    using z(8)[OF U(3) that] z(6)[OF U(2) that] z(4)[OF U(1) that] z(2)[OF u1 that] that by simp
  show "get_entry (mem s') (sp_pdpt n) i = 0" if "unat i < 512" for i
    using z(8)[OF U(6) that] z(6)[OF U(5) that] z(4)[OF k2(3) that] z(1)[OF that] by simp
  show "get_entry (mem s') (sp_pd n) i = 0" if "unat i < 512" for i
    using z(8)[OF U(8) that] z(6)[OF k3(3) that] z(3)[OF that] by simp
  show "get_entry (mem s') (sp_pt n) i = 0" if "unat i < 512" for i
    using z(8)[OF k4(3) that] z(5)[OF that] by simp
  show "kernel_pml4 s' = kernel_pml4 s" using f1 f2 f3 f4 f5 by (simp add: fresh_page_def s1'_def set_entry_def)
  show "mem s' a = 0" if "page_of a = sp_page n" for a using f5 that by (simp add: fresh_page_def)
  have T1: "vm_tree s1 (lvl(sp_root n := 4)) (par(sp_root n := (0, 0)))" by (rule tree_add_table(1)[OF T f1])
  have "vm_tree s1' (lvl(sp_root n := 4)) (par(sp_root n := (0, 0)))"
    unfolding s1'_def by (rule tree_set_entry[OF T1 F1(2)]) (simp_all add: user_slot_def)
  from tree_add_table(1)[OF tree_add_table(1)[OF tree_add_table(1)[OF tree_add_table(1)[OF this f2] f3] f4] f5]
  show "vm_tree s' (space_lvl n lvl) (space_par n par)" unfolding space_lvl_def space_par_def by blast
qed

text \<open>Writing into a page that was not in use before keeps everything that was.\<close>

lemma tree_link:
  assumes T: "vm_tree s' lvl par" and K: "kept s s'" and t: "used_page s' t" "\<not> used_page s t"
    and i: "unat i < 512" and c: "used_page s' c" "user_slot lvl t i \<longrightarrow> lvl c = lvl t - 1 \<and> par c = (t, i)"
  defines "s2 \<equiv> set_entry t i (c OR table_flags) s'"
  shows "vm_tree s2 lvl par" "kept s s2" "used_page s2 = used_page s'"
    "used_page s' x \<Longrightarrow> unat j < 512 \<Longrightarrow>
      get_entry (mem s2) x j = (if x = t \<and> j = i then c OR table_flags else get_entry (mem s') x j)"
    "page_of a \<noteq> t \<Longrightarrow> mem s2 a = mem s' a" "kernel_pml4 s2 = kernel_pml4 s'"
proof -
  note inv = vm_treeD(1)[OF T] and te = table_entry[OF used_pageD(1)[OF c(1)]]
  show "vm_tree s2 lvl par" unfolding s2_def
    by (rule tree_set_entry[OF T t(1) i]) (use c(2) te in simp)
  show "kept s s2" unfolding s2_def by (rule kept_set[OF K inv t i])
  show "used_page s2 = used_page s'" unfolding s2_def by (rule set_entry_frame(4)[OF inv t(1) i])
  show "get_entry (mem s2) x j = (if x = t \<and> j = i then c OR table_flags else get_entry (mem s') x j)"
    if "used_page s' x" "unat j < 512" unfolding s2_def using get_set_entry[OF t(1) i that] by simp
  show "page_of a \<noteq> t \<Longrightarrow> mem s2 a = mem s' a"
    unfolding s2_def by (rule set_entry_frame(5)[OF inv t(1) i])
  show "kernel_pml4 s2 = kernel_pml4 s'" by (simp add: s2_def set_entry_def)
qed

lemma link_space_facts:
  assumes T: "vm_tree s lvl par" and k: "used_page s (kernel_pml4 s)" and N: "new_space s n s1"
  defines "s' \<equiv> link_space n s1"
  shows "kept s s'" "vm_tree s' (space_lvl n lvl) (space_par n par)" "used_page s' = used_page s1"
    "kernel_pml4 s' = kernel_pml4 s" "\<And>a. page_of a = sp_page n \<Longrightarrow> mem s' a = 0"
    "\<And>i. unat i < 512 \<Longrightarrow> get_entry (mem s') (sp_root n) i =
      (if i = 0 then get_entry (mem s) (kernel_pml4 s) 0 else if i = 1 then sp_pdpt n OR table_flags else 0)"
    "\<And>i. unat i < 512 \<Longrightarrow> get_entry (mem s') (sp_pdpt n) i = (if i = 0 then sp_pd n OR table_flags else 0)"
    "\<And>i. unat i < 512 \<Longrightarrow> get_entry (mem s') (sp_pd n) i = (if i = 0 then sp_pt n OR table_flags else 0)"
    "\<And>i. unat i < 512 \<Longrightarrow> get_entry (mem s') (sp_pt n) i = (if i = 0 then sp_page n OR table_flags else 0)"
proof -
  note f = new_space_facts[OF T k N]
  have u: "used_page s1 (sp_root n)" "used_page s1 (sp_pdpt n)" "used_page s1 (sp_pd n)" "used_page s1 (sp_pt n)"
    "used_page s1 (sp_page n)" "\<not> used_page s (sp_root n)" "\<not> used_page s (sp_pdpt n)" "\<not> used_page s (sp_pd n)"
    "\<not> used_page s (sp_pt n)" using f(3) by auto
  have d: "sp_root n \<noteq> sp_pdpt n" "sp_root n \<noteq> sp_pd n" "sp_root n \<noteq> sp_pt n" "sp_root n \<noteq> sp_page n"
    "sp_pdpt n \<noteq> sp_pd n" "sp_pdpt n \<noteq> sp_pt n" "sp_pdpt n \<noteq> sp_page n" "sp_pd n \<noteq> sp_pt n" "sp_pd n \<noteq> sp_page n"
    "sp_pt n \<noteq> sp_page n" using f(2) by auto
  note lp = space_lvl_def space_par_def user_slot_def
  have c: "user_slot (space_lvl n lvl) (sp_pd n) 0 \<longrightarrow> space_lvl n lvl (sp_pt n) = space_lvl n lvl (sp_pd n) - 1 \<and> space_par n par (sp_pt n) = (sp_pd n, 0)"
    "user_slot (space_lvl n lvl) (sp_pdpt n) 0 \<longrightarrow> space_lvl n lvl (sp_pd n) = space_lvl n lvl (sp_pdpt n) - 1 \<and> space_par n par (sp_pd n) = (sp_pdpt n, 0)"
    "user_slot (space_lvl n lvl) (sp_root n) 1 \<longrightarrow> space_lvl n lvl (sp_pdpt n) = space_lvl n lvl (sp_root n) - 1 \<and> space_par n par (sp_pdpt n) = (sp_root n, 1)"
    "user_slot (space_lvl n lvl) (sp_pt n) 0 \<longrightarrow> space_lvl n lvl (sp_page n) = space_lvl n lvl (sp_pt n) - 1 \<and> space_par n par (sp_page n) = (sp_pt n, 0)"
    using d d[symmetric] by (simp_all add: lp)
  have z: "unat (0 :: u64) < 512" "unat (1 :: u64) < 512" by simp_all
  define s2 where "s2 = set_entry (sp_pt n) 0 (sp_page n OR table_flags) s1"
  note A = tree_link[OF f(4,1) u(4,9) z(1) u(5) c(4), folded s2_def]
  define s3 where "s3 = set_entry (sp_pd n) 0 (sp_pt n OR table_flags) s2"
  have "used_page s2 (sp_pd n)" "used_page s2 (sp_pt n)" using A(3) u by simp_all
  note B = tree_link[OF A(1,2) this(1) u(8) z(1) this(2) c(1), folded s3_def, unfolded A(3)]
  define s4 where "s4 = set_entry (sp_pdpt n) 0 (sp_pd n OR table_flags) s3"
  have "used_page s3 (sp_pdpt n)" "used_page s3 (sp_pd n)" using B(3) u by simp_all
  note C = tree_link[OF B(1,2) this(1) u(7) z(1) this(2) c(2), folded s4_def, unfolded B(3)]
  have "used_page s4 (sp_root n)" "used_page s4 (sp_pdpt n)" using C(3) u by simp_all
  note D0 = tree_link[OF C(1,2) this(1) u(6) z(2) this(2) c(3), unfolded C(3)]
  have s': "s' = set_entry (sp_root n) 1 (sp_pdpt n OR table_flags) s4"
    unfolding s'_def link_space_def s2_def s3_def s4_def ..
  note D = D0[folded s']
  show "kept s s'" by (rule D(2))
  show "vm_tree s' (space_lvl n lvl) (space_par n par)" by (rule D(1))
  show "used_page s' = used_page s1" by (rule D(3))
  show "kernel_pml4 s' = kernel_pml4 s" using A(6) B(6) C(6) D(6) f(9) by simp
  show "mem s' a = 0" if "page_of a = sp_page n" for a
    using A(5)[of a] B(5)[of a] C(5)[of a] D(5)[of a] f(10)[OF that] that d by simp
  note e = D(4) C(4) B(4) A(4)
  show "get_entry (mem s') (sp_root n) i = (if i = 0 then get_entry (mem s) (kernel_pml4 s) 0
      else if i = 1 then sp_pdpt n OR table_flags else 0)" if "unat i < 512" for i
    using e[OF u(1) that] f(5)[OF that] d by (cases "i = 0") simp_all
  show "get_entry (mem s') (sp_pdpt n) i = (if i = 0 then sp_pd n OR table_flags else 0)" if "unat i < 512" for i
    using e[OF u(2) that] f(6)[OF that] d d[symmetric] by simp
  show "get_entry (mem s') (sp_pd n) i = (if i = 0 then sp_pt n OR table_flags else 0)" if "unat i < 512" for i
    using e[OF u(3) that] f(7)[OF that] d d[symmetric] by simp
  show "get_entry (mem s') (sp_pt n) i = (if i = 0 then sp_page n OR table_flags else 0)" if "unat i < 512" for i
    using e[OF u(4) that] f(8)[OF that] d d[symmetric] by simp
qed

lemma private_idx:
  "pml4_idx PROCESS_PRIVATE_VADDR = 1" "pdpt_idx PROCESS_PRIVATE_VADDR = 0" "pd_idx PROCESS_PRIVATE_VADDR = 0"
  "pt_idx PROCESS_PRIVATE_VADDR = 0"
  by (simp_all add: pml4_idx_def pdpt_idx_def pd_idx_def pt_idx_def)

lemma new_root_leaf:
  assumes T: "vm_tree s lvl par" and k: "used_page s (kernel_pml4 s)" and N: "new_space s n s1" and va: "pml4_idx va \<noteq> 0"
  shows "leaf_of (mem (link_space n s1)) (sp_root n) va =
    (if same_page va PROCESS_PRIVATE_VADDR then Some (sp_page n OR table_flags) else None)"
proof -
  note f = link_space_facts[OF T k N] and g = new_space_facts[OF T k N]
  have al: "aligned (sp_pdpt n)" "aligned (sp_pd n)" "aligned (sp_pt n)" "aligned (sp_page n)"
    using g(3) used_pageD(1) by auto
  have l4: "space_lvl n lvl (sp_root n) = 4" using g(2) by (simp add: space_lvl_def)
  note t = table_entry[OF al(1)] table_entry[OF al(2)] table_entry[OF al(3)] table_entry[OF al(4)]
  show ?thesis
    unfolding leaf_lookup[OF f(2) l4 va] page_path_def same_page_def private_idx lookup_simps list.inject
    using va f(6)[of "pml4_idx va"] f(7)[of "pdpt_idx va"] f(8)[of "pd_idx va"] f(9)[of "pt_idx va"] t
    by (cases "pml4_idx va = 1"; cases "pdpt_idx va = 0"; cases "pd_idx va = 0"; cases "pt_idx va = 0") simp_all
qed

lemma kept_leaf:
  assumes T: "vm_tree s lvl par" "vm_tree s' lvl' par'" and K: "kept s s'"
    and r: "lvl r = 4" "lvl' r = 4" "pml4_idx va \<noteq> 0"
  shows "leaf_of (mem s') r va = leaf_of (mem s) r va"
proof -
  have "get_entry (mem s') x k = get_entry (mem s) x k" if "lvl x \<noteq> 0" "unat k < 512" for x k
    by (rule keptD(3)[OF K vm_treeD(2)[OF T(1) that(1)] that(2)])
  moreover have "path_ok lvl r (page_path va)" by (rule page_path_ok[of lvl, OF r(1,3)])
  ultimately have "lookup (mem s') r (page_path va) (pt_idx va) = lookup (mem s) r (page_path va) (pt_idx va)"
    using lookup_cong[OF T(1), of "mem s'" r "page_path va" "pt_idx va"] by (simp add: page_path_def)
  then show ?thesis unfolding leaf_lookup[OF T(1) r(1,3)] leaf_lookup[OF T(2) r(2,3)] .
qed

lemma create_space_result:
  assumes wf: "vm_wf s R K" and k: "kernel_pml4 s \<in> R" and N: "new_space s n s1"
  defines "s' \<equiv> link_space n s1" and "r \<equiv> sp_root n" and "p \<equiv> sp_page n"
  shows "r \<notin> R" "p \<notin> K" "vm_wf s' (insert r R) (insert p K)" "kernel_pml4 s' = kernel_pml4 s"
    "\<And>va. pml4_idx va \<noteq> 0 \<Longrightarrow> leaf_of (mem s') r va =
      (if same_page va PROCESS_PRIVATE_VADDR then Some (p OR table_flags) else None)"
    "get_entry (mem s') r 0 = get_entry (mem s) (kernel_pml4 s) 0"
    "\<And>r' va. r' \<in> R \<Longrightarrow> pml4_idx va \<noteq> 0 \<Longrightarrow> leaf_of (mem s') r' va = leaf_of (mem s) r' va"
    "\<And>r'. r' \<in> R \<Longrightarrow> get_entry (mem s') r' 0 = get_entry (mem s) r' 0"
    "\<And>a. page_of a = p \<Longrightarrow> mem s' a = 0" "\<And>a. page_of a \<in> K \<Longrightarrow> mem s' a = mem s a"
proof -
  obtain lvl par where w: "vm_tree s lvl par" "R = {r. lvl r = 4}" "\<forall>k\<in>K. used_page s k \<and> lvl k = 0"
    by (rule vm_wfE[OF wf])
  have uR: "used_page s x" if "x \<in> R" for x using vm_treeD(2)[OF w(1), of x] that w(2) by simp
  have uk: "used_page s (kernel_pml4 s)" by (rule uR[OF k])
  note g = new_space_facts[OF w(1) uk N] and f = link_space_facts[OF w(1) uk N, folded s'_def]
  have nu: "\<not> used_page s x" "used_page s' x" if "x \<in> set (space_pages n)" for x using g(3) f(3) that by auto
  have old: "space_lvl n lvl x = lvl x" if "used_page s x" for x
    using nu(1) that by (auto simp: space_lvl_def)
  show rR: "r \<notin> R" using uR nu(1) by (auto simp: r_def)
  show pK: "p \<notin> K" using w(3) nu(1) by (auto simp: p_def)
  have R': "{x. space_lvl n lvl x = 4} = insert r R"
  proof -
    have z: "lvl x = 0" if "x \<in> set (space_pages n)" for x using nu(1)[OF that] vm_treeD(2)[OF w(1), of x] by blast
    have "lvl (sp_root n) = 0" "lvl (sp_pdpt n) = 0" "lvl (sp_pd n) = 0" "lvl (sp_pt n) = 0" "lvl (sp_page n) = 0"
      by (rule z, simp)+
    then show ?thesis using g(2) w(2) unfolding r_def by (auto simp: space_lvl_def)
  qed
  have p0: "space_lvl n lvl p = 0" by (simp add: space_lvl_def p_def)
  show "vm_wf s' (insert r R) (insert p K)"
    by (rule vm_wfI[OF f(2) R'[symmetric]]) (use p0 nu(2) w(3) old keptD(1)[OF f(1)] in \<open>auto simp: p_def\<close>)
  show "kernel_pml4 s' = kernel_pml4 s" by (rule f(4))
  show "leaf_of (mem s') r va = (if same_page va PROCESS_PRIVATE_VADDR then Some (p OR table_flags) else None)"
    if "pml4_idx va \<noteq> 0" for va unfolding s'_def r_def p_def by (rule new_root_leaf[OF w(1) uk N that])
  show "get_entry (mem s') r 0 = get_entry (mem s) (kernel_pml4 s) 0" using f(6)[of 0] by (simp add: r_def)
  show "leaf_of (mem s') r' va = leaf_of (mem s) r' va" if "r' \<in> R" "pml4_idx va \<noteq> 0" for r' va
    using kept_leaf[OF w(1) f(2,1) _ _ that(2)] that(1) w(2) R' by auto
  show "get_entry (mem s') r' 0 = get_entry (mem s) r' 0" if "r' \<in> R" for r'
    using keptD(3)[OF f(1) uR[OF that], of 0] by simp
  show "mem s' a = 0" if "page_of a = p" for a using f(5) that by (simp add: p_def)
  show "mem s' a = mem s a" if "page_of a \<in> K" for a using keptD(2)[OF f(1), of "page_of a" a] w(3) that by auto
qed

subsection \<open>The boot mapping\<close>

lemma fold_set_entries:
  fixes g :: "nat \<Rightarrow> u64" and s :: "'a vmm_state_scheme"
  assumes inv: "pmm_inv s" and t: "used_page s t"
  defines "f \<equiv> \<lambda>n. fold (\<lambda>i. set_entry t (of_nat i) (g i)) [0..<n] s"
  shows "n \<le> 512 \<Longrightarrow> pmm_inv (f n) \<and> used_page (f n) = used_page s \<and> free_set (f n) = free_set s \<and>
    (\<forall>i. unat i < 512 \<longrightarrow> get_entry (mem (f n)) t i = (if unat i < n then g (unat i) else get_entry (mem s) t i)) \<and>
    (\<forall>a. page_of a \<noteq> t \<longrightarrow> mem (f n) a = mem s a)"
proof (induction n)
  case (Suc n)
  then have IH: "pmm_inv (f n)" "used_page (f n) = used_page s" "free_set (f n) = free_set s"
    "\<And>i. unat i < 512 \<Longrightarrow> get_entry (mem (f n)) t i = (if unat i < n then g (unat i) else get_entry (mem s) t i)"
    "\<And>a. page_of a \<noteq> t \<Longrightarrow> mem (f n) a = mem s a" by auto
  have n: "unat (of_nat n :: u64) = n" using Suc.prems by (intro unat_of_nat_less) simp
  then have n': "unat (of_nat n :: u64) < 512" using Suc.prems by simp
  have u: "used_page (f n) t" using t IH(2) by simp
  have step: "f (Suc n) = set_entry t (of_nat n) (g n) (f n)" by (simp add: f_def)
  note fr = set_entry_frame[OF IH(1) u n', where v = "g n", folded step]
  have "get_entry (mem (f (Suc n))) t i = (if unat i < Suc n then g (unat i) else get_entry (mem s) t i)"
    if "unat i < 512" for i
  proof -
    have "i = of_nat n \<longleftrightarrow> unat i = n" using n by (auto simp: word_unat_eq_iff)
    then show ?thesis using get_set_entry[OF u n' u that, of "g n"] IH(4)[OF that] unfolding step by auto
  qed
  then show ?case using fr IH by auto
qed (use inv in \<open>simp add: f_def\<close>)

definition gib_mapped :: "mem \<Rightarrow> u64 \<Rightarrow> nat \<Rightarrow> u64 \<Rightarrow> bool" where
  "gib_mapped m pdpt gib pd \<longleftrightarrow> get_entry m pdpt (of_nat gib) = pd OR table_flags \<and>
     (\<forall>i. unat i < 512 \<longrightarrow> get_entry m pd i = identity_leaf (of_nat gib * GIB + i * HUGE_PAGE_SIZE))"

lemma map_gib_outcome:
  assumes inv: "pmm_inv s" and u: "used_page s pdpt" and g: "gib < 512"
  shows "outcome 1 (card (free_set s)) (map_gib pdpt gib s) (\<lambda>s'. pmm_inv s' \<and> card (free_set s) = Suc (card (free_set s')) \<and>
    (\<forall>t. used_page s t \<longrightarrow> used_page s' t \<and> (t \<noteq> pdpt \<longrightarrow> (\<forall>a. page_of a = t \<longrightarrow> mem s' a = mem s a))) \<and>
    (\<forall>i. unat i < 512 \<longrightarrow> unat i \<noteq> gib \<longrightarrow> get_entry (mem s') pdpt i = get_entry (mem s) pdpt i) \<and>
    (\<exists>pd. used_page s' pd \<and> pd \<noteq> pdpt \<and> gib_mapped (mem s') pdpt gib pd))"
  unfolding map_gib_def One_nat_def
proof (rule outcome_alloc_table[OF inv], goal_cases)
  case F: (1 pd s1)
  let ?v = "pd OR PAGE_PRESENT OR PAGE_WRITABLE OR PAGE_USER"
  let ?leaf = "\<lambda>i. identity_leaf (of_nat gib * GIB + of_nat i * HUGE_PAGE_SIZE)"
  define s2 where "s2 = set_entry pdpt (of_nat gib) ?v s1"
  define s3 where "s3 = fold (\<lambda>i. set_entry pd (of_nat i) (?leaf i)) [0..<512] s2"
  note f = fresh_pageD[OF F]
  have gw: "unat (of_nat gib :: u64) = gib" using g by (intro unat_of_nat_less) simp
  then have g': "unat (of_nat gib :: u64) < 512" using g by simp
  have up: "used_page s1 pdpt" "pdpt \<noteq> pd" using f(4)[OF u] by auto
  note fr = set_entry_frame[OF f(1) up(1) g', where v = ?v, folded s2_def]
  have ud: "used_page s2 pd" "used_page s2 pdpt" using f(2) up(1) fr(4) by auto
  note L = fold_set_entries[OF fr(1) ud(1), of 512 ?leaf, folded s3_def]
  have L': "pmm_inv s3" "used_page s3 = used_page s1" "free_set s3 = free_set s1"
    "\<And>i. unat i < 512 \<Longrightarrow> get_entry (mem s3) pd i = ?leaf (unat i)"
    "\<And>a. page_of a \<noteq> pd \<Longrightarrow> mem s3 a = mem s2 a" using L fr(2,4) by auto
  have e3: "get_entry (mem s3) pdpt i = (if unat i = gib then ?v else get_entry (mem s) pdpt i)" if "unat i < 512" for i
  proof -
    have "get_entry (mem s3) pdpt i = get_entry (mem s2) pdpt i"
      by (rule get_entry_page_cong[OF used_pageD(1)[OF u] that]) (use L'(5) up(2) in auto)
    moreover have "i = of_nat gib \<longleftrightarrow> unat i = gib" using gw by (auto simp: word_unat_eq_iff)
    ultimately show ?thesis
      using get_set_entry[OF up(1) g' up(1) that, of ?v] fresh_page_entries(2)[OF F u that] unfolding s2_def by auto
  qed
  have keep: "used_page s3 t \<and> (t \<noteq> pdpt \<longrightarrow> (\<forall>a. page_of a = t \<longrightarrow> mem s3 a = mem s a))" if t: "used_page s t" for t
  proof -
    have "used_page s1 t" "t \<noteq> pd" using f(4)[OF t] by auto
    then show ?thesis using L'(2,5) fr(5) f(5) used_pageD(3)[OF t] by auto
  qed
  have "gib_mapped (mem s3) pdpt gib pd" unfolding gib_mapped_def using e3[OF g'] gw L'(4) by simp
  then show ?case
    unfolding prod.case Let_def s2_def[symmetric] s3_def[symmetric]
    using L'(1,3) keep e3 fresh_card[OF F] ud up(2) L'(2) f(2)
    by (intro outcome_Inr) auto
qed

lemma outcome_mono: "outcome k c x P \<Longrightarrow> (\<And>v. P v \<Longrightarrow> Q v) \<Longrightarrow> outcome k c x Q"
  unfolding outcome_def by blast

lemma gib_mapped_step:
  assumes g: "g < n" "n < 512"
    and ex: "\<exists>pd. used_page s1 pd \<and> pd \<noteq> pdpt \<and> gib_mapped (mem s1) pdpt g pd"
    and keep: "\<forall>t. used_page s1 t \<longrightarrow> used_page s2 t \<and> (t \<noteq> pdpt \<longrightarrow> (\<forall>a. page_of a = t \<longrightarrow> mem s2 a = mem s1 a))"
    and e: "\<forall>i. unat i < 512 \<longrightarrow> unat i \<noteq> n \<longrightarrow> get_entry (mem s2) pdpt i = get_entry (mem s1) pdpt i"
  shows "\<exists>pd. used_page s2 pd \<and> pd \<noteq> pdpt \<and> gib_mapped (mem s2) pdpt g pd"
proof -
  obtain pd where pd: "used_page s1 pd" "pd \<noteq> pdpt" "gib_mapped (mem s1) pdpt g pd" using ex by blast
  have gw: "unat (of_nat g :: u64) = g" using g by (intro unat_of_nat_less) simp
  have "get_entry (mem s2) pd i = get_entry (mem s1) pd i" if "unat i < 512" for i
    by (rule get_entry_page_cong[OF used_pageD(1)[OF pd(1)] that]) (use keep pd in auto)
  moreover have "get_entry (mem s2) pdpt (of_nat g) = get_entry (mem s1) pdpt (of_nat g)" using e gw g by simp
  ultimately have "gib_mapped (mem s2) pdpt g pd" using pd(3) by (simp add: gib_mapped_def)
  then show ?thesis using keep pd(1,2) by blast
qed

lemma map_gibs_outcome:
  fixes s :: "'a vmm_state_scheme"
  assumes inv: "pmm_inv s" and u: "used_page s pdpt" "used_page s pml4" "pml4 \<noteq> pdpt"
    and z: "\<And>i. unat i < 512 \<Longrightarrow> get_entry (mem s) pdpt i = 0"
  shows "n \<le> 512 \<Longrightarrow> outcome n (card (free_set s)) (rfold (map_gib pdpt) [0..<n] s) (\<lambda>s'. pmm_inv s' \<and>
    card (free_set s) = n + card (free_set s') \<and> used_page s' pdpt \<and> used_page s' pml4 \<and>
    (\<forall>a. page_of a = pml4 \<longrightarrow> mem s' a = mem s a) \<and>
    (\<forall>i. unat i < 512 \<longrightarrow> n \<le> unat i \<longrightarrow> get_entry (mem s') pdpt i = 0) \<and>
    (\<forall>g<n. \<exists>pd. used_page s' pd \<and> pd \<noteq> pdpt \<and> gib_mapped (mem s') pdpt g pd))"
    (is "_ \<Longrightarrow> outcome n _ _ (?I n)")
proof (induction n)
  case 0
  then show ?case using inv u z by (auto intro: outcome_Inr)
next
  case (Suc n)
  then have IH: "outcome n (card (free_set s)) (rfold (map_gib pdpt) [0..<n] s) (?I n)" by simp
  have step: "rfold (map_gib pdpt) [0..<Suc n] s = rbind (rfold (map_gib pdpt) [0..<n] s) (map_gib pdpt n)"
    by (simp add: rfold_append rbind_def split: sum.splits)
  show ?case
  proof (cases "rfold (map_gib pdpt) [0..<n] s")
    case (Inl e)
    then show ?thesis using IH step by (auto simp: outcome_def)
  next
    case (Inr s1)
    then have I: "?I n s1" using IH by (simp add: outcome_def)
    have "outcome 1 (card (free_set s1)) (map_gib pdpt n s1) (?I (Suc n))"
      using map_gib_outcome[of s1 pdpt n]
    proof (rule outcome_mono)
      fix s2 :: "'a vmm_state_scheme" assume M: "pmm_inv s2 \<and> card (free_set s1) = Suc (card (free_set s2)) \<and>
        (\<forall>t. used_page s1 t \<longrightarrow> used_page s2 t \<and> (t \<noteq> pdpt \<longrightarrow> (\<forall>a. page_of a = t \<longrightarrow> mem s2 a = mem s1 a))) \<and>
        (\<forall>i. unat i < 512 \<longrightarrow> unat i \<noteq> n \<longrightarrow> get_entry (mem s2) pdpt i = get_entry (mem s1) pdpt i) \<and>
        (\<exists>pd. used_page s2 pd \<and> pd \<noteq> pdpt \<and> gib_mapped (mem s2) pdpt n pd)"
      have "\<exists>pd. used_page s2 pd \<and> pd \<noteq> pdpt \<and> gib_mapped (mem s2) pdpt g pd" if "g < Suc n" for g
        using gib_mapped_step[of g n s1 pdpt s2] I M Suc.prems that by (cases "g = n") auto
      then show "?I (Suc n) s2" using I M u(3) by auto
    qed (use I Suc.prems in auto)
    then show ?thesis using step Inr I by (auto simp: outcome_def)
  qed
qed

lemma unat_idx: "unat (drop_bit n x AND 0x1FF :: u64) = unat x div 2 ^ n mod 512"
proof -
  have m: "(0x1FF :: u64) = mask 9" by (simp add: mask_eq_exp_minus_1)
  have "unat (take_bit 9 (drop_bit n x)) = take_bit 9 (unat (drop_bit n x))" by (simp only: unsigned_take_bit_eq)
  also have "unat (drop_bit n x) = drop_bit n (unat x)" by (rule unat_drop_bit_eq)
  also have "take_bit 9 (drop_bit n (unat x)) = unat x div 2 ^ n mod 512"
    by (simp add: take_bit_eq_mod drop_bit_eq_div)
  finally show ?thesis by (simp only: m take_bit_eq_mask)
qed

lemma unat_idxs:
  "unat (pml4_idx va) = unat va div 2 ^ 39 mod 512" "unat (pdpt_idx va) = unat va div 2 ^ 30 mod 512"
  "unat (pd_idx va) = unat va div 2 ^ 21 mod 512" "unat (pt_idx va) = unat va div 2 ^ 12 mod 512"
  by (simp_all only: pml4_idx_def pdpt_idx_def pd_idx_def pt_idx_def unat_idx)

lemma huge_page_base:
  assumes va: "unat va < 2 ^ 32"
  shows "of_nat (unat (pdpt_idx va)) * GIB + pd_idx va * HUGE_PAGE_SIZE = va AND NOT (mask 21)"
proof -
  have g: "unat (pdpt_idx va) = unat va div 2 ^ 30" using va by (simp add: unat_idxs div_less_iff_less_mult)
  then have g4: "unat (pdpt_idx va) < 4" using va by (simp add: div_less_iff_less_mult)
  have i511: "unat (pd_idx va) \<le> 511" using idx_less(3)[of va] by linarith
  have i: "unat (pd_idx va * HUGE_PAGE_SIZE) = unat (pd_idx va) * 2 ^ 21"
    using i511 by (simp add: unat_mult_no_wrap)
  have j: "unat (of_nat (unat (pdpt_idx va)) * GIB) = unat (pdpt_idx va) * 2 ^ 30"
    using g4 by (simp add: unat_mult_no_wrap)
  have "unat (of_nat (unat (pdpt_idx va)) * GIB + pd_idx va * HUGE_PAGE_SIZE) = unat (pdpt_idx va) * 2 ^ 30 + unat (pd_idx va) * 2 ^ 21"
    using i j g4 i511 by (subst unat_add_no_wrap) simp_all
  also have "\<dots> = unat va div 2 ^ 21 * 2 ^ 21"
  proof -
    have "unat va div 2 ^ 30 = unat va div 2 ^ 21 div 512" by (simp add: div_mult2_eq[symmetric])
    then have "unat (pdpt_idx va) * 512 + unat (pd_idx va) = unat va div 2 ^ 21" using g by (simp add: unat_idxs)
    then show ?thesis by (simp add: algebra_simps)
  qed
  finally show ?thesis by (simp add: word_unat_eq_iff unat_and_not_mask)
qed

lemma identity_leaf_bits:
  assumes "\<not> bit phys 0" "\<not> bit phys 2" "\<not> bit phys 7"
  shows "present (identity_leaf phys)" "identity_leaf phys AND PAGE_HUGE \<noteq> 0"
    "identity_leaf phys AND PAGE_USER \<noteq> 0 \<longleftrightarrow> phys < KERNEL_EXEC_LIMIT"
    "identity_leaf phys AND PAGE_WRITABLE \<noteq> 0"
proof -
  have c: "bit (0x87 :: u64) 0" "bit (0x87 :: u64) 1" "bit (0x87 :: u64) 2" "bit (0x87 :: u64) 7"
    "bit (0x8000000000000083 :: u64) 0" "bit (0x8000000000000083 :: u64) 1" "\<not> bit (0x8000000000000083 :: u64) 2"
    "bit (0x8000000000000083 :: u64) 7" by (simp_all add: bit_iff_odd)
  have l: "identity_leaf phys = phys OR (if phys < KERNEL_EXEC_LIMIT then 0x87 else 0x8000000000000083)"
    by (simp add: identity_leaf_def)
  show "present (identity_leaf phys)" "identity_leaf phys AND PAGE_HUGE \<noteq> 0"
    "identity_leaf phys AND PAGE_USER \<noteq> 0 \<longleftrightarrow> phys < KERNEL_EXEC_LIMIT"
    "identity_leaf phys AND PAGE_WRITABLE \<noteq> 0"
    unfolding flag_bits l bit_or_iff using c assms by simp_all
qed

text \<open>The kernel's tables below slot 0 of a root, all of them pages of \<open>K\<close>.\<close>

definition kernel_mapped :: "mem \<Rightarrow> u64 \<Rightarrow> u64 set \<Rightarrow> bool" where
  "kernel_mapped m r K \<longleftrightarrow> (\<exists>pdpt\<in>K. aligned pdpt \<and> get_entry m r 0 = pdpt OR table_flags \<and>
     (\<forall>i. unat i < 512 \<longrightarrow> 4 \<le> unat i \<longrightarrow> get_entry m pdpt i = 0) \<and>
     (\<forall>g<4. \<exists>pd\<in>K. aligned pd \<and> pd \<noteq> 0 \<and> gib_mapped m pdpt g pd))"

lemma kernel_walk:
  assumes K: "kernel_mapped m r K" and i4: "pml4_idx va = 0"
  shows "leaf_of m r va = (if unat (pdpt_idx va) < 4
    then Some (identity_leaf (of_nat (unat (pdpt_idx va)) * GIB + pd_idx va * HUGE_PAGE_SIZE)) else None)"
proof -
  obtain pdpt where p: "aligned pdpt" "get_entry m r 0 = pdpt OR table_flags"
    "\<forall>i. unat i < 512 \<longrightarrow> 4 \<le> unat i \<longrightarrow> get_entry m pdpt i = 0"
    "\<forall>g<4. \<exists>pd. aligned pd \<and> pd \<noteq> 0 \<and> gib_mapped m pdpt g pd" using K unfolding kernel_mapped_def by blast
  note tp = table_entry[OF p(1)]
  show ?thesis
  proof (cases "unat (pdpt_idx va) < 4")
    case True
    let ?g = "unat (pdpt_idx va)" and ?ph = "of_nat (unat (pdpt_idx va)) * GIB + pd_idx va * HUGE_PAGE_SIZE"
    obtain pd where pd: "aligned pd" "pd \<noteq> 0" "gib_mapped m pdpt ?g pd" using p(4) True by blast
    have e3: "get_entry m pdpt (pdpt_idx va) = pd OR table_flags" using pd(3) by (simp add: gib_mapped_def)
    have e2: "get_entry m pd (pd_idx va) = identity_leaf ?ph" using pd(3) by (simp add: gib_mapped_def)
    have ph: "?ph = push_bit 21 (of_nat ?g * 512 + pd_idx va)" by (simp add: push_bit_eq_mult algebra_simps)
    have b: "\<not> bit ?ph k" if "k < 21" for k unfolding ph using that by (simp add: bit_push_bit_iff)
    note il = identity_leaf_bits[of ?ph, OF b[of 0] b[of 2] b[of 7], simplified]
    have nz: "entry_addr pd (pd_idx va) \<noteq> 0" by (rule entry_addr_nonzero[OF pd(1,2) idx_less(3)])
    show ?thesis
      unfolding leaf_of_def walk_to_leaf_def Let_def i4 p(2) tp(1) e3 table_entry(1)[OF pd(1)] e2
      using tp(2) table_entry(2)[OF pd(1)] il nz e2 True by (simp add: get_entry_def)
  next
    case False
    then have "get_entry m pdpt (pdpt_idx va) = 0" using p(3) by simp
    then show ?thesis unfolding leaf_of_def walk_to_leaf_def Let_def i4 p(2) tp(1) using False by simp
  qed
qed

lemma kernel_mapped_keep:
  assumes M: "kernel_mapped m r K" and e: "get_entry m' r' 0 = get_entry m r 0"
    and K: "\<And>a. page_of a \<in> K \<Longrightarrow> m' a = m a" and sub: "K \<subseteq> K'"
  shows "kernel_mapped m' r' K'"
proof -
  obtain pdpt where p: "pdpt \<in> K" "aligned pdpt" "get_entry m r 0 = pdpt OR table_flags"
    "\<forall>i. unat i < 512 \<longrightarrow> 4 \<le> unat i \<longrightarrow> get_entry m pdpt i = 0"
    "\<forall>g<4. \<exists>pd\<in>K. aligned pd \<and> pd \<noteq> 0 \<and> gib_mapped m pdpt g pd" using M unfolding kernel_mapped_def by blast
  have same: "get_entry m' t i = get_entry m t i" if "t \<in> K" "aligned t" "unat i < 512" for t i
    by (rule get_entry_page_cong[OF that(2,3)]) (use K that(1) in auto)
  have "\<exists>pd\<in>K'. aligned pd \<and> pd \<noteq> 0 \<and> gib_mapped m' pdpt g pd" if g: "g < 4" for g
  proof -
    obtain pd where pd: "pd \<in> K" "aligned pd" "pd \<noteq> 0" "gib_mapped m pdpt g pd" using p(5) g by blast
    have "unat (of_nat g :: u64) < 512" using g by (simp add: unat_of_nat_less)
    then have "gib_mapped m' pdpt g pd" using pd same p(1,2) by (simp add: gib_mapped_def)
    then show ?thesis using pd sub by blast
  qed
  moreover have "\<forall>i. unat i < 512 \<longrightarrow> 4 \<le> unat i \<longrightarrow> get_entry m' pdpt i = 0" using p(1,2,4) same by simp
  ultimately show ?thesis unfolding kernel_mapped_def using p(1-3) e sub by auto
qed

text \<open>The state of virtual memory after boot: the address spaces \<open>R\<close>, with the kernel's own among
  them, and the kernel mapping in each.\<close>

definition vm_ok :: "'a vmm_state_scheme \<Rightarrow> u64 set \<Rightarrow> u64 set \<Rightarrow> bool" where
  "vm_ok s R K \<longleftrightarrow> vm_wf s R K \<and> kernel_pml4 s \<in> R \<and> (\<forall>r\<in>R. kernel_mapped (mem s) r K)"

lemma pmm_inv_cong:
  assumes "pmm_state.truncate s = pmm_state.truncate t"
  shows "pmm_inv s = pmm_inv t" "free_set s = free_set t"
  using pmm_inv_truncate[of s] pmm_inv_truncate[of t] free_set_truncate[of s] free_set_truncate[of t] assms by simp_all

lemma regs_frame:
  "pmm_inv (s\<lparr>efer := e\<rparr>) = pmm_inv s" "free_set (s\<lparr>efer := e\<rparr>) = free_set s"
  "pmm_inv (s\<lparr>kernel_pml4 := k, cr3 := c\<rparr>) = pmm_inv s" "free_set (s\<lparr>kernel_pml4 := k, cr3 := c\<rparr>) = free_set s"
  by (rule pmm_inv_cong; simp add: pmm_state.defs)+

lemma used_page_regs: "used_page (s\<lparr>kernel_pml4 := k, cr3 := c\<rparr>) = used_page s"
  by (simp add: fun_eq_iff used_page_def regs_frame in_bitmap_def bitmap_bytes_def)

lemma boot_tables_ok:
  assumes inv: "pmm_inv s" and u: "used_page s pml4" "used_page s pdpt" "pml4 \<noteq> pdpt"
    and e0: "get_entry (mem s) pml4 0 = pdpt OR table_flags"
    and e: "\<And>i. unat i < 512 \<Longrightarrow> i \<noteq> 0 \<Longrightarrow> get_entry (mem s) pml4 i = 0"
    and z: "\<forall>i. unat i < 512 \<longrightarrow> 4 \<le> unat i \<longrightarrow> get_entry (mem s) pdpt i = 0"
    and g: "\<forall>g<4. \<exists>pd. used_page s pd \<and> pd \<noteq> pdpt \<and> gib_mapped (mem s) pdpt g pd"
  shows "\<exists>K. vm_ok (s\<lparr>kernel_pml4 := pml4, cr3 := pml4\<rparr>) {pml4} K"
proof -
  let ?s = "s\<lparr>kernel_pml4 := pml4, cr3 := pml4\<rparr>" and ?K = "{t. used_page s t \<and> t \<noteq> pml4}"
  let ?lvl = "(\<lambda>_. 0)(pml4 := 4)"
  have "vm_tree ?s ?lvl par" for par
    unfolding vm_tree_def regs_frame used_page_regs using inv u(1) e by (auto simp: user_slot_def)
  then have wf: "vm_wf ?s {pml4} ?K" by (rule vm_wfI) (auto simp: used_page_regs)
  have "\<exists>pd\<in>?K. aligned pd \<and> pd \<noteq> 0 \<and> gib_mapped (mem s) pdpt n pd" if n: "n < 4" for n
  proof -
    obtain pd where pd: "used_page s pd" "pd \<noteq> pdpt" "gib_mapped (mem s) pdpt n pd" using g n by blast
    have "pd \<noteq> pml4"
    proof
      assume "pd = pml4"
      then have "get_entry (mem s) pml4 1 = identity_leaf (of_nat n * GIB + HUGE_PAGE_SIZE)"
        using pd(3) by (auto simp: gib_mapped_def dest: spec[of _ 1])
      then have "identity_leaf (of_nat n * GIB + HUGE_PAGE_SIZE) = 0" using e[of 1] by simp
      then show False by (auto simp: identity_leaf_def or_eq_0_iff split: if_splits)
    qed
    then show ?thesis using pd used_pageD(1,2)[OF pd(1)] by (intro bexI[of _ pd]) simp_all
  qed
  then have "kernel_mapped (mem s) pml4 ?K"
    unfolding kernel_mapped_def using u e0 z used_pageD(1)[OF u(2)] by (intro bexI[of _ pdpt]) auto
  then have "vm_ok ?s {pml4} ?K" using wf by (simp add: vm_ok_def)
  then show ?thesis by blast
qed

lemma empty_slot_leaf: "get_entry m r (pml4_idx va) = 0 \<Longrightarrow> leaf_of m r va = None"
  by (simp add: leaf_of_def walk_to_leaf_def Let_def)

definition booted :: "nat \<Rightarrow> 'a vmm_state_scheme \<Rightarrow> bool" where
  "booted n s \<longleftrightarrow> n = 6 + card (free_set s) \<and> (\<exists>K. vm_ok s {kernel_pml4 s} K) \<and> cr3 s = kernel_pml4 s \<and>
     (\<forall>va. pml4_idx va \<noteq> 0 \<longrightarrow> leaf_of (mem s) (kernel_pml4 s) va = None)"

lemma vmm_init_outcome:
  assumes inv: "pmm_inv s"
  shows "outcome 6 (card (free_set s)) (vmm_init s) (booted (card (free_set s)))"
proof -
  have six: "(6 :: nat) = Suc (Suc 4)" by simp
  let ?s = "s\<lparr>efer := efer s OR EFER_NXE\<rparr>"
  have i0: "pmm_inv ?s" "free_set s = free_set ?s" using inv by (simp_all add: regs_frame)
  show ?thesis
    unfolding vmm_init_def Let_def six i0(2)
  proof (rule outcome_alloc_table[OF i0(1)], goal_cases)
    case F1: (1 pml4 s1)
    note f1 = fresh_pageD[OF F1] and z1 = fresh_page_entries[OF F1]
    show ?case unfolding prod.case
    proof (rule outcome_alloc_table[OF f1(1)], goal_cases)
      case F2: (1 pdpt s2)
      note f2 = fresh_pageD[OF F2] and z2 = fresh_page_entries[OF F2]
      let ?e = "pdpt OR PAGE_PRESENT OR PAGE_WRITABLE OR PAGE_USER"
      define s3 where "s3 = set_entry pml4 0 ?e s2"
      have u4: "used_page s2 pml4" "pml4 \<noteq> pdpt" using f2(4)[OF f1(2)] by auto
      note fr = set_entry_frame[OF f2(1) u4(1), where i = 0 and v = ?e, folded s3_def]
      have inv3: "pmm_inv s3" "free_set s2 = free_set s3" "used_page s3 pdpt" "used_page s3 pml4"
        using fr u4 f2(2) by simp_all
      have z3: "get_entry (mem s3) pdpt i = 0" if "unat i < 512" for i
        using get_set_entry[OF u4(1) _ f2(2) that, of 0 ?e] z2(1)[OF that] u4(2) unfolding s3_def by simp
      have e3: "get_entry (mem s3) pml4 i = (if i = 0 then ?e else 0)" if "unat i < 512" for i
        using get_set_entry[OF u4(1) _ u4(1) that, of 0 ?e] z2(2)[OF f1(2) that] z1(1)[OF that] unfolding s3_def by simp
      have "outcome 4 (card (free_set s3)) (rbind (rfold (map_gib pdpt) [0..<4] s3)
          (\<lambda>s. Inr (s\<lparr>kernel_pml4 := pml4, cr3 := pml4\<rparr>))) (booted (card (free_set ?s)))"
      proof -
        have "booted (card (free_set ?s)) (s4\<lparr>kernel_pml4 := pml4, cr3 := pml4\<rparr>)"
          if c: "card (free_set s3) = 4 + card (free_set s4)" and I: "pmm_inv s4" "used_page s4 pdpt" "used_page s4 pml4" "\<forall>a. page_of a = pml4 \<longrightarrow> mem s4 a = mem s3 a"
            "\<forall>i. unat i < 512 \<longrightarrow> 4 \<le> unat i \<longrightarrow> get_entry (mem s4) pdpt i = 0"
            "\<forall>g<4. \<exists>pd. used_page s4 pd \<and> pd \<noteq> pdpt \<and> gib_mapped (mem s4) pdpt g pd" for s4
        proof -
          have same: "get_entry (mem s4) pml4 i = get_entry (mem s3) pml4 i" if "unat i < 512" for i
            by (rule get_entry_page_cong[OF used_pageD(1)[OF I(3)] that]) (use I(4) in auto)
          have E: "get_entry (mem s4) pml4 i = 0" if "unat i < 512" "i \<noteq> 0" for i
            using same[OF that(1)] e3[OF that(1)] that(2) by simp
          have "\<exists>K. vm_ok (s4\<lparr>kernel_pml4 := pml4, cr3 := pml4\<rparr>) {pml4} K"
            by (rule boot_tables_ok[OF I(1,3,2) u4(2) _ E I(5,6)]) (use same[of 0] e3[of 0] in simp_all)
          then show ?thesis using c inv3(2) fresh_card[OF F1] fresh_card[OF F2]
            by (simp add: booted_def regs_frame E empty_slot_leaf)
        qed
        then show ?thesis using map_gibs_outcome[OF inv3(1,3,4) u4(2) z3, of 4] unfolding outcome_def by fastforce
      qed
      then show ?case unfolding prod.case inv3(2) s3_def[symmetric] .
    qed
  qed
qed

subsection \<open>The invariant of virtual memory\<close>

lemma vm_okD:
  assumes "vm_ok s R K"
  shows "vm_wf s R K" "kernel_pml4 s \<in> R" "\<And>r. r \<in> R \<Longrightarrow> kernel_mapped (mem s) r K"
  using assms by (simp_all add: vm_ok_def)

lemma kernel_mapped_leaf:
  assumes "kernel_mapped m r K" "kernel_mapped m' r' K'" "pml4_idx va = 0"
  shows "leaf_of m r va = leaf_of m' r' va"
  using kernel_walk[OF assms(1,3)] kernel_walk[OF assms(2,3)] by simp

lemma kernel_identity:
  assumes K: "kernel_mapped m r K" and va: "unat va < 2 ^ 32"
  shows "leaf_of m r va = Some (identity_leaf (va AND NOT (mask 21)))"
proof -
  have "unat (pml4_idx va) = 0" "unat (pdpt_idx va) < 4"
    using va by (simp_all add: unat_idxs div_less_iff_less_mult)
  then show ?thesis using kernel_walk[OF K, of va] huge_page_base[OF va] by (simp add: unat_eq_zero)
qed

lemma kernel_unmapped:
  assumes K: "kernel_mapped m r K" and va: "2 ^ 32 \<le> unat va" "unat va < 2 ^ 39"
  shows "leaf_of m r va = None"
proof -
  have "unat (pml4_idx va) = 0" "\<not> unat (pdpt_idx va) < 4"
    using va by (simp_all add: unat_idxs div_less_iff_less_mult)
  then show ?thesis using kernel_walk[OF K, of va] by (simp add: unat_eq_zero)
qed

lemma kernel_pml4_alloc:
  fixes s :: "'a vmm_state_scheme"
  assumes "pmm_alloc_page s = Inr (x, s')"
  shows "kernel_pml4 s' = kernel_pml4 s"
  using assms by (auto simp: pmm_alloc_page_def Let_def spinlock_release_def irq_save_disable_def irq_restore_def
      bitmap_set_def res_simps split: option.splits)

lemma kernel_pml4_ensure: "ensure_table t i s = Inr (x, s') \<Longrightarrow> kernel_pml4 s' = kernel_pml4 s"
  by (auto simp: ensure_table_def alloc_table_def Let_def set_entry_def res_simps dest: kernel_pml4_alloc
      split: if_splits)

lemma kernel_pml4_map: "vmm_map_page r va paddr flags s = Inr s' \<Longrightarrow> kernel_pml4 s' = kernel_pml4 s"
  by (auto simp: vmm_map_page_def set_entry_def res_simps dest!: kernel_pml4_ensure split: if_splits)

lemma map_page_ok:
  assumes ok: "vm_ok s R K" and r: "r \<in> R" "pml4_idx va \<noteq> 0" and room: "3 \<le> card (free_set s)"
  shows "\<exists>s'. vmm_map_page r va paddr flags s = Inr s' \<and> vm_ok s' R K \<and>
    (\<forall>r'\<in>R. \<forall>va'. leaf_of (mem s') r' va' =
      (if r' = r \<and> same_page va' va then Some (leaf_pte paddr flags) else leaf_of (mem s) r' va')) \<and>
    (\<forall>a. page_of a \<in> K \<longrightarrow> mem s' a = mem s a)"
proof -
  note D = vm_okD[OF ok]
  obtain s' where s': "vmm_map_page r va paddr flags s = Inr s'" "vm_wf s' R K"
    "\<forall>r' va'. r' \<in> R \<longrightarrow> pml4_idx va' \<noteq> 0 \<longrightarrow> leaf_of (mem s') r' va' =
        (if r' = r \<and> same_page va' va then Some (leaf_pte paddr flags) else leaf_of (mem s) r' va')"
    "\<forall>r'. r' \<in> R \<longrightarrow> get_entry (mem s') r' 0 = get_entry (mem s) r' 0"
    "\<forall>a. page_of a \<in> K \<longrightarrow> mem s' a = mem s a"
  proof (rule vmm_map_page_cases[OF D(1) r, of paddr flags], goal_cases)
    case 1
    then show ?case using room by simp
  next
    case (2 s')
    show ?case by (rule 2(1)[OF 2(2,3)]) (use 2(4-6) in simp_all)
  qed
  have km: "kernel_mapped (mem s') r' K" if "r' \<in> R" for r'
    by (rule kernel_mapped_keep[OF D(3)[OF that]]) (use s'(4,5) that in auto)
  then have "vm_ok s' R K" using s'(2) D(2) kernel_pml4_map[OF s'(1)] by (simp add: vm_ok_def)
  moreover have "leaf_of (mem s') r' va' =
      (if r' = r \<and> same_page va' va then Some (leaf_pte paddr flags) else leaf_of (mem s) r' va')"
    if r': "r' \<in> R" for r' va'
  proof (cases "pml4_idx va' = 0")
    case True
    then have "\<not> same_page va' va" using r(2) by (auto simp: same_page_def page_path_def)
    then show ?thesis using kernel_mapped_leaf[OF km[OF r'] D(3)[OF r'] True] by simp
  qed (use s'(3) r' in simp)
  ultimately show ?thesis using s'(1,5) by blast
qed

lemma create_space_ok:
  assumes ok: "vm_ok s R K" and room: "5 \<le> card (free_set s)"
  shows "\<exists>r p s'. vmm_create_address_space s = Inr (r, s') \<and> r \<notin> R \<and> p \<notin> K \<and>
    vm_ok s' (insert r R) (insert p K) \<and>
    (\<forall>va. leaf_of (mem s') r va =
      (if pml4_idx va = 0 then leaf_of (mem s) (kernel_pml4 s) va
       else if same_page va PROCESS_PRIVATE_VADDR then Some (p OR table_flags) else None)) \<and>
    (\<forall>a. page_of a = p \<longrightarrow> mem s' a = 0) \<and>
    (\<forall>r'\<in>R. \<forall>va. leaf_of (mem s') r' va = leaf_of (mem s) r' va) \<and>
    (\<forall>a. page_of a \<in> K \<longrightarrow> mem s' a = mem s a)"
proof -
  note D = vm_okD[OF ok]
  have "pmm_inv s" using D(1) by (auto simp: vm_wf_def dest: vm_treeD(1))
  from create_address_space_outcome[OF this] room obtain n s1 where
    n: "new_space s n s1" and run: "vmm_create_address_space s = Inr (sp_root n, link_space n s1)"
    by (auto simp: outcome_def)
  note C = create_space_result[OF D(1,2) n]
  let ?s = "link_space n s1" and ?r = "sp_root n" and ?p = "sp_page n"
  have kr: "kernel_mapped (mem ?s) ?r (insert ?p K)"
    by (rule kernel_mapped_keep[OF D(3)[OF D(2)]]) (use C(6,10) in auto)
  have ko: "kernel_mapped (mem ?s) x (insert ?p K)" if "x \<in> R" for x
    by (rule kernel_mapped_keep[OF D(3)[OF that]]) (use C(8)[OF that] C(10) in auto)
  have ok': "vm_ok ?s (insert ?r R) (insert ?p K)" using C(3,4) D(2) kr ko by (simp add: vm_ok_def)
  have "leaf_of (mem ?s) ?r va = (if pml4_idx va = 0 then leaf_of (mem s) (kernel_pml4 s) va
       else if same_page va PROCESS_PRIVATE_VADDR then Some (?p OR table_flags) else None)" for va
    using kernel_mapped_leaf[OF kr D(3)[OF D(2)], of va] C(5)[of va] by simp
  moreover have "leaf_of (mem ?s) x va = leaf_of (mem s) x va" if "x \<in> R" for x va
    using kernel_mapped_leaf[OF ko[OF that] D(3)[OF that], of va] C(7)[OF that, of va] by blast
  ultimately show ?thesis using run C(1,2,9,10) ok'
    by (intro exI[of _ ?r] exI[of _ ?p] exI[of _ ?s]) simp
qed

subsection \<open>Checking a range\<close>

definition leaf_allows :: "bool \<Rightarrow> u64 option \<Rightarrow> bool" where
  "leaf_allows need_write l \<longleftrightarrow>
     (\<exists>e. l = Some e \<and> e AND PAGE_USER \<noteq> 0 \<and> (need_write \<longrightarrow> e AND PAGE_WRITABLE \<noteq> 0))"

lemma page_allowed_leaf: "page_allowed m r w p \<longleftrightarrow> leaf_allows w (leaf_of m r p)"
  by (auto simp: page_allowed_def leaf_allows_def leaf_of_def Let_def)

lemma leaf_of_same_page: "same_page va va' \<Longrightarrow> leaf_of m r va = leaf_of m r va'"
  unfolding same_page_def page_path_def leaf_of_def walk_to_leaf_def by (simp only: list.inject)

lemma same_page_page_of: "same_page (page_of a) a"
  by (auto simp: same_page_iff page_of_def mask12 bit_simps)

lemma page_allowed_page_of: "page_allowed m r w (page_of a) \<longleftrightarrow> leaf_allows w (leaf_of m r a)"
  by (simp add: page_allowed_leaf leaf_of_same_page[OF same_page_page_of])

lemma page_step:
  assumes "aligned p" "aligned q" "p < q"
  shows "aligned (p + PMM_PAGE_SIZE)" "p + PMM_PAGE_SIZE \<le> q" "unat (p + PMM_PAGE_SIZE) = unat p + 4096"
proof -
  have l: "unat p < unat q" using assms(3) by (simp add: word_less_nat_alt)
  obtain i j where ij: "unat p = 4096 * i" "unat q = 4096 * j" using assms(1,2) unfolding aligned_iff by (metis mod_0_imp_dvd dvd_def)
  then have "i + 1 \<le> j" using l by simp
  then have le: "unat p + 4096 \<le> unat q" using ij by simp
  have "unat q < 2 ^ 64" using unsigned_less[of q, where ?'a = nat] by simp
  then show u: "unat (p + PMM_PAGE_SIZE) = unat p + 4096" using le by (simp add: unat_add_lem[THEN iffD1])
  show "p + PMM_PAGE_SIZE \<le> q" using le u by (simp add: word_le_nat_alt)
  show "aligned (p + PMM_PAGE_SIZE)" using u assms(1) by (simp add: page_simps)
qed

lemma check_pages_refused:
  assumes "aligned q" "q < stop" "\<not> page_allowed m r w q"
  shows "aligned p \<Longrightarrow> p \<le> q \<Longrightarrow> check_pages m r w p stop = Some False"
proof (induction "unat q - unat p" arbitrary: p rule: less_induct)
  case less
  show ?case
  proof (cases "p = q")
    case True
    then show ?thesis using assms by (subst check_pages.simps) simp
  next
    case False
    then have lt: "p < q" using less.prems by simp
    note st = page_step[OF less.prems(1) assms(1) lt]
    have "unat q - unat (p + PMM_PAGE_SIZE) < unat q - unat p"
      using st(3) lt by (simp add: word_less_nat_alt)
    from less.hyps[OF this st(1,2)] have "check_pages m r w (p + PMM_PAGE_SIZE) stop = Some False" .
    moreover have "p < stop" using lt assms(2) by simp
    ultimately show ?thesis by (subst check_pages.simps) simp
  qed
qed

lemma check_pages_accepted:
  assumes top: "unat stop + 4096 \<le> 2 ^ 64"
  shows "aligned p \<Longrightarrow> (\<And>q. aligned q \<Longrightarrow> p \<le> q \<Longrightarrow> q < stop \<Longrightarrow> page_allowed m r w q) \<Longrightarrow>
    check_pages m r w p stop = Some True"
proof (induction "unat stop - unat p" arbitrary: p rule: less_induct)
  case less
  show ?case
  proof (cases "p < stop")
    case True
    then have l: "unat p < unat stop" by (simp add: word_less_nat_alt)
    then have u: "unat (p + PMM_PAGE_SIZE) = unat p + 4096" using top by (simp add: unat_add_lem[THEN iffD1])
    then have a: "aligned (p + PMM_PAGE_SIZE)" using less.prems(1) by (simp add: page_simps)
    have "check_pages m r w (p + PMM_PAGE_SIZE) stop = Some True"
    proof (rule less.hyps[OF _ a])
      show "unat stop - unat (p + PMM_PAGE_SIZE) < unat stop - unat p" using u l by simp
      show "page_allowed m r w q" if "aligned q" "p + PMM_PAGE_SIZE \<le> q" "q < stop" for q
        using less.prems(2)[OF that(1) _ that(3)] that(2) u by (simp add: word_le_nat_alt)
    qed
    then show ?thesis using True less.prems(2)[OF less.prems(1) order_refl True] by (subst check_pages.simps) simp
  qed (simp add: check_pages.simps[of m r w p])
qed

text \<open>The addresses of a range.\<close>

definition in_range :: "u64 \<Rightarrow> u64 \<Rightarrow> u64 \<Rightarrow> bool" where
  "in_range a va len \<longleftrightarrow> unat va \<le> unat a \<and> unat a < unat va + unat len"

lemma page_of_mono: "a \<le> b \<Longrightarrow> page_of a \<le> page_of b"
  unfolding word_le_nat_alt unat_page_of by (simp add: div_le_mono)

lemma page_of_le: "page_of a \<le> a"
  by (simp add: word_le_nat_alt unat_page_of)

lemma check_range_refused:
  assumes a: "in_range a va len" and no: "\<not> leaf_allows w (leaf_of (mem s) r a)"
  shows "vmm_check_range r va len w s = Inr False"
proof (cases "va + len < va")
  case False
  have "len \<noteq> 0" using a by (auto simp: in_range_def)
  have "unat (va + len) = unat va + unat len" using False by (simp add: unat_plus_simple[THEN iffD1] not_less)
  then have "a < va + len" using a by (simp add: in_range_def word_less_nat_alt)
  then have lt: "page_of a < va + len" using page_of_le[of a] by simp
  have "page_of va \<le> page_of a" using a by (intro page_of_mono) (simp add: in_range_def word_le_nat_alt)
  from check_pages_refused[OF aligned_page_of lt _ aligned_page_of this, of "mem s" r w] no
  have "check_pages (mem s) r w (page_of va) (va + len) = Some False"
    by (simp add: page_allowed_page_of)
  then show ?thesis using False \<open>len \<noteq> 0\<close> by (simp add: vmm_check_range_def page_of_def)
qed (use a in \<open>auto simp: vmm_check_range_def in_range_def\<close>)

lemma check_range_accepted:
  assumes top: "unat va + unat len + 4096 \<le> 2 ^ 64"
    and all: "\<And>a. in_range a va len \<Longrightarrow> leaf_allows w (leaf_of (mem s) r a)"
  shows "vmm_check_range r va len w s = Inr True"
proof (cases "len = 0")
  case False
  have u: "unat (va + len) = unat va + unat len" using top by (simp add: unat_add_lem[THEN iffD1])
  have "check_pages (mem s) r w (page_of va) (va + len) = Some True"
  proof (rule check_pages_accepted[OF _ aligned_page_of])
    fix q assume q: "aligned q" "page_of va \<le> q" "q < va + len"
    have "0 < unat len" using False by (simp add: unat_gt_0)
    define a where "a = (if q \<le> va then va else q)"
    have "in_range a va len"
      using q(3) u \<open>0 < unat len\<close> by (auto simp: a_def in_range_def word_less_nat_alt word_le_nat_alt unat_eq_zero not_le)
    moreover have "page_of a = q"
      using q page_of_mono[of q va] by (auto simp: a_def)
    ultimately show "page_allowed (mem s) r w q" using all[of a] by (simp add: page_allowed_page_of[symmetric])
  qed (use top u in simp)
  then show ?thesis using False u by (simp add: vmm_check_range_def page_of_def word_less_nat_alt)
qed (simp add: vmm_check_range_def)

subsection \<open>Properties\<close>

lemma low_page_bits:
  fixes va :: u64
  shows "\<not> bit (va AND NOT (mask 21)) 0" "\<not> bit (va AND NOT (mask 21)) 2" "\<not> bit (va AND NOT (mask 21)) 7"
  by (simp_all add: bit_simps)

lemma kernel_leaf_refused:
  assumes K: "kernel_mapped m r K" and a: "0x400000 \<le> unat a" "unat a < 2 ^ 32"
  shows "\<not> leaf_allows w (leaf_of m r a)"
proof -
  have "unat (a AND NOT (mask 21)) = 2 ^ 21 * (unat a div 2 ^ 21)" using unat_and_not_mask[of a 21] by simp
  moreover have "2 \<le> unat a div 2 ^ 21" using a(1) by (simp add: le_div_geq less_eq_div_iff_mult_less_eq)
  ultimately have "\<not> a AND NOT (mask 21) < KERNEL_EXEC_LIMIT" by (simp add: word_less_nat_alt)
  then show ?thesis unfolding kernel_identity[OF K a(2)] leaf_allows_def
    using identity_leaf_bits(3)[OF low_page_bits, of a] by simp
qed

lemma check_range_value:
  assumes "unat va + unat len + 4096 \<le> 2 ^ 64"
  shows "vmm_check_range r va len w s = Inr (\<forall>a. in_range a va len \<longrightarrow> leaf_allows w (leaf_of (mem s) r a))"
proof (cases "\<forall>a. in_range a va len \<longrightarrow> leaf_allows w (leaf_of (mem s) r a)")
  case True
  then show ?thesis using check_range_accepted[OF assms, of w s r] by simp
next
  case False
  then obtain a where "in_range a va len" "\<not> leaf_allows w (leaf_of (mem s) r a)" by blast
  from check_range_refused[OF this] False show ?thesis by simp
qed

text \<open>Example: 64 page frames, the bitmap in frame 1, everything from frame 2 on free.\<close>

definition vmm_example :: vmm_state where
  "vmm_example = \<lparr>mem = (\<lambda>_. 0)(0x1000 := 3), rflags_if = True, bitmap = 0x1000,
     bitmap_bits = 64, free_pages = 62, search_hint = 1, pmm_lock = 0, kernel_pml4 = 0, cr3 = 0, efer = 0\<rparr>"

lemma vmm_example_simps [simp]:
  "bitmap vmm_example = 0x1000" "bitmap_bits vmm_example = 64" "free_pages vmm_example = 62"
  "search_hint vmm_example = 1" "pmm_lock vmm_example = 0"
  by (simp_all add: vmm_example_def)

lemma vmm_example_test: "p < 64 \<Longrightarrow> bitmap_test vmm_example p \<longleftrightarrow> p < 2"
proof -
  assume p: "p < 64"
  show ?thesis
  proof (cases "p < 8")
    case True
    then have "unat p < 8" by (simp add: word_less_nat_alt)
    then have "unat p = 0 \<or> unat p = 1 \<or> unat p = 2 \<or> unat p = 3 \<or> unat p = 4 \<or> unat p = 5 \<or> unat p = 6 \<or> unat p = 7"
      by auto
    then have "p = 0 \<or> p = 1 \<or> p = 2 \<or> p = 3 \<or> p = 4 \<or> p = 5 \<or> p = 6 \<or> p = 7"
      by (simp add: word_unat_eq_iff)
    then show ?thesis by (elim disjE) (simp_all add: bitmap_test_def vmm_example_def)
  next
    case False
    have "unat (p div 8) \<noteq> 0" "unat (p div 8) < 8" using False p by (simp_all add: word_less_nat_alt unat_div div_less_iff_less_mult)
    then have "p div 8 \<noteq> 0" by auto
    then have "mem vmm_example (0x1000 + p div 8) = 0" by (simp add: vmm_example_def)
    moreover have "\<not> p < 2" using False by (simp add: word_less_nat_alt)
    ultimately show ?thesis by (simp add: bitmap_test_def)
  qed
qed

lemma vmm_example_free: "free_set vmm_example = of_nat ` {2..<64}"
proof -
  have "p \<in> free_set vmm_example \<longleftrightarrow> 2 \<le> unat p \<and> unat p < 64" for p
    using vmm_example_test[of p] by (auto simp: free_set_def word_less_nat_alt)
  moreover have "(p :: u64) \<in> of_nat ` {2..<64} \<longleftrightarrow> 2 \<le> unat p \<and> unat p < 64" for p
  proof
    assume "p \<in> of_nat ` {2..<64}"
    then show "2 \<le> unat p \<and> unat p < 64" by (auto simp: unat_of_nat_less)
  next
    assume "2 \<le> unat p \<and> unat p < 64"
    then show "p \<in> of_nat ` {2..<64}" by (intro image_eqI[of _ _ "unat p"]) simp_all
  qed
  ultimately show ?thesis by blast
qed

lemma vmm_example_card: "card (free_set vmm_example) = 62"
proof -
  have "inj_on (of_nat :: nat \<Rightarrow> u64) {2..<64}"
    by (rule inj_on_inverseI[of _ unat]) (simp add: unat_of_nat_less)
  then show ?thesis by (simp add: vmm_example_free card_image)
qed

lemma vmm_example_inv: "pmm_inv vmm_example"
proof -
  have "p < 2" if r: "reserved_page vmm_example p" and p: "p < 64" for p
  proof -
    have "page_of (0x1000 + k) = 0x1000" if "unat k < unat (bitmap_bytes vmm_example)" for k
      using that by (intro page_of_in_page) (simp_all add: bitmap_bytes_def page_simps)
    then have "p = 0 \<or> p * PMM_PAGE_SIZE = 0x1000" using r unfolding reserved_page_def by auto
    moreover have "unat (p * PMM_PAGE_SIZE) = unat p * 4096" using p by (simp add: word_less_nat_alt unat_mult_lem[THEN iffD1])
    ultimately show ?thesis by (auto simp: word_less_nat_alt)
  qed
  then show ?thesis using vmm_example_card vmm_example_test unfolding pmm_inv_def by simp
qed

lemma vmm_example_boot: "\<exists>s. vmm_init vmm_example = Inr s \<and> booted 62 s"
  using vmm_init_outcome[OF vmm_example_inv] by (simp add: outcome_def vmm_example_card)

definition vmm_booted :: vmm_state where
  "vmm_booted = (case vmm_init vmm_example of Inr s \<Rightarrow> s | Inl _ \<Rightarrow> vmm_example)"

lemma vmm_booted:
  "vmm_init vmm_example = Inr vmm_booted" "\<exists>K. vm_ok vmm_booted {kernel_pml4 vmm_booted} K"
  "card (free_set vmm_booted) = 56"
  using vmm_example_boot by (auto simp: vmm_booted_def booted_def)

text \<open>C33. \<open>vmm_map_page\<close> refines the update of a partial map. With the invariant of virtual memory and
  three free page frames, mapping a page of an address space \<open>r\<close> outside PML4 slot 0 succeeds,
  keeps the invariant, makes the page walk of that page in \<open>r\<close> find the new entry, and changes the
  result of no other page walk in any address space nor any page outside the tables.\<close>

theorem vmm_map_page_refines:
  assumes "vm_ok s R K" "r \<in> R" "pml4_idx va \<noteq> 0" "3 \<le> card (free_set s)"
  shows "\<exists>s'. vmm_map_page r va paddr flags s = Inr s' \<and> vm_ok s' R K \<and>
    (\<forall>r'\<in>R. \<forall>va'. leaf_of (mem s') r' va' =
      (if r' = r \<and> same_page va' va then Some (leaf_pte paddr flags) else leaf_of (mem s) r' va')) \<and>
    (\<forall>a. page_of a \<in> K \<longrightarrow> mem s' a = mem s a)"
  by (rule map_page_ok[OF assms])

theorem vmm_map_page_refines_witness:
  "\<exists>s'. vmm_map_page (kernel_pml4 vmm_booted) 0x8000001000 0x5000 VMM_MAP_WRITE vmm_booted = Inr s' \<and>
     leaf_of (mem s') (kernel_pml4 vmm_booted) 0x8000001234 = Some (leaf_pte 0x5000 VMM_MAP_WRITE)"
proof -
  have "pml4_idx 0x8000001000 \<noteq> 0" "same_page 0x8000001234 0x8000001000" by code_simp+
  moreover obtain K where "vm_ok vmm_booted {kernel_pml4 vmm_booted} K" using vmm_booted(2) by blast
  ultimately obtain s' where "vmm_map_page (kernel_pml4 vmm_booted) 0x8000001000 0x5000 VMM_MAP_WRITE vmm_booted = Inr s'"
    "\<forall>r'\<in>{kernel_pml4 vmm_booted}. \<forall>va'. leaf_of (mem s') r' va' =
      (if r' = kernel_pml4 vmm_booted \<and> same_page va' 0x8000001000 then Some (leaf_pte 0x5000 VMM_MAP_WRITE)
       else leaf_of (mem vmm_booted) r' va')"
    using vmm_booted(3) vmm_map_page_refines[of vmm_booted "{kernel_pml4 vmm_booted}" K "kernel_pml4 vmm_booted"
        "0x8000001000" "0x5000" VMM_MAP_WRITE] by auto
  then show ?thesis using \<open>same_page 0x8000001234 0x8000001000\<close> by simp
qed





text \<open>C36. \<open>vmm_check_range\<close> decides its documented contract: for a range that ends below the last page
  of the 64-bit space it returns, and the answer is true exactly when the page walk of every address of the
  range finds an entry with the user bit and, where writing is asked for, the writable bit.\<close>

theorem vmm_check_range_correct:
  assumes "unat va + unat len + 4096 \<le> 2 ^ 64"
  shows "vmm_check_range r va len w s =
    Inr (\<forall>a. in_range a va len \<longrightarrow> leaf_allows w (leaf_of (mem s) r a))"
  by (rule check_range_value[OF assms])

theorem vmm_check_range_correct_witness:
  "vmm_check_range 0x2000 0x400000 16 True vmm_example =
    Inr (\<forall>a. in_range a 0x400000 16 \<longrightarrow> leaf_allows True (leaf_of (mem vmm_example) 0x2000 a))"
  using vmm_check_range_correct[of "0x400000" 16] by simp

text \<open>C37. Kernel memory is out of reach of a checked range: in every address space of the invariant,
  \<open>vmm_check_range\<close> refuses any range that has one address between 4 MiB and 4 GiB, whatever its length.\<close>

theorem kernel_memory_protected:
  assumes "vm_ok s R K" "r \<in> R" "in_range a va len" "0x400000 \<le> unat a" "unat a < 2 ^ 32"
  shows "vmm_check_range r va len w s = Inr False"
  by (rule check_range_refused[OF assms(3) kernel_leaf_refused[OF vm_okD(3)[OF assms(1,2)] assms(4,5)]])

theorem kernel_memory_protected_witness:
  "vmm_check_range (kernel_pml4 vmm_booted) 0x3FFFF0 0x20 False vmm_booted = Inr False"
proof -
  obtain K where "vm_ok vmm_booted {kernel_pml4 vmm_booted} K" using vmm_booted(2) by blast
  from kernel_memory_protected[OF this, of _ "0x400000" "0x3FFFF0" "0x20" False]
  show ?thesis by (simp add: in_range_def)
qed

text \<open>C38. The check does not look at bits 48 to 63 of an address: a range moved up by $2^{48}$, whose
  addresses are not canonical and fault on every access, gets the answer of the canonical range.\<close>

theorem vmm_check_range_noncanonical:
  assumes "unat va + unat len + 2 ^ 48 + 4096 \<le> 2 ^ 64"
  shows "vmm_check_range r (va + 2 ^ 48) len w s = vmm_check_range r va len w s"
proof -
  have u: "unat (va + 2 ^ 48) = unat va + 2 ^ 48" using assms by (simp add: unat_add_lem[THEN iffD1])
  have p: "leaf_of (mem s) r (a + 2 ^ 48) = leaf_of (mem s) r a" if "in_range a va len" for a
  proof (rule leaf_of_same_page)
    have ua: "unat (a + 2 ^ 48) = unat a + 2 ^ 48"
      using assms that by (simp add: in_range_def unat_add_lem[THEN iffD1])
    have "take_bit 48 (a + 2 ^ 48) = take_bit 48 a"
      by (rule word_unat_eq_iff[THEN iffD2]) (simp only: unsigned_take_bit_eq ua, simp add: take_bit_eq_mod)
    then have "bit (a + 2 ^ 48) k = bit a k" if "k < 48" for k using that by (metis bit_take_bit_iff)
    then show "same_page (a + 2 ^ 48) a" by (simp add: same_page_iff)
  qed
  have "in_range (a + 2 ^ 48) (va + 2 ^ 48) len" if "in_range a va len" for a
    using assms that u by (simp add: in_range_def unat_add_lem[THEN iffD1])
  moreover have "\<exists>a. b = a + 2 ^ 48 \<and> in_range a va len" if "in_range b (va + 2 ^ 48) len" for b
  proof -
    have "unat (b - 2 ^ 48) = unat b - 2 ^ 48" using that u
      by (subst unat_sub) (simp_all add: in_range_def word_le_nat_alt)
    then show ?thesis using that u by (intro exI[of _ "b - 2 ^ 48"]) (simp add: in_range_def less_diff_conv2 le_diff_conv2)
  qed
  ultimately have "(\<forall>a. in_range a (va + 2 ^ 48) len \<longrightarrow> leaf_allows w (leaf_of (mem s) r a)) \<longleftrightarrow>
    (\<forall>a. in_range a va len \<longrightarrow> leaf_allows w (leaf_of (mem s) r a))" using p by metis
  then show ?thesis using check_range_value[of va len r w s] check_range_value[of "va + 2 ^ 48" len r w s] assms u by simp
qed

theorem vmm_check_range_noncanonical_witness:
  "vmm_check_range 0x2000 0x1000000001000 64 False vmm_example = vmm_check_range 0x2000 0x1000 64 False vmm_example"
  using vmm_check_range_noncanonical[of "0x1000" 64] by simp

end
