(* ===== verification/Syscall_Spec.thy ===== *)
theory Syscall_Spec
  imports Idt_Spec Vmm_Spec
begin

section \<open>System calls read what the caller may read\<close>

text \<open>
  The page-by-page check of \<open>copy_user_string\<close> covers every byte it reads, so that no system call with a
  string argument copies kernel memory.
\<close>

subsection \<open>Strings copied from user memory\<close>

lemma check_one:
  assumes "vmm_check_range r a 1 w s = Inr True"
  shows "leaf_allows w (leaf_of (mem s) r a)"
  using check_range_refused[of a a 1 w s r] assms by (auto simp: in_range_def)

lemma leaf_of_page_of: "page_of a = page_of b \<Longrightarrow> leaf_of m r a = leaf_of m r b"
  by (metis leaf_of_same_page same_page_page_of)

lemma next_same_page: "(a + 1) mod PMM_PAGE_SIZE \<noteq> 0 \<Longrightarrow> page_of (a + 1) = page_of a"
proof -
  assume a: "(a + 1) mod PMM_PAGE_SIZE \<noteq> 0"
  have nz: "a + 1 \<noteq> 0" using a by auto
  then have u: "unat (a + 1) = unat a + 1" by (simp add: unatSuc add.commute)
  have "unat ((a + 1) mod PMM_PAGE_SIZE) \<noteq> 0" using a by (simp only: unat_eq_0 not_False_eq_True)
  then have "(unat a + 1) mod 4096 \<noteq> 0" by (simp add: unat_mod u)
  then show ?thesis unfolding page_of_eq_iff u by (simp add: div_Suc)
qed

lemma copy_user_loop_reads:
  assumes "copy_user_loop s n first a = Inr msg" "first \<or> a mod PMM_PAGE_SIZE = 0 \<or> leaf_allows False (leaf_of (mem s) (cr3 s) a)"
  shows "length msg \<le> n \<and> (\<forall>i<length msg. msg ! i = user_byte s (a + of_nat i) \<and> msg ! i \<noteq> 0 \<and>
    leaf_allows False (leaf_of (mem s) (cr3 s) (a + of_nat i)))"
  using assms
proof (induction n arbitrary: first a msg)
  case (Suc n)
  from Suc.prems(1) have c: "a mod PMM_PAGE_SIZE = 0 \<or> first \<Longrightarrow> vmm_check_range (cr3 s) a 1 False s = Inr True"
    and body: "(let c = user_byte s a in if c = 0 then Inr [] else rbind (copy_user_loop s n False (a + 1)) (\<lambda>rest. Inr (c # rest))) = Inr msg"
    unfolding copy_user_loop.simps vmm_current_cr3_def rbind_eq_Inr by (auto split: if_splits simp del: mod_0_imp_dvd mod_eq_0_iff_dvd)
  have ok: "leaf_allows False (leaf_of (mem s) (cr3 s) a)"
    using Suc.prems(2) check_one[OF c] by argo
  show ?case
  proof (cases "user_byte s a = 0")
    case True
    then have "msg = []" using body by simp
    then show ?thesis by simp
  next
    case False
    then obtain rest where r: "copy_user_loop s n False (a + 1) = Inr rest" "msg = user_byte s a # rest"
      using body by (auto simp: rbind_eq_Inr Let_def)
    have "(a + 1) mod PMM_PAGE_SIZE = 0 \<or> leaf_allows False (leaf_of (mem s) (cr3 s) (a + 1))"
      using next_same_page[of a] ok leaf_of_page_of[of "a + 1" a] by metis
    from Suc.IH[OF r(1)] this have IH: "length rest \<le> n \<and> (\<forall>i<length rest. rest ! i = user_byte s (a + 1 + of_nat i) \<and> rest ! i \<noteq> 0 \<and>
      leaf_allows False (leaf_of (mem s) (cr3 s) (a + 1 + of_nat i)))" by blast
    show ?thesis unfolding r(2)
    proof (intro conjI allI impI)
      fix i assume i: "i < length (user_byte s a # rest)"
      show "(user_byte s a # rest) ! i = user_byte s (a + of_nat i)" "(user_byte s a # rest) ! i \<noteq> 0"
        "leaf_allows False (leaf_of (mem s) (cr3 s) (a + of_nat i))"
        using i IH ok False by (cases i; simp add: algebra_simps)+
    qed (use IH in simp)
  qed
qed simp

lemma copy_user_string_reads:
  assumes "copy_user_string p n s = Inr msg" "0 < n"
  shows "length msg < n" "i < length msg \<Longrightarrow> msg ! i = user_byte s (p + of_nat i)" "i < length msg \<Longrightarrow> msg ! i \<noteq> 0"
    "i < length msg \<Longrightarrow> leaf_allows False (leaf_of (mem s) (cr3 s) (p + of_nat i))"
  using copy_user_loop_reads[of s "n - 1" True p msg] assms by (auto simp: copy_user_string_def)

text \<open>C14. \<open>SYS_WRITE\<close> discloses nothing of the kernel. In every address space of the invariant, whatever
  pointer a program passes, if the call returns then what it has added to the console is a string of at
  most 255 bytes that ring 3 may itself read at that pointer; none of them comes from the kernel's memory
  between 4 MiB and 4 GiB, and memory is unchanged.\<close>

theorem sys_write_discloses_user_bytes:
  fixes s :: "('d, 'a) sys_state_scheme"
  assumes "vm_ok s R K" "cr3 s \<in> R" "sys_write frame s = Inr (r, s')"
  shows "\<exists>msg. con_out s' = con_out s @ msg \<and> length msg < 256 \<and> mem s' = mem s \<and> r = Some (frame\<lparr>f_rax := 0\<rparr>) \<and>
    syscall_write_count s' = syscall_write_count s + 1 \<and>
    (\<forall>i<length msg. msg ! i = user_byte s (f_rdi frame + of_nat i) \<and>
      leaf_allows False (leaf_of (mem s) (cr3 s) (f_rdi frame + of_nat i)) \<and>
      \<not> (0x400000 \<le> unat (f_rdi frame + of_nat i) \<and> unat (f_rdi frame + of_nat i) < 2 ^ 32))"
proof -
  from assms(3) obtain msg t where m: "copy_user_string (f_rdi frame) 256 s = Inr msg" "kprintf ''%s'' [KStr (Some msg)] s = Inr t"
    and r: "r = Some (frame\<lparr>f_rax := 0\<rparr>)" "s' = t\<lparr>syscall_write_count := syscall_write_count t + 1\<rparr>"
    unfolding sys_write_def rbind_eq_Inr by (auto simp: Let_def)
  have "kv_format (cstr ''%s'') [KStr (Some msg)] = Inr msg" by (simp add: cstr_def kv_conv_def)
  then obtain l where "t = s\<lparr>serial_lock := l, con_out := con_out s @ msg, serial_lock := spinlock_release l\<rparr>"
    using m(2) by (auto simp: kprintf_def kvprintf_def rbind_eq_Inr Let_def)
  then have t: "con_out t = con_out s @ msg" "mem t = mem s" "syscall_write_count t = syscall_write_count s" by simp_all
  note C = copy_user_string_reads[OF m(1)]
  have "\<not> (0x400000 \<le> unat a \<and> unat a < 2 ^ 32)" if "leaf_allows False (leaf_of (mem s) (cr3 s) a)" for a
    using kernel_leaf_refused[OF vm_okD(3)[OF assms(1,2)], of a False] that by blast
  then show ?thesis using C t r by (intro exI[of _ msg]) auto
qed

subsection \<open>An example\<close>

lemma vm_ok_serial: "vm_ok (s\<lparr>serial_lock := l\<rparr>) R K = vm_ok s R K" for s :: "('d, 'a) sys_state_scheme"
proof -
  let ?t = "s\<lparr>serial_lock := l\<rparr>"
  have "pmm_inv ?t = pmm_inv s" "free_set ?t = free_set s" by (rule pmm_inv_cong, simp add: pmm_state.defs)+
  moreover have "in_bitmap ?t a = in_bitmap s a" for a by (simp add: in_bitmap_def bitmap_bytes_def)
  ultimately show ?thesis unfolding vm_ok_def vm_wf_def vm_tree_def used_page_def by simp
qed

lemma copy_in_page:
  assumes "first \<Longrightarrow> vmm_check_range (cr3 s) a 1 False s = Inr True" "first \<or> unat a mod 4096 \<noteq> 0" "unat a mod 4096 + n \<le> 4096"
  shows "\<exists>msg. copy_user_loop s n first a = Inr msg"
  using assms
proof (induction n arbitrary: first a)
  case (Suc n)
  have "\<exists>msg. copy_user_loop s n False (a + 1) = Inr msg"
  proof (cases n)
    case (Suc k)
    then have m: "unat a mod 4096 + 1 < 4096" using Suc.prems(3) by simp
    have "a + 1 \<noteq> 0"
    proof
      assume "a + 1 = 0"
      then have "a = - 1" by (simp add: eq_neg_iff_add_eq_0)
      then show False using m by (simp add: unsigned_minus_1_eq_mask mask_eq_exp_minus_1)
    qed
    then have u: "unat (a + 1) = unat a + 1" by (simp add: unatSuc add.commute)
    then have "unat (a + 1) mod 4096 = unat a mod 4096 + 1" using m by (simp add: mod_Suc)
    then show ?thesis using Suc.prems(3) by (intro Suc.IH) simp_all
  qed simp
  moreover have "a mod PMM_PAGE_SIZE = 0 \<Longrightarrow> first" using Suc.prems(2) by (auto simp: word_unat_eq_iff unat_mod)
  ultimately show ?case using Suc.prems(1) by (auto simp: vmm_current_cr3_def Let_def simp del: mod_eq_0_iff_dvd)
qed simp

text \<open>The memory of the example after \<open>vmm_init\<close>.\<close>

definition sys_example :: "unit sys_state" where
  "sys_example = idle_devices\<lparr>mem := mem vmm_example, bitmap := bitmap vmm_example, bitmap_bits := bitmap_bits vmm_example,
     free_pages := free_pages vmm_example, search_hint := search_hint vmm_example, pmm_lock := pmm_lock vmm_example,
     rflags_if := rflags_if vmm_example\<rparr>"

lemma sys_example_boot: "\<exists>s. vmm_init sys_example = Inr s \<and> booted 62 s"
proof -
  have "pmm_state.truncate sys_example = pmm_state.truncate vmm_example" by (simp add: sys_example_def pmm_state.defs)
  note C = pmm_inv_cong[OF this]
  have "pmm_inv sys_example" "card (free_set sys_example) = 62" unfolding C using vmm_example_inv vmm_example_card by simp_all
  then show ?thesis using vmm_init_outcome[of sys_example] by (simp add: outcome_def)
qed

theorem sys_write_discloses_user_bytes_witness:
  "\<exists>s s' r msg. vmm_init sys_example = Inr s \<and> sys_write (ud2_frame\<lparr>f_rdi := 0x300000\<rparr>) (s\<lparr>serial_lock := 0\<rparr>) = Inr (r, s') \<and>
     con_out s' = con_out s @ msg \<and> length msg < 256"
proof -
  obtain s where s: "vmm_init sys_example = Inr s" "booted 62 s" using sys_example_boot by blast
  let ?s = "s\<lparr>serial_lock := 0\<rparr>"
  obtain K where K: "vm_ok ?s {kernel_pml4 s} K" "cr3 ?s = kernel_pml4 s" using s(2) unfolding booted_def vm_ok_serial by auto
  have km: "kernel_mapped (mem ?s) (kernel_pml4 s) K" by (rule vm_okD(3)[OF K(1)]) simp
  have m: "(0x300000 :: u64) AND NOT (mask 21) = 0x200000" by (simp add: mask_numeral)
  have "leaf_allows False (leaf_of (mem ?s) (kernel_pml4 s) 0x300000)"
    using kernel_identity[OF km, of "0x300000"] m identity_leaf_bits(3)[of "0x200000"] by (simp add: leaf_allows_def bit_iff_odd)
  then have "vmm_check_range (cr3 ?s) 0x300000 1 False ?s = Inr True"
    unfolding K(2)
  proof (subst check_range_value, simp, safe)
    fix a assume l: "leaf_allows False (leaf_of (mem ?s) (kernel_pml4 s) 0x300000)" and "in_range a 0x300000 1"
    then have "a = 0x300000" by (simp add: in_range_def word_unat_eq_iff)
    then show "leaf_allows False (leaf_of (mem ?s) (kernel_pml4 s) a)" using l by simp
  qed
  then have "\<exists>msg. copy_user_loop ?s 255 True 0x300000 = Inr msg" by (intro copy_in_page) simp_all
  then obtain msg where c: "copy_user_string 0x300000 256 ?s = Inr msg" by (auto simp: copy_user_string_def)
  have "kv_format (cstr ''%s'') [KStr (Some msg)] = Inr msg" by (simp add: cstr_def kv_conv_def)
  then obtain s' r where w: "sys_write (ud2_frame\<lparr>f_rdi := 0x300000\<rparr>) ?s = Inr (r, s')"
    using c by (auto simp: sys_write_def kprintf_def kvprintf_def Let_def)
  from sys_write_discloses_user_bytes[OF K(1) _ w] K(2) obtain msg where "con_out s' = con_out ?s @ msg" "length msg < 256" by auto
  then show ?thesis using s(1) w by auto
qed

end
