(* ===== verification/Kmain_Spec.thy ===== *)
theory Kmain_Spec
  imports Kmain Keyboard_Spec Syscall_Spec
begin

section \<open>Boot: the scheduler comes up and the self-tests pass\<close>

text \<open>
  The components together as \<open>kmain\<close> composes them: the hand-over to the scheduler, and self-tests of test
  mode, each shown to succeed in every state the component's invariant allows.
\<close>

subsection \<open>The scheduler comes up\<close>

lemma idle_threads_outcome:
  assumes "sched_inv s" "n \<le> 16" "rfold (create_idle_thread tramp loop) [0..<n] s = Inr s'"
  shows "sched_inv s' \<and> cpu_count s' = cpu_count s \<and> (\<forall>c<n. 0 \<le> idle_tid s' ! c)"
  using assms(2,3)
proof (induction n arbitrary: s')
  case (Suc n)
  from Suc.prems(2) obtain s1 where s1: "rfold (create_idle_thread tramp loop) [0..<n] s = Inr s1" "create_idle_thread tramp loop n s1 = Inr s'"
    by (auto simp: rfold_append rbind_eq_Inr)
  have IH: "sched_inv s1" "cpu_count s1 = cpu_count s" "\<forall>c<n. 0 \<le> idle_tid s1 ! c" using Suc.IH[OF _ s1(1)] Suc.prems(1) by auto
  have n: "n < 16" using Suc.prems(1) by simp
  have len: "length (idle_tid s1) = 16"
    using IH(1) tables_okD(3)[of "threads s1" "current_thread s1" "idle_tid s1"] by (simp add: sched_inv_def sched_core_def)
  from IH(1) n show ?case
  proof (cases rule: idle_outcome[where tramp = tramp and loop = loop])
    case (fails m) then show ?thesis using s1(2) by simp
  next
    case (new t i)
    then have "t = s'" using s1(2) by simp
    then show ?thesis using new IH n len by (auto simp: nth_list_update less_Suc_eq)
  qed
qed (use assms(1) in simp)

lemma kmain_start_fields:
  "kmain_start s = scheduler_start (s\<lparr>tick_callback := Some Tick_Schedule, scheduler_ready := True\<rparr>)"
  by (simp add: kmain_start_def Let_def timer_set_tick_callback_def smp_signal_scheduler_ready_def)


subsection \<open>An example\<close>

definition kernel_example :: "unit test_state" where
  "kernel_example = panic_state.extend (net_state.extend (nic_state.extend (ahci_state.extend (smp_state.extend
     (idt_state.extend idt_example (smp_state.fields 0 0 0 0 0 False [0]))
     (ahci_state.fields 0 0 0 0 0)) (nic_state.fields 0 0 0 0 0 [] 0 0)) (net_state.fields []))
     (panic_state.fields False)) (test_state.fields 0 0 (replicate 16 0) 0 0 False False False False False False False False)"

lemmas kernel_example_defs = kernel_example_def idt_example_def idle_devices_def panic_state.defs net_state.defs nic_state.defs
  ahci_state.defs smp_state.defs idt_state.defs sys_state.defs lapic_state.defs mouse_state.defs
  kbd_state.defs fb_state.defs con_state.defs timer_state.defs io_state.defs sched_state.defs test_state.defs

lemma kernel_example_fields:
  "threads kernel_example = example_threads" "cpu_count kernel_example = 1" "scheduler_lock kernel_example = 0"
  "heap_head kernel_example = HEAP_BASE" "heap_lock kernel_example = 0" "hdr kernel_example = hdr sched_example"
  "serial_lock kernel_example = 0" "core_apic_ids kernel_example = core_apic_ids sched_example" "apic_id kernel_example = apic_id sched_example"
  "kbd kernel_example = \<lparr>buffer = replicate 64 0, buf_head = 62, buf_tail = 62\<rparr>"
  by (simp_all add: kernel_example_defs example_fields)

lemma kernel_example_heap: "heap_inv kernel_example"
  using example_chain unfolding heap_inv_def kernel_example_fields by blast

lemma kernel_example_idle:
  "\<exists>s1. scheduler_create_idle_threads 0x100000 0x100200 (smp_cpu_count (scheduler_init kernel_example)) (scheduler_init kernel_example) = Inr s1 \<and>
     current_thread s1 ! this_core s1 < 0"
proof -
  let ?i = "scheduler_init kernel_example"
  let ?s = "?i\<lparr>rflags_if := False, scheduler_lock := 1\<rparr>"
  have F: "hdr ?i = hdr sched_example" "heap_head ?i = HEAP_BASE" "heap_lock ?i = 0" "cpu_count ?i = 1" "scheduler_lock ?i = 0"
    "current_thread ?i = replicate 16 (-1)" "idle_tid ?i = replicate 16 (-1)"
    "threads ?i = map (\<lambda>t. t\<lparr>t_state := THREAD_UNUSED, running_on_core := -1\<rparr>) example_threads"
    by (simp_all add: scheduler_init_def Let_def kernel_example_fields)
  have hi: "heap_inv ?s" using example_chain F by (auto simp: heap_inv_def simp del: chain.simps)
  have ch: "chain (hdr ?s) HEAP_BASE HEAP_END [0x1000000, 0x1004018, 0x1008030, 0x100C048]" using example_chain F by (simp del: chain.simps)
  have "find (fits (hdr ?s) (round_size SCHEDULER_STACK_SIZE)) [0x1000000, 0x1004018, 0x1008030, 0x100C048] = Some 0x100C048"
    by (simp add: F) (simp add: sched_example_def round_size_def)
  then have k: "kmalloc SCHEDULER_STACK_SIZE ?s = Inr (0x100C060, ?s\<lparr>hdr := take_block 0x100C048 (round_size SCHEDULER_STACK_SIZE) (hdr ?s)\<rparr>)"
    using kmalloc_run[OF hi ch, of SCHEDULER_STACK_SIZE] by simp
  have f: "find (\<lambda>i. t_state (threads ?s ! i) = THREAD_UNUSED) [0..<32] = Some 0"
    by (subst upt_conv_Cons) (simp_all add: F example_threads_def)
  show ?thesis using k f
    by (simp add: scheduler_create_idle_threads_def create_idle_thread_def thread_create_ex_def irq_save_disable_def irq_restore_def Let_def F
      smp_cpu_count_def smp_current_cpu_index_def)
qed

subsection \<open>Self-tests\<close>

lemma uint_numeral_byte: "uint (0x68 :: u8) = 0x68" "uint (0x69 :: u8) = 0x69" "uint (0x0A :: u8) = 0x0A"
  by simp_all

lemma inject_items:
  assumes "ring_ok (kbd s)" "length (ring_items (kbd s)) < 63"
  shows "ring_ok (kbd (keyboard_inject_char c s))" "ring_items (kbd (keyboard_inject_char c s)) = ring_items (kbd s) @ [c]"
    "serial_lock (keyboard_inject_char c s) = serial_lock s" "con_out (keyboard_inject_char c s) = con_out s"
  using kbd_queue.push_ok[OF assms(1)] kbd_queue.push_items[OF assms(1)] assms(2) by (simp_all add: keyboard_inject_char_def Let_def)

lemma read_items:
  assumes "ring_ok (kbd s)" "ring_items (kbd s) = c # cs"
  obtains s' where "keyboard_read_char s = (uint c, s')" "ring_ok (kbd s')" "ring_items (kbd s') = cs"
    "serial_lock s' = serial_lock s" "con_out s' = con_out s" "rflags_if s'"
  using kbd_queue.drain[OF assms] by (auto simp: keyboard_read_char_def Let_def)

lemma read_none:
  assumes "ring_ok (kbd s)" "ring_items (kbd s) = []"
  obtains s' where "keyboard_read_char s = (-1, s')" "ring_ok (kbd s')" "ring_items (kbd s') = []"
    "serial_lock s' = serial_lock s" "con_out s' = con_out s" "rflags_if s'"
  using kbd_queue.pop_empty[OF assms] assms by (auto simp: keyboard_read_char_def Let_def)

text \<open>The keyboard self-test passes whenever no key was pressed before it: the three injected characters
  come back in order, the buffer is empty again, and the test reports success on the console.\<close>

theorem keyboard_self_test_passes:
  fixes s :: "('d, 'a) kbd_state_scheme"
  assumes "ring_ok (kbd s)" "ring_items (kbd s) = []" "serial_lock s = 0"
  shows "\<exists>s'. keyboard_self_test s = Inr s' \<and> ring_items (kbd s') = [] \<and> ring_ok (kbd s') \<and> rflags_if s' \<and>
    con_out s' = con_out s @ cstr ''TEST MODE: keyboard self-test passed'' @ [0x0A]"
proof -
  let ?s = "keyboard_inject_char 0x0A (keyboard_inject_char 0x69 (keyboard_inject_char 0x68 s))"
  note a = inject_items[OF assms(1), where c = "0x68", unfolded assms(2)]
  note b = inject_items[OF a(1), where c = "0x69"]
  note c = inject_items[OF b(1), where c = "0x0A"]
  have s: "ring_ok (kbd ?s)" "ring_items (kbd ?s) = [0x68, 0x69, 0x0A]" "serial_lock ?s = 0" "con_out ?s = con_out s"
    using a b c assms(3) by simp_all
  obtain s1 where s1: "keyboard_read_char ?s = (0x68, s1)" "ring_ok (kbd s1)" "ring_items (kbd s1) = [0x69, 0x0A]"
    "serial_lock s1 = 0" "con_out s1 = con_out s" using read_items[OF s(1,2)] s(3,4) by (metis uint_numeral_byte(1))
  obtain s2 where s2: "keyboard_read_char s1 = (0x69, s2)" "ring_ok (kbd s2)" "ring_items (kbd s2) = [0x0A]"
    "serial_lock s2 = 0" "con_out s2 = con_out s" using read_items[OF s1(2,3)] s1(4,5) by (metis uint_numeral_byte(2))
  obtain s3 where s3: "keyboard_read_char s2 = (0x0A, s3)" "ring_ok (kbd s3)" "ring_items (kbd s3) = []"
    "serial_lock s3 = 0" "con_out s3 = con_out s" using read_items[OF s2(2,3)] s2(4,5) by (metis uint_numeral_byte(3))
  obtain s4 where s4: "keyboard_read_char s3 = (-1, s4)" "ring_ok (kbd s4)" "ring_items (kbd s4) = []"
    "serial_lock s4 = 0" "con_out s4 = con_out s" "rflags_if s4" using read_none[OF s3(2,3)] s3(4,5) by metis
  have f: "kv_format (cstr ''TEST MODE: keyboard self-test passed'' @ [0x0A]) [] = Inr (cstr ''TEST MODE: keyboard self-test passed'' @ [0x0A])"
    by (simp add: cstr_def)
  show ?thesis using kvprintf_free[OF s4(4) f] s4 by (simp add: keyboard_self_test_def Let_def s1(1) s2(1) s3(1) s4(1))
qed

theorem keyboard_self_test_passes_witness:
  "\<exists>s'. keyboard_self_test kernel_example = Inr s' \<and> ring_items (kbd s') = []"
proof -
  have "ring_ok (kbd kernel_example)" "ring_items (kbd kernel_example) = []"
    by (simp_all add: kernel_example_fields ring_ok_def ring_items_def ring_count_def)
  from keyboard_self_test_passes[OF this kernel_example_fields(7)] show ?thesis by blast
qed

lemma take_page_console [simp]: "serial_lock (take_page b s) = serial_lock s" "con_out (take_page b s) = con_out s"
  for s :: "('d, 'a) con_state_scheme"
  by (simp_all add: take_page_def bitmap_set_def)

lemma take_free_page:
  assumes "pmm_inv s" "free_set s \<noteq> {}"
  obtains b where "b \<in> free_set s" "pmm_alloc_page s = Inr (b * PMM_PAGE_SIZE, take_page b s)" "pmm_inv (take_page b s)"
    "free_set (take_page b s) = free_set s - {b}" "b * PMM_PAGE_SIZE \<noteq> 0" "unat b < 2 ^ 52" "\<not> in_bitmap s (b * PMM_PAGE_SIZE)"
  using assms(1)
proof (cases rule: pmm_alloc_page_cases)
  case (page b)
  note B = free_set_bound[OF assms(1) page(1)]
  have "\<not> in_bitmap s (b * PMM_PAGE_SIZE)"
    using free_page_not_bitmap[OF assms(1) page(1), of "b * PMM_PAGE_SIZE"] B by (simp add: page_addr_aligned)
  then show ?thesis
    using that page take_page_inv[OF assms(1) page(1)] B by (simp add: free_set_take_page page_addr_nonzero)
qed (use assms(2) in simp)

lemma give_back_page:
  assumes "pmm_inv s" "b < bitmap_bits s" "unat b < 2 ^ 52" "b \<notin> free_set s" "\<not> reserved_page s b"
  obtains m n where "pmm_free_page (b * PMM_PAGE_SIZE) s = Inr (s\<lparr>mem := m, free_pages := n\<rparr>)" "pmm_inv (s\<lparr>mem := m, free_pages := n\<rparr>)"
    "free_set (s\<lparr>mem := m, free_pages := n\<rparr>) = insert b (free_set s)"
proof -
  have d: "b * PMM_PAGE_SIZE div PMM_PAGE_SIZE = b" using assms(3) by (rule page_addr_div)
  obtain s' where s': "pmm_free_page (b * PMM_PAGE_SIZE) s = Inr s'" "tracks s (insert b (free_set s)) s'"
    using pmm_free_page_tracks[OF assms(1), of "b * PMM_PAGE_SIZE"] assms(2,4) unfolding d by blast
  have "pmm_inv s'" by (rule tracks_pmm_inv[OF s'(2) assms(1)]) (use assms(5) not_free_reserved[OF assms(1)] in blast)
  then show ?thesis using that s' unfolding tracks_def by blast
qed

lemma reserved_same: "bitmap t = bitmap s \<Longrightarrow> bitmap_bits t = bitmap_bits s \<Longrightarrow> reserved_page t = reserved_page s"
  by (rule ext, rule reserved_page_cong) simp_all

lemma give_back_two:
  fixes s :: "('d, 'a) con_state_scheme"
  assumes "pmm_inv s" "b1 < bitmap_bits s" "b2 < bitmap_bits s" "unat b1 < 2 ^ 52" "unat b2 < 2 ^ 52" "b1 \<notin> free_set s" "b2 \<notin> free_set s"
    "b2 \<noteq> b1" "\<not> reserved_page s b1" "\<not> reserved_page s b2"
  obtains t s' where "pmm_free_page (b1 * PMM_PAGE_SIZE) s = Inr t" "pmm_free_page (b2 * PMM_PAGE_SIZE) t = Inr s'" "pmm_inv s'"
    "free_set s' = insert b2 (insert b1 (free_set s))" "serial_lock s' = serial_lock s" "con_out s' = con_out s" "free_pages s' = free_pages s + 2"
proof -
  obtain m n where t: "pmm_free_page (b1 * PMM_PAGE_SIZE) s = Inr (s\<lparr>mem := m, free_pages := n\<rparr>)" "pmm_inv (s\<lparr>mem := m, free_pages := n\<rparr>)"
    "free_set (s\<lparr>mem := m, free_pages := n\<rparr>) = insert b1 (free_set s)"
    by (rule give_back_page[OF assms(1,2,4,6,9)])
  let ?t = "s\<lparr>mem := m, free_pages := n\<rparr>"
  have R: "reserved_page ?t = reserved_page s" by (rule reserved_same) simp_all
  obtain m' n' where u: "pmm_free_page (b2 * PMM_PAGE_SIZE) ?t = Inr (?t\<lparr>mem := m', free_pages := n'\<rparr>)" "pmm_inv (?t\<lparr>mem := m', free_pages := n'\<rparr>)"
    "free_set (?t\<lparr>mem := m', free_pages := n'\<rparr>) = insert b2 (free_set ?t)"
    by (rule give_back_page[OF t(2) _ assms(5)]) (simp_all add: assms t(3) R)
  define s' where "s' = ?t\<lparr>mem := m', free_pages := n'\<rparr>"
  note u = u[folded s'_def, unfolded t(3)]
  have "unat (free_pages s') = unat (free_pages s) + 2"
    using pmm_invD(4)[OF u(2)] pmm_invD(4)[OF assms(1)] assms(6,7,8) by (simp add: u(3))
  then have "(of_nat (unat (free_pages s')) :: u64) = of_nat (unat (free_pages s) + 2)" by (simp only:)
  then have "free_pages s' = free_pages s + 2" by simp
  then show ?thesis using that t(1) u by (simp add: s'_def)
qed

text \<open>C24. The page self-test passes whenever two pages are free: it gets two different pages, both hold what
  is written to them, both are free again after it frees them and the count says so; it keeps one page.\<close>

theorem pmm_self_test_passes:
  fixes s :: "('d, 'a) con_state_scheme"
  assumes inv: "pmm_inv s" and two: "2 \<le> card (free_set s)" and l: "serial_lock s = 0"
  shows "\<exists>s'. pmm_self_test s = Inr s' \<and> pmm_inv s' \<and> (\<exists>b\<in>free_set s. free_set s' = free_set s - {b}) \<and>
    con_out s' = con_out s @ cstr ''TEST MODE: pmm self-test passed'' @ [0x0A]"
proof -
  have "free_set s \<noteq> {}" using two by auto
  from take_free_page[OF inv this] obtain b1 where b1: "b1 \<in> free_set s" "pmm_alloc_page s = Inr (b1 * PMM_PAGE_SIZE, take_page b1 s)"
    "pmm_inv (take_page b1 s)" "free_set (take_page b1 s) = free_set s - {b1}" "b1 * PMM_PAGE_SIZE \<noteq> 0" "unat b1 < 2 ^ 52"
    "\<not> in_bitmap s (b1 * PMM_PAGE_SIZE)" .
  let ?s1 = "take_page b1 s" and ?p1 = "b1 * PMM_PAGE_SIZE"
  have "card (free_set ?s1) \<noteq> 0" using two b1(1) by (simp add: b1(4))
  then have "free_set ?s1 \<noteq> {}" by auto
  from take_free_page[OF b1(3) this] obtain b2 where b2: "b2 \<in> free_set ?s1" "pmm_alloc_page ?s1 = Inr (b2 * PMM_PAGE_SIZE, take_page b2 ?s1)"
    "pmm_inv (take_page b2 ?s1)" "free_set (take_page b2 ?s1) = free_set ?s1 - {b2}" "b2 * PMM_PAGE_SIZE \<noteq> 0" "unat b2 < 2 ^ 52"
    "\<not> in_bitmap ?s1 (b2 * PMM_PAGE_SIZE)" .
  let ?s2 = "take_page b2 ?s1" and ?p2 = "b2 * PMM_PAGE_SIZE"
  have b: "b1 \<in> free_set s" "b2 \<in> free_set s" "b2 \<noteq> b1" using b1(1) b2(1) b1(4) by auto
  have ne: "?p1 \<noteq> ?p2" using b(3) b1(6) b2(6) by (simp add: page_addr_inj)
  define s3 where "s3 = ?s2\<lparr>mem := (mem ?s2)(?p1 := 0xAB, ?p2 := 0xCD)\<rparr>"
  have keep: "((mem ?s2)(?p1 := 0xAB, ?p2 := 0xCD)) a = mem ?s2 a" if "in_bitmap ?s2 a" for a
  proof -
    have "in_bitmap s a" using that by simp
    then have "a \<noteq> ?p1" "a \<noteq> ?p2" using b1(7) b2(7) by (metis take_page_frame(2))+
    then show ?thesis by simp
  qed
  have F: "pmm_inv s3" "free_set s3 = free_set ?s2" unfolding s3_def by (rule pmm_inv_frame[OF b2(3)], erule keep)+
  have s3: "pmm_inv s3" "free_set s3 = free_set s - {b1, b2}" by (rule F(1)) (unfold F(2) b2(4) b1(4), blast)
  have R: "reserved_page s3 = reserved_page s" by (rule reserved_same) (simp_all add: s3_def)
  have u: "\<not> reserved_page s b1" "\<not> reserved_page s b2" using not_free_reserved[OF inv] b by blast+
  have lt: "b1 < bitmap_bits s3" "b2 < bitmap_bits s3" using b by (simp_all add: free_set_def s3_def)
  have n: "b1 \<notin> free_set s3" "b2 \<notin> free_set s3" by (simp_all add: s3(2))
  obtain s4 s5 where s5: "pmm_free_page ?p1 s3 = Inr s4" "pmm_free_page ?p2 s4 = Inr s5" "pmm_inv s5"
    "free_set s5 = insert b2 (insert b1 (free_set s3))" "serial_lock s5 = serial_lock s3" "con_out s5 = con_out s3" "free_pages s5 = free_pages s3 + 2"
    by (rule give_back_two[OF s3(1) lt b1(6) b2(6) n b(3) u[folded R]])
  have f5: "free_set s5 = free_set s" unfolding s5(4) s3(2) using b by blast
  have con: "serial_lock s5 = 0" "con_out s5 = con_out s" "free_pages s3 = free_pages s - 2" using l s5(5,6) by (simp_all add: s3_def)
  have "free_set s5 \<noteq> {}" using f5 b(1) by auto
  from take_free_page[OF s5(3) this] obtain b3 where b3: "b3 \<in> free_set s5" "pmm_alloc_page s5 = Inr (b3 * PMM_PAGE_SIZE, take_page b3 s5)"
    "pmm_inv (take_page b3 s5)" "free_set (take_page b3 s5) = free_set s5 - {b3}" "b3 * PMM_PAGE_SIZE \<noteq> 0" .
  let ?s6 = "take_page b3 s5"
  have f: "kv_format (cstr ''TEST MODE: pmm self-test passed'' @ [0x0A]) [] = Inr (cstr ''TEST MODE: pmm self-test passed'' @ [0x0A])"
    by (simp add: cstr_def)
  let ?s7 = "?s6\<lparr>serial_lock := 1, con_out := con_out ?s6 @ cstr ''TEST MODE: pmm self-test passed'' @ [0x0A], serial_lock := 0\<rparr>"
  have "pmm_self_test s = Inr ?s7"
    using kvprintf_free[OF _ f, of ?s6] con ne
    by (simp add: pmm_self_test_def Let_def b1(2,5) b2(2,5) s3_def[symmetric] s5(1,2,7) b3(2,5) pmm_free_page_count_def)
  moreover have "pmm_inv ?s7 = pmm_inv ?s6" "free_set ?s7 = free_set ?s6" by (rule pmm_inv_cong, simp add: pmm_state.defs)+
  ultimately show ?thesis using b3 f5 con by auto
qed

definition pages_example :: "unit test_state" where
  "pages_example = kernel_example\<lparr>mem := mem pmm_example, bitmap := bitmap pmm_example, bitmap_bits := bitmap_bits pmm_example,
     free_pages := free_pages pmm_example, search_hint := search_hint pmm_example, pmm_lock := pmm_lock pmm_example,
     rflags_if := rflags_if pmm_example\<rparr>"

theorem pmm_self_test_passes_witness: "\<exists>s'. pmm_self_test pages_example = Inr s' \<and> card (free_set s') = 1"
proof -
  have "pmm_state.truncate pages_example = pmm_state.truncate pmm_example" by (simp add: pages_example_def pmm_state.defs)
  note C = pmm_inv_cong[OF this]
  have "serial_lock pages_example = 0" by (simp add: pages_example_def kernel_example_fields)
  moreover have f: "free_set pages_example = {2, 3}" unfolding C(2) by (rule pmm_example_free)
  moreover have "pmm_inv pages_example" unfolding C(1) by (rule pmm_example_inv)
  ultimately show ?thesis using pmm_self_test_passes[of pages_example] by (auto simp: insert_Diff_if)
qed

end
