(* ===== verification/Boot_Loader.thy ===== *)
theory Boot_Loader
  imports Elf_Loader Boot_Info
begin

section \<open>The UEFI boot loader (boot/src/main.c, boot/include/efi.h, efi_file.h, efi_gop.h)\<close>

text \<open>
  The loader finds \<open>kernel.elf\<close> on the volume it was started from, loads its segments at their physical
  addresses, collects what the kernel needs to know and leaves the firmware. The firmware is code outside
  the repository: a record of functions, one for each service called, on a state of any type \<open>'f\<close> and on
  memory. Structures the firmware owns are read from memory at the offsets of the C layout. What goes to the
  serial port is collected in \<open>boot_log\<close>; \<open>fatal\<close> is the error \<open>Panic\<close>.
\<close>

subsection \<open>Types of the interface\<close>

type_synonym efi_status = u64

definition EFI_ERROR :: "efi_status \<Rightarrow> bool" where
  "EFI_ERROR status \<longleftrightarrow> status <s 0"

abbreviation EFI_BUFFER_TOO_SMALL :: efi_status where "EFI_BUFFER_TOO_SMALL \<equiv> 0x8000000000000005"
abbreviation SIZEOF_PHDR :: u64 where "SIZEOF_PHDR \<equiv> 56"
abbreviation SIZEOF_BOOT_INFO :: u64 where "SIZEOF_BOOT_INFO \<equiv> 88"
abbreviation SIZEOF_CONFIGURATION_TABLE :: u64 where "SIZEOF_CONFIGURATION_TABLE \<equiv> 24"

record efi_guid =
  Data1 :: u32
  Data2 :: u16
  Data3 :: u16
  Data4 :: "u8 list"

definition guid_at :: "mem \<Rightarrow> u64 \<Rightarrow> efi_guid" where
  "guid_at m a = \<lparr>Data1 = load32 m a, Data2 = load16 m (a + 4), Data3 = load16 m (a + 6), Data4 = bytes_at m (a + 8) 8\<rparr>"

definition guid_equal :: "efi_guid \<Rightarrow> efi_guid \<Rightarrow> bool" where
  "guid_equal a b \<longleftrightarrow> Data1 a = Data1 b \<and> Data2 a = Data2 b \<and> Data3 a = Data3 b \<and> Data4 a = Data4 b"

definition gEfiLoadedImageProtocolGuid :: efi_guid where
  "gEfiLoadedImageProtocolGuid = \<lparr>Data1 = 0x5B1B31A1, Data2 = 0x9562, Data3 = 0x11D2,
     Data4 = [0x8E, 0x3F, 0x00, 0xA0, 0xC9, 0x69, 0x72, 0x3B]\<rparr>"

definition gEfiSimpleFileSystemProtocolGuid :: efi_guid where
  "gEfiSimpleFileSystemProtocolGuid = \<lparr>Data1 = 0x964E5B22, Data2 = 0x6459, Data3 = 0x11D2,
     Data4 = [0x8E, 0x39, 0x00, 0xA0, 0xC9, 0x69, 0x72, 0x3B]\<rparr>"

definition gEfiFileInfoGuid :: efi_guid where
  "gEfiFileInfoGuid = \<lparr>Data1 = 0x09576E92, Data2 = 0x6D3F, Data3 = 0x11D2,
     Data4 = [0x8E, 0x39, 0x00, 0xA0, 0xC9, 0x69, 0x72, 0x3B]\<rparr>"

definition gEfiGraphicsOutputProtocolGuid :: efi_guid where
  "gEfiGraphicsOutputProtocolGuid = \<lparr>Data1 = 0x9042A9DE, Data2 = 0x23DC, Data3 = 0x4A38,
     Data4 = [0x96, 0xFB, 0x7A, 0xDE, 0xD0, 0x80, 0x51, 0x6A]\<rparr>"

definition gEfiAcpi20TableGuid :: efi_guid where
  "gEfiAcpi20TableGuid = \<lparr>Data1 = 0x8868E871, Data2 = 0xE4F1, Data3 = 0x11D3,
     Data4 = [0xBC, 0x22, 0x00, 0x80, 0xC7, 0x3C, 0x88, 0x81]\<rparr>"

definition gEfiAcpi10TableGuid :: efi_guid where
  "gEfiAcpi10TableGuid = \<lparr>Data1 = 0xEB9D2D30, Data2 = 0x2D88, Data3 = 0x11D3,
     Data4 = [0x9A, 0x16, 0x00, 0x90, 0x27, 0x3F, 0xC1, 0x4D]\<rparr>"

text \<open>The services. A pointer the firmware fills in is part of the result; of \<open>GetMemoryMap\<close> it is the
  size, the key, the descriptor size and the version, the map itself going to the buffer.\<close>

type_synonym 'f world = "'f \<times> mem"

record memory_map =
  mm_size :: u64
  mm_key :: u64
  mm_desc_size :: u64
  mm_desc_version :: u32

record 'f firmware =
  HandleProtocol :: "u64 \<Rightarrow> efi_guid \<Rightarrow> 'f world \<Rightarrow> (efi_status \<times> u64) \<times> 'f world"
  LocateProtocol :: "efi_guid \<Rightarrow> 'f world \<Rightarrow> (efi_status \<times> u64) \<times> 'f world"
  OpenVolume :: "u64 \<Rightarrow> 'f world \<Rightarrow> (efi_status \<times> u64) \<times> 'f world"
  File_Open :: "u64 \<Rightarrow> u8 list \<Rightarrow> 'f world \<Rightarrow> (efi_status \<times> u64) \<times> 'f world"
  File_GetInfo :: "u64 \<Rightarrow> efi_guid \<Rightarrow> 'f world \<Rightarrow> (efi_status \<times> u64) \<times> 'f world"
  File_Read :: "u64 \<Rightarrow> u64 \<Rightarrow> u64 \<Rightarrow> 'f world \<Rightarrow> (efi_status \<times> u64) \<times> 'f world"
  File_Close :: "u64 \<Rightarrow> 'f world \<Rightarrow> efi_status \<times> 'f world"
  AllocatePool :: "u64 \<Rightarrow> 'f world \<Rightarrow> (efi_status \<times> u64) \<times> 'f world"
  FreePool :: "u64 \<Rightarrow> 'f world \<Rightarrow> efi_status \<times> 'f world"
  AllocatePages :: "u64 \<Rightarrow> u64 \<Rightarrow> 'f world \<Rightarrow> efi_status \<times> 'f world"
  GetMemoryMap :: "u64 \<Rightarrow> u64 \<Rightarrow> 'f world \<Rightarrow> (efi_status \<times> memory_map) \<times> 'f world"
  ExitBootServices :: "u64 \<Rightarrow> u64 \<Rightarrow> 'f world \<Rightarrow> efi_status \<times> 'f world"

record 'f boot_state = machine +
  fw :: 'f
  boot_log :: "u8 list"

text \<open>A call of a service.\<close>

definition call_fw :: "('f world \<Rightarrow> 'r \<times> 'f world) \<Rightarrow> ('f, 'a) boot_state_scheme \<Rightarrow> 'r \<times> ('f, 'a) boot_state_scheme" where
  "call_fw f s = (case f (fw s, mem s) of (r, w, m) \<Rightarrow> (r, s\<lparr>fw := w, mem := m\<rparr>))"

definition checked ::
  "string \<Rightarrow> ('f world \<Rightarrow> (efi_status \<times> 'r) \<times> 'f world) \<Rightarrow> ('f, 'a) boot_state_scheme \<Rightarrow> ('r \<times> ('f, 'a) boot_state_scheme) res" where
  "checked msg f s =
     (case call_fw f s of ((status, r), s) \<Rightarrow> if EFI_ERROR status then Inl (Panic msg) else Inr (r, s))"

subsection \<open>Helpers of the loader\<close>

definition boot_print :: "u8 list \<Rightarrow> ('f, 'a) boot_state_scheme \<Rightarrow> ('f, 'a) boot_state_scheme" where
  "boot_print cs s = s\<lparr>boot_log := boot_log s @ cs\<rparr>"

definition log_hex :: "u64 \<Rightarrow> ('f, 'a) boot_state_scheme \<Rightarrow> ('f, 'a) boot_state_scheme" where
  "log_hex v s =
     boot_print (cstr ''0x'' @ map (\<lambda>i. let nibble = drop_bit ((15 - i) * 4) v AND 0xF
       in ucast (if nibble < 10 then 0x30 + nibble else 0x61 + nibble - 10)) [0..<16]) s"

text \<open>The loop over the configuration table: the entries left, the next one, the fallback so far.\<close>

primrec acpi_loop :: "mem \<Rightarrow> nat \<Rightarrow> u64 \<Rightarrow> u64 \<Rightarrow> u64" where
  "acpi_loop m 0 entry acpi1_table = acpi1_table"
| "acpi_loop m (Suc n) entry acpi1_table =
     (if guid_equal (guid_at m entry) gEfiAcpi20TableGuid then load64 m (entry + 16)
      else acpi_loop m n (entry + SIZEOF_CONFIGURATION_TABLE)
        (if guid_equal (guid_at m entry) gEfiAcpi10TableGuid then load64 m (entry + 16) else acpi1_table))"

definition find_acpi_rsdp :: "mem \<Rightarrow> u64 \<Rightarrow> u64" where
  "find_acpi_rsdp m system_table = acpi_loop m (unat (load64 m (system_table + 104))) (load64 m (system_table + 112)) 0"

subsection \<open>Loading the kernel\<close>

definition load_kernel_segment ::
  "'f firmware \<Rightarrow> u64 \<Rightarrow> u64 \<Rightarrow> nat \<Rightarrow> ('f, 'a) boot_state_scheme \<Rightarrow> ('f, 'a) boot_state_scheme res" where
  "load_kernel_segment efi file_buffer phdrs i s =
     (let ph = phdr_at (mem s) (phdrs + of_nat i * SIZEOF_PHDR) in
      if p_type ph \<noteq> PT_LOAD then Inr s
      else
        let pages = (p_memsz ph + 4095) div 4096;
            (status, s) = call_fw (AllocatePages efi (p_paddr ph) pages) s;
            ph = phdr_at (mem s) (phdrs + of_nat i * SIZEOF_PHDR)
        in if EFI_ERROR status then Inl (Panic ''AllocatePages(PT_LOAD segment) failed'')
           else
             let s = s\<lparr>mem := memcpy (p_paddr ph) (file_buffer + p_offset ph) (p_filesz ph) (mem s)\<rparr>;
                 ph = phdr_at (mem s) (phdrs + of_nat i * SIZEOF_PHDR)
             in Inr (if p_memsz ph > p_filesz ph
                  then s\<lparr>mem := memset (p_paddr ph + p_filesz ph) 0 (p_memsz ph - p_filesz ph) (mem s)\<rparr> else s))"

definition load_kernel :: "'f firmware \<Rightarrow> u64 \<Rightarrow> ('f, 'a) boot_state_scheme \<Rightarrow> (u64 \<times> ('f, 'a) boot_state_scheme) res" where
  "load_kernel efi file_buffer s =
     (let ehdr = ehdr_at (mem s) file_buffer in
      if \<not> elf_magic_ok ehdr then Inl (Panic ''kernel.elf: bad ELF magic'')
      else if e_ident ehdr ! 4 \<noteq> ELFCLASS64 \<or> e_machine ehdr \<noteq> EM_X86_64 then Inl (Panic ''kernel.elf: not a 64-bit x86_64 ELF'')
      else
        rbind (rfold (load_kernel_segment efi file_buffer (file_buffer + e_phoff ehdr)) [0..<unat (e_phnum ehdr)] s) (\<lambda>s.
        let kernel_entry_addr = e_entry (ehdr_at (mem s) file_buffer);
            s = boot_print (cstr ''kernel entry point: '') s;
            s = log_hex kernel_entry_addr s
        in Inr (kernel_entry_addr, boot_print [0x0A] s)))"

definition read_kernel_file ::
  "'f firmware \<Rightarrow> u64 \<Rightarrow> ('f, 'a) boot_state_scheme \<Rightarrow> (u64 \<times> ('f, 'a) boot_state_scheme) res" where
  "read_kernel_file efi ImageHandle s =
     rbind (checked ''HandleProtocol(LoadedImage) failed'' (HandleProtocol efi ImageHandle gEfiLoadedImageProtocolGuid) s) (\<lambda>(loaded_image, s).
     let device_handle = load64 (mem s) (loaded_image + 24) in
     rbind (checked ''HandleProtocol(SimpleFileSystem) failed'' (HandleProtocol efi device_handle gEfiSimpleFileSystemProtocolGuid) s) (\<lambda>(fs, s).
     rbind (checked ''OpenVolume failed'' (OpenVolume efi fs) s) (\<lambda>(root, s).
     rbind (checked ''cannot open kernel.elf on the ESP'' (File_Open efi root ([0x5C] @ cstr ''kernel.elf'')) s) (\<lambda>(kernel_file, s).
     rbind (checked ''GetInfo(kernel.elf) failed'' (File_GetInfo efi kernel_file gEfiFileInfoGuid) s) (\<lambda>(kernel_file_size, s).
     let s = boot_print (cstr ''kernel.elf size: '') s;
         s = log_hex kernel_file_size s;
         s = boot_print [0x0A] s
     in rbind (checked ''AllocatePool(kernel file buffer) failed'' (AllocatePool efi kernel_file_size) s) (\<lambda>(kernel_file_buffer, s).
        case call_fw (File_Read efi kernel_file kernel_file_size kernel_file_buffer) s of ((status, read_size), s) \<Rightarrow>
          if EFI_ERROR status \<or> read_size \<noteq> kernel_file_size then Inl (Panic ''Read(kernel.elf) failed'')
          else case call_fw (File_Close efi kernel_file) s of (status, s) \<Rightarrow> Inr (kernel_file_buffer, s)))))))"

subsection \<open>The handoff\<close>

definition zero_boot_info :: boot_info where
  "zero_boot_info = \<lparr>magic = 0, framebuffer = \<lparr>fb_base = 0, fb_size = 0, fb_width = 0, fb_height = 0, pixels_per_scanline = 0,
     bytes_per_pixel = 0, red_shift = 0, green_shift = 0, blue_shift = 0\<rparr>, memory_map_addr = 0, memory_map_size = 0,
     memory_map_descriptor_size = 0, memory_map_descriptor_version = 0, acpi_rsdp_addr = 0\<rparr>"

text \<open>The framebuffer of the graphics protocol's current mode: \<open>gop->Mode\<close> at offset 24, its \<open>Info\<close> at 8.\<close>

definition gop_framebuffer :: "mem \<Rightarrow> u64 \<Rightarrow> boot_framebuffer res" where
  "gop_framebuffer m gop =
     (let mode = load64 m (gop + 24);
          mode_info = load64 m (mode + 8);
          pixel_format = load32 m (mode_info + 12);
          fb = framebuffer zero_boot_info;
          rest = (\<lambda>fb. Inr (fb\<lparr>fb_base := load64 m (mode + 24), fb_size := load64 m (mode + 32),
            fb_width := load32 m (mode_info + 4), fb_height := load32 m (mode_info + 8),
            pixels_per_scanline := load32 m (mode_info + 32), bytes_per_pixel := 4\<rparr>))
      in if pixel_format = 0 then rest (fb\<lparr>red_shift := 0, green_shift := 8, blue_shift := 16\<rparr>)
         else if pixel_format = 1 then rest (fb\<lparr>red_shift := 16, green_shift := 8, blue_shift := 0\<rparr>)
         else Inl (Panic ''GOP pixel format unsupported (need packed 32bpp RGB/BGR)''))"

text \<open>One attempt to leave the firmware: the map, its buffer, and whether the firmware let go.\<close>

definition exit_attempt ::
  "'f firmware \<Rightarrow> u64 \<Rightarrow> u64 \<Rightarrow> ('f, 'a) boot_state_scheme \<Rightarrow> ((memory_map \<times> u64 \<times> bool) \<times> ('f, 'a) boot_state_scheme) res" where
  "exit_attempt efi ImageHandle map_buffer s =
     (case call_fw (GetMemoryMap efi 0 0) s of ((status, mm), s) \<Rightarrow>
        if status \<noteq> EFI_BUFFER_TOO_SMALL then Inl (Panic ''GetMemoryMap(sizing) returned unexpected status'')
        else
          let map_size = mm_size mm + mm_desc_size mm * 8;
              s = (if map_buffer \<noteq> 0 then snd (call_fw (FreePool efi map_buffer) s) else s)
          in rbind (checked ''AllocatePool(memory map) failed'' (AllocatePool efi map_size) s) (\<lambda>(map_buffer, s).
             rbind (checked ''GetMemoryMap(fetch) failed'' (GetMemoryMap efi map_size map_buffer) s) (\<lambda>(mm, s).
             case call_fw (ExitBootServices efi ImageHandle (mm_key mm)) s of (status, s) \<Rightarrow>
               Inr ((mm, map_buffer, \<not> EFI_ERROR status), s))))"

primrec exit_boot_loop ::
  "'f firmware \<Rightarrow> u64 \<Rightarrow> nat \<Rightarrow> u64 \<Rightarrow> ('f, 'a) boot_state_scheme \<Rightarrow> ((memory_map \<times> u64) \<times> ('f, 'a) boot_state_scheme) res" where
  "exit_boot_loop efi ImageHandle 0 map_buffer s = Inl (Panic ''ExitBootServices failed after retries'')"
| "exit_boot_loop efi ImageHandle (Suc n) map_buffer s =
     rbind (exit_attempt efi ImageHandle map_buffer s) (\<lambda>((mm, map_buffer, left), s).
     if left then Inr ((mm, map_buffer), s) else exit_boot_loop efi ImageHandle n map_buffer s)"

text \<open>The result is the call of the kernel: its entry point and the argument.\<close>

definition efi_main ::
  "'f firmware \<Rightarrow> u64 \<Rightarrow> u64 \<Rightarrow> ('f, 'a) boot_state_scheme \<Rightarrow> ((u64 \<times> u64 \<times> boot_info) \<times> ('f, 'a) boot_state_scheme) res" where
  "efi_main efi ImageHandle SystemTable s =
     (let s = boot_print (cstr ''RebornOS bootloader: starting'' @ [0x0A]) s in
      rbind (read_kernel_file efi ImageHandle s) (\<lambda>(kernel_file_buffer, s).
      rbind (load_kernel efi kernel_file_buffer s) (\<lambda>(kernel_entry_addr, s).
      rbind (checked ''LocateProtocol(GOP) failed'' (LocateProtocol efi gEfiGraphicsOutputProtocolGuid) s) (\<lambda>(gop, s).
      rbind (checked ''AllocatePool(boot_info) failed'' (AllocatePool efi SIZEOF_BOOT_INFO) s) (\<lambda>(info_ptr, s).
      rbind (gop_framebuffer (mem s) gop) (\<lambda>fb.
      let info = zero_boot_info\<lparr>framebuffer := fb\<rparr>;
          s = boot_print (cstr ''framebuffer: '') s;
          s = log_hex (ucast (fb_width fb)) s;
          s = boot_print (cstr '' x '') s;
          s = log_hex (ucast (fb_height fb)) s;
          s = boot_print (cstr '' @ '') s;
          s = log_hex (fb_base fb) s;
          s = boot_print [0x0A] s;
          info = info\<lparr>acpi_rsdp_addr := find_acpi_rsdp (mem s) SystemTable\<rparr>;
          s = boot_print (cstr ''acpi rsdp: '') s;
          s = log_hex (acpi_rsdp_addr info) s;
          s = boot_print [0x0A] s
      in rbind (exit_boot_loop efi ImageHandle 3 0 s) (\<lambda>((mm, map_buffer), s).
         let info = info\<lparr>memory_map_addr := map_buffer, memory_map_size := mm_size mm,
               memory_map_descriptor_size := mm_desc_size mm, memory_map_descriptor_version := mm_desc_version mm,
               magic := BOOT_INFO_MAGIC\<rparr>
         in Inr ((kernel_entry_addr, info_ptr, info), s))))))))"

end
