(* ===== verification/Boot_Spec.thy ===== *)
theory Boot_Spec
  imports Boot_Loader Buffers
begin

section \<open>What the boot loader hands to the kernel\<close>

text \<open>
  Two properties of the loader, for any firmware: the handoff record the kernel is called with, and the
  kernel image in memory. The example firmware at the end of each part runs the loader on concrete images.
\<close>

subsection \<open>The handoff\<close>

lemma checkedD:
  assumes "checked msg f s = Inr (r, s')"
  obtains st where "f (fw s, mem s) = ((st, r), fw s', mem s')" "\<not> EFI_ERROR st"
  using assms by (auto simp: checked_def call_fw_def split: prod.splits if_splits)

text \<open>What it takes to leave the firmware: the map fetched last is the one whose key the firmware accepts,
  and nothing is called in between.\<close>

definition left_firmware :: "'f firmware \<Rightarrow> u64 \<Rightarrow> memory_map \<Rightarrow> u64 \<Rightarrow> 'f world \<Rightarrow> bool" where
  "left_firmware efi ImageHandle mm map_buffer w \<longleftrightarrow>
     (\<exists>size w1 w2 st st'. GetMemoryMap efi size map_buffer w1 = ((st, mm), w2) \<and> \<not> EFI_ERROR st \<and>
        ExitBootServices efi ImageHandle (mm_key mm) w2 = (st', w) \<and> \<not> EFI_ERROR st')"

lemma exit_attempt_leaves:
  assumes "exit_attempt efi ih b s = Inr ((mm, b', True), s')"
  shows "left_firmware efi ih mm b' (fw s', mem s')"
proof -
  from assms obtain s1 s3 n where a: "checked ''GetMemoryMap(fetch) failed'' (GetMemoryMap efi n b') s1 = Inr (mm, s3)"
    "\<not> EFI_ERROR (fst (call_fw (ExitBootServices efi ih (mm_key mm)) s3))" "snd (call_fw (ExitBootServices efi ih (mm_key mm)) s3) = s'"
    by (auto simp: exit_attempt_def Let_def rbind_eq_Inr split_beta split: if_splits)
  from checkedD[OF a(1)] obtain st where g: "GetMemoryMap efi n b' (fw s1, mem s1) = ((st, mm), fw s3, mem s3)" "\<not> EFI_ERROR st" .
  obtain st' w where e: "ExitBootServices efi ih (mm_key mm) (fw s3, mem s3) = (st', w)" by (rule prod.exhaust)
  have "(fw s', mem s') = w" "\<not> EFI_ERROR st'" using a(2,3) e by (auto simp: call_fw_def split_beta)
  then show ?thesis using g e unfolding left_firmware_def by blast
qed

lemma exit_boot_loop_leaves:
  "exit_boot_loop efi ih n b s = Inr ((mm, b'), s') \<Longrightarrow> left_firmware efi ih mm b' (fw s', mem s')"
proof (induction n arbitrary: b s)
  case (Suc n)
  then obtain mm1 b1 left s1 where a: "exit_attempt efi ih b s = Inr ((mm1, b1, left), s1)"
    "(if left then Inr ((mm1, b1), s1) else exit_boot_loop efi ih n b1 s1) = Inr ((mm, b'), s')"
    by (auto simp: rbind_eq_Inr split: prod.splits)
  show ?case
  proof (cases left)
    case True
    then show ?thesis using a exit_attempt_leaves[of efi ih b s mm b' s'] by simp
  next
    case False
    then show ?thesis using a(2) Suc.IH by simp
  qed
qed simp

lemma gop_framebuffer_formats:
  assumes "gop_framebuffer m gop = Inr fb"
  shows "bytes_per_pixel fb = 4" "(red_shift fb, green_shift fb, blue_shift fb) \<in> {(0, 8, 16), (16, 8, 0)}"
  using assms by (auto simp: gop_framebuffer_def Let_def split: if_splits)

text \<open>C6. The kernel is entered with a valid handoff. If the loader gets as far as calling the kernel, then
  the boot information carries the magic number \<open>kmain\<close> checks, a 32-bit RGB or BGR framebuffer, and exactly
  the memory map whose key the firmware accepted in \<open>ExitBootServices\<close>; between fetching that map and leaving,
  and after leaving, no firmware service is called.\<close>

theorem efi_main_handoff:
  assumes "efi_main efi ih st s = Inr ((entry, ptr, info), s')"
  shows "magic info = BOOT_INFO_MAGIC \<and> bytes_per_pixel (framebuffer info) = 4 \<and>
    (red_shift (framebuffer info), green_shift (framebuffer info), blue_shift (framebuffer info)) \<in> {(0, 8, 16), (16, 8, 0)} \<and>
    (\<exists>mm. left_firmware efi ih mm (memory_map_addr info) (fw s', mem s') \<and> memory_map_size info = mm_size mm \<and>
       memory_map_descriptor_size info = mm_desc_size mm \<and> memory_map_descriptor_version info = mm_desc_version mm)"
proof -
  from assms obtain gop m fb mm b s2 where
    g: "gop_framebuffer m gop = Inr fb" and x: "exit_boot_loop efi ih 3 0 s2 = Inr ((mm, b), s')"
    and i: "framebuffer info = fb" "memory_map_addr info = b" "memory_map_size info = mm_size mm"
      "memory_map_descriptor_size info = mm_desc_size mm" "memory_map_descriptor_version info = mm_desc_version mm" "magic info = BOOT_INFO_MAGIC"
    by (auto simp: efi_main_def Let_def rbind_eq_Inr split: prod.splits)
  show ?thesis using gop_framebuffer_formats[OF g] exit_boot_loop_leaves[OF x] i by auto
qed

text \<open>A firmware that has a kernel image without segments at \<open>0xA000\<close> and whose tables read as zero.\<close>

definition efi_example :: "unit firmware" where
  "efi_example = \<lparr>HandleProtocol = (\<lambda>h g w. ((0, 0x9000), w)), LocateProtocol = (\<lambda>g w. ((0, 0xB000), w)), OpenVolume = (\<lambda>f w. ((0, 0x9100), w)),
     File_Open = (\<lambda>r n w. ((0, 0x9200), w)), File_GetInfo = (\<lambda>f g w. ((0, 64), w)), File_Read = (\<lambda>f n b w. ((0, n), w)),
     File_Close = (\<lambda>f w. (0, w)), AllocatePool = (\<lambda>n w. ((0, 0xA000), w)), FreePool = (\<lambda>b w. (0, w)), AllocatePages = (\<lambda>a n w. (0, w)),
     GetMemoryMap = (\<lambda>n b w. ((if n = 0 then EFI_BUFFER_TOO_SMALL else 0, \<lparr>mm_size = 480, mm_key = 7, mm_desc_size = 48, mm_desc_version = 1\<rparr>), w)),
     ExitBootServices = (\<lambda>h k w. (if k = 7 then 0 else EFI_BUFFER_TOO_SMALL, w))\<rparr>"

definition loader_example :: "unit boot_state" where
  "loader_example = \<lparr>mem = (\<lambda>_. 0)(0xA000 := 0x7F, 0xA001 := 0x45, 0xA002 := 0x4C, 0xA003 := 0x46, 0xA004 := 2, 0xA012 := 62),
     rflags_if = False, fw = (), boot_log = []\<rparr>"

lemmas efi_example_simps = EFI_ERROR_def checked_def call_fw_def efi_example_def boot_print_def log_hex_def

lemma loader_example_run: "\<exists>entry ptr info s'. efi_main efi_example 0x8000 0x8100 loader_example = Inr ((entry, ptr, info), s')"
proof -
  let ?m = "mem loader_example"
  have r: "\<exists>s'. read_kernel_file efi_example 0x8000 s = Inr (0xA000, s') \<and> mem s' = mem s" for s :: "unit boot_state"
    by (simp add: read_kernel_file_def Let_def efi_example_simps)
  have h: "elf_magic_ok (ehdr_at ?m 0xA000)" "e_ident (ehdr_at ?m 0xA000) ! 4 = 2" "e_machine (ehdr_at ?m 0xA000) = 62" "e_phnum (ehdr_at ?m 0xA000) = 0"
    by (simp_all add: loader_example_def ehdr_at_def elf_magic_ok_def load16_def load_le_numeral)
  have l: "\<exists>e s'. load_kernel efi_example 0xA000 s = Inr (e, s') \<and> mem s' = ?m" if "mem s = ?m" for s :: "unit boot_state"
    using h that by (simp add: load_kernel_def Let_def efi_example_simps)
  obtain fb where fb: "gop_framebuffer ?m 0xB000 = Inr fb"
    by (simp add: gop_framebuffer_def Let_def loader_example_def load64_def load32_def load_le_numeral)
  have x: "\<exists>mm b s'. exit_boot_loop efi_example 0x8000 3 0 s = Inr ((mm, b), s')" for s :: "unit boot_state"
    by (simp add: exit_attempt_def Let_def numeral_3_eq_3 efi_example_simps)
  let ?s = "boot_print (cstr ''RebornOS bootloader: starting'' @ [0x0A]) loader_example"
  obtain s1 where s1: "read_kernel_file efi_example 0x8000 ?s = Inr (0xA000, s1)" "mem s1 = ?m" using r[of ?s] by (auto simp: boot_print_def)
  obtain e s2 where s2: "load_kernel efi_example 0xA000 s1 = Inr (e, s2)" "mem s2 = ?m" using l[OF s1(2)] by blast
  have p: "checked a (LocateProtocol efi_example g) s2 = Inr (0xB000, s2)" "checked a (AllocatePool efi_example n) s2 = Inr (0xA000, s2)" for a g n
    by (simp_all add: efi_example_simps)
  show ?thesis
    unfolding efi_main_def Let_def s1(1) rbind_simps prod.case s2(1) p s2(2) fb
    by (auto simp: rbind_eq_Inr split_beta) (use x in \<open>metis fst_conv snd_conv prod.collapse\<close>)
qed

theorem efi_main_handoff_witness:
  "\<exists>entry ptr info s'. efi_main efi_example 0x8000 0x8100 loader_example = Inr ((entry, ptr, info), s') \<and> magic info = BOOT_INFO_MAGIC"
  using loader_example_run efi_main_handoff[of efi_example "0x8000" "0x8100" loader_example] by blast

subsection \<open>The kernel image in memory\<close>

lemma load_in_region:
  assumes "unat a + N \<le> 2 ^ 64" "\<And>x. x \<in> region a N \<Longrightarrow> m x = m' x" "k + n \<le> N"
  shows "load_le n m (a + of_nat k) = load_le n m' (a + of_nat k)"
proof (rule load_le_cong)
  fix i assume "i < n"
  then have "a + of_nat (k + i) \<in> region a N" using assms(3) by (intro region_offset[OF assms(1)]) simp
  then show "m (a + of_nat k + of_nat i) = m' (a + of_nat k + of_nat i)" using assms(2) by (simp add: add.assoc)
qed

lemma phdr_at_region:
  assumes "unat a + 56 \<le> 2 ^ 64" "\<And>x. x \<in> region a 56 \<Longrightarrow> m x = m' x"
  shows "phdr_at m a = phdr_at m' a"
proof -
  have L: "load_le n m (a + of_nat k) = (load_le n m' (a + of_nat k) :: 'b::len word)" if "k + n \<le> 56" for k n
    using assms(1) assms(2) that by (rule load_in_region)
  show ?thesis using L[of 0 4] L[of 4 4] L[of 8 8] L[of 16 8] L[of 24 8] L[of 32 8] L[of 40 8] L[of 48 8]
    by (simp add: phdr_at_def load32_def load64_def)
qed

lemma store_bytes_append:
  assumes "unat a + length xs + length ys \<le> 2 ^ 64"
  shows "store_bytes (a + of_nat (length xs)) ys (store_bytes a xs m) = store_bytes a (xs @ ys) m"
proof (cases "ys = []")
  case False
  then have u: "unat (a + of_nat (length xs)) = unat a + length xs"
    using assms by (subst unat_add_no_wrap) (auto simp: unat_of_nat_less neq_Nil_conv)
  have w: "unat (a + of_nat (length xs)) + length ys \<le> 2 ^ 64" "unat a + length (xs @ ys) \<le> 2 ^ 64" "unat a + length xs \<le> 2 ^ 64"
    using assms u by simp_all
  show ?thesis
  proof
    fix x
    have r: "unat (x - (a + of_nat (length xs))) < length ys \<longleftrightarrow> unat a + length xs \<le> unat x \<and> unat x < unat a + length xs + length ys"
      using region_iff[OF w(1), of x] by (simp add: region_def u)
    have s: "unat (x - a) < n \<longleftrightarrow> unat a \<le> unat x \<and> unat x < unat a + n" if "unat a + n \<le> 2 ^ 64" for n
      using region_iff[OF that, of x] by (simp add: region_def)
    have d: "unat (x - a) = unat x - unat a" if "unat a \<le> unat x" using that by (simp add: unat_sub_le word_le_nat_alt)
    have d': "unat (x - (a + of_nat (length xs))) = unat x - unat a - length xs" if "unat a + length xs \<le> unat x"
      using that u by (simp add: unat_sub_le word_le_nat_alt)
    show "store_bytes (a + of_nat (length xs)) ys (store_bytes a xs m) x = store_bytes a (xs @ ys) m x"
      using r s[OF w(2)] s[OF w(3)] d d' unfolding store_bytes_def by (auto simp: nth_append)
  qed
qed simp

text \<open>The program header \<open>i\<close>, what its segment has to look like in memory, and a file whose segments go to
  places of their own: away from the headers, from the contents of the file and from each other.\<close>

abbreviation kernel_phdr :: "mem \<Rightarrow> u64 \<Rightarrow> nat \<Rightarrow> elf64_phdr" where
  "kernel_phdr m phdrs i \<equiv> phdr_at m (phdrs + of_nat i * SIZEOF_PHDR)"

definition segment_image :: "mem \<Rightarrow> u64 \<Rightarrow> elf64_phdr \<Rightarrow> u8 list" where
  "segment_image m buf ph = bytes_at m (buf + p_offset ph) (unat (p_filesz ph)) @ replicate (unat (p_memsz ph) - unat (p_filesz ph)) 0"

abbreviation segment_place :: "elf64_phdr \<Rightarrow> u64 set" where
  "segment_place ph \<equiv> region (p_paddr ph) (unat (p_memsz ph))"

definition loadable :: "mem \<Rightarrow> u64 \<Rightarrow> u64 \<Rightarrow> nat \<Rightarrow> bool" where
  "loadable m buf phdrs n \<longleftrightarrow> (\<forall>i<n. unat (phdrs + of_nat i * SIZEOF_PHDR) + 56 \<le> 2 ^ 64 \<and>
     (let ph = kernel_phdr m phdrs i in p_type ph = PT_LOAD \<longrightarrow>
        unat (p_filesz ph) \<le> unat (p_memsz ph) \<and> unat (p_paddr ph) + unat (p_memsz ph) \<le> 2 ^ 64 \<and>
        unat (buf + p_offset ph) + unat (p_filesz ph) \<le> 2 ^ 64 \<and>
        (\<forall>j<n. let q = kernel_phdr m phdrs j in segment_place ph \<inter> region (phdrs + of_nat j * SIZEOF_PHDR) 56 = {} \<and>
           (p_type q = PT_LOAD \<longrightarrow> segment_place ph \<inter> region (buf + p_offset q) (unat (p_filesz q)) = {} \<and>
              (i \<noteq> j \<longrightarrow> segment_place ph \<inter> segment_place q = {})))))"

lemma loadableD:
  assumes "loadable m buf phdrs n" "i < n"
  shows "unat (phdrs + of_nat i * SIZEOF_PHDR) + 56 \<le> 2 ^ 64"
    "p_type (kernel_phdr m phdrs i) = PT_LOAD \<Longrightarrow> unat (p_filesz (kernel_phdr m phdrs i)) \<le> unat (p_memsz (kernel_phdr m phdrs i)) \<and>
       unat (p_paddr (kernel_phdr m phdrs i)) + unat (p_memsz (kernel_phdr m phdrs i)) \<le> 2 ^ 64 \<and>
       unat (buf + p_offset (kernel_phdr m phdrs i)) + unat (p_filesz (kernel_phdr m phdrs i)) \<le> 2 ^ 64"
    "p_type (kernel_phdr m phdrs i) = PT_LOAD \<Longrightarrow> j < n \<Longrightarrow> segment_place (kernel_phdr m phdrs i) \<inter> region (phdrs + of_nat j * SIZEOF_PHDR) 56 = {}"
    "p_type (kernel_phdr m phdrs i) = PT_LOAD \<Longrightarrow> j < n \<Longrightarrow> p_type (kernel_phdr m phdrs j) = PT_LOAD \<Longrightarrow>
       segment_place (kernel_phdr m phdrs i) \<inter> region (buf + p_offset (kernel_phdr m phdrs j)) (unat (p_filesz (kernel_phdr m phdrs j))) = {}"
    "p_type (kernel_phdr m phdrs i) = PT_LOAD \<Longrightarrow> j < n \<Longrightarrow> p_type (kernel_phdr m phdrs j) = PT_LOAD \<Longrightarrow> i \<noteq> j \<Longrightarrow>
       segment_place (kernel_phdr m phdrs i) \<inter> segment_place (kernel_phdr m phdrs j) = {}"
  using assms unfolding loadable_def Let_def by blast+

text \<open>Documented behaviour of \<open>AllocatePages\<close>: it hands out memory and writes none.\<close>

definition pages_only :: "'f firmware \<Rightarrow> bool" where
  "pages_only efi \<longleftrightarrow> (\<forall>a n w. snd (snd (AllocatePages efi a n w)) = snd w)"

lemma segment_written:
  assumes ph: "ph = kernel_phdr m phdrs i" "loadable m buf phdrs n" "i < n" "p_type ph = PT_LOAD"
    and same: "\<And>x. x \<in> region (phdrs + of_nat i * SIZEOF_PHDR) 56 \<Longrightarrow> m' x = m x" "\<And>x. x \<in> region (buf + p_offset ph) (unat (p_filesz ph)) \<Longrightarrow> m' x = m x"
  defines "m1 \<equiv> memcpy (p_paddr ph) (buf + p_offset ph) (p_filesz ph) m'"
  shows "kernel_phdr m1 phdrs i = ph"
    "(if p_memsz ph > p_filesz ph then memset (p_paddr ph + p_filesz ph) 0 (p_memsz ph - p_filesz ph) m1 else m1) = store_bytes (p_paddr ph) (segment_image m buf ph) m'"
proof -
  note D = loadableD[OF ph(2,3), folded ph(1)]
  note E = D(2)[OF ph(4)]
  let ?f = "unat (p_filesz ph)"
  have sub: "region (p_paddr ph) ?f \<subseteq> segment_place ph" using E by (auto simp: region_def)
  have d: "region (p_paddr ph) ?f \<inter> region (buf + p_offset ph) ?f = {}" using D(4)[OF ph(4,3)] ph(1,4) sub by auto
  have w: "unat (p_paddr ph) + ?f \<le> 2 ^ 64" using E by simp
  have "bytes_at m' (buf + p_offset ph) ?f = bytes_at m (buf + p_offset ph) ?f" using E same(2) by (intro bytes_at_region) simp_all
  then have m1: "m1 = store_bytes (p_paddr ph) (bytes_at m (buf + p_offset ph) ?f) m'"
    unfolding m1_def using memcpy_disjoint[OF w _ d] E by simp
  have "m1 x = m x" if "x \<in> region (phdrs + of_nat i * SIZEOF_PHDR) 56" for x
  proof -
    have "x \<notin> region (p_paddr ph) ?f" using D(3)[OF ph(4,3)] sub that by auto
    then show ?thesis using same(1)[OF that] store_bytes_region[of "p_paddr ph" "bytes_at m (buf + p_offset ph) ?f" x m'] w by (simp add: m1)
  qed
  then show "kernel_phdr m1 phdrs i = ph" using phdr_at_region[OF D(1), of m1 m] ph(1) by simp
  show "(if p_memsz ph > p_filesz ph then memset (p_paddr ph + p_filesz ph) 0 (p_memsz ph - p_filesz ph) m1 else m1) = store_bytes (p_paddr ph) (segment_image m buf ph) m'"
  proof (cases "p_memsz ph > p_filesz ph")
    case True
    then have u: "unat (p_memsz ph - p_filesz ph) = unat (p_memsz ph) - ?f" by (simp add: unat_sub_le)
    have "store_bytes (p_paddr ph + of_nat (length (bytes_at m (buf + p_offset ph) ?f))) (replicate (unat (p_memsz ph) - ?f) 0)
        (store_bytes (p_paddr ph) (bytes_at m (buf + p_offset ph) ?f) m') = store_bytes (p_paddr ph) (segment_image m buf ph) m'"
      unfolding segment_image_def using E by (intro store_bytes_append) simp
    then show ?thesis using True by (simp add: memset_zero u m1)
  next
    case False
    then have "unat (p_memsz ph) = ?f" using E by (simp add: word_less_nat_alt)
    then show ?thesis using False by (simp add: m1 segment_image_def)
  qed
qed

lemma load_segment_step:
  fixes s :: "('f, 'a) boot_state_scheme"
  assumes ok: "pages_only efi" "loadable m buf phdrs n" "i < n" and r: "load_kernel_segment efi buf phdrs i s = Inr s'"
    and ph: "ph = kernel_phdr m phdrs i"
    and same: "\<And>x. x \<in> region (phdrs + of_nat i * SIZEOF_PHDR) 56 \<Longrightarrow> mem s x = m x"
      "\<And>x. p_type ph = PT_LOAD \<Longrightarrow> x \<in> region (buf + p_offset ph) (unat (p_filesz ph)) \<Longrightarrow> mem s x = m x"
  shows "mem s' = (if p_type ph = PT_LOAD then store_bytes (p_paddr ph) (segment_image m buf ph) (mem s) else mem s)"
proof -
  have h: "kernel_phdr (mem s) phdrs i = ph" using phdr_at_region[OF loadableD(1)[OF ok(2,3)], of "mem s" m] same(1) ph by simp
  show ?thesis
  proof (cases "p_type ph = PT_LOAD")
    case True
    let ?m1 = "memcpy (p_paddr ph) (buf + p_offset ph) (p_filesz ph) (mem s)"
    have W: "kernel_phdr ?m1 phdrs i = ph" using same(1) same(2)[OF True] by (rule segment_written(1)[OF ph ok(2,3) True])
    have V: "(if p_memsz ph > p_filesz ph then memset (p_paddr ph + p_filesz ph) 0 (p_memsz ph - p_filesz ph) ?m1 else ?m1) =
        store_bytes (p_paddr ph) (segment_image m buf ph) (mem s)"
      using same(1) same(2)[OF True] by (rule segment_written(2)[OF ph ok(2,3) True])
    obtain st w where a: "AllocatePages efi (p_paddr ph) ((p_memsz ph + 4095) div 4096) (fw s, mem s) = (st, w, mem s)"
      using ok(1) unfolding pages_only_def by (metis prod.collapse snd_conv)
    have "s' = s\<lparr>fw := w, mem := (if p_memsz ph > p_filesz ph then memset (p_paddr ph + p_filesz ph) 0 (p_memsz ph - p_filesz ph) ?m1 else ?m1)\<rparr>"
      using r a h True W by (auto simp: load_kernel_segment_def Let_def call_fw_def split: if_splits)
    then show ?thesis using True unfolding V by simp
  next
    case False
    then show ?thesis using r h by (simp add: load_kernel_segment_def Let_def)
  qed
qed

lemma length_segment_image [simp]: "unat (p_filesz ph) \<le> unat (p_memsz ph) \<Longrightarrow> length (segment_image m buf ph) = unat (p_memsz ph)"
  by (simp add: segment_image_def)

lemma next_segment:
  assumes ok: "pages_only efi" "loadable m buf phdrs n" and kn: "k < n" and r: "load_kernel_segment efi buf phdrs k t = Inr s'"
    and same: "\<And>x. (\<And>i. i < k \<Longrightarrow> p_type (kernel_phdr m phdrs i) = PT_LOAD \<Longrightarrow> x \<notin> segment_place (kernel_phdr m phdrs i)) \<Longrightarrow> mem t x = m x"
  shows "mem s' = (if p_type (kernel_phdr m phdrs k) = PT_LOAD
    then store_bytes (p_paddr (kernel_phdr m phdrs k)) (segment_image m buf (kernel_phdr m phdrs k)) (mem t) else mem t)"
proof (rule load_segment_step[OF ok kn r refl])
  fix x assume x: "x \<in> region (phdrs + of_nat k * SIZEOF_PHDR) 56"
  show "mem t x = m x"
  proof (rule same)
    fix i assume i: "i < k" "p_type (kernel_phdr m phdrs i) = PT_LOAD"
    then have "i < n" using kn by simp
    from loadableD(3)[OF ok(2) this i(2) kn] show "x \<notin> segment_place (kernel_phdr m phdrs i)" using x by blast
  qed
next
  fix x assume x: "p_type (kernel_phdr m phdrs k) = PT_LOAD"
    "x \<in> region (buf + p_offset (kernel_phdr m phdrs k)) (unat (p_filesz (kernel_phdr m phdrs k)))"
  show "mem t x = m x"
  proof (rule same)
    fix i assume i: "i < k" "p_type (kernel_phdr m phdrs i) = PT_LOAD"
    then have "i < n" using kn by simp
    from loadableD(4)[OF ok(2) this i(2) kn x(1)] show "x \<notin> segment_place (kernel_phdr m phdrs i)" using x(2) by blast
  qed
qed

lemma load_segments:
  assumes ok: "pages_only efi" "loadable m buf phdrs n" "mem s = m" and k: "k \<le> n"
    and r: "rfold (load_kernel_segment efi buf phdrs) [0..<k] s = Inr s'"
  shows "(\<forall>x. (\<forall>i<k. p_type (kernel_phdr m phdrs i) = PT_LOAD \<longrightarrow> x \<notin> segment_place (kernel_phdr m phdrs i)) \<longrightarrow> mem s' x = m x) \<and>
    (\<forall>i<k. p_type (kernel_phdr m phdrs i) = PT_LOAD \<longrightarrow>
       bytes_at (mem s') (p_paddr (kernel_phdr m phdrs i)) (unat (p_memsz (kernel_phdr m phdrs i))) = segment_image m buf (kernel_phdr m phdrs i))"
  using k r
proof (induction k arbitrary: s')
  case 0
  then show ?case using ok(3) by simp
next
  case (Suc k)
  let ?P = "\<lambda>i. kernel_phdr m phdrs i"
  from Suc.prems(2) obtain t where t: "rfold (load_kernel_segment efi buf phdrs) [0..<k] s = Inr t" "load_kernel_segment efi buf phdrs k t = Inr s'"
    by (auto simp: rfold_append rbind_eq_Inr)
  have kn: "k < n" using Suc.prems(1) by simp
  have IH: "\<And>x. (\<And>i. i < k \<Longrightarrow> p_type (?P i) = PT_LOAD \<Longrightarrow> x \<notin> segment_place (?P i)) \<Longrightarrow> mem t x = m x"
    "\<And>i. i < k \<Longrightarrow> p_type (?P i) = PT_LOAD \<Longrightarrow> bytes_at (mem t) (p_paddr (?P i)) (unat (p_memsz (?P i))) = segment_image m buf (?P i)"
    using Suc.IH[OF _ t(1)] Suc.prems(1) by auto
  note S = next_segment[OF ok(1,2) kn t(2) IH(1)]
  show ?case
  proof (cases "p_type (?P k) = PT_LOAD")
    case False
    then show ?thesis using S IH by (auto simp: less_Suc_eq)
  next
    case True
    note E = loadableD(2)[OF ok(2) kn True]
    have out: "mem s' x = mem t x" if "x \<notin> segment_place (?P k)" for x
      using S True that E by (simp add: store_bytes_region)
    have new: "bytes_at (mem s') (p_paddr (?P k)) (unat (p_memsz (?P k))) = segment_image m buf (?P k)"
      using S True E bytes_at_store_bytes[of "segment_image m buf (?P k)" "p_paddr (?P k)" "mem t"] by simp
    have old: "bytes_at (mem s') (p_paddr (?P i)) (unat (p_memsz (?P i))) = segment_image m buf (?P i)" if i: "i < k" "p_type (?P i) = PT_LOAD" for i
    proof -
      have "bytes_at (mem s') (p_paddr (?P i)) (unat (p_memsz (?P i))) = bytes_at (mem t) (p_paddr (?P i)) (unat (p_memsz (?P i)))"
      proof (rule bytes_at_region)
        have n: "i < n" using i(1) kn by simp
        show "unat (p_paddr (?P i)) + unat (p_memsz (?P i)) \<le> 2 ^ 64" using loadableD(2)[OF ok(2) n i(2)] by blast
        show "mem s' x = mem t x" if "x \<in> segment_place (?P i)" for x
          using loadableD(5)[OF ok(2) n i(2) kn True] i(1) that by (intro out) auto
      qed
      then show ?thesis using IH(2)[OF i] by simp
    qed
    have "mem s' x = m x" if "\<forall>i<Suc k. p_type (?P i) = PT_LOAD \<longrightarrow> x \<notin> segment_place (?P i)" for x
      using IH(1)[of x] out[of x] that True by simp
    then show ?thesis using new old by (auto simp only: less_Suc_eq)
  qed
qed

text \<open>C5. The kernel is in memory as its file says. For an image whose segments have places of their own, and
  firmware that only hands out memory, a successful \<open>load_kernel\<close> leaves every loadable segment at its
  physical address, its bytes from the file followed by zeros up to its size in memory, and changes no
  other byte.\<close>

theorem load_kernel_image:
  fixes s :: "('f, 'a) boot_state_scheme"
  assumes "pages_only efi" "ehdr = ehdr_at (mem s) buf" "loadable (mem s) buf (buf + e_phoff ehdr) (unat (e_phnum ehdr))"
    and "load_kernel efi buf s = Inr (entry, s')"
  shows "(\<forall>i<unat (e_phnum ehdr). let ph = kernel_phdr (mem s) (buf + e_phoff ehdr) i in p_type ph = PT_LOAD \<longrightarrow>
      bytes_at (mem s') (p_paddr ph) (unat (p_memsz ph)) =
        bytes_at (mem s) (buf + p_offset ph) (unat (p_filesz ph)) @ replicate (unat (p_memsz ph) - unat (p_filesz ph)) 0) \<and>
    (\<forall>x. (\<forall>i<unat (e_phnum ehdr). p_type (kernel_phdr (mem s) (buf + e_phoff ehdr) i) = PT_LOAD \<longrightarrow>
        x \<notin> segment_place (kernel_phdr (mem s) (buf + e_phoff ehdr) i)) \<longrightarrow> mem s' x = mem s x)"
proof -
  from assms(4) obtain t where t: "rfold (load_kernel_segment efi buf (buf + e_phoff ehdr)) [0..<unat (e_phnum ehdr)] s = Inr t" "mem s' = mem t"
    by (auto simp: load_kernel_def Let_def rbind_eq_Inr boot_print_def log_hex_def assms(2) split: if_splits)
  show ?thesis using load_segments[OF assms(1,3) refl le_refl t(1)] unfolding t(2) segment_image_def Let_def by blast
qed

definition image_example :: "unit boot_state" where
  "image_example = \<lparr>mem = (\<lambda>_. 0)(0xA000 := 0x7F, 0xA001 := 0x45, 0xA002 := 0x4C, 0xA003 := 0x46, 0xA004 := 2, 0xA012 := 62, 0xA020 := 0x40,
     0xA038 := 1, 0xA040 := 1, 0xA048 := 0x78, 0xA05A := 0x10, 0xA060 := 2, 0xA068 := 4, 0xA078 := 0xEB, 0xA079 := 0xFE),
     rflags_if = False, fw = (), boot_log = []\<rparr>"

lemma image_example_headers:
  "e_phoff (ehdr_at (mem image_example) 0xA000) = 0x40" "e_phnum (ehdr_at (mem image_example) 0xA000) = 1"
  "elf_magic_ok (ehdr_at (mem image_example) 0xA000)" "e_ident (ehdr_at (mem image_example) 0xA000) ! 4 = 2" "e_machine (ehdr_at (mem image_example) 0xA000) = 62"
  "phdr_at (mem image_example) 0xA040 = \<lparr>p_type = 1, p_flags = 0, p_offset = 0x78, p_vaddr = 0, p_paddr = 0x100000, p_filesz = 2, p_memsz = 4, p_align = 0\<rparr>"
  by (simp_all add: image_example_def ehdr_at_def phdr_at_def elf_magic_ok_def load16_def load32_def load64_def load_le_numeral)

theorem load_kernel_image_witness:
  "\<exists>e s'. load_kernel efi_example 0xA000 image_example = Inr (e, s') \<and> bytes_at (mem s') 0x100000 4 = [0xEB, 0xFE, 0, 0]"
proof -
  let ?m = "mem image_example"
  have p: "pages_only efi_example" by (simp add: pages_only_def efi_example_def)
  have l: "loadable ?m 0xA000 0xA040 1" by (auto simp: loadable_def image_example_headers region_def)
  obtain e s' where r: "load_kernel efi_example 0xA000 image_example = Inr (e, s')"
    by (simp add: load_kernel_def Let_def image_example_headers load_kernel_segment_def efi_example_simps)
  have "bytes_at (mem image_example) 0xA078 2 = [0xEB, 0xFE]" "replicate 2 (0 :: u8) = [0, 0]"
    by (simp_all add: image_example_def bytes_at_def upt_rec numeral_2_eq_2)
  then have "bytes_at (mem s') 0x100000 4 = [0xEB, 0xFE, 0, 0]"
    using load_kernel_image[OF p refl _ r] l by (simp add: image_example_headers)
  then show ?thesis using r by blast
qed

end
