(* ===== verification/Shell.thy ===== *)
theory Shell
  imports Prelude
begin

section \<open>The shell (userland/shell.c)\<close>

text \<open>
  The shell is a user program: what lies below it is the system-call interface, a record of one function
  for each call on a kernel state of any type \<open>'k\<close>. A pointer handed to a call is the list of the bytes
  from it to the end of the array it points into; a buffer the call fills comes back with the result. The
  arrays of the program are lists of fixed length, and an access outside one is \<open>Undefined\<close>.
\<close>

subsection \<open>System calls\<close>

record 'k system_calls =
  sc_write :: "u8 list \<Rightarrow> 'k \<Rightarrow> 'k"
  sc_read_char :: "'k \<Rightarrow> i64 \<times> 'k"
  sc_exec :: "u8 list list \<Rightarrow> 'k \<Rightarrow> i64 \<times> 'k"
  sc_list_dir :: "u8 list \<Rightarrow> u8 list \<Rightarrow> nat \<Rightarrow> 'k \<Rightarrow> (i64 \<times> u8 list) \<times> 'k"
  sc_read_file :: "u8 list \<Rightarrow> u8 list \<Rightarrow> nat \<Rightarrow> 'k \<Rightarrow> (i64 \<times> u8 list) \<times> 'k"
  sc_write_file :: "u8 list \<Rightarrow> u8 list \<Rightarrow> nat \<Rightarrow> 'k \<Rightarrow> i64 \<times> 'k"

text \<open>A string literal has a NUL at its end; the C string at a pointer ends before the first one.\<close>

definition literal :: "string \<Rightarrow> u8 list" where
  "literal s = cstr s @ [0]"

definition c_string :: "u8 list \<Rightarrow> u8 list" where
  "c_string p = takeWhile (\<lambda>c. c \<noteq> 0) p"

abbreviation say :: "'k system_calls \<Rightarrow> string \<Rightarrow> 'k \<Rightarrow> 'k" where
  "say sc msg k \<equiv> sc_write sc (cstr msg @ [0x0A, 0]) k"

definition put_byte :: "nat \<Rightarrow> u8 \<Rightarrow> u8 list \<Rightarrow> u8 list res" where
  "put_byte i c a = (if i < length a then Inr (a[i := c]) else Inl (Undefined ''write outside an array''))"

subsection \<open>Reading a line\<close>

abbreviation LINE_MAX :: nat where "LINE_MAX \<equiv> 128"
abbreviation MAX_ARGS :: nat where "MAX_ARGS \<equiv> 16"
abbreviation IOBUF_SIZE :: nat where "IOBUF_SIZE \<equiv> 512"

definition echo_char :: "'k system_calls \<Rightarrow> u8 \<Rightarrow> 'k \<Rightarrow> 'k" where
  "echo_char sc c k = sc_write sc [c, 0] k"

fun streq :: "u8 list \<Rightarrow> u8 list \<Rightarrow> bool res" where
  "streq (a # as) (b # bs) = (if a \<noteq> 0 \<and> a = b then streq as bs else Inr (a = b))"
| "streq _ _ = Inl (Undefined ''read outside an array'')"

text \<open>The loop of \<open>read_line\<close> ends with the key Enter; \<open>None\<close> is a user who never presses it.\<close>

partial_function (option) read_loop ::
  "'k system_calls \<Rightarrow> u8 list \<Rightarrow> nat \<Rightarrow> 'k \<Rightarrow> ((u8 list \<times> nat) \<times> 'k) res option" where
  "read_loop sc line len k =
     (let c = ucast (fst (sc_read_char sc k)) :: u8;
          k = snd (sc_read_char sc k)
      in if c = 0x0A then Some (Inr ((line, len), sc_write sc [0x0A, 0] k))
         else if c = 0x08 then
           (if len > 0 then read_loop sc line (len - 1) (sc_write sc [0x08, 0x20, 0x08, 0] k) else read_loop sc line len k)
         else if len < LINE_MAX - 1 then
           (case put_byte len c line of
              Inl e \<Rightarrow> Some (Inl e)
            | Inr line \<Rightarrow> read_loop sc line (len + 1) (echo_char sc c k))
         else read_loop sc line len k)"

definition read_line :: "'k system_calls \<Rightarrow> u8 list \<Rightarrow> 'k \<Rightarrow> ((u8 list \<times> nat) \<times> 'k) res option" where
  "read_line sc line k =
     map_option (\<lambda>r. rbind r (\<lambda>((line, len), k). rbind (put_byte len 0 line) (\<lambda>line. Inr ((line, len), k)))) (read_loop sc line 0 k)"

subsection \<open>Splitting it into words\<close>

text \<open>The inner loops of \<open>tokenize\<close>: the first position from \<open>p\<close> on whose byte is not a \<open>P\<close>.\<close>

function skip_while :: "(u8 \<Rightarrow> bool) \<Rightarrow> u8 list \<Rightarrow> nat \<Rightarrow> nat res" where
  "skip_while P line p =
     (if p < length line then if P (line ! p) then skip_while P line (Suc p) else Inr p
      else Inl (Undefined ''read outside an array''))"
  by pat_completeness auto
termination by (relation "measure (\<lambda>(P, line, p). length line - p)") auto

text \<open>\<open>argv[i]\<close> is a position of the line.\<close>

function tokenize_loop :: "u8 list \<Rightarrow> nat \<Rightarrow> nat list \<Rightarrow> (nat list \<times> u8 list) res" where
  "tokenize_loop line p argv =
     (if \<not> p < length line then Inl (Undefined ''read outside an array'')
      else if line ! p = 0 \<or> \<not> length argv < MAX_ARGS then Inr (argv, line)
      else
        rbind (skip_while (\<lambda>c. c = 0x20) line p) (\<lambda>p.
        if line ! p = 0 then Inr (argv, line)
        else
          rbind (skip_while (\<lambda>c. c \<noteq> 0 \<and> c \<noteq> 0x20) line p) (\<lambda>q.
          if line ! q = 0x20 then tokenize_loop (line[q := 0]) (q + 1) (argv @ [p])
          else tokenize_loop line q (argv @ [p]))))"
  by pat_completeness auto
termination by (relation "measure (\<lambda>(line, p, argv). MAX_ARGS - length argv)") auto

definition tokenize :: "u8 list \<Rightarrow> (nat list \<times> u8 list) res" where
  "tokenize line = tokenize_loop line 0 []"

declare skip_while.simps [simp del] tokenize_loop.simps [simp del]

subsection \<open>The commands\<close>

text \<open>Joining the arguments of \<open>write\<close>: the loop over one argument, then over the arguments from number 2.\<close>

fun join_arg :: "u8 list \<Rightarrow> u8 list \<times> nat \<Rightarrow> (u8 list \<times> nat) res" where
  "join_arg [] (iobuf, len) = Inl (Undefined ''read outside an array'')"
| "join_arg (c # s) (iobuf, len) =
     (if c \<noteq> 0 \<and> len < IOBUF_SIZE - 1 then rbind (put_byte len c iobuf) (\<lambda>iobuf. join_arg s (iobuf, len + 1))
      else Inr (iobuf, len))"

fun join_args :: "nat \<Rightarrow> u8 list list \<Rightarrow> u8 list \<times> nat \<Rightarrow> (u8 list \<times> nat) res" where
  "join_args i [] (iobuf, len) = Inr (iobuf, len)"
| "join_args i (arg # args) (iobuf, len) =
     (if len < IOBUF_SIZE - 1 then
        rbind (if i > 2 then rbind (put_byte len 0x20 iobuf) (\<lambda>iobuf. Inr (iobuf, len + 1)) else Inr (iobuf, len)) (\<lambda>b.
        rbind (join_arg arg b) (join_args (i + 1) args))
      else Inr (iobuf, len))"

text \<open>The name given to \<open>SYS_EXEC\<close>: the array \<open>exec_name\<close> after the copy loop and the suffix.\<close>

fun copy_name :: "nat \<Rightarrow> u8 list \<Rightarrow> u8 list \<Rightarrow> (u8 list \<times> nat) res" where
  "copy_name i [] exec_name = Inl (Undefined ''read outside an array'')"
| "copy_name i (c # s) exec_name =
     (if c \<noteq> 0 \<and> i < length exec_name - 5 then rbind (put_byte i c exec_name) (copy_name (i + 1) s) else Inr (exec_name, i))"

definition exec_name :: "u8 list \<Rightarrow> u8 list \<Rightarrow> u8 list res" where
  "exec_name name buf =
     (if 0x2E \<in> set (c_string name) then Inr name
      else if 0 \<notin> set name then Inl (Undefined ''read outside an array'')
      else
        rbind (copy_name 0 name buf) (\<lambda>(buf, i).
        rbind (rfold (\<lambda>j buf. put_byte (i + j) (cstr ''.elf'' ! j) buf) [0..<4] buf) (\<lambda>buf.
        put_byte (i + 4) 0 buf)))"

definition shell_ls :: "'k system_calls \<Rightarrow> u8 list list \<Rightarrow> u8 list \<Rightarrow> 'k \<Rightarrow> (u8 list \<times> 'k) res" where
  "shell_ls sc argv iobuf k =
     (let path = (if length argv > 1 then argv ! 1 else literal '''') in
      case sc_list_dir sc path iobuf IOBUF_SIZE k of ((n, iobuf), k) \<Rightarrow>
        Inr (iobuf, if 0 <s n then sc_write sc iobuf k
                    else if n <s 0 then say sc ''ls: not found'' k else k))"

definition shell_cat :: "'k system_calls \<Rightarrow> u8 list list \<Rightarrow> u8 list \<Rightarrow> 'k \<Rightarrow> (u8 list \<times> 'k) res" where
  "shell_cat sc argv iobuf k =
     (if length argv < 2 then Inr (iobuf, say sc ''usage: cat <file>'' k)
      else case sc_read_file sc (argv ! 1) iobuf (IOBUF_SIZE - 1) k of ((n, iobuf), k) \<Rightarrow>
        if n <s 0 then Inr (iobuf, say sc ''cat: not found'' k)
        else rbind (put_byte (unat n) 0 iobuf) (\<lambda>iobuf. Inr (iobuf, say sc '''' (sc_write sc iobuf k))))"

definition shell_write :: "'k system_calls \<Rightarrow> u8 list list \<Rightarrow> u8 list \<Rightarrow> 'k \<Rightarrow> (u8 list \<times> 'k) res" where
  "shell_write sc argv iobuf k =
     (if length argv < 2 then Inr (iobuf, say sc ''usage: write <file> [text...]'' k)
      else rbind (join_args 2 (drop 2 argv) (iobuf, 0)) (\<lambda>(iobuf, len).
        case sc_write_file sc (argv ! 1) iobuf len k of (r, k) \<Rightarrow>
          Inr (iobuf, if r \<noteq> 0 then say sc ''write: failed'' k else k)))"

definition shell_exec :: "'k system_calls \<Rightarrow> u8 list list \<Rightarrow> u8 list \<Rightarrow> 'k \<Rightarrow> 'k res" where
  "shell_exec sc argv buf k =
     rbind (exec_name (argv ! 0) buf) (\<lambda>name.
     case sc_exec sc (argv[0 := name]) k of (ret, k) \<Rightarrow>
       Inr (if ret = -1 then say sc ''shell: command not found'' k
            else if ret \<noteq> 0 then say sc ''shell: process exited with a nonzero status'' k else k))"

text \<open>One round of the loop of \<open>_start\<close>: the state is the two arrays that live across rounds; \<open>name_buf\<close> is the
  array declared inside the loop, with whatever it holds.\<close>

definition run_command ::
  "'k system_calls \<Rightarrow> u8 list \<Rightarrow> u8 list list \<Rightarrow> u8 list \<Rightarrow> 'k \<Rightarrow> (u8 list \<times> 'k) res" where
  "run_command sc name_buf argv iobuf k =
     rbind (streq (argv ! 0) (literal ''ls'')) (\<lambda>is_ls.
     if is_ls then shell_ls sc argv iobuf k else
     rbind (streq (argv ! 0) (literal ''cat'')) (\<lambda>is_cat.
     if is_cat then shell_cat sc argv iobuf k else
     rbind (streq (argv ! 0) (literal ''write'')) (\<lambda>is_write.
     if is_write then shell_write sc argv iobuf k else
     rbind (shell_exec sc argv name_buf k) (\<lambda>k. Inr (iobuf, k)))))"

definition shell_round ::
  "'k system_calls \<Rightarrow> u8 list \<Rightarrow> u8 list \<times> u8 list \<Rightarrow> 'k \<Rightarrow> ((u8 list \<times> u8 list) \<times> 'k) res option" where
  "shell_round sc name_buf st k =
     (case st of (line, iobuf) \<Rightarrow>
      map_option (\<lambda>r. rbind r (\<lambda>((line, len), k).
        if len = 0 then Inr ((line, iobuf), k)
        else rbind (tokenize line) (\<lambda>(argv, line).
          if argv = [] then Inr ((line, iobuf), k)
          else rbind (run_command sc name_buf (map (\<lambda>i. drop i line) argv) iobuf k) (\<lambda>(iobuf, k). Inr ((line, iobuf), k)))))
      (read_line sc line (sc_write sc (literal ''> '') k)))"

end
