(* ===== verification/Shell_Spec.thy ===== *)
theory Shell_Spec
  imports Shell
begin

section \<open>What the shell does with a line\<close>

text \<open>
  Reading a line against an abstract editor, splitting it against a reference that cuts at every space, the
  safety of a whole round of the loop, and the composition of the three: what is typed is what is executed.
\<close>

subsection \<open>Words\<close>

text \<open>The reference: split at every separator and leave out the empty pieces.\<close>

fun split_on :: "'a \<Rightarrow> 'a list \<Rightarrow> 'a list list" where
  "split_on x [] = [[]]"
| "split_on x (y # ys) = (if y = x then [] # split_on x ys else (y # hd (split_on x ys)) # tl (split_on x ys))"

definition words_of :: "u8 list \<Rightarrow> u8 list list" where
  "words_of cs = filter (\<lambda>w. w \<noteq> []) (split_on 0x20 cs)"

lemma split_on_ne [simp]: "split_on x cs \<noteq> []"
  by (induction cs) auto

lemma split_on_append: "x \<notin> set w \<Longrightarrow> split_on x (w @ x # t) = w # split_on x t"
  by (induction w) auto

lemma split_on_none: "x \<notin> set w \<Longrightarrow> split_on x w = [w]"
  by (induction w) auto

lemma words_of_simps [simp]:
  "words_of [] = []"
  "words_of (0x20 # cs) = words_of cs"
  by (simp_all add: words_of_def)

lemma words_of_word:
  assumes "w \<noteq> []" "0x20 \<notin> set w"
  shows "words_of w = [w]" "words_of (w @ 0x20 # t) = w # words_of t"
  using assms by (simp_all add: words_of_def split_on_append split_on_none)

lemma words_of_spaces: "\<forall>c\<in>set sp. c = 0x20 \<Longrightarrow> words_of (sp @ cs) = words_of cs"
  by (induction sp) auto

subsection \<open>Tokenizing\<close>

lemma skip_while_append:
  "\<forall>c\<in>set xs. P c \<Longrightarrow> \<not> P y \<Longrightarrow> skip_while P (pre @ xs @ y # rest) (length pre) = Inr (length pre + length xs)"
proof (induction xs arbitrary: pre)
  case Nil
  then show ?case by (subst skip_while.simps) (simp add: nth_append)
next
  case (Cons x xs)
  from Cons.IH[of "pre @ [x]"] Cons.prems show ?case by (subst skip_while.simps) (simp add: nth_append)
qed

lemma c_string_append [simp]: "0 \<notin> set w \<Longrightarrow> c_string (w @ 0 # rest) = w"
  by (auto simp: c_string_def takeWhile_tail)

text \<open>A line from the position the loop has reached: leading spaces, a word, and what follows it.\<close>

lemma next_word:
  fixes cs :: "u8 list"
  assumes "\<exists>c\<in>set cs. c \<noteq> 0x20"
  obtains sp w t where "cs = sp @ w @ t" "\<forall>c\<in>set sp. c = 0x20" "w \<noteq> []" "0x20 \<notin> set w" "t = [] \<or> (\<exists>t'. t = 0x20 # t')"
proof
  let ?d = "dropWhile (\<lambda>c. c = 0x20) cs"
  show "cs = takeWhile (\<lambda>c. c = 0x20) cs @ takeWhile (\<lambda>c. c \<noteq> 0x20) ?d @ dropWhile (\<lambda>c. c \<noteq> 0x20) ?d" by simp
  show "\<forall>c\<in>set (takeWhile (\<lambda>c. c = 0x20) cs). c = 0x20" by (auto dest: set_takeWhileD)
  have "?d \<noteq> []" using assms by auto
  then have "hd ?d \<noteq> 0x20" by (rule hd_dropWhile)
  then show "takeWhile (\<lambda>c. c \<noteq> 0x20) ?d \<noteq> []" using \<open>?d \<noteq> []\<close> by (cases ?d) auto
  show "0x20 \<notin> set (takeWhile (\<lambda>c. c \<noteq> 0x20) ?d)" by (auto dest: set_takeWhileD)
  show "dropWhile (\<lambda>c. c \<noteq> 0x20) ?d = [] \<or> (\<exists>t'. dropWhile (\<lambda>c. c \<noteq> 0x20) ?d = 0x20 # t')"
    by (metis (mono_tags, lifting) hd_Cons_tl hd_dropWhile)
qed

lemma tokenize_stop:
  "length argv \<ge> MAX_ARGS \<or> (\<forall>c\<in>set cs. c = 0x20) \<Longrightarrow> tokenize_loop (pre @ cs @ 0 # rest) (length pre) argv = Inr (argv, pre @ cs @ 0 # rest)"
  using skip_while_append[of cs "\<lambda>c. c = 0x20" 0 pre rest]
  by (subst tokenize_loop.simps) (auto simp: nth_append)

lemma tokenize_step:
  assumes "\<forall>c\<in>set sp. c = 0x20" "w \<noteq> []" "0x20 \<notin> set w" "0 \<notin> set w" "length argv < MAX_ARGS" "d = 0 \<or> d = 0x20"
  shows "tokenize_loop (pre @ sp @ w @ d # rest) (length pre) argv =
    (if d = 0x20 then tokenize_loop ((pre @ sp @ w @ [0]) @ rest) (length (pre @ sp @ w @ [0])) (argv @ [length (pre @ sp)])
     else Inr (argv @ [length (pre @ sp)], pre @ sp @ w @ 0 # rest))"
proof -
  let ?line = "pre @ sp @ w @ d # rest"
  have h: "hd w \<noteq> 0x20" "hd w \<noteq> 0" using assms(2-4) by (metis hd_in_set)+
  obtain x w' where w: "w = x # w'" using assms(2) by (cases w) auto
  have a: "skip_while (\<lambda>c. c = 0x20) ?line (length pre) = Inr (length (pre @ sp))"
    using skip_while_append[of sp "\<lambda>c. c = 0x20" x pre "w' @ d # rest"] assms(1) h by (simp add: w)
  have b: "skip_while (\<lambda>c. c \<noteq> 0 \<and> c \<noteq> 0x20) ?line (length (pre @ sp)) = Inr (length (pre @ sp) + length w)"
    using skip_while_append[of w "\<lambda>c. c \<noteq> 0 \<and> c \<noteq> 0x20" d "pre @ sp" rest] assms by auto
  have n: "?line ! length (pre @ sp) = x" "?line ! (length (pre @ sp) + length w) = d"
    by (simp_all add: nth_append w)
  have f: "?line ! length pre \<noteq> 0" using assms(1) h by (cases sp) (auto simp: nth_append w)
  have u: "?line[length (pre @ sp) + length w := 0] = (pre @ sp @ w @ [0]) @ rest" by (simp add: list_update_append)
  have s: "tokenize_loop ?line (length pre) argv =
    (if d = 0x20 then tokenize_loop (?line[length (pre @ sp) + length w := 0]) (length (pre @ sp) + length w + 1) (argv @ [length (pre @ sp)])
     else tokenize_loop ?line (length (pre @ sp) + length w) (argv @ [length (pre @ sp)]))"
    using a b n f h assms(5) by (subst tokenize_loop.simps) (simp add: w)
  show ?thesis
  proof (cases "d = 0x20")
    case True
    then show ?thesis using s unfolding u by (simp add: add.assoc)
  next
    case False
    then show ?thesis using s assms(6) tokenize_stop[of "argv @ [length (pre @ sp)]" "[]" "pre @ sp @ w" rest] by (simp add: add.assoc)
  qed
qed

text \<open>The loop from a position with \<open>cs\<close> ahead of it: the arguments added are the words of \<open>cs\<close>, as many as still
  fit, and nothing before the position changes.\<close>

definition splits :: "u8 list \<Rightarrow> u8 list \<Rightarrow> nat list \<Rightarrow> (nat list \<times> u8 list) res \<Rightarrow> bool" where
  "splits pre cs argv r \<longleftrightarrow> (\<exists>added rest. r = Inr (argv @ added, pre @ rest) \<and>
     map (\<lambda>i. c_string (drop i (pre @ rest))) added = take (MAX_ARGS - length argv) (words_of cs) \<and>
     (\<forall>i\<in>set added. 0 \<in> set (drop i (pre @ rest))))"

lemma splits_step:
  assumes "splits (pre @ sp @ w @ [0]) t (argv @ [length (pre @ sp)]) r" "\<forall>c\<in>set sp. c = 0x20" "w \<noteq> []" "0x20 \<notin> set w" "0 \<notin> set w"
    "length argv < MAX_ARGS"
  shows "splits pre (sp @ w @ 0x20 # t) argv r"
proof -
  from assms(1) obtain added rest where r: "r = Inr (argv @ length (pre @ sp) # added, pre @ sp @ w @ 0 # rest)"
    "map (\<lambda>i. c_string (drop i (pre @ sp @ w @ 0 # rest))) added = take (MAX_ARGS - Suc (length argv)) (words_of t)"
    "\<forall>i\<in>set added. 0 \<in> set (drop i (pre @ sp @ w @ 0 # rest))"
    unfolding splits_def by auto
  have n: "MAX_ARGS - length argv = Suc (MAX_ARGS - Suc (length argv))" using assms(6) by simp
  show ?thesis unfolding splits_def n
    by (rule exI[where x = "length (pre @ sp) # added"], rule exI[where x = "sp @ w @ 0 # rest"])
      (use r assms in \<open>simp add: words_of_spaces words_of_word\<close>)
qed

lemma tokenize_loop_splits:
  "0 \<notin> set cs \<Longrightarrow> splits pre cs argv (tokenize_loop (pre @ cs @ 0 # rest) (length pre) argv)"
proof (induction "length cs" arbitrary: cs pre argv rule: less_induct)
  case less
  consider (full) "length argv \<ge> MAX_ARGS" | (blank) "length argv < MAX_ARGS" "\<forall>c\<in>set cs. c = 0x20"
    | (word) "length argv < MAX_ARGS" "\<exists>c\<in>set cs. c \<noteq> 0x20" by fastforce
  then show ?case
  proof cases
    case full
    then show ?thesis by (simp add: tokenize_stop splits_def)
  next
    case blank
    then show ?thesis using words_of_spaces[of cs "[]"] by (simp add: tokenize_stop splits_def)
  next
    case word
    obtain sp w t where d: "cs = sp @ w @ t" "\<forall>c\<in>set sp. c = 0x20" "w \<noteq> []" "0x20 \<notin> set w" "t = [] \<or> (\<exists>t'. t = 0x20 # t')"
      using next_word[OF word(2)] .
    have z: "0 \<notin> set w" "0 \<notin> set t" using less.prems d(1) by auto
    show ?thesis
    proof (cases t)
      case Nil
      have "tokenize_loop (pre @ cs @ 0 # rest) (length pre) argv = Inr (argv @ [length (pre @ sp)], pre @ sp @ w @ 0 # rest)"
        using tokenize_step[OF d(2-4) z(1) word(1), of 0 pre rest] by (simp add: d(1) Nil)
      moreover have "MAX_ARGS - length argv = Suc (MAX_ARGS - Suc (length argv))" using word(1) by simp
      ultimately show ?thesis using words_of_spaces[OF d(2)] words_of_word(1)[OF d(3,4)] z
        by (auto simp: splits_def d(1) Nil)
    next
      case (Cons c t')
      then have t: "t = 0x20 # t'" using d(5) by simp
      have "splits (pre @ sp @ w @ [0]) t' (argv @ [length (pre @ sp)])
        (tokenize_loop ((pre @ sp @ w @ [0]) @ t' @ 0 # rest) (length (pre @ sp @ w @ [0])) (argv @ [length (pre @ sp)]))"
        using z(2) by (intro less.hyps) (simp_all add: d(1) t)
      from splits_step[OF this d(2-4) z(1) word(1)] show ?thesis
        using tokenize_step[OF d(2-4) z(1) word(1), of "0x20" pre "t' @ 0 # rest"] by (simp add: d(1) t)
    qed
  qed
qed

lemma tokenize_argv:
  assumes "0 \<in> set line"
  shows "\<exists>argv line'. tokenize line = Inr (argv, line') \<and>
    map (\<lambda>i. c_string (drop i line')) argv = take MAX_ARGS (words_of (c_string line)) \<and> (\<forall>i\<in>set argv. 0 \<in> set (drop i line'))"
proof -
  obtain cs rest where l: "line = cs @ 0 # rest" "0 \<notin> set cs" using assms by (meson split_list_first)
  then have c: "c_string line = cs" by simp
  from tokenize_loop_splits[OF l(2), of "[]" "[]" rest] show ?thesis
    unfolding splits_def tokenize_def c unfolding l(1) by auto
qed

text \<open>C19. The words of a command line. \<open>tokenize\<close> ends without leaving the array, and the strings \<open>argv\<close> then
  points to in the rewritten line are the words of the line, separated by any number of spaces, up to the
  sixteenth.\<close>

theorem tokenize_words:
  assumes "0 \<in> set line"
  shows "\<exists>argv line'. tokenize line = Inr (argv, line') \<and> length argv \<le> MAX_ARGS \<and>
    map (\<lambda>i. c_string (drop i line')) argv = take MAX_ARGS (words_of (c_string line))"
proof -
  from tokenize_argv[OF assms] obtain argv line' where
    t: "tokenize line = Inr (argv, line')" "map (\<lambda>i. c_string (drop i line')) argv = take MAX_ARGS (words_of (c_string line))" by blast
  from arg_cong[OF t(2), where f = length] have "length argv \<le> MAX_ARGS" by simp
  with t show ?thesis by blast
qed

theorem tokenize_words_witness:
  "\<exists>argv line'. tokenize (literal ''cat  notes '') = Inr (argv, line') \<and> map (\<lambda>i. c_string (drop i line')) argv = [cstr ''cat'', cstr ''notes'']"
  using tokenize_words[of "literal ''cat  notes ''"]
  by (auto simp: literal_def cstr_def c_string_def words_of_def)

lemma tokenize_loop_length: "tokenize_loop line p argv = Inr (argv', line') \<Longrightarrow> length line' = length line"
proof (induction "MAX_ARGS - length argv" arbitrary: line p argv rule: less_induct)
  case less
  have IH: "length line' = length l" if "length argv < MAX_ARGS" "tokenize_loop l q (argv @ [x]) = Inr (argv', line')" for l q x
    using that(1) by (intro less.hyps[OF _ that(2)]) simp
  from less.prems show ?case
    by (subst (asm) tokenize_loop.simps) (auto simp: rbind_eq_Inr split: if_splits dest: IH)
qed

lemma put_byte_ok [simp]: "i < length a \<Longrightarrow> put_byte i c a = Inr (a[i := c])"
  by (simp add: put_byte_def)

lemma put_byte_eq_Inr [simp]: "put_byte i c a = Inr b \<longleftrightarrow> i < length a \<and> b = a[i := c]"
  by (auto simp: put_byte_def)

subsection \<open>Reading a line\<close>

text \<open>What the keys before Enter make of a line: Backspace takes the last character off, any other key adds one
  while there is room.\<close>

definition edit_key :: "u8 list \<Rightarrow> u8 \<Rightarrow> u8 list" where
  "edit_key cs c = (if c = 0x08 then butlast cs else if length cs < LINE_MAX - 1 then cs @ [c] else cs)"

text \<open>A keyboard that gives the keys typed in order, and is not used up by writing.\<close>

definition gives_keys :: "'k system_calls \<Rightarrow> ('k \<Rightarrow> u8 list) \<Rightarrow> bool" where
  "gives_keys sc typed \<longleftrightarrow>
     (\<forall>k. typed k \<noteq> [] \<longrightarrow> ucast (fst (sc_read_char sc k)) = hd (typed k) \<and> typed (snd (sc_read_char sc k)) = tl (typed k)) \<and>
     (\<forall>p k. typed (sc_write sc p k) = typed k)"

lemma length_edit_key: "length cs < LINE_MAX \<Longrightarrow> length (edit_key cs c) < LINE_MAX"
  by (auto simp: edit_key_def)

lemma read_loop_edits:
  assumes "gives_keys sc typed" "typed k = keys @ 0x0A # later" "0x0A \<notin> set keys" "take (length cs) line = cs" "length line = LINE_MAX" "length cs < LINE_MAX"
  shows "\<exists>line' k'. read_loop sc line (length cs) k = Some (Inr ((line', length (foldl edit_key cs keys)), k')) \<and> typed k' = later \<and>
    take (length (foldl edit_key cs keys)) line' = foldl edit_key cs keys \<and> length line' = LINE_MAX \<and> length (foldl edit_key cs keys) < LINE_MAX"
  using assms(2-)
proof (induction keys arbitrary: k cs line)
  case Nil
  then show ?case using assms(1) by (subst read_loop.simps) (simp add: Let_def gives_keys_def)
next
  case (Cons c keys)
  define k1 where "k1 = snd (sc_read_char sc k)"
  have r: "ucast (fst (sc_read_char sc k)) = c" "typed k1 = keys @ 0x0A # later" "\<And>p. typed (sc_write sc p k1) = typed k1"
    using assms(1) Cons.prems(1) by (simp_all add: gives_keys_def k1_def)
  have c: "c \<noteq> 0x0A" "0x0A \<notin> set keys" using Cons.prems(2) by auto
  let ?line = "if c \<noteq> 0x08 \<and> length cs < LINE_MAX - 1 then line[length cs := c] else line"
  have bl: "take (length cs - 1) line = butlast cs"
    using butlast_take[of "length cs" line] Cons.prems(3-5) by simp
  have t: "take (length (edit_key cs c)) ?line = edit_key cs c"
    using Cons.prems(3-5) bl by (simp add: edit_key_def take_Suc_conv_app_nth)
  have step: "\<exists>k2. typed k2 = keys @ 0x0A # later \<and> read_loop sc line (length cs) k = read_loop sc ?line (length (edit_key cs c)) k2"
    by (subst read_loop.simps) (use r c Cons.prems(4,5) in \<open>auto simp: Let_def k1_def[symmetric] edit_key_def echo_char_def\<close>)
  then obtain k2 where k2: "typed k2 = keys @ 0x0A # later" "read_loop sc line (length cs) k = read_loop sc ?line (length (edit_key cs c)) k2" by blast
  from Cons.IH[OF k2(1) c(2) t _ length_edit_key[OF Cons.prems(5)]] show ?case unfolding k2(2) using Cons.prems(4) by simp
qed

lemma read_line_result:
  assumes "gives_keys sc typed" "typed k = keys @ 0x0A # later" "0x0A \<notin> set keys" "length line = LINE_MAX"
  shows "\<exists>line' k'. read_line sc line k = Some (Inr ((line', length (foldl edit_key [] keys)), k')) \<and> typed k' = later \<and>
    take (length (foldl edit_key [] keys)) line' = foldl edit_key [] keys \<and> line' ! length (foldl edit_key [] keys) = 0 \<and> length line' = LINE_MAX \<and>
    length (foldl edit_key [] keys) < LINE_MAX"
proof -
  let ?e = "foldl edit_key [] keys"
  from read_loop_edits[OF assms(1-3) _ assms(4), of "[]"] obtain line' k' where
    l: "read_loop sc line 0 k = Some (Inr ((line', length ?e), k'))" "typed k' = later" "take (length ?e) line' = ?e" "length line' = LINE_MAX" "length ?e < LINE_MAX"
    by auto
  show ?thesis
    by (rule exI[where x = "line'[length ?e := 0]"], rule exI[where x = k']) (use l in \<open>simp add: read_line_def\<close>)
qed


definition keys_example :: "u8 list system_calls" where
  "keys_example = \<lparr>sc_write = (\<lambda>p k. k), sc_read_char = (\<lambda>k. (ucast (hd k), tl k)), sc_exec = (\<lambda>argv k. (0, k)),
     sc_list_dir = (\<lambda>p b n k. ((0, b), k)), sc_read_file = (\<lambda>p b n k. ((0, b), k)), sc_write_file = (\<lambda>p b n k. (0, k))\<rparr>"

lemma keys_example_gives: "gives_keys keys_example (\<lambda>k. k)"
  by (auto simp: gives_keys_def keys_example_def bit_simps intro!: bit_word_eqI)


subsection \<open>Memory safety of a round\<close>

text \<open>What the shell relies on: the kernel fills a buffer in place, and says of a file that it read no more than
  was asked for.\<close>

definition calls_in_bounds :: "'k system_calls \<Rightarrow> bool" where
  "calls_in_bounds sc \<longleftrightarrow>
     (\<forall>p b n k. length (snd (fst (sc_list_dir sc p b n k))) = length b) \<and>
     (\<forall>p b n k. case sc_read_file sc p b n k of ((r, b'), k') \<Rightarrow> length b' = length b \<and> (\<not> r <s 0 \<longrightarrow> unat r \<le> n))"

lemma read_file_bounds:
  assumes "calls_in_bounds sc" "sc_read_file sc p b n k = ((r, b'), k')"
  shows "length b' = length b \<and> (\<not> r <s 0 \<longrightarrow> unat r \<le> n)"
proof -
  from assms(1) have "case sc_read_file sc p b n k of ((r, b'), k') \<Rightarrow> length b' = length b \<and> (\<not> r <s 0 \<longrightarrow> unat r \<le> n)"
    by (simp only: calls_in_bounds_def)
  then show ?thesis by (simp add: assms(2))
qed

lemma read_loop_bounds:
  assumes "read_loop sc line len k = Some r" "length line = LINE_MAX" "len < LINE_MAX"
  shows "\<exists>line' len' k'. r = Inr ((line', len'), k') \<and> length line' = LINE_MAX \<and> len' < LINE_MAX"
proof -
  have "length line = LINE_MAX \<longrightarrow> len < LINE_MAX \<longrightarrow> (\<exists>line' len' k'. r = Inr ((line', len'), k') \<and> length line' = LINE_MAX \<and> len' < LINE_MAX)"
    by (rule read_loop.raw_induct[OF _ assms(1)]) (auto simp: Let_def split: if_splits)
  then show ?thesis using assms(2,3) by simp
qed

lemma read_line_bounds:
  assumes "read_line sc line k = Some r" "length line = LINE_MAX"
  shows "\<exists>line' len' k'. r = Inr ((line', len'), k') \<and> length line' = LINE_MAX \<and> 0 \<in> set line'"
proof -
  from assms(1) obtain r' where r': "read_loop sc line 0 k = Some r'"
    "r = rbind r' (\<lambda>((line, len), k). rbind (put_byte len 0 line) (\<lambda>line. Inr ((line, len), k)))"
    by (auto simp: read_line_def)
  from read_loop_bounds[OF r'(1) assms(2)] obtain line' len' k' where b: "r' = Inr ((line', len'), k')" "length line' = LINE_MAX" "len' < LINE_MAX" by auto
  then show ?thesis using r'(2) by (simp add: set_update_memI)
qed

lemma streq_c_string: "0 \<in> set a \<Longrightarrow> 0 \<in> set b \<Longrightarrow> streq a b = Inr (c_string a = c_string b)"
  by (induction a b rule: streq.induct) (auto simp: c_string_def)

lemma join_arg_bounds:
  "0 \<in> set s \<Longrightarrow> length iobuf = IOBUF_SIZE \<Longrightarrow> len < IOBUF_SIZE \<Longrightarrow>
   \<exists>b n. join_arg s (iobuf, len) = Inr (b, n) \<and> length b = IOBUF_SIZE \<and> n < IOBUF_SIZE"
  by (induction s arbitrary: iobuf len) auto

lemma join_args_bounds:
  "\<forall>s\<in>set args. 0 \<in> set s \<Longrightarrow> length iobuf = IOBUF_SIZE \<Longrightarrow> len < IOBUF_SIZE \<Longrightarrow>
   \<exists>b n. join_args i args (iobuf, len) = Inr (b, n) \<and> length b = IOBUF_SIZE"
proof (induction args arbitrary: i iobuf len)
  case Nil
  then show ?case by simp
next
  case (Cons arg args)
  show ?case
  proof (cases "len < IOBUF_SIZE - 1")
    case False
    then show ?thesis using Cons.prems by simp
  next
    case True
    let ?b = "if i > 2 then (iobuf[len := 0x20], len + 1) else (iobuf, len)"
    from Cons.prems(1) have s: "0 \<in> set arg" "\<forall>s\<in>set args. 0 \<in> set s" by auto
    have "length (fst ?b) = IOBUF_SIZE" "snd ?b < IOBUF_SIZE" using True Cons.prems by auto
    from join_arg_bounds[OF s(1) this] obtain b n where j: "join_arg arg ?b = Inr (b, n)" "length b = IOBUF_SIZE" "n < IOBUF_SIZE" by auto
    have "join_args i (arg # args) (iobuf, len) = join_args (i + 1) args (b, n)" using True Cons.prems(2) j(1) by (auto split: if_splits)
    with Cons.IH[OF s(2) j(2,3)] show ?thesis by simp
  qed
qed

lemma copy_name_bounds:
  "0 \<in> set s \<Longrightarrow> length b = LINE_MAX + 4 \<Longrightarrow> i < LINE_MAX \<Longrightarrow>
   \<exists>b' n. copy_name i s b = Inr (b', n) \<and> length b' = LINE_MAX + 4 \<and> n < LINE_MAX"
  by (induction s arbitrary: b i) auto

lemma exec_name_bounds:
  assumes "0 \<in> set name" "length b = LINE_MAX + 4"
  shows "\<exists>b'. exec_name name b = Inr b'"
proof -
  obtain b1 n where "copy_name 0 name b = Inr (b1, n)" "length b1 = LINE_MAX + 4" "n < LINE_MAX"
    using copy_name_bounds[OF assms, of 0] by auto
  then show ?thesis using assms(1) by (auto simp: exec_name_def upt_rec)
qed

lemma run_command_bounds:
  assumes "calls_in_bounds sc" "argv \<noteq> []" "\<forall>s\<in>set argv. 0 \<in> set s" "length name_buf = LINE_MAX + 4" "length iobuf = IOBUF_SIZE"
  shows "\<exists>iobuf' k'. run_command sc name_buf argv iobuf k = Inr (iobuf', k') \<and> length iobuf' = IOBUF_SIZE"
proof -
  have z: "0 \<in> set (argv ! 0)" "\<forall>s\<in>set (drop 2 argv). 0 \<in> set s" using assms(2,3) by (auto dest: in_set_dropD)
  have ls: "\<exists>i k'. shell_ls sc argv iobuf k = Inr (i, k') \<and> length i = IOBUF_SIZE"
    using assms(1,5) by (auto simp: shell_ls_def calls_in_bounds_def Let_def split: prod.split) (metis fst_conv snd_conv)+
  have cat: "\<exists>i k'. shell_cat sc argv iobuf k = Inr (i, k') \<and> length i = IOBUF_SIZE"
  proof (cases "sc_read_file sc (argv ! 1) iobuf (IOBUF_SIZE - 1) k")
    case (Pair rb k')
    moreover obtain r b where "rb = (r, b)" by (rule prod.exhaust)
    moreover have "length b = IOBUF_SIZE \<and> (\<not> r <s 0 \<longrightarrow> unat r \<le> IOBUF_SIZE - 1)"
      using read_file_bounds[OF assms(1), of "argv ! 1" iobuf _ k r b k'] calculation assms(5) by simp
    ultimately show ?thesis using assms(5) by (auto simp: shell_cat_def)
  qed
  obtain b n where j: "join_args 2 (drop 2 argv) (iobuf, 0) = Inr (b, n)" "length b = IOBUF_SIZE"
    using join_args_bounds[OF z(2) assms(5), of 0 2] by auto
  have wr: "\<exists>i k'. shell_write sc argv iobuf k = Inr (i, k') \<and> length i = IOBUF_SIZE"
    using assms(5) j by (auto simp: shell_write_def split: prod.split)
  obtain nm where "exec_name (argv ! 0) name_buf = Inr nm" using exec_name_bounds[OF z(1) assms(4)] by blast
  then have exec: "\<exists>k'. shell_exec sc argv name_buf k = Inr k'" by (auto simp: shell_exec_def split: prod.split)
  have l: "0 \<in> set (literal s)" for s by (simp add: literal_def)
  show ?thesis unfolding run_command_def streq_c_string[OF z(1) l]
    using ls cat wr exec assms(5) by auto
qed

lemma tokenize_bounds:
  assumes "0 \<in> set line"
  shows "\<exists>argv line'. tokenize line = Inr (argv, line') \<and> length line' = length line \<and> (\<forall>i\<in>set argv. 0 \<in> set (drop i line'))"
proof -
  from tokenize_argv[OF assms] obtain argv line' where t: "tokenize line = Inr (argv, line')" "\<forall>i\<in>set argv. 0 \<in> set (drop i line')" by blast
  with tokenize_loop_length[OF t(1)[unfolded tokenize_def]] show ?thesis by blast
qed



subsection \<open>Running a program\<close>

lemma in_split_on: "w \<in> set (split_on x cs) \<Longrightarrow> length w \<le> length cs \<and> set w \<subseteq> set cs"
proof (induction cs arbitrary: w)
  case (Cons c cs)
  have h: "length (hd (split_on x cs)) \<le> length cs" "set (hd (split_on x cs)) \<subseteq> set cs"
    using Cons.IH[of "hd (split_on x cs)"] by auto
  have t: "length w \<le> length cs \<and> set w \<subseteq> set cs" if "w \<in> set (tl (split_on x cs))"
    using list.set_sel(2)[OF split_on_ne that] by (rule Cons.IH)
  consider "w = []" | "w = c # hd (split_on x cs)" | "w \<in> set (split_on x cs)" | "w \<in> set (tl (split_on x cs))"
    using Cons.prems by (auto split: if_splits)
  then show ?case using h t Cons.IH[of w] by cases auto
qed simp

lemma in_words_of: "w \<in> set (words_of cs) \<Longrightarrow> w \<noteq> [] \<and> length w \<le> length cs \<and> set w \<subseteq> set cs"
  by (auto simp: words_of_def dest: in_split_on)

lemma set_edit_key: "set (foldl edit_key cs keys) \<subseteq> set cs \<union> set keys"
  by (induction keys arbitrary: cs) (fastforce simp: edit_key_def dest: in_set_butlastD split: if_splits)+

lemma c_string_split: "0 \<in> set p \<Longrightarrow> \<exists>r. p = c_string p @ 0 # r"
  using split_list_first[of 0 p] by auto

lemma read_line_text:
  assumes "gives_keys sc typed" "typed k = keys @ 0x0A # later" "0x0A \<notin> set keys" "0 \<notin> set keys" "length line = LINE_MAX"
  shows "\<exists>line' k'. read_line sc line k = Some (Inr ((line', length (foldl edit_key [] keys)), k')) \<and> typed k' = later \<and>
    c_string line' = foldl edit_key [] keys \<and> 0 \<in> set line' \<and> length (foldl edit_key [] keys) < LINE_MAX"
proof -
  let ?e = "foldl edit_key [] keys"
  from read_line_result[OF assms(1-3,5)] obtain line' k' where
    l: "read_line sc line k = Some (Inr ((line', length ?e), k'))" "typed k' = later" "take (length ?e) line' = ?e" "line' ! length ?e = 0"
      "length ?e < length line'" "length ?e < LINE_MAX" by auto
  have "0 \<notin> set ?e" using set_edit_key[of "[]" keys] assms(4) by auto
  then have "c_string line' = ?e" using id_take_nth_drop[OF l(5)] l(3,4) c_string_append by metis
  moreover have "0 \<in> set line'" using nth_mem[OF l(5)] l(4) by simp
  ultimately show ?thesis using l by blast
qed

lemma copy_name_copies:
  "0 \<notin> set w \<Longrightarrow> length b = LINE_MAX + 4 \<Longrightarrow> i + length w < LINE_MAX \<Longrightarrow>
   \<exists>b'. copy_name i (w @ 0 # r) b = Inr (b', i + length w) \<and> take (i + length w) b' = take i b @ w \<and> length b' = LINE_MAX + 4"
proof (induction w arbitrary: b i)
  case Nil
  then show ?case by simp
next
  case (Cons c w)
  have "\<exists>b'. copy_name (Suc i) (w @ 0 # r) (b[i := c]) = Inr (b', Suc i + length w) \<and>
      take (Suc i + length w) b' = take (Suc i) (b[i := c]) @ w \<and> length b' = LINE_MAX + 4"
    using Cons.prems by (intro Cons.IH) auto
  then show ?case using Cons.prems by (auto simp: take_Suc_conv_app_nth)
qed

lemma exec_name_elf:
  assumes "0 \<in> set p" "0x2E \<notin> set (c_string p)" "length b = LINE_MAX + 4" "length (c_string p) < LINE_MAX"
  shows "\<exists>b'. exec_name p b = Inr b' \<and> c_string b' = c_string p @ cstr ''.elf''"
proof -
  let ?w = "c_string p"
  obtain r where p: "p = ?w @ 0 # r" using c_string_split[OF assms(1)] by blast
  have z: "0 \<notin> set ?w" by (auto simp: c_string_def dest: set_takeWhileD)
  obtain b1 where b1: "copy_name 0 p b = Inr (b1, length ?w)" "take (length ?w) b1 = ?w" "length b1 = LINE_MAX + 4"
    using copy_name_copies[OF z assms(3), of 0 r] assms(4) p by auto
  define t where "t = drop (length ?w) b1"
  have bt: "b1 = ?w @ t" using append_take_drop_id[of "length ?w" b1] b1(2) by (simp add: t_def)
  have "length t \<ge> 5" using b1(3) assms(4) by (simp add: t_def)
  then obtain t0 t1 t2 t3 t4 t' where t: "t = t0 # t1 # t2 # t3 # t4 # t'" by (auto simp: numeral_eq_Suc Suc_le_length_iff)
  have "exec_name p b = Inr ((?w @ cstr ''.elf'') @ 0 # t')"
    using assms(1,2) b1(1) by (simp add: exec_name_def bt t upt_rec list_update_append cstr_def)
  moreover have "0 \<notin> set (?w @ cstr ''.elf'')" using z by (simp add: cstr_def)
  ultimately show ?thesis by (metis c_string_append)
qed

lemma round_reaches_command:
  assumes "read_line sc line (sc_write sc (literal ''> '') k) = Some (Inr ((l1, len), k1))" "len \<noteq> 0" "tokenize l1 = Inr (argv, l2)" "argv \<noteq> []"
  shows "shell_round sc nb (line, iobuf) k =
    Some (rbind (run_command sc nb (map (\<lambda>i. drop i l2) argv) iobuf k1) (\<lambda>(iobuf, k). Inr ((l2, iobuf), k)))"
  using assms by (simp add: shell_round_def)

text \<open>C16. A typed command runs. When the line, after editing, begins with a word that is neither a builtin nor has
  a dot in it, the round ends, and it has called \<open>SYS_EXEC\<close> once: the program name is the word with
  \<open>.elf\<close> after it, the arguments are the following words, up to sixteen in all, and the state the next
  prompt starts from is the one that call left, with a message when it reports a failure.\<close>

theorem shell_runs_typed_program:
  assumes keys: "gives_keys sc typed" "typed k = keys @ 0x0A # later" "0x0A \<notin> set keys" "0 \<notin> set keys"
    and arrays: "length line = LINE_MAX" "length name_buf = LINE_MAX + 4"
    and ws: "words_of (foldl edit_key [] keys) = w # ws"
    and w: "w \<notin> {cstr ''ls'', cstr ''cat'', cstr ''write''}" "0x2E \<notin> set w"
  shows "\<exists>argv k1 line'. map c_string argv = (w @ cstr ''.elf'') # take 15 ws \<and> typed k1 = later \<and>
    shell_round sc name_buf (line, iobuf) k =
      Some (Inr ((line', iobuf), let (ret, k2) = sc_exec sc argv k1 in
        if ret = -1 then say sc ''shell: command not found'' k2
        else if ret \<noteq> 0 then say sc ''shell: process exited with a nonzero status'' k2 else k2))"
proof -
  let ?e = "foldl edit_key [] keys"
  have typed: "typed (sc_write sc (literal ''> '') k) = keys @ 0x0A # later" using keys(1,2) by (simp add: gives_keys_def)
  from read_line_text[OF keys(1) typed keys(3,4) arrays(1)] obtain l1 k1 where
    l1: "read_line sc line (sc_write sc (literal ''> '') k) = Some (Inr ((l1, length ?e), k1))" "typed k1 = later"
      "c_string l1 = ?e" "0 \<in> set l1" "length ?e < LINE_MAX" by blast
  have e: "length ?e \<noteq> 0" "length w < LINE_MAX" using ws in_words_of[of w ?e] l1(5) by auto
  from tokenize_argv[OF l1(4)] obtain argv l2 where
    t: "tokenize l1 = Inr (argv, l2)" "map (\<lambda>i. c_string (drop i l2)) argv = take MAX_ARGS (w # ws)" "\<forall>i\<in>set argv. 0 \<in> set (drop i l2)"
    unfolding l1(3) ws by blast
  then obtain i js where argv: "argv = i # js" "c_string (drop i l2) = w" "map (\<lambda>i. c_string (drop i l2)) js = take 15 ws" "0 \<in> set (drop i l2)"
    by (cases argv) auto
  from exec_name_elf[OF argv(4) _ arrays(2)] w(2) e(2) argv(2) obtain nm where
    nm: "exec_name (drop i l2) name_buf = Inr nm" "c_string nm = w @ cstr ''.elf''" by auto
  have l: "0 \<in> set (literal s)" "c_string (literal s) = cstr s" if "0 \<notin> set (cstr s)" for s using that by (simp_all add: literal_def)
  have "run_command sc name_buf (map (\<lambda>i. drop i l2) argv) iobuf k1 = rbind (shell_exec sc (map (\<lambda>i. drop i l2) argv) name_buf k1) (\<lambda>k. Inr (iobuf, k))"
    using w(1) argv by (simp add: run_command_def streq_c_string l cstr_def)
  then have "shell_round sc name_buf (line, iobuf) k = Some (Inr ((l2, iobuf), let (ret, k2) = sc_exec sc (nm # map (\<lambda>i. drop i l2) js) k1 in
        if ret = -1 then say sc ''shell: command not found'' k2
        else if ret \<noteq> 0 then say sc ''shell: process exited with a nonzero status'' k2 else k2))"
    using round_reaches_command[OF l1(1) e(1) t(1)] nm(1) argv(1) by (simp add: shell_exec_def Let_def split_beta)
  moreover have "map c_string (nm # map (\<lambda>i. drop i l2) js) = (w @ cstr ''.elf'') # take 15 ws" using nm(2) argv(3) by (simp add: comp_def)
  ultimately show ?thesis using l1(2)
    by (intro exI[where x = "nm # map (\<lambda>i. drop i l2) js"] exI[where x = k1] exI[where x = l2] conjI)
qed

theorem shell_runs_typed_program_witness:
  "\<exists>argv line'. map c_string argv = [cstr ''echo.elf'', cstr ''hi''] \<and>
    shell_round keys_example (replicate (LINE_MAX + 4) 0) (replicate LINE_MAX 0, []) (cstr ''echo  hi'' @ [0x0A]) = Some (Inr ((line', []), []))"
proof -
  have g: "gives_keys keys_example (\<lambda>k. k)" by (rule keys_example_gives)
  have w: "words_of (foldl edit_key [] (cstr ''echo  hi'')) = [cstr ''echo'', cstr ''hi'']"
    by (simp add: words_of_def cstr_def edit_key_def)
  show ?thesis
    using shell_runs_typed_program[OF g, of "cstr ''echo  hi'' @ [0x0A]" "cstr ''echo  hi''" "[]" "replicate LINE_MAX 0" "replicate (LINE_MAX + 4) 0" "cstr ''echo''" "[cstr ''hi'']" "[]"] w
    by (auto simp: keys_example_def cstr_def)
qed

end
