(* ===== verification/Userland.thy ===== *)
theory Userland
  imports Machine
begin

section \<open>Graphical and test programs (userland/desktop.c, gfxtest.c, echo.c, init.c)\<close>

text \<open>
  Programs that run in an address space of their own. The system calls are an interface record over a kernel
  state of any type \<open>'k\<close> and the memory of the process, since \<open>SYS_FB_MAP\<close> and \<open>SYS_SBRK\<close> change what is
  mapped there; a structure that a call fills in is part of its result. \<open>sys_exit\<close> is the end of a program:
  the model returns the exit code.
\<close>

subsection \<open>System calls\<close>

record fb_info_t =
  fi_width :: u32
  fi_height :: u32
  fi_pixels_per_scanline :: u32
  fi_bytes_per_pixel :: u32
  fi_red_shift :: u8
  fi_green_shift :: u8
  fi_blue_shift :: u8

record mouse_state_t =
  ms_x :: i32
  ms_y :: i32
  ms_buttons :: u8

type_synonym 'k process = "'k \<times> mem"

record 'k graphics_calls =
  gc_write :: "u8 list \<Rightarrow> 'k process \<Rightarrow> 'k process"
  gc_fb_info :: "'k process \<Rightarrow> (i64 \<times> fb_info_t) \<times> 'k process"
  gc_fb_map :: "'k process \<Rightarrow> i64 \<times> 'k process"
  gc_mouse_read :: "'k process \<Rightarrow> (i64 \<times> mouse_state_t) \<times> 'k process"
  gc_sbrk :: "i64 \<Rightarrow> 'k process \<Rightarrow> i64 \<times> 'k process"

abbreviation line :: "string \<Rightarrow> u8 list" where
  "line msg \<equiv> cstr msg @ [0x0A]"

subsection \<open>Drawing\<close>

text \<open>\<open>int\<close> is a 32-bit word compared as signed; the index of a pixel is computed in \<open>unsigned int\<close> and then
  scaled to a byte offset in the address space.\<close>

definition rgb :: "fb_info_t \<Rightarrow> u32 \<Rightarrow> u32" where
  "rgb info color =
     (let r = drop_bit 16 color AND 0xFF; g = drop_bit 8 color AND 0xFF; b = color AND 0xFF
      in push_bit (unat (fi_red_shift info)) r OR push_bit (unat (fi_green_shift info)) g OR push_bit (unat (fi_blue_shift info)) b)"

definition fb_store :: "fb_info_t \<Rightarrow> u64 \<Rightarrow> u32 \<Rightarrow> u32 \<Rightarrow> u32 \<Rightarrow> mem \<Rightarrow> mem" where
  "fb_store info fb x y color m = store_le 4 color (fb + 4 * ucast (y * fi_pixels_per_scanline info + x)) m"

definition pixel :: "fb_info_t \<Rightarrow> u64 \<Rightarrow> i32 \<Rightarrow> i32 \<Rightarrow> u32 \<Rightarrow> mem \<Rightarrow> mem" where
  "pixel info fb x y color m =
     (if x <s 0 \<or> y <s 0 \<or> fi_width info \<le>s x \<or> fi_height info \<le>s y then m
      else fb_store info fb x y color m)"

definition rect :: "fb_info_t \<Rightarrow> u64 \<Rightarrow> i32 \<Rightarrow> i32 \<Rightarrow> i32 \<Rightarrow> i32 \<Rightarrow> u32 \<Rightarrow> mem \<Rightarrow> mem" where
  "rect info fb x y w h color =
     fold (\<lambda>yy. fold (\<lambda>xx. pixel info fb (x + of_nat xx) (y + of_nat yy) color) [0..<nat (sint w)]) [0..<nat (sint h)]"

definition draw_cursor :: "fb_info_t \<Rightarrow> u64 \<Rightarrow> i32 \<Rightarrow> i32 \<Rightarrow> u32 \<Rightarrow> u32 \<Rightarrow> mem \<Rightarrow> mem" where
  "draw_cursor info fb x y body edge m =
     rect info fb (x + 4) (y + 11) 3 7 edge
       (fold (\<lambda>row. fold (\<lambda>col. pixel info fb (x + of_nat col) (y + of_nat row) (if col = 0 \<or> col = row div 2 then edge else body))
          [0..<row div 2 + 1]) [0..<16] m)"

definition draw_desktop :: "fb_info_t \<Rightarrow> u64 \<Rightarrow> mem \<Rightarrow> mem" where
  "draw_desktop info fb m =
     (let bg0 = rgb info 0x101827;
          bg1 = rgb info 0x14233a;
          panel = rgb info 0x0b1020;
          card = rgb info 0x24344f;
          accent = rgb info 0x4cc9f0;
          width = fi_width info;
          m = fold (\<lambda>y. let color = (if of_nat y < fi_height info div 2 then bg0 else bg1) in
                fold (\<lambda>x. fb_store info fb (of_nat x) (of_nat y) color) [0..<unat width]) [0..<unat (fi_height info)] m;
          m = rect info fb 0 0 width 34 panel m;
          m = rect info fb 18 10 96 14 accent m;
          m = rect info fb 40 76 180 120 card m;
          m = rect info fb 66 104 128 12 accent m;
          m = rect info fb 66 130 92 10 (rgb info 0x8ecae6) m;
          m = rect info fb (width - 230) 76 180 120 card m;
          m = rect info fb (width - 204) 104 128 12 (rgb info 0xffb703) m
      in rect info fb (width - 204) 130 92 10 (rgb info 0xf4a261) m)"

subsection \<open>The desktop\<close>

text \<open>The start of the program: \<open>Inl\<close> is its exit code, \<open>Inr\<close> what its endless loop works on.\<close>

definition desktop_start :: "'k graphics_calls \<Rightarrow> 'k process \<Rightarrow> (i64 + fb_info_t \<times> u64) \<times> 'k process" where
  "desktop_start gc w =
     (case gc_fb_info gc w of ((ret, info), w) \<Rightarrow>
      if ret \<noteq> 0 then (Inl 1, w)
      else case gc_fb_map gc w of (fb_vaddr, w) \<Rightarrow>
        if fb_vaddr = 0 \<or> fi_bytes_per_pixel info \<noteq> 4 then (Inl 1, w)
        else (Inr (info, fb_vaddr), (fst w, draw_desktop info fb_vaddr (snd w))))"

text \<open>One round of the loop, on the position drawn last. The delay at its end has no effect on the state.\<close>

definition desktop_round :: "'k graphics_calls \<Rightarrow> fb_info_t \<Rightarrow> u64 \<Rightarrow> i32 \<times> i32 \<Rightarrow> 'k process \<Rightarrow> (i32 \<times> i32) \<times> 'k process" where
  "desktop_round gc info fb old w =
     (case gc_mouse_read gc w of ((ret, mouse), w) \<Rightarrow>
      if ret = 0 \<and> (ms_x mouse \<noteq> fst old \<or> ms_y mouse \<noteq> snd old)
      then ((ms_x mouse, ms_y mouse),
            fst w, draw_cursor info fb (ms_x mouse) (ms_y mouse) (rgb info 0xffffff) (rgb info 0x0b1020) (draw_desktop info fb (snd w)))
      else (old, w))"

subsection \<open>The graphics test\<close>

abbreviation HEAP_TEST_BYTES :: nat where "HEAP_TEST_BYTES \<equiv> 3 * 4096 + 100"

definition fill_heap :: "u64 \<Rightarrow> mem \<Rightarrow> mem" where
  "fill_heap heap = fold (\<lambda>i m. m(heap + of_nat i := ucast (of_nat i AND 0xFF :: i64))) [0..<HEAP_TEST_BYTES]"

definition verify_heap :: "u64 \<Rightarrow> mem \<Rightarrow> bool" where
  "verify_heap heap m = list_all (\<lambda>i. m (heap + of_nat i) = ucast (of_nat i AND 0xFF :: i64)) [0..<HEAP_TEST_BYTES]"

definition gfxtest_start :: "'k graphics_calls \<Rightarrow> 'k process \<Rightarrow> i64 \<times> 'k process" where
  "gfxtest_start gc w =
     (case gc_fb_info gc w of ((ret, info), w) \<Rightarrow>
      if ret \<noteq> 0 then (1, gc_write gc (line ''gfxtest: SYS_FB_INFO failed'') w)
      else case gc_fb_map gc w of (fb_vaddr, w) \<Rightarrow>
      if fb_vaddr = 0 then (1, gc_write gc (line ''gfxtest: SYS_FB_MAP failed'') w)
      else
        let color = push_bit (unat (fi_red_shift info)) 0xAB OR push_bit (unat (fi_green_shift info)) 0xCD OR push_bit (unat (fi_blue_shift info)) 0xEF;
            w = (fst w, fb_store info fb_vaddr 10 10 color (snd w))
        in case gc_mouse_read gc w of ((ret, mstate), w) \<Rightarrow>
      if ret \<noteq> 0 then (1, gc_write gc (line ''gfxtest: SYS_MOUSE_READ failed'') w)
      else case gc_sbrk gc 0 w of (heap_start, w) \<Rightarrow>
           case gc_sbrk gc (of_nat HEAP_TEST_BYTES) w of (returned, w) \<Rightarrow>
      if returned \<noteq> heap_start then (1, gc_write gc (line ''gfxtest: SYS_SBRK failed'') w)
      else
        let w = (fst w, fill_heap heap_start (snd w)) in
        if \<not> verify_heap heap_start (snd w) then (1, gc_write gc (line ''gfxtest: heap verification failed'') w)
        else (0, gc_write gc (line ''gfxtest: ok'') w))"

subsection \<open>The first program and the argument test\<close>

definition init_start :: "'k graphics_calls \<Rightarrow> 'k process \<Rightarrow> i64 \<times> 'k process" where
  "init_start gc w = (0, gc_write gc (line ''init: loaded from disk via FAT16 + ELF loader'') w)"

definition echo_start :: "'k graphics_calls \<Rightarrow> u8 list list \<Rightarrow> 'k process \<Rightarrow> i64 \<times> 'k process" where
  "echo_start gc argv w = (0, fold (\<lambda>arg w. gc_write gc [0x0A] (gc_write gc arg w)) argv w)"

end
