(* ===== verification/Userland_Spec.thy ===== *)
theory Userland_Spec
  imports Userland Buffers
begin

section \<open>The desktop draws on the screen only\<close>

text \<open>
  Every drawing routine is a sequence of stores of single pixels; \<open>draws_in\<close> collects what such a sequence
  may change. The last part is the heap check of the graphics test.
\<close>

text \<open>The bytes of the visible pixels.\<close>

definition visible :: "fb_info_t \<Rightarrow> u64 \<Rightarrow> u64 set" where
  "visible info fb = {a. \<exists>x y b. x < unat (fi_width info) \<and> y < unat (fi_height info) \<and> b < 4 \<and>
     unat a = unat fb + 4 * (y * unat (fi_pixels_per_scanline info) + x) + b}"

text \<open>A framebuffer as the firmware reports one: a line is at least as long as the screen is wide, and the whole lies
  in the address space with pixel numbers that fit \<open>unsigned int\<close>.\<close>

definition fb_fits :: "fb_info_t \<Rightarrow> u64 \<Rightarrow> bool" where
  "fb_fits info fb \<longleftrightarrow> fi_width info \<le> fi_pixels_per_scanline info \<and>
     unat (fi_height info) * unat (fi_pixels_per_scanline info) \<le> 2 ^ 32 \<and>
     unat fb + 4 * (unat (fi_height info) * unat (fi_pixels_per_scanline info)) \<le> 2 ^ 64"

definition draws_in :: "u64 set \<Rightarrow> (mem \<Rightarrow> mem) \<Rightarrow> bool" where
  "draws_in V f \<longleftrightarrow> (\<forall>m a. a \<notin> V \<longrightarrow> f m a = m a)"

lemma draws_in_fold: "(\<And>i. i \<in> set xs \<Longrightarrow> draws_in V (f i)) \<Longrightarrow> draws_in V (fold f xs)"
  by (induction xs) (auto simp: draws_in_def)

lemma draws_inD: "draws_in V f \<Longrightarrow> a \<notin> V \<Longrightarrow> f m a = m a"
  by (simp add: draws_in_def)

lemma pixel_index:
  fixes x y s :: u32
  assumes "unat x < W" "unat y < H" "W \<le> unat s" "H * unat s \<le> 2 ^ 32"
  shows "unat (y * s + x) = unat y * unat s + unat x" "unat y * unat s + unat x < H * unat s"
proof -
  have "unat y * unat s + unat x < Suc (unat y) * unat s" using assms(1,3) by simp
  also have "\<dots> \<le> H * unat s" using assms(2) by (intro mult_right_mono) auto
  finally show l: "unat y * unat s + unat x < H * unat s" .
  then have "unat y * unat s + unat x < 2 ^ 32" using assms(4) by linarith
  then show "unat (y * s + x) = unat y * unat s + unat x"
    by (simp add: unat_add_no_wrap unat_mult_no_wrap)
qed

lemma fb_store_draws_in:
  assumes "fb_fits info fb" "x < fi_width info" "y < fi_height info"
  shows "draws_in (visible info fb) (fb_store info fb x y color)"
  unfolding draws_in_def
proof (intro allI impI)
  fix m a assume a: "a \<notin> visible info fb"
  let ?S = "unat (fi_pixels_per_scanline info)" and ?W = "unat (fi_width info)" and ?H = "unat (fi_height info)"
  let ?i = "unat y * ?S + unat x"
  have fits: "?W \<le> ?S" "?H * ?S \<le> 2 ^ 32" "unat fb + 4 * (?H * ?S) \<le> 2 ^ 64" and xy: "unat x < ?W" "unat y < ?H"
    using assms by (auto simp: fb_fits_def word_le_nat_alt word_less_nat_alt)
  note i = pixel_index[OF xy fits(1,2)]
  have off: "unat (4 * ucast (y * fi_pixels_per_scanline info + x) :: u64) = 4 * ?i"
  proof -
    have u: "unat (ucast (y * fi_pixels_per_scanline info + x) :: u64) = ?i" using i fits(2)
      by (subst unsigned_ucast_eq) (simp add: take_bit_nat_eq_self)
    show ?thesis using u i(2) fits(2) by (subst unat_mult_no_wrap) simp_all
  qed
  have p: "unat (fb + 4 * ucast (y * fi_pixels_per_scanline info + x)) = unat fb + 4 * ?i"
    using i(2) fits(3) off by (subst unat_add_no_wrap) simp_all
  have top: "unat fb + 4 * ?i + 4 \<le> unat fb + 4 * (?H * ?S)" using i(2) by simp
  show "fb_store info fb x y color m a = m a" unfolding fb_store_def
  proof (rule store_le_region)
    show "unat (fb + 4 * ucast (y * fi_pixels_per_scanline info + x)) + 4 \<le> 2 ^ 64" unfolding p using top fits(3) by (rule order_trans)
    show "a \<notin> region (fb + 4 * ucast (y * fi_pixels_per_scanline info + x)) 4"
    proof
      assume "a \<in> region (fb + 4 * ucast (y * fi_pixels_per_scanline info + x)) 4"
      then have "unat fb + 4 * ?i \<le> unat a" "unat a < unat fb + 4 * ?i + 4"
        using p by (auto simp: region_def)
      then have "unat a = unat fb + 4 * ?i + (unat a - (unat fb + 4 * ?i))" "unat a - (unat fb + 4 * ?i) < 4" by auto
      then show False using a xy unfolding visible_def by blast
    qed
  qed
qed

lemma pixel_draws_in:
  assumes "fb_fits info fb"
  shows "draws_in (visible info fb) (pixel info fb x y color)"
proof (cases "x <s 0 \<or> y <s 0 \<or> fi_width info \<le>s x \<or> fi_height info \<le>s y")
  case True
  then show ?thesis by (simp add: draws_in_def pixel_def)
next
  case False
  have below: "v < w" if "\<not> v <s 0" "\<not> w \<le>s v" for v w :: i32
  proof -
    have u: "uint u = sint u" if "0 \<le> sint u" for u :: i32
      using that sint_lt[of u] by (simp add: uint_sint take_bit_int_eq_self)
    show ?thesis using that u[of v] u[of w] by (auto simp: word_sless_alt word_sle_eq word_less_def)
  qed
  from False have "x < fi_width info" "y < fi_height info" by (auto intro: below)
  from fb_store_draws_in[OF assms this] False show ?thesis by (simp add: draws_in_def pixel_def)
qed

lemma rect_draws_in: "fb_fits info fb \<Longrightarrow> draws_in (visible info fb) (rect info fb x y w h color)"
  unfolding rect_def by (intro draws_in_fold pixel_draws_in)

lemma draw_cursor_draws_in: "fb_fits info fb \<Longrightarrow> draws_in (visible info fb) (draw_cursor info fb x y body edge)"
proof -
  assume f: "fb_fits info fb"
  have "draws_in (visible info fb) (fold (\<lambda>row. fold (\<lambda>col. pixel info fb (x + of_nat col) (y + of_nat row)
      (if col = 0 \<or> col = row div 2 then edge else body)) [0..<row div 2 + 1]) [0..<16])"
    by (intro draws_in_fold pixel_draws_in f)
  then show ?thesis using rect_draws_in[OF f] unfolding draws_in_def draw_cursor_def by simp
qed

lemma draw_desktop_draws_in: "fb_fits info fb \<Longrightarrow> draws_in (visible info fb) (draw_desktop info fb)"
proof -
  assume f: "fb_fits info fb"
  have s: "draws_in (visible info fb) (fb_store info fb (of_nat x) (of_nat y) color)"
    if "x < unat (fi_width info)" "y < unat (fi_height info)" for x y color
    using that by (intro fb_store_draws_in[OF f]) (simp_all add: word_less_nat_alt unat_of_nat take_bit_eq_mod less_trans[OF _ unsigned_less] mod_less)
  have "draws_in (visible info fb) (fold (\<lambda>y. let color = c y in
      fold (\<lambda>x. fb_store info fb (of_nat x) (of_nat y) color) [0..<unat (fi_width info)]) [0..<unat (fi_height info)])" for c
    unfolding Let_def by (intro draws_in_fold s) auto
  then show ?thesis using rect_draws_in[OF f] unfolding draws_in_def draw_desktop_def Let_def by simp
qed

text \<open>C22. The desktop keeps to the screen. On a framebuffer as the firmware reports one, drawing the desktop and the
  mouse pointer, at any coordinates, changes no byte of memory but those of visible pixels: not the padding
  at the end of a line, not the memory before or after the framebuffer.\<close>

theorem desktop_draws_on_screen:
  assumes "fb_fits info fb" "a \<notin> visible info fb"
  shows "draw_desktop info fb m a = m a \<and> draw_cursor info fb x y body edge m a = m a"
  using draws_inD[OF draw_desktop_draws_in[OF assms(1)] assms(2)] draws_inD[OF draw_cursor_draws_in[OF assms(1)] assms(2)] by simp

definition screen_example :: fb_info_t where
  "screen_example = \<lparr>fi_width = 800, fi_height = 600, fi_pixels_per_scanline = 1024, fi_bytes_per_pixel = 4,
     fi_red_shift = 16, fi_green_shift = 8, fi_blue_shift = 0\<rparr>"

theorem desktop_draws_on_screen_witness:
  "draw_desktop screen_example 0x40000000 (\<lambda>_. 7) 0x3FFFFFFF = 7 \<and>
   draw_cursor screen_example 0x40000000 799 599 1 2 (\<lambda>_. 7) 0x3FFFFFFF = 7"
proof -
  have f: "fb_fits screen_example 0x40000000" by (simp add: fb_fits_def screen_example_def)
  have "0x3FFFFFFF \<notin> visible screen_example 0x40000000" by (simp add: visible_def)
  from desktop_draws_on_screen[OF f this] show ?thesis by simp
qed

subsection \<open>The heap check of the graphics test\<close>

text \<open>The pattern the test writes to its heap is the one it finds there.\<close>

theorem gfxtest_heap_verified: "verify_heap heap (fill_heap heap m)"
proof -
  define n where "n = HEAP_TEST_BYTES"
  have n: "n < 2 ^ 64" by (simp add: n_def)
  have "\<forall>i<k. fold (\<lambda>i m. m(heap + of_nat i := v i)) [0..<k] m (heap + of_nat i) = v i" if "k \<le> n" for k and v :: "nat \<Rightarrow> u8"
    using that
  proof (induction k)
    case (Suc k)
    have "heap + of_nat i \<noteq> heap + of_nat k" if "i < k" for i
      using that Suc.prems n by (auto dest!: arg_cong[where f = unat] simp: unat_of_nat_less)
    then show ?case using Suc by (auto simp: less_Suc_eq)
  qed simp
  from this[OF le_refl] show ?thesis unfolding verify_heap_def fill_heap_def n_def[symmetric] list_all_iff by simp
qed

end
