(* ===== verification/Spec2Isabelle.thy ===== *)
theory Spec2Isabelle
  imports Vfs_Spec Mouse_Spec Kmain_Spec Boot_Spec Shell_Spec Userland_Spec
begin

text \<open>
  A verification library for RebornOS: a 64-bit operating system with a UEFI boot loader, a kernel with
  preemptive threads on several cores, processes with their own address spaces, a FAT16 file system, drivers,
  eleven system calls, and a shell and a desktop that run above them.

  \<^bold>\<open>The parts and how they interact.\<close> The boot loader reads \<open>kernel.elf\<close> through the firmware, places its
  segments, leaves the firmware and calls the kernel with a handoff record. \<open>kmain\<close> brings up the physical page
  allocator from the memory map in that record, then the page tables, the heap, the descriptor tables, the
  drivers, the file system and the other cores, creates the first threads and gives each core to the scheduler.
  Interrupts enter through the descriptor table and are dispatched to a driver, to the exception handler or to
  the system calls. A process is a thread with page tables of its own, filled by the ELF loader from a file.

  \<^bold>\<open>State.\<close> The kernel's static variables are records, each extending the one of the component it builds on:
  memory and the interrupt flag, page allocator, page tables, heap, disk, file system, file-system lock,
  descriptor tables, cores, scheduler, ports, timer, console, framebuffer, keyboard, mouse, Local APIC, system
  calls, interrupt table, start-up of cores, disk driver, network card, network, panic, self-tests. An operation
  is a function on the record of its component and on every extension of it. Memory is a function from 64-bit
  addresses to bytes; pointers are addresses, and integers are words of the width the C code gives them.
  \<open>panic\<close>, undefined behaviour of C and endless loops are error values of the type \<open>res\<close> (Prelude).

  \<^bold>\<open>Which theory models what.\<close>
  \<^item> Prelude, Machine, Buffers: results, words, memory as bytes, the interrupt flag (interrupts.h),
    regions of memory.
  \<^item> Minilib (common/src/minilib.c), Spinlock (kernel/src/spinlock.c), Boot_Info (common/include/boot_info.h and
    efi_memory_map.h).
  \<^item> Boot_Loader (boot/src/main.c and the efi headers): \<open>efi_main\<close> in its four parts. The firmware is the record
    \<open>firmware\<close> of the services called.
  \<^item> Pmm, Heap, Vmm (pmm.c, heap.c, vmm.c): the bitmap is in memory, the block headers of the heap are a typed
    store, page tables are in memory and walked as the processor walks them.
  \<^item> Blockdev, Fat16, Vfs (blockdev.h, fat16.c, vfs.c): sectors, the file system on buffers of the modelled heap,
    and the locked front end.
  \<^item> Gdt, Context, Scheduler, Process, Elf_Loader (gdt.c, context_switch.S, scheduler.c, process.c, elf_loader.c):
    the context switch instruction by instruction on stacks in memory, every function of the scheduler.
  \<^item> Ioport, Timer, Console, Framebuffer, Keyboard, Mouse, Lapic, Acpi, Pci, Ahci, E1000, Net, Smp: the files of
    the same names; Console is serial.c and kprintf.c, Framebuffer includes font8x8.c.
  \<^item> Idt, Syscall, Kpanic, Kmain (idt.c, syscall.c, panic.c and qemu_debug.c, kmain.c): dispatch, one definition
    for each system call, both builds of \<open>kmain\<close> with all self-tests and test threads.
  \<^item> Shell, Userland (userland/shell.c; desktop.c, gfxtest.c, init.c, echo.c): the programs over an interface
    record of the system calls.

  \<^bold>\<open>Interfaces.\<close> Four contracts are locales, each interpreted on the model's own operations: \<open>page_allocator\<close>
  (Pmm), \<open>kernel_heap\<close> (Heap), \<open>block_device\<close> (Blockdev) and \<open>bounded_queue\<close> (Keyboard_Spec). Devices are the
  parameter \<open>hardware\<close>: what a port or a register gives is a function of a device state of any type. What other
  threads and other cores do while the modelled one waits is the parameter \<open>resume\<close> or \<open>pause\<close>.

  \<^bold>\<open>What the theorems show.\<close>
  \<^item> Files: what is written is read back, a write leaves every other file alone, a listing stays inside its
    buffer, short names survive printing (Vfs_Spec, on the lemmas of Fat16_Spec).
  \<^item> Boot: every loadable segment is in memory as the file says and nothing else changed; the kernel is only
    entered after the firmware has let go, with the map whose key the firmware accepted (Boot_Spec).
  \<^item> Threads: no thread ever runs on two cores, under any interleaving of creating, switching and exiting; what
    \<open>schedule\<close> picks and saves; an exiting thread is left for good; a suspended context resumes as it was
    (Sched_Spec). The start-up code establishes the invariant (Kmain_Spec).
  \<^item> Protection: a fault of user code ends that process only, the interrupt table has the gates it should
    (Idt_Spec); \<open>SYS_WRITE\<close> discloses bytes the process may read and no others (Syscall_Spec); user pointers are
    checked against the page tables, kernel memory is out of reach, address spaces are separate (Vmm_Spec).
  \<^item> Memory: allocation and release of pages and of heap blocks, and what initialisation leaves (Pmm, Heap);
    mutual exclusion and progress of the lock for any number of cores (Spinlock).
  \<^item> Devices: the keyboard ring is a bounded queue, the mouse pointer stays on the screen (Keyboard_Spec,
    Mouse_Spec).
  \<^item> Programs: what is typed at the shell is what is executed, and a round of its loop stays inside its arrays
    (Shell_Spec); the desktop draws on visible pixels only (Userland_Spec).

  \<^bold>\<open>Loops and bounds.\<close> No fuel is used. A counted loop is a fold or a primitive recursion over its bound; a
  polling loop with a limit counts down from the limit of the code (\<open>AP_START_TIMEOUT_SPINS\<close>, \<open>SPINS_PER_RETRY\<close>
  and the like). A loop that ends only if its data are well formed or a device answers is a partial function
  into an option, where \<open>None\<close> is not returning, and the theorems about it state that it returns: \<open>find_block\<close>
  on a well-formed heap, \<open>free_chain\<close> on a well-formed table, \<open>exit_loop\<close>, \<open>check_pages\<close>, and the line reader of
  the shell once Enter has been pressed.

  \<^bold>\<open>Not modelled.\<close>
  \<^item> entry.S, isr_stubs.S, gdt_asm.S, ap_trampoline.S: mode switches and register save areas of the processor. The
    frame an interrupt builds and the addresses of the stubs are parameters.
  \<^item> The translation look-aside buffer, caches and the memory order of the processor: a store is visible at once.
  \<^item> crashtst.c and stacktst.c: one faulting instruction, and the layout of stack frames by the compiler. What the
    kernel does with them is modelled.
  \<^item> In the boot loader the lines sent to the serial port are collected as text, the handoff record is a value
    until the kernel is called, and \<open>GetInfo\<close> is the file size it reports.
  \<^item> Build files, linker scripts and tools.
\<close>

end
